(* ===== verification/Prelude.thy ===== *)
theory Prelude
  imports Main "HOL-Library.Word"
begin

unbundle bit_operations_syntax

text \<open>
  What every component of the model shares: the names of the machine types, the outcome of an
  operation that can run into undefined behaviour, C string helpers, byte order conversions,
  and the lemma collections the component theories extend.

  C strings are HOL strings without a terminating zero: the model of a function that writes the
  zero writes it only where a later read can see it.  The linked lists and growable buffers of
  the external library r (its list and membuf types) are HOL lists: appending, prepending and
  removing an element are list operations, and memory allocation succeeds.
\<close>

section \<open>Types\<close>

type_synonym u8 = "8 word"
type_synonym u16 = "16 word"
type_synonym u32 = "32 word"
type_synonym u64 = "64 word"
type_synonym bytes = "u8 list"
type_synonym ptr = nat

named_theorems wire_simps "evaluation of the byte-level encoders and decoders"
named_theorems outcome_simps "bind and case rules for outcomes"
named_theorems inv_intros "operations preserve the invariant of their component"

section \<open>Outcomes\<close>

text \<open>
  \<open>Undef\<close> stands for undefined behaviour of the C program: a NULL pointer that is dereferenced,
  a write or a read outside an array, a negative length passed to memcpy.
\<close>

datatype 'a outcome = Undef | Ret 'a

fun bind_out :: "'a outcome \<Rightarrow> ('a \<Rightarrow> 'b outcome) \<Rightarrow> 'b outcome" where
  "bind_out Undef f = Undef"
| "bind_out (Ret a) f = f a"

fun map_out :: "('a \<Rightarrow> 'b) \<Rightarrow> 'a outcome \<Rightarrow> 'b outcome" where
  "map_out f Undef = Undef"
| "map_out f (Ret a) = Ret (f a)"

definition deref :: "'a option \<Rightarrow> 'a outcome" where
  "deref p = (case p of None \<Rightarrow> Undef | Some a \<Rightarrow> Ret a)"

definition defined :: "'a outcome \<Rightarrow> bool" where
  "defined r \<longleftrightarrow> r \<noteq> Undef"

lemma deref_simps [simp, outcome_simps]: "deref None = Undef" "deref (Some a) = Ret a"
  by (simp_all add: deref_def)

lemma defined_simps [simp, outcome_simps]: "defined (Ret a)" "\<not> defined Undef"
  by (simp_all add: defined_def)

lemma defined_iff: "defined r \<longleftrightarrow> (\<exists>a. r = Ret a)"
  by (cases r) auto

lemma bind_out_Ret_iff [outcome_simps]:
  "bind_out m f = Ret b \<longleftrightarrow> (\<exists>a. m = Ret a \<and> f a = Ret b)"
  by (cases m) auto

lemma bind_out_Undef_iff [outcome_simps]:
  "bind_out m f = Undef \<longleftrightarrow> m = Undef \<or> (\<exists>a. m = Ret a \<and> f a = Undef)"
  by (cases m) auto

lemma defined_bind [outcome_simps]:
  "defined (bind_out m f) \<longleftrightarrow> (\<exists>a. m = Ret a \<and> defined (f a))"
  by (cases m) auto

lemma map_out_Ret_iff [outcome_simps]: "map_out f m = Ret b \<longleftrightarrow> (\<exists>a. m = Ret a \<and> b = f a)"
  by (cases m) auto

lemma map_out_Undef_iff [simp]: "map_out f m = Undef \<longleftrightarrow> m = Undef"
  by (cases m) auto

section \<open>Characters and C strings\<close>

abbreviation chCR :: char where "chCR \<equiv> CHR 0x0D"
abbreviation chLF :: char where "chLF \<equiv> CHR 0x0A"
abbreviation chTAB :: char where "chTAB \<equiv> CHR 0x09"
abbreviation chQUOTE :: char where "chQUOTE \<equiv> CHR 0x22"
abbreviation chBACKSLASH :: char where "chBACKSLASH \<equiv> CHR 0x5C"
abbreviation crlf :: string where "crlf \<equiv> [chCR, chLF]"

definition ord :: "char \<Rightarrow> nat" where
  "ord c = of_char c"

lemma ord_less [simp]: "ord c < 256"
  by (simp add: ord_def)

definition is_digit :: "char \<Rightarrow> bool" where
  "is_digit c \<longleftrightarrow> 48 \<le> ord c \<and> ord c \<le> 57"

definition is_lower :: "char \<Rightarrow> bool" where
  "is_lower c \<longleftrightarrow> 97 \<le> ord c \<and> ord c \<le> 122"

definition is_upper :: "char \<Rightarrow> bool" where
  "is_upper c \<longleftrightarrow> 65 \<le> ord c \<and> ord c \<le> 90"

text \<open>The characters isspace accepts in the C locale.\<close>

definition is_space :: "char \<Rightarrow> bool" where
  "is_space c \<longleftrightarrow> ord c = 32 \<or> (9 \<le> ord c \<and> ord c \<le> 13)"

text \<open>The suffix strchr points to, and strncmp against the whole of a literal.\<close>

definition strchr :: "string \<Rightarrow> char \<Rightarrow> string option" where
  "strchr s c = (case dropWhile (\<lambda>x. x \<noteq> c) s of [] \<Rightarrow> None | t \<Rightarrow> Some t)"

fun starts_with :: "'a list \<Rightarrow> 'a list \<Rightarrow> bool" where
  "starts_with [] s = True"
| "starts_with (p # ps) [] = False"
| "starts_with (p # ps) (c # s) = (p = c \<and> starts_with ps s)"

fun contains :: "string \<Rightarrow> string \<Rightarrow> bool" where
  "contains [] pat = starts_with pat []"
| "contains (c # s) pat = (starts_with pat (c # s) \<or> contains s pat)"

definition bytes_of :: "string \<Rightarrow> bytes" where
  "bytes_of s = map of_char s"

definition string_of :: "bytes \<Rightarrow> string" where
  "string_of bs = map (\<lambda>b. char_of (unat b)) bs"

text \<open>What snprintf leaves in a buffer of size \<open>len\<close>, read back as a C string.\<close>

definition snprintf :: "nat \<Rightarrow> string \<Rightarrow> string" where
  "snprintf len s = take (len - 1) s"

lemma starts_with_iff: "starts_with p s \<longleftrightarrow> (\<exists>t. s = p @ t)"
  by (induction p s rule: starts_with.induct) auto

lemma starts_with_append [simp]: "starts_with p (p @ t)"
  by (auto simp: starts_with_iff)

lemma contains_iff: "contains s p \<longleftrightarrow> (\<exists>a b. s = a @ p @ b)"
proof (induction s)
  case Nil
  then show ?case by (auto simp: starts_with_iff)
next
  case (Cons c s)
  show ?case
  proof
    assume "contains (c # s) p"
    then consider "starts_with p (c # s)" | "contains s p" by auto
    then show "\<exists>a b. c # s = a @ p @ b"
    proof cases
      case 1
      then show ?thesis by (metis append_Nil starts_with_iff)
    next
      case 2
      then show ?thesis using Cons.IH by (metis append_Cons)
    qed
  next
    assume "\<exists>a b. c # s = a @ p @ b"
    then obtain a b where ab: "c # s = a @ p @ b" by blast
    show "contains (c # s) p"
    proof (cases a)
      case Nil
      with ab have "starts_with p (c # s)" by (auto simp: starts_with_iff)
      then show ?thesis by simp
    next
      case (Cons x xs)
      with ab have "s = xs @ p @ b" by simp
      with Cons.IH show ?thesis by auto
    qed
  qed
qed

lemma strchr_None_iff: "strchr s c = None \<longleftrightarrow> c \<notin> set s"
  unfolding strchr_def
  by (auto split: list.splits simp: dropWhile_eq_Nil_conv)
     (metis (mono_tags, lifting) dropWhile_eq_Nil_conv list.distinct(1))

lemma strchr_append: "c \<notin> set a \<Longrightarrow> strchr (a @ c # b) c = Some (c # b)"
  by (induction a) (auto simp: strchr_def)

lemma takeWhile_neq_append: "c \<notin> set a \<Longrightarrow> takeWhile (\<lambda>x. x \<noteq> c) (a @ c # b) = a"
  by (induction a) auto

lemma strchr_SomeD:
  assumes "strchr s c = Some t"
  shows "\<exists>a b. s = a @ c # b \<and> c \<notin> set a \<and> t = c # b"
proof -
  have t: "dropWhile (\<lambda>x. x \<noteq> c) s = t" and ne: "t \<noteq> []"
    using assms by (auto simp: strchr_def split: list.splits)
  then have "hd t = c" using hd_dropWhile [of "\<lambda>x. x \<noteq> c" s] by auto
  then have "t = c # tl t" using ne by (cases t) auto
  moreover have "s = takeWhile (\<lambda>x. x \<noteq> c) s @ t" using t by (metis takeWhile_dropWhile_id)
  ultimately show ?thesis by (metis set_takeWhileD)
qed

lemma unat_of_char: "unat (of_char c :: u8) = ord c"
proof -
  have "take_bit 8 (ord c) = ord c" by (rule take_bit_nat_eq_self) simp
  then have "unat (of_nat (ord c) :: u8) = ord c" by (simp only: unsigned_of_nat) simp
  moreover have "(of_nat (ord c) :: u8) = of_char c" by (simp only: ord_def of_nat_of_char)
  ultimately show ?thesis by metis
qed

lemma string_of_bytes_of [simp]: "string_of (bytes_of s) = s"
  by (simp add: string_of_def bytes_of_def comp_def unat_of_char ord_def)

lemma bytes_of_append [simp]: "bytes_of (a @ b) = bytes_of a @ bytes_of b"
  by (simp add: bytes_of_def)

lemma length_bytes_of [simp]: "length (bytes_of s) = length s"
  by (simp add: bytes_of_def)

lemma takeWhile_bytes_of:
  assumes "CHR 0x00 \<notin> set t"
  shows "takeWhile (\<lambda>b. b \<noteq> 0) (bytes_of t) = bytes_of t"
proof -
  have "of_char c \<noteq> (0 :: u8)" if "c \<in> set t" for c
  proof
    assume "of_char c = (0 :: u8)"
    then have "ord c = 0" using unat_of_char [of c] by simp
    moreover have "c = char_of (ord c)" by (simp add: ord_def)
    moreover have "char_of (0 :: nat) = CHR 0x00" by code_simp
    ultimately have "c = CHR 0x00" by simp
    with that assms show False by simp
  qed
  then show ?thesis by (auto simp: takeWhile_eq_all_conv bytes_of_def)
qed

lemma of_char_byte_iff [simp]: "(of_char c :: u8) = of_char d \<longleftrightarrow> c = d"
proof
  assume "(of_char c :: u8) = of_char d"
  then have "ord c = ord d" using unat_of_char [of c] unat_of_char [of d] by metis
  then show "c = d" by (simp add: ord_def)
qed simp

lemma cr_bytes_of: "13 \<in> set (bytes_of s) \<longleftrightarrow> chCR \<in> set s"
proof -
  have "(13 :: u8) = of_char chCR" by simp
  then show ?thesis unfolding bytes_of_def by (simp only: set_map image_iff of_char_byte_iff) blast
qed

section \<open>Byte order\<close>

text \<open>
  The host is little-endian: htons and ntohs swap the two bytes of a 16-bit word, htonl the four
  of a 32-bit word.
\<close>

definition htons :: "u16 \<Rightarrow> u16" where
  "htons w = push_bit 8 w OR drop_bit 8 w"

definition ntohs :: "u16 \<Rightarrow> u16" where
  "ntohs w = htons w"

definition htonl :: "u32 \<Rightarrow> u32" where
  "htonl w = push_bit 24 w OR (push_bit 8 w AND 0x00ff0000)
             OR (drop_bit 8 w AND 0x0000ff00) OR drop_bit 24 w"

definition ntohl :: "u32 \<Rightarrow> u32" where
  "ntohl w = htonl w"

lemma ntohs_htons [simp]: "ntohs (htons w) = w"
  by (rule bit_word_eqI) (auto simp: ntohs_def htons_def bit_simps)

section \<open>Lists\<close>

text \<open>The library's list_remove: the first cell that holds the given pointer goes.\<close>

definition list_remove :: "'a list \<Rightarrow> 'a \<Rightarrow> 'a list" where
  "list_remove xs x = remove1 x xs"

text \<open>Overwrite a part of an array, memcpy into it at an offset.\<close>

definition blit :: "'a list \<Rightarrow> nat \<Rightarrow> 'a list \<Rightarrow> 'a list" where
  "blit dst i src = take i dst @ src @ drop (i + length src) dst"

lemma length_blit [simp]: "i + length src \<le> length dst \<Longrightarrow> length (blit dst i src) = length dst"
  by (simp add: blit_def)

lemma take_blit [simp]: "i \<le> length dst \<Longrightarrow> take i (blit dst i src) = take i dst"
  by (simp add: blit_def)

lemma drop_blit:
  "i + length src \<le> length dst \<Longrightarrow> drop (i + length src) (blit dst i src) = drop (i + length src) dst"
  by (simp add: blit_def)

lemma take_drop_blit:
  "i + length src \<le> length dst \<Longrightarrow> take (length src) (drop i (blit dst i src)) = src"
  by (simp add: blit_def)

lemma blit_Nil [simp]: "i \<le> length dst \<Longrightarrow> blit dst i [] = dst"
  by (simp add: blit_def)

end
