(* ===== verification/CLib.thy ===== *)
theory CLib
  imports Prelude
begin

text \<open>
  The parts of the C standard library the program relies on where its correctness depends on
  what they compute: printing integers with printf, strtol, and the conversion between dotted
  addresses and 32-bit values of inet_aton and inet_ntoa.
\<close>

section \<open>Printing and reading numbers\<close>

definition digit_char :: "nat \<Rightarrow> char" where
  "digit_char d = char_of (if d < 10 then 48 + d else 87 + d)"

definition digit_value :: "char \<Rightarrow> nat option" where
  "digit_value c =
     (if is_digit c then Some (ord c - 48)
      else if is_lower c then Some (ord c - 87)
      else if is_upper c then Some (ord c - 55)
      else None)"

function show_base :: "nat \<Rightarrow> nat \<Rightarrow> string" where
  "show_base b n =
     (if b < 2 \<or> n < b then [digit_char n] else show_base b (n div b) @ [digit_char (n mod b)])"
  by pat_completeness auto
termination
  by (relation "measure snd") (auto intro: div_less_dividend)

declare show_base.simps [simp del]

abbreviation show_nat :: "nat \<Rightarrow> string" where "show_nat \<equiv> show_base 10"
abbreviation show_hex :: "nat \<Rightarrow> string" where "show_hex \<equiv> show_base 16"

definition show_int :: "int \<Rightarrow> string" where
  "show_int i = (if i < 0 then CHR ''-'' # show_nat (nat (- i)) else show_nat (nat i))"

fun read_digits :: "nat \<Rightarrow> string \<Rightarrow> nat \<Rightarrow> nat \<times> string" where
  "read_digits b [] acc = (acc, [])"
| "read_digits b (c # s) acc =
     (case digit_value c of
        None \<Rightarrow> (acc, c # s)
      | Some d \<Rightarrow> if d < b then read_digits b s (b * acc + d) else (acc, c # s))"

definition digit_of_base :: "nat \<Rightarrow> char \<Rightarrow> bool" where
  "digit_of_base b c = (case digit_value c of None \<Rightarrow> False | Some d \<Rightarrow> d < b)"

definition no_digit_ahead :: "nat \<Rightarrow> string \<Rightarrow> bool" where
  "no_digit_ahead b s \<longleftrightarrow> s = [] \<or> \<not> digit_of_base b (hd s)"

lemma no_digit_ahead_simps [simp]:
  "no_digit_ahead b []"
  "no_digit_ahead b (c # s) \<longleftrightarrow> \<not> digit_of_base b c"
  by (auto simp: no_digit_ahead_def)

lemma ord_char_of [simp]: "n < 256 \<Longrightarrow> ord (char_of n) = n"
  by (simp add: ord_def)

lemma digit_value_digit_char: "d < 16 \<Longrightarrow> digit_value (digit_char d) = Some d"
  by (auto simp: digit_value_def digit_char_def is_digit_def is_lower_def is_upper_def)

lemma read_digits_stop: "no_digit_ahead b s \<Longrightarrow> read_digits b s acc = (acc, s)"
  by (cases s) (auto simp: digit_of_base_def split: option.splits)

lemma read_digits_show:
  assumes "2 \<le> b" "b \<le> 16"
  shows "read_digits b (show_base b n @ rest) 0 = read_digits b rest n"
proof (induction n arbitrary: rest rule: less_induct)
  case (less n)
  show ?case
  proof (cases "n < b")
    case True
    then have "show_base b n = [digit_char n]" by (simp add: show_base.simps [of b n])
    with True assms show ?thesis by (simp add: digit_value_digit_char)
  next
    case False
    then have "show_base b n = show_base b (n div b) @ [digit_char (n mod b)]"
      using assms by (simp add: show_base.simps [of b n])
    moreover have "n div b < n" using False assms by (simp add: div_less_dividend)
    moreover have "n mod b < b" using assms by simp
    then have "n mod b < 16" using assms by linarith
    ultimately show ?thesis using assms less.IH
      by (simp add: digit_value_digit_char mult.commute)
  qed
qed

lemma read_digits_show_stop:
  "2 \<le> b \<Longrightarrow> b \<le> 16 \<Longrightarrow> no_digit_ahead b rest \<Longrightarrow>
   read_digits b (show_base b n @ rest) 0 = (n, rest)"
  by (simp add: read_digits_show read_digits_stop)

lemma show_base_nonempty [simp]: "show_base b n \<noteq> []"
  by (subst show_base.simps) simp

lemma hd_show_base: "\<exists>d s. show_base b n = digit_char d # s \<and> (2 \<le> b \<longrightarrow> d < b) \<and> (0 < n \<longrightarrow> 2 \<le> b \<longrightarrow> 0 < d)"
proof (induction n rule: less_induct)
  case (less n)
  show ?case
  proof (cases "b < 2 \<or> n < b")
    case True
    then show ?thesis by (auto simp: show_base.simps [of b n])
  next
    case False
    then have lt: "n div b < n" and pos: "0 < n div b"
      by (auto simp: div_less_dividend div_greater_zero_iff)
    from less.IH [OF lt] obtain d s where
      "show_base b (n div b) = digit_char d # s" "2 \<le> b \<longrightarrow> d < b" "2 \<le> b \<longrightarrow> 0 < d"
      using pos by auto
    with False show ?thesis by (auto simp: show_base.simps [of b n])
  qed
qed

lemma is_digit_digit_char: "d < 10 \<Longrightarrow> is_digit (digit_char d)"
  by (simp add: is_digit_def digit_char_def)

lemma set_show_base: "2 \<le> b \<Longrightarrow> c \<in> set (show_base b n) \<Longrightarrow> \<exists>d < b. c = digit_char d"
proof (induction n rule: less_induct)
  case (less n)
  show ?case
  proof (cases "n < b")
    case True
    with less.prems show ?thesis by (auto simp: show_base.simps [of b n])
  next
    case False
    then have lt: "n div b < n" using less.prems by (simp add: div_less_dividend)
    from False less.prems have "c \<in> set (show_base b (n div b)) \<or> c = digit_char (n mod b)"
      by (auto simp: show_base.simps [of b n])
    then show ?thesis
    proof
      assume "c \<in> set (show_base b (n div b))"
      then show ?thesis by (rule less.IH [OF lt less.prems(1)])
    next
      assume "c = digit_char (n mod b)"
      moreover have "n mod b < b" using less.prems by simp
      ultimately show ?thesis by blast
    qed
  qed
qed

lemma is_digit_show_nat: "c \<in> set (show_nat n) \<Longrightarrow> is_digit c"
  using set_show_base [of 10 c n] is_digit_digit_char by auto

lemma length_show_nat: "n < 10 ^ k \<Longrightarrow> 0 < k \<Longrightarrow> length (show_nat n) \<le> k"
proof (induction k arbitrary: n)
  case 0
  then show ?case by simp
next
  case (Suc k)
  show ?case
  proof (cases "n < 10")
    case True
    then show ?thesis by (simp add: show_base.simps [of 10 n])
  next
    case False
    then have k: "0 < k" using Suc.prems by (cases k) auto
    have "n div 10 < 10 ^ k" using Suc.prems by (simp add: less_mult_imp_div_less)
    with Suc.IH [OF this k] False show ?thesis by (simp add: show_base.simps [of 10 n])
  qed
qed

section \<open>strtol\<close>

text \<open>
  In base 10 with an end pointer: white space is skipped, a sign is read, the value saturates at
  the bounds of a 64-bit long.  Without a digit nothing is converted and the end pointer is the
  start of the string.
\<close>

definition clamp_long :: "int \<Rightarrow> int" where
  "clamp_long v = max (- (2 ^ 63)) (min (2 ^ 63 - 1) v)"

definition strtol10 :: "string \<Rightarrow> int \<times> string" where
  "strtol10 s =
     (let t = dropWhile is_space s;
          neg = (t \<noteq> [] \<and> hd t = CHR ''-'');
          u = (if t \<noteq> [] \<and> (hd t = CHR ''-'' \<or> hd t = CHR ''+'') then tl t else t)
      in if no_digit_ahead 10 u then (0, s)
         else let (v, r) = read_digits 10 u 0
              in (clamp_long (if neg then - int v else int v), r))"

text \<open>Conversion of a long to an int, two's complement as gcc defines it.\<close>

definition to_int32 :: "int \<Rightarrow> int" where
  "to_int32 v = sint (word_of_int v :: 32 word)"

lemma to_int32_id: "- (2 ^ 31) \<le> v \<Longrightarrow> v < 2 ^ 31 \<Longrightarrow> to_int32 v = v"
  by (simp add: to_int32_def int_word_sint)

lemma digit_not_sign: "is_digit c \<Longrightarrow> c \<noteq> CHR ''-'' \<and> c \<noteq> CHR ''+'' \<and> \<not> is_space c"
  by (auto simp: is_digit_def is_space_def ord_def)

lemma digit_of_base_10: "digit_of_base 10 c \<longleftrightarrow> is_digit c"
  by (auto simp: digit_of_base_def digit_value_def is_digit_def is_lower_def is_upper_def)

lemma strtol10_show_nat:
  assumes "n < 2 ^ 63" "no_digit_ahead 10 rest"
  shows "strtol10 (show_nat n @ rest) = (int n, rest)"
proof -
  obtain c s where cs: "show_nat n = c # s" by (cases "show_nat n") auto
  then have c: "is_digit c" by (metis is_digit_show_nat list.set_intros(1))
  with digit_not_sign have "dropWhile is_space (show_nat n @ rest) = show_nat n @ rest"
    by (simp add: cs)
  moreover have "\<not> no_digit_ahead 10 (show_nat n @ rest)"
    using c by (simp add: cs digit_of_base_10)
  ultimately show ?thesis
    using assms digit_not_sign [OF c]
    by (simp add: strtol10_def Let_def read_digits_show_stop clamp_long_def)
       (simp add: cs)
qed

section \<open>Dotted addresses\<close>

text \<open>
  The number of one part, as strtoul reads it in base 0 (\<open>0x\<close> for base 16, a leading \<open>0\<close> for
  base 8), and inet_aton: up to four parts, every part but the last below 256, the last one filling
  the bytes that are left; after it the string ends or continues with white space.
\<close>

definition strtoul0 :: "string \<Rightarrow> nat \<times> string" where
  "strtoul0 s =
     (if (starts_with ''0x'' s \<or> starts_with ''0X'' s) \<and> \<not> no_digit_ahead 16 (drop 2 s)
        then read_digits 16 (drop 2 s) 0
      else if s \<noteq> [] \<and> hd s = CHR ''0'' then read_digits 8 s 0
      else read_digits 10 s 0)"

fun inet_parts :: "nat \<Rightarrow> string \<Rightarrow> (nat list \<times> string) option" where
  "inet_parts k [] = None"
| "inet_parts k (c # s) =
     (if \<not> is_digit c then None
      else let (v, t) = strtoul0 (c # s)
           in if 0xffffffff < v then None
              else if t \<noteq> [] \<and> hd t = CHR ''.'' then
                (case k of
                   0 \<Rightarrow> None
                 | Suc k' \<Rightarrow> if 255 < v then None
                             else map_option (\<lambda>(vs, r). (v # vs, r)) (inet_parts k' (tl t)))
              else Some ([v], t))"

definition inet_aton :: "string \<Rightarrow> u32 option" where
  "inet_aton s =
     (case inet_parts 3 s of
        None \<Rightarrow> None
      | Some (vs, r) \<Rightarrow>
          if r \<noteq> [] \<and> \<not> is_space (hd r) then None
          else (case vs of
              [a] \<Rightarrow> Some (word_of_nat a)
            | [a, b] \<Rightarrow> if 0xffffff < b then None else Some (word_of_nat (a * 2 ^ 24 + b))
            | [a, b, c] \<Rightarrow> if 0xffff < c then None
                           else Some (word_of_nat (a * 2 ^ 24 + b * 2 ^ 16 + c))
            | [a, b, c, d] \<Rightarrow> if 0xff < d then None
                              else Some (word_of_nat (a * 2 ^ 24 + b * 2 ^ 16 + c * 2 ^ 8 + d))
            | _ \<Rightarrow> None))"

definition octet :: "nat \<Rightarrow> u32 \<Rightarrow> nat" where
  "octet i w = unat w div 256 ^ i mod 256"

definition inet_ntoa :: "u32 \<Rightarrow> string" where
  "inet_ntoa w = show_nat (octet 3 w) @ ''.'' @ show_nat (octet 2 w) @ ''.''
                 @ show_nat (octet 1 w) @ ''.'' @ show_nat (octet 0 w)"

lemma octet_less [simp]: "octet i w < 256"
  by (simp add: octet_def)

lemma octets_of_nat:
  assumes "n < 2 ^ 32"
  shows "n div 256 ^ 3 mod 256 * 2 ^ 24 + n div 256 ^ 2 mod 256 * 2 ^ 16
         + n div 256 ^ 1 mod 256 * 2 ^ 8 + n div 256 ^ 0 mod 256 = (n :: nat)"
proof -
  have a: "n = n div 256 * 256 + n mod 256"
    and b: "n div 256 = n div 256 div 256 * 256 + n div 256 mod 256"
    and c: "n div 256 div 256 = n div 256 div 256 div 256 * 256 + n div 256 div 256 mod 256"
    by (simp_all add: mult.commute)
  have "n div 256 div 256 div 256 < 256" using assms by (simp add: div_mult2_eq [symmetric])
  then have d: "n div 256 div 256 div 256 mod 256 = n div 256 div 256 div 256" by simp
  have e: "n div 256 ^ 3 = n div 256 div 256 div 256" "n div 256 ^ 2 = n div 256 div 256"
    by (simp_all add: div_mult2_eq [symmetric])
  have "n div 256 div 256 div 256 * 16777216 + n div 256 div 256 mod 256 * 65536
        + n div 256 mod 256 * 256 + n mod 256 = n"
    using a b c by linarith
  then show ?thesis unfolding e d by simp
qed

lemma octets_word:
  "word_of_nat (octet 3 w * 2 ^ 24 + octet 2 w * 2 ^ 16 + octet 1 w * 2 ^ 8 + octet 0 w) = w"
proof -
  have "unat w < 2 ^ LENGTH(32)" by (rule unsigned_less)
  then have "unat w < 2 ^ 32" by simp
  then have "word_of_nat (octet 3 w * 2 ^ 24 + octet 2 w * 2 ^ 16 + octet 1 w * 2 ^ 8 + octet 0 w)
        = (word_of_nat (unat w) :: u32)"
    unfolding octet_def by (simp only: octets_of_nat)
  then show ?thesis by simp
qed

lemma digit_char_0: "digit_char 0 = CHR ''0''"
  by code_simp

lemma hd_show_nat_zero: "hd (show_nat n) = CHR ''0'' \<longleftrightarrow> n = 0"
proof
  assume h: "hd (show_nat n) = CHR ''0''"
  show "n = 0"
  proof (rule ccontr)
    assume "n \<noteq> 0"
    then obtain d s where "show_nat n = digit_char d # s" "d < 10" "0 < d"
      using hd_show_base [of 10 n] by auto
    with h have "digit_value (CHR ''0'') = Some d" using digit_value_digit_char [of d] by simp
    with \<open>0 < d\<close> show False by (simp add: digit_value_def is_digit_def ord_def)
  qed
next
  assume "n = 0"
  then show "hd (show_nat n) = CHR ''0''"
    by (simp add: show_base.simps [of 10 0] digit_char_0)
qed

lemma digit_value_dot [simp]: "digit_value (CHR ''.'') = None"
  by code_simp

lemma strtoul0_show_nat:
  assumes "rest = [] \<or> hd rest = CHR ''.''"
  shows "strtoul0 (show_nat n @ rest) = (n, rest)"
proof (cases "n = 0")
  case True
  have "show_nat 0 = ''0''" by (simp add: show_base.simps [of 10 0] digit_char_0)
  moreover have "no_digit_ahead 8 rest" "no_digit_ahead 10 rest"
    using assms by (auto simp: no_digit_ahead_def digit_of_base_def digit_value_def is_digit_def
        is_lower_def is_upper_def ord_def)
  ultimately show ?thesis using True assms
    by (cases rest) (auto simp: strtoul0_def digit_value_def is_digit_def is_lower_def is_upper_def ord_def)
next
  case False
  obtain c s where cs: "show_nat n = c # s" by (cases "show_nat n") auto
  with False hd_show_nat_zero [of n] have "c \<noteq> CHR ''0''" by simp
  moreover have "no_digit_ahead 10 rest"
    using assms by (auto simp: no_digit_ahead_def digit_of_base_def digit_value_def is_digit_def
        is_lower_def is_upper_def ord_def)
  ultimately show ?thesis
    using read_digits_show_stop [of 10 rest n] by (simp add: strtoul0_def cs)
qed

lemma inet_parts_show_dot:
  "v < 256 \<Longrightarrow> inet_parts (Suc k) (show_nat v @ CHR ''.'' # t)
     = map_option (\<lambda>(vs, r). (v # vs, r)) (inet_parts k t)"
  using strtoul0_show_nat [of "CHR ''.'' # t" v] is_digit_show_nat [of _ v]
  by (cases "show_nat v") auto

lemma inet_parts_show_end: "v < 256 \<Longrightarrow> inet_parts k (show_nat v) = Some ([v], [])"
  using strtoul0_show_nat [of "[]" v] is_digit_show_nat [of _ v]
  by (cases "show_nat v") auto

lemma inet_aton_ntoa [simp]: "inet_aton (inet_ntoa w) = Some w"
proof -
  have "inet_parts (Suc (Suc (Suc 0))) (inet_ntoa w)
        = Some ([octet 3 w, octet 2 w, octet 1 w, octet 0 w], [])"
    by (simp add: inet_ntoa_def inet_parts_show_dot inet_parts_show_end del: inet_parts.simps)
  then have "inet_parts 3 (inet_ntoa w)
        = Some ([octet 3 w, octet 2 w, octet 1 w, octet 0 w], [])"
    by (simp add: numeral_3_eq_3)
  moreover have "octet 0 w \<le> 255" using octet_less [of 0 w] by linarith
  ultimately show ?thesis using octets_word [of w] by (simp add: inet_aton_def)
qed

lemma inet_ntoa_chars: "c \<in> set (inet_ntoa w) \<Longrightarrow> is_digit c \<or> c = CHR ''.''"
  by (auto simp: inet_ntoa_def dest: is_digit_show_nat)

lemma length_inet_ntoa: "length (inet_ntoa w) \<le> 15"
proof -
  have "length (show_nat (octet i w)) \<le> 3" for i
    by (rule length_show_nat [OF less_trans [OF octet_less]]) simp_all
  from this [of 0] this [of 1] this [of 2] this [of 3] show ?thesis
    by (simp add: inet_ntoa_def)
qed

lemma inet_ntoa_inj: "inet_ntoa v = inet_ntoa w \<longleftrightarrow> v = w"
  by (metis inet_aton_ntoa option.inject)

end
