(* ===== verification/Addr.thy ===== *)
theory Addr
  imports CLib
begin

text \<open>
  Network addresses, librcom/src/addr.c.  An address is the part of a socket address the program
  uses: the family, the port in network byte order, and the 32-bit address.  Pointers that may be
  NULL are options; the buffers the addresses are printed into have a size, and what is read back
  is what snprintf left there.
\<close>

section \<open>Model\<close>

record addr_t =
  sin_family :: nat
  sin_port :: u16
  sin_addr :: u32

definition AF_INET :: nat where
  "AF_INET = 2"

definition addr_set_ip :: "addr_t \<Rightarrow> string option \<Rightarrow> int \<times> addr_t" where
  "addr_set_ip addr ip =
     (let address = (case ip of None \<Rightarrow> ''0.0.0.0'' | Some s \<Rightarrow> s)
      in case inet_aton address of
           None \<Rightarrow> (-1, addr)
         | Some w \<Rightarrow> (0, addr\<lparr>sin_addr := w\<rparr>))"

definition addr_set_port :: "addr_t \<Rightarrow> int \<Rightarrow> int \<times> addr_t" where
  "addr_set_port addr port =
     (if port < 0 \<or> 65536 \<le> port then (-1, addr)
      else (0, addr\<lparr>sin_port := htons (word_of_int port)\<rparr>))"

definition addr_set :: "addr_t \<Rightarrow> string option \<Rightarrow> int \<Rightarrow> int \<times> addr_t" where
  "addr_set addr ip port =
     (let (r, addr) = addr_set_ip addr ip
      in if r \<noteq> 0 then (-1, addr)
         else let (r, addr) = addr_set_port addr port
              in if r \<noteq> 0 then (-1, addr) else (0, addr))"

definition new_addr :: "string option \<Rightarrow> int \<Rightarrow> addr_t option" where
  "new_addr ip port =
     (let (r, addr) = addr_set \<lparr>sin_family = AF_INET, sin_port = 0, sin_addr = 0\<rparr> ip port
      in if r \<noteq> 0 then None else Some addr)"

definition new_addr0 :: "addr_t option" where
  "new_addr0 = new_addr (Some ''0.0.0.0'') 0"

definition addr_clone :: "addr_t option \<Rightarrow> addr_t option" where
  "addr_clone addr = (case addr of None \<Rightarrow> None | Some a \<Rightarrow> Some a)"

text \<open>addr_copy copies the whole structure over the destination.\<close>

definition addr_copy :: "addr_t \<Rightarrow> addr_t \<Rightarrow> addr_t" where
  "addr_copy src dest = src"

definition addr_port :: "addr_t \<Rightarrow> int" where
  "addr_port addr = uint (ntohs (sin_port addr))"

definition addr_ip :: "addr_t \<Rightarrow> nat \<Rightarrow> string" where
  "addr_ip addr len = snprintf len (inet_ntoa (sin_addr addr))"

definition addr_string :: "addr_t option \<Rightarrow> nat \<Rightarrow> string" where
  "addr_string addr len =
     (case addr of
        None \<Rightarrow> snprintf len ''(null)''
      | Some a \<Rightarrow> snprintf len (inet_ntoa (sin_addr a) @ '':'' @ show_int (addr_port a)))"

definition addr_eq :: "addr_t \<Rightarrow> addr_t \<Rightarrow> bool" where
  "addr_eq addr1 addr2 =
     (if addr_port addr1 \<noteq> addr_port addr2 then False
      else addr_ip addr1 64 = addr_ip addr2 64)"

text \<open>
  The characters before the colon are copied into an array of 64 bytes without a bound: from 64
  characters on, the copy or its final zero writes past the end.  The port is the result of strtol
  converted to an int before its range is checked.
\<close>

definition addr_parse :: "string \<Rightarrow> addr_t option outcome" where
  "addr_parse s =
     (case strchr s CHR '':'' of
        None \<Rightarrow> Ret None
      | Some p \<Rightarrow>
          bind_out (deref new_addr0) (\<lambda>addr.
            let ip = takeWhile (\<lambda>c. c \<noteq> CHR '':'') s
            in if 64 \<le> length ip then Undef
               else let (err, addr) = addr_set_ip addr (Some ip)
                    in if err \<noteq> 0 then Ret None
                       else let (v, q) = strtol10 (tl p); port = to_int32 v
                            in if q = tl p \<or> q \<noteq> [] then Ret None
                               else let (err, addr) = addr_set_port addr port
                                    in if err \<noteq> 0 then Ret None else Ret (Some addr)))"

section \<open>Lemmas\<close>

lemma new_addr0_eq: "new_addr0 = Some \<lparr>sin_family = AF_INET, sin_port = 0, sin_addr = 0\<rparr>"
proof -
  have "inet_ntoa 0 = ''0.0.0.0''"
    by (simp add: inet_ntoa_def octet_def show_base.simps [of 10 0] digit_char_0)
  then have "inet_aton ''0.0.0.0'' = Some 0" by (metis inet_aton_ntoa)
  then show ?thesis
    by (simp add: new_addr0_def new_addr_def addr_set_def addr_set_ip_def addr_set_port_def htons_def)
qed

lemma addr_port_bounds: "0 \<le> addr_port a" "addr_port a < 65536"
  using uint_lt2p [of "ntohs (sin_port a)"] by (simp_all add: addr_port_def)

lemma addr_port_set_port:
  assumes "0 \<le> port" "port < 65536"
  shows "addr_port (a\<lparr>sin_port := htons (word_of_int port)\<rparr>) = port"
  using assms by (simp add: addr_port_def uint_word_of_int)

lemma addr_set_port_same:
  "addr_set_port a (addr_port b) = (0, a\<lparr>sin_port := sin_port b\<rparr>)"
proof -
  have "htons (word_of_int (addr_port b)) = sin_port b"
    by (simp add: addr_port_def) (metis ntohs_def ntohs_htons)
  then show ?thesis using addr_port_bounds [of b] by (simp add: addr_set_port_def)
qed

lemma show_int_nonneg: "0 \<le> i \<Longrightarrow> show_int i = show_nat (nat i)"
  by (simp add: show_int_def)

lemma addr_string_64:
  "addr_string (Some a) 64 = inet_ntoa (sin_addr a) @ '':'' @ show_nat (nat (addr_port a))"
proof -
  have "nat (addr_port a) < 10 ^ 5" using addr_port_bounds [of a] by simp
  then have "length (show_nat (nat (addr_port a))) \<le> 5" by (rule length_show_nat) simp
  with length_inet_ntoa [of "sin_addr a"]
  have "length (inet_ntoa (sin_addr a) @ '':'' @ show_nat (nat (addr_port a))) \<le> 63" by simp
  then show ?thesis
    using addr_port_bounds [of a] by (simp add: addr_string_def snprintf_def show_int_nonneg)
qed

lemma colon_not_in_ip: "CHR '':'' \<notin> set (inet_ntoa w)"
  using inet_ntoa_chars [of "CHR '':''" w] by (auto simp: is_digit_def ord_def)

lemma addr_ip_64 [simp]: "addr_ip a 64 = inet_ntoa (sin_addr a)"
  using length_inet_ntoa [of "sin_addr a"] by (simp add: addr_ip_def snprintf_def)

lemma addr_port_eq_iff: "addr_port a = addr_port b \<longleftrightarrow> sin_port a = sin_port b"
  by (metis addr_port_def ntohs_def ntohs_htons word_uint_eqI)

lemma strtol10_port: "strtol10 (show_nat (nat (addr_port a))) = (addr_port a, [])"
  using strtol10_show_nat [of "nat (addr_port a)" "[]"] addr_port_bounds [of a] by simp

lemma addr_parse_colon:
  "CHR '':'' \<notin> set ip \<Longrightarrow> length ip < 64 \<Longrightarrow>
   addr_parse (ip @ CHR '':'' # t) =
     (case inet_aton ip of
        None \<Rightarrow> Ret None
      | Some w \<Rightarrow>
          let (v, q) = strtol10 t; port = to_int32 v
          in if q = t \<or> q \<noteq> [] then Ret None
             else if port < 0 \<or> 65536 \<le> port then Ret None
             else Ret (Some \<lparr>sin_family = AF_INET, sin_port = htons (word_of_int port), sin_addr = w\<rparr>))"
  by (auto simp: addr_parse_def strchr_append new_addr0_eq addr_set_ip_def addr_set_port_def Let_def
      takeWhile_append split: option.splits prod.splits)

lemma addr_parse_printed:
  assumes "sin_family a = AF_INET"
  shows "addr_parse (addr_string (Some a) 64) = Ret (Some a)"
proof -
  have len: "length (inet_ntoa (sin_addr a)) < 64" using length_inet_ntoa [of "sin_addr a"] by simp
  have "to_int32 (addr_port a) = addr_port a"
    using addr_port_bounds [of a] by (intro to_int32_id) simp_all
  moreover have "htons (word_of_int (addr_port a)) = sin_port a"
    by (simp add: addr_port_def) (metis ntohs_def ntohs_htons)
  moreover have "\<lparr>sin_family = AF_INET, sin_port = sin_port a, sin_addr = sin_addr a\<rparr> = a"
    using assms by (cases a) simp
  ultimately show ?thesis
    using addr_port_bounds [of a]
    by (simp add: addr_string_64 addr_parse_colon [OF colon_not_in_ip len] strtol10_port Let_def
        show_base_nonempty [symmetric] del: show_base_nonempty)
qed

section \<open>Properties\<close>

text \<open>C16. Printing an address and parsing the text gives the address back: the text form that
  travels in the registry protocol loses nothing.\<close>

theorem addr_parse_addr_string:
  assumes "sin_family a = AF_INET"
  shows "addr_parse (addr_string (Some a) 64) = Ret (Some a)"
  using assms by (rule addr_parse_printed)

theorem addr_parse_addr_string_witness:
  "addr_parse (addr_string (Some \<lparr>sin_family = AF_INET, sin_port = 5, sin_addr = 7\<rparr>) 64)
   = Ret (Some \<lparr>sin_family = AF_INET, sin_port = 5, sin_addr = 7\<rparr>)"
  by (rule addr_parse_addr_string) simp


text \<open>A port outside 0 to 65535 is rejected and leaves the address alone; a port inside is
  stored in network byte order and read back unchanged, and nothing else changes.\<close>

theorem addr_set_port_range:
  "addr_set_port a port =
     (if 0 \<le> port \<and> port \<le> 65535
      then (0, a\<lparr>sin_port := htons (word_of_int port)\<rparr>) else (-1, a))
   \<and> (0 \<le> port \<and> port \<le> 65535 \<longrightarrow> addr_port (snd (addr_set_port a port)) = port)"
  using addr_port_set_port [of port a] by (auto simp: addr_set_port_def)

theorem addr_set_port_range_witness:
  "addr_port (snd (addr_set_port \<lparr>sin_family = AF_INET, sin_port = 0, sin_addr = 0\<rparr> 10101)) = 10101"
  by (rule addr_set_port_range [THEN conjunct2, THEN mp]) simp

text \<open>The comparison of addresses through their printed form is the comparison of port and IP
  address.\<close>

theorem addr_eq_iff: "addr_eq a b \<longleftrightarrow> sin_port a = sin_port b \<and> sin_addr a = sin_addr b"
  by (auto simp: addr_eq_def addr_port_eq_iff inet_ntoa_inj)

end
