(* ===== verification/Data.thy ===== *)
theory Data
  imports Addr
begin

text \<open>
  Data packets, librcom/src/data.c and librcom/include/rcom/data.h: the unit the datahubs and
  datalinks send over UDP.  A packet is a sequence number, a time stamp and at most DATA_MAXLEN
  bytes; the length of the data is kept beside it as a C int.
\<close>

section \<open>Model\<close>

abbreviation PACKET_MAXLEN :: int where "PACKET_MAXLEN \<equiv> 1432"
abbreviation PACKET_HEADER :: int where "PACKET_HEADER \<equiv> 12"
abbreviation DATA_MAXLEN :: int where "DATA_MAXLEN \<equiv> 1420"

record packet_t =
  seqnum :: bytes
  timestamp :: bytes
  pdata :: bytes

record data_t =
  dlen :: int
  dp :: packet_t

text \<open>The allocator of the library clears the memory it returns.\<close>

definition new_data :: data_t where
  "new_data = \<lparr>dlen = 0, dp = \<lparr>seqnum = replicate 4 0, timestamp = replicate 8 0,
                              pdata = replicate 1420 0\<rparr>\<rparr>"

definition data_len :: "data_t option \<Rightarrow> int" where
  "data_len m = (case m of None \<Rightarrow> 0 | Some d \<Rightarrow> dlen d)"

definition data_data :: "data_t option \<Rightarrow> bytes option" where
  "data_data m = (case m of None \<Rightarrow> None | Some d \<Rightarrow> Some (pdata (dp d)))"

definition set_pdata :: "data_t \<Rightarrow> bytes \<Rightarrow> data_t" where
  "set_pdata m bs = m\<lparr>dp := (dp m)\<lparr>pdata := bs\<rparr>\<rparr>"

text \<open>memcpy with a negative length, or past the end of the source, is undefined.\<close>

definition data_set_data :: "data_t option \<Rightarrow> bytes option \<Rightarrow> int \<Rightarrow> data_t option outcome" where
  "data_set_data m s len =
     (case (m, s) of
        (Some d, Some src) \<Rightarrow>
          let len = (if len > DATA_MAXLEN then DATA_MAXLEN else len)
          in if len < 0 \<or> int (length src) < len then Undef
             else Ret (Some ((set_pdata d (blit (pdata (dp d)) 0 (take (nat len) src)))\<lparr>dlen := len\<rparr>))
      | _ \<Rightarrow> Ret m)"

definition data_set_len :: "data_t \<Rightarrow> int \<Rightarrow> data_t" where
  "data_set_len m len =
     (let len = (if len < 0 then 0 else len);
          len = (if len > DATA_MAXLEN then DATA_MAXLEN else len)
      in m\<lparr>dlen := len\<rparr>)"

definition data_append_zero :: "data_t \<Rightarrow> data_t outcome" where
  "data_append_zero m =
     (if dlen m \<le> DATA_MAXLEN - 1
      then if dlen m < 0 then Undef
           else Ret ((set_pdata m ((pdata (dp m))[nat (dlen m) := 0]))\<lparr>dlen := dlen m + 1\<rparr>)
      else Ret (set_pdata m ((pdata (dp m))[1419 := 0])))"

text \<open>
  The argument is what the format and its values expand to, None when vsnprintf reports an output
  error by a negative result.
\<close>

definition data_vprintf :: "data_t \<Rightarrow> bytes option \<Rightarrow> int \<times> data_t" where
  "data_vprintf m text =
     (case text of
        None \<Rightarrow> (0, m\<lparr>dlen := -1\<rparr>)
      | Some t \<Rightarrow>
          let m = set_pdata m (blit (pdata (dp m)) 0 (take 1419 t @ [0]));
              len = int (length t)
          in if len \<ge> DATA_MAXLEN then (-1, m\<lparr>dlen := DATA_MAXLEN - 1\<rparr>)
             else (0, m\<lparr>dlen := len\<rparr>))"

definition data_printf :: "data_t \<Rightarrow> bytes option \<Rightarrow> int \<times> data_t" where
  "data_printf m text = data_vprintf m text"

text \<open>
  The external json_tostring prints into the packet, at most the given size with the final zero, or
  fails; the argument is what it printed.
\<close>

definition data_serialise :: "data_t \<Rightarrow> bytes option \<Rightarrow> int \<times> data_t" where
  "data_serialise m json =
     (case json of
        None \<Rightarrow> (-1, m)
      | Some t \<Rightarrow>
          let m = set_pdata m (blit (pdata (dp m)) 0 (t @ [0]))
          in (0, m\<lparr>dlen := int (length (takeWhile (\<lambda>b. b \<noteq> 0) (pdata (dp m))))\<rparr>))"

definition data_parse :: "(string \<Rightarrow> 'j) \<Rightarrow> data_t \<Rightarrow> ('j \<times> data_t) outcome" where
  "data_parse json_parser_eval m =
     bind_out (data_append_zero m) (\<lambda>m.
       Ret (json_parser_eval (string_of (takeWhile (\<lambda>b. b \<noteq> 0) (pdata (dp m)))), m))"

definition data_packet :: "data_t \<Rightarrow> bytes" where
  "data_packet m = seqnum (dp m) @ timestamp (dp m) @ pdata (dp m)"

definition data_clear_timestamp :: "data_t \<Rightarrow> data_t" where
  "data_clear_timestamp m = m\<lparr>dp := (dp m)\<lparr>timestamp := replicate 8 0\<rparr>\<rparr>"

definition data_timestamp :: "data_t \<Rightarrow> u64" where
  "data_timestamp m =
     (let p = timestamp (dp m)
      in push_bit 56 (ucast (p ! 0)) OR push_bit 48 (ucast (p ! 1))
         OR push_bit 40 (ucast (p ! 2)) OR push_bit 32 (ucast (p ! 3))
         OR push_bit 24 (ucast (p ! 4)) OR push_bit 16 (ucast (p ! 5))
         OR push_bit 8 (ucast (p ! 6)) OR ucast (p ! 7))"

text \<open>The clock of the library is read once; its value is the second argument.\<close>

definition data_set_timestamp :: "data_t \<Rightarrow> u64 \<Rightarrow> data_t" where
  "data_set_timestamp m t =
     m\<lparr>dp := (dp m)\<lparr>timestamp :=
       [ucast (drop_bit 56 (t AND 0xff00000000000000)),
        ucast (drop_bit 48 (t AND 0x00ff000000000000)),
        ucast (drop_bit 40 (t AND 0x0000ff0000000000)),
        ucast (drop_bit 32 (t AND 0x000000ff00000000)),
        ucast (drop_bit 24 (t AND 0x00000000ff000000)),
        ucast (drop_bit 16 (t AND 0x0000000000ff0000)),
        ucast (drop_bit 8 (t AND 0x000000000000ff00)),
        ucast (t AND 0x00000000000000ff)]\<rparr>\<rparr>"

definition data_seqnum :: "data_t \<Rightarrow> u32" where
  "data_seqnum m =
     (let p = seqnum (dp m)
      in push_bit 24 (ucast (p ! 0)) OR push_bit 16 (ucast (p ! 1))
         OR push_bit 8 (ucast (p ! 2)) OR ucast (p ! 3))"

definition data_set_seqnum :: "data_t \<Rightarrow> u32 \<Rightarrow> data_t" where
  "data_set_seqnum m n =
     m\<lparr>dp := (dp m)\<lparr>seqnum :=
       [ucast (drop_bit 24 (n AND 0xff000000)),
        ucast (drop_bit 16 (n AND 0x00ff0000)),
        ucast (drop_bit 8 (n AND 0x0000ff00)),
        ucast (n AND 0x000000ff)]\<rparr>\<rparr>"

section \<open>Well-formed packets\<close>

definition packet_wf :: "data_t \<Rightarrow> bool" where
  "packet_wf m \<longleftrightarrow> length (seqnum (dp m)) = 4 \<and> length (timestamp (dp m)) = 8
                    \<and> length (pdata (dp m)) = 1420"

definition data_wf :: "data_t \<Rightarrow> bool" where
  "data_wf m \<longleftrightarrow> packet_wf m \<and> 0 \<le> dlen m \<and> dlen m \<le> DATA_MAXLEN"

lemma packet_wf_set_pdata: "packet_wf m \<Longrightarrow> length bs = 1420 \<Longrightarrow> packet_wf (set_pdata m bs)"
  by (simp add: packet_wf_def set_pdata_def)

lemma packet_wf_dlen [simp]: "packet_wf (m\<lparr>dlen := l\<rparr>) = packet_wf m"
  by (simp add: packet_wf_def)

lemma data_wf_new [inv_intros]: "data_wf new_data"
  by (simp add: data_wf_def packet_wf_def new_data_def)

lemma data_wf_set_len_packet: "packet_wf m \<Longrightarrow> data_wf (data_set_len m len)"
  by (simp add: data_wf_def data_set_len_def Let_def)

lemma data_wf_set_len [inv_intros]: "data_wf m \<Longrightarrow> data_wf (data_set_len m len)"
  by (rule data_wf_set_len_packet) (simp add: data_wf_def)

lemma data_wf_set_data [inv_intros]:
  "data_wf d \<Longrightarrow> data_set_data (Some d) s len = Ret (Some m) \<Longrightarrow> data_wf m"
  by (auto simp: data_set_data_def data_wf_def Let_def packet_wf_def set_pdata_def
      split: option.splits if_splits)

lemma data_wf_append_zero [inv_intros]:
  "data_wf d \<Longrightarrow> data_append_zero d = Ret m \<Longrightarrow> data_wf m"
  by (auto simp: data_append_zero_def data_wf_def packet_wf_def set_pdata_def split: if_splits)

lemma data_wf_vprintf [inv_intros]: "data_wf d \<Longrightarrow> data_wf (snd (data_vprintf d (Some t)))"
  by (auto simp: data_vprintf_def data_wf_def packet_wf_def set_pdata_def Let_def)

lemma data_wf_serialise [inv_intros]:
  "data_wf d \<Longrightarrow> (\<And>t. json = Some t \<Longrightarrow> length t < 1420) \<Longrightarrow> data_wf (snd (data_serialise d json))"
  by (cases json) (auto simp: data_serialise_def data_wf_def packet_wf_def set_pdata_def Let_def
      intro!: order_trans [OF length_takeWhile_le])

lemma data_wf_timestamp [inv_intros]:
  "data_wf d \<Longrightarrow> data_wf (data_set_timestamp d t)" "data_wf d \<Longrightarrow> data_wf (data_clear_timestamp d)"
  by (simp_all add: data_set_timestamp_def data_clear_timestamp_def data_wf_def packet_wf_def)

lemma data_wf_seqnum [inv_intros]: "data_wf d \<Longrightarrow> data_wf (data_set_seqnum d n)"
  by (simp add: data_set_seqnum_def data_wf_def packet_wf_def)

lemma length_data_packet: "packet_wf m \<Longrightarrow> length (data_packet m) = 1432"
  by (simp add: packet_wf_def data_packet_def)

section \<open>Bytes of a word\<close>

lemma byte_mask:
  fixes t :: "'a::len word"
  shows "(ucast (drop_bit k (t AND push_bit k (mask 8))) :: u8) = ucast (drop_bit k t)"
    "(ucast (t AND push_bit 0 (mask 8)) :: u8) = ucast t"
  by ((rule bit_word_eqI, auto simp: bit_simps dest: bit_imp_le_length)+)

lemma ucast_byte: "ucast (ucast (x :: 'a::len word) :: u8) = take_bit 8 x"
  by (rule bit_word_eqI) (auto simp: bit_simps dest: bit_imp_le_length)

lemma byte_join:
  "push_bit k (take_bit 8 (drop_bit k t)) OR take_bit k (t :: 'a::len word) = take_bit (k + 8) t"
  by (rule bit_word_eqI) (auto simp: bit_simps dest: bit_imp_le_length)

lemmas byte_joins64 =
  byte_join [of 8, simplified] byte_join [of 16, simplified] byte_join [of 24, simplified]
  byte_join [of 32, simplified] byte_join [of 40, simplified] byte_join [of 48, simplified]
  byte_join [of 56, simplified]

lemma byte_masks64:
  "(0xff00000000000000 :: u64) = push_bit 56 (mask 8)"
  "(0x00ff000000000000 :: u64) = push_bit 48 (mask 8)"
  "(0x0000ff0000000000 :: u64) = push_bit 40 (mask 8)"
  "(0x000000ff00000000 :: u64) = push_bit 32 (mask 8)"
  "(0x00000000ff000000 :: u64) = push_bit 24 (mask 8)"
  "(0x0000000000ff0000 :: u64) = push_bit 16 (mask 8)"
  "(0x000000000000ff00 :: u64) = push_bit 8 (mask 8)"
  "(0x00000000000000ff :: u64) = push_bit 0 (mask 8)"
  by (simp_all add: mask_eq_exp_minus_1)

lemma byte_masks32:
  "(0xff000000 :: u32) = push_bit 24 (mask 8)"
  "(0x00ff0000 :: u32) = push_bit 16 (mask 8)"
  "(0x0000ff00 :: u32) = push_bit 8 (mask 8)"
  "(0x000000ff :: u32) = push_bit 0 (mask 8)"
  by (simp_all add: mask_eq_exp_minus_1)

lemma byte_drops64:
  fixes t :: u64
  shows "(ucast (drop_bit 56 (t AND 0xff00000000000000)) :: u8) = ucast (drop_bit 56 t)"
    "(ucast (drop_bit 48 (t AND 0x00ff000000000000)) :: u8) = ucast (drop_bit 48 t)"
    "(ucast (drop_bit 40 (t AND 0x0000ff0000000000)) :: u8) = ucast (drop_bit 40 t)"
    "(ucast (drop_bit 32 (t AND 0x000000ff00000000)) :: u8) = ucast (drop_bit 32 t)"
    "(ucast (drop_bit 24 (t AND 0x00000000ff000000)) :: u8) = ucast (drop_bit 24 t)"
    "(ucast (drop_bit 16 (t AND 0x0000000000ff0000)) :: u8) = ucast (drop_bit 16 t)"
    "(ucast (drop_bit 8 (t AND 0x000000000000ff00)) :: u8) = ucast (drop_bit 8 t)"
    "(ucast (t AND 0x00000000000000ff) :: u8) = ucast t"
  unfolding byte_masks64 by (simp_all only: byte_mask)

lemma byte_drops32:
  fixes t :: u32
  shows "(ucast (drop_bit 24 (t AND 0xff000000)) :: u8) = ucast (drop_bit 24 t)"
    "(ucast (drop_bit 16 (t AND 0x00ff0000)) :: u8) = ucast (drop_bit 16 t)"
    "(ucast (drop_bit 8 (t AND 0x0000ff00)) :: u8) = ucast (drop_bit 8 t)"
    "(ucast (t AND 0x000000ff) :: u8) = ucast t"
  unfolding byte_masks32 by (simp_all only: byte_mask)

lemma take_bit_full64: "take_bit 64 (t :: u64) = t"
  by (rule bit_word_eqI) (simp add: bit_simps)

lemma take_bit_full32: "take_bit 32 (t :: u32) = t"
  by (rule bit_word_eqI) (simp add: bit_simps)

section \<open>Properties\<close>

text \<open>The time stamp put into a packet, eight bytes with the most significant first, is the time
  stamp read from it, for every 64-bit value, and the sequence number likewise for 32 bits; neither
  touches the data or its length.\<close>

theorem data_stamp_roundtrip:
  "data_timestamp (data_set_timestamp m t) = t
   \<and> data_seqnum (data_set_seqnum m n) = n
   \<and> data_seqnum (data_set_timestamp m t) = data_seqnum m
   \<and> data_timestamp (data_set_seqnum m n) = data_timestamp m
   \<and> pdata (dp (data_set_timestamp m t)) = pdata (dp m) \<and> dlen (data_set_timestamp m t) = dlen m"
  by (simp add: data_timestamp_def data_set_timestamp_def data_seqnum_def data_set_seqnum_def Let_def
      byte_drops64 byte_drops32 ucast_byte byte_joins64 take_bit_full64 take_bit_full32)

text \<open>The operations a client applies to a packet, and a sequence of them.\<close>

datatype data_op =
  SetData bytes int | SetLen int | AppendZero | Printf bytes | SetTimestamp u64 | ClearTimestamp
  | SetSeqnum u32

fun data_apply :: "data_t \<Rightarrow> data_op \<Rightarrow> data_t outcome" where
  "data_apply m (SetData s len) = bind_out (data_set_data (Some m) (Some s) len) deref"
| "data_apply m (SetLen len) = Ret (data_set_len m len)"
| "data_apply m AppendZero = data_append_zero m"
| "data_apply m (Printf t) = Ret (snd (data_printf m (Some t)))"
| "data_apply m (SetTimestamp t) = Ret (data_set_timestamp m t)"
| "data_apply m ClearTimestamp = Ret (data_clear_timestamp m)"
| "data_apply m (SetSeqnum n) = Ret (data_set_seqnum m n)"

fun data_run :: "data_t \<Rightarrow> data_op list \<Rightarrow> data_t outcome" where
  "data_run m [] = Ret m"
| "data_run m (x # xs) = bind_out (data_apply m x) (\<lambda>m. data_run m xs)"

text \<open>memcpy reads as many bytes as the caller announces: they have to be there.\<close>

fun legal_op :: "data_op \<Rightarrow> bool" where
  "legal_op (SetData s len) = (0 \<le> len \<and> min len DATA_MAXLEN \<le> int (length s))"
| "legal_op _ = True"

lemma data_apply_wf: "data_wf m \<Longrightarrow> legal_op x \<Longrightarrow> \<exists>m'. data_apply m x = Ret m' \<and> data_wf m'"
proof (induction m x rule: data_apply.induct)
  case (1 m s len)
  then have "\<exists>m'. data_set_data (Some m) (Some s) len = Ret (Some m')"
    by (auto simp: data_set_data_def Let_def)
  with 1 show ?case by (auto intro: inv_intros)
next
  case (3 m)
  then have "\<exists>m'. data_append_zero m = Ret m'"
    by (auto simp: data_append_zero_def data_wf_def)
  with 3 show ?case by (auto intro: inv_intros)
qed (auto intro: inv_intros simp: data_printf_def)

text \<open>Any sequence of operations on a well-formed packet, with lengths the source buffers really
  have, runs without undefined behaviour and leaves a well-formed packet: fields of 4, 8 and 1420
  bytes and a length between 0 and DATA_MAXLEN.\<close>

theorem data_run_wf:
  assumes "data_wf m" "\<forall>x \<in> set xs. legal_op x"
  shows "\<exists>m'. data_run m xs = Ret m' \<and> data_wf m'"
  using assms
proof (induction xs arbitrary: m)
  case Nil
  then show ?case by simp
next
  case (Cons x xs)
  from Cons.prems data_apply_wf [of m x] obtain m' where "data_apply m x = Ret m'" "data_wf m'"
    by auto
  with Cons.IH [of m'] Cons.prems show ?case by auto
qed

theorem data_run_wf_witness:
  "\<exists>m'. data_run new_data [SetData [1, 2, 3] 3, AppendZero, SetTimestamp 77, Printf (replicate 2000 65)]
        = Ret m' \<and> data_wf m'"
  by (rule data_run_wf) (simp_all add: data_wf_new)

end
