(* ===== verification/Net.thy ===== *)
theory Net
  imports Data
begin

text \<open>
  Sockets, librcom/src/net.c.  The operating system is a script: what the successive calls of recv,
  select and send answer.  A TCP connection holds the scripts and the bytes sent so far; every theorem
  is for all scripts, or for those it describes.  A script that has run out answers as an idle and
  well-behaved peer: recv reports the end of the stream, select reports data, send accepts all bytes.

  The code of net.c runs unchanged on the scripts: partial reads and writes, EAGAIN and errors are
  answers a script may hold.
\<close>

section \<open>TCP\<close>

text \<open>
  An answer of recv: bytes that arrived, EAGAIN, another error.  A segment is handed out over as many
  calls as the buffers of the callers need; an empty one is passed over.
\<close>

datatype rx_event = Seg bytes | Again | RecvFail

record tcp_t =
  is_open :: bool
  rx :: "rx_event list"
  selects :: "int list"
  txq :: "int list"
  tx :: bytes

fun recv_rx :: "rx_event list \<Rightarrow> nat \<Rightarrow> int \<times> bytes \<times> rx_event list" where
  "recv_rx [] len = (0, [], [])"
| "recv_rx (Again # es) len = (-2, [], es)"
| "recv_rx (RecvFail # es) len = (-1, [], es)"
| "recv_rx (Seg [] # es) len = recv_rx es len"
| "recv_rx (Seg (b # bs) # es) len =
     (let got = take len (b # bs); rest = drop len (b # bs)
      in (int (length got), got, if rest = [] then es else Seg rest # es))"

text \<open>The result code, the bytes put into the buffer, and the connection.\<close>

definition tcp_socket_recv :: "tcp_t \<Rightarrow> nat \<Rightarrow> int \<times> bytes \<times> tcp_t" where
  "tcp_socket_recv s len =
     (if \<not> is_open s then (-1, [], s)
      else let (n, bs, es) = recv_rx (rx s) len in (n, bs, s\<lparr>rx := es\<rparr>))"

fun rx_size :: "rx_event list \<Rightarrow> nat" where
  "rx_size [] = 0"
| "rx_size (Seg bs # es) = 1 + length bs + rx_size es"
| "rx_size (e # es) = 1 + rx_size es"

lemma recv_rx_decreases:
  "recv_rx es len = (n, bs, es') \<Longrightarrow> n = -2 \<or> (0 < n \<and> 0 < len) \<Longrightarrow> rx_size es' < rx_size es"
proof (induction es len rule: recv_rx.induct)
  case (5 b bs' es len)
  then show ?case by (cases len) (auto simp: Let_def split: if_splits)
qed (auto split: if_splits)

lemma recv_decreases:
  assumes "tcp_socket_recv s len = (n, bs, s')" "n = -2 \<or> (0 < n \<and> 0 < len)"
  shows "rx_size (rx s') < rx_size (rx s)"
  using assms by (auto simp: tcp_socket_recv_def split: if_splits prod.splits dest: recv_rx_decreases)

text \<open>
  The loop of tcp_socket_read: the bytes still wanted, the bytes received.  EAGAIN is retried.  The
  result is the length received, smaller than the request after a shutdown, or -1.
\<close>

function tcp_read_loop :: "tcp_t \<Rightarrow> nat \<Rightarrow> bytes \<Rightarrow> int \<times> bytes \<times> tcp_t" where
  "tcp_read_loop s wanted data =
     (if wanted = 0 then (int (length data), data, s)
      else case tcp_socket_recv s wanted of
        (n, bs, s') \<Rightarrow>
          if n = -2 then tcp_read_loop s' wanted data
          else if n < 0 then (-1, data, s')
          else if n = 0 then (int (length data), data, s')
          else tcp_read_loop s' (wanted - nat n) (data @ bs))"
  by pat_completeness auto
termination
  by (relation "measure (\<lambda>(s, wanted, data). rx_size (rx s))") (auto intro: recv_decreases [OF sym])

declare tcp_read_loop.simps [simp del]

definition tcp_socket_read :: "tcp_t \<Rightarrow> nat \<Rightarrow> int \<times> bytes \<times> tcp_t" where
  "tcp_socket_read s len = tcp_read_loop s len []"

text \<open>Reading uses up the script.\<close>

lemma recv_rx_size: "recv_rx es len = (n, bs, es') \<Longrightarrow> rx_size es' \<le> rx_size es"
proof (induction es len rule: recv_rx.induct)
  case (5 b bs' es len)
  then show ?case by (auto simp: Let_def split: if_splits)
qed (auto split: if_splits)

lemma recv_size: "tcp_socket_recv s len = (n, bs, s') \<Longrightarrow> rx_size (rx s') \<le> rx_size (rx s)"
  by (auto simp: tcp_socket_recv_def split: if_splits prod.splits dest: recv_rx_size)

lemma tcp_read_loop_size:
  "tcp_read_loop s wanted data = (n, bs, s') \<Longrightarrow>
   rx_size (rx s') \<le> rx_size (rx s) \<and> (int (length data) < n \<longrightarrow> rx_size (rx s') < rx_size (rx s))"
proof (induction s wanted data rule: tcp_read_loop.induct)
  case (1 s wanted data)
  obtain m got s1 where r: "tcp_socket_recv s wanted = (m, got, s1)" by (cases "tcp_socket_recv s wanted")
  consider "wanted = 0" | "wanted \<noteq> 0" "m = -2" | "wanted \<noteq> 0" "m \<noteq> -2" "m \<le> 0" | "wanted \<noteq> 0" "0 < m"
    by linarith
  then show ?case
  proof cases
    case 1
    with "1.prems" show ?thesis by (auto simp: tcp_read_loop.simps)
  next
    case 2
    with "1.prems" r have "tcp_read_loop s1 wanted data = (n, bs, s')"
      by (subst (asm) tcp_read_loop.simps) simp
    from "1.IH"(1) [OF 2(1) r [symmetric] refl 2(2) this] recv_decreases [OF r] 2 show ?thesis by auto
  next
    case 3
    with "1.prems" r have "n \<le> int (length data)" "s' = s1"
      by (subst (asm) tcp_read_loop.simps; auto split: if_splits)+
    with recv_size [OF r] show ?thesis by simp
  next
    case 4
    with "1.prems" r have "tcp_read_loop s1 (wanted - nat m) (data @ got) = (n, bs, s')"
      by (subst (asm) tcp_read_loop.simps) simp
    from "1.IH"(2) [OF 4(1) r [symmetric] refl _ _ _ this] recv_decreases [OF r] 4 show ?thesis by auto
  qed
qed

lemma tcp_socket_read_size:
  "tcp_socket_read s len = (n, bs, s') \<Longrightarrow>
   rx_size (rx s') \<le> rx_size (rx s) \<and> (0 < n \<longrightarrow> rx_size (rx s') < rx_size (rx s))"
  using tcp_read_loop_size [of s len "[]"] by (simp add: tcp_socket_read_def)

text \<open>Receiving changes nothing but the script of answers.\<close>

lemma recv_keeps: "tcp_socket_recv s len = (n, bs, s') \<Longrightarrow> \<exists>es. s' = s\<lparr>rx := es\<rparr>"
  by (cases s) (auto simp: tcp_socket_recv_def split: if_splits prod.splits)

lemma tcp_read_loop_keeps: "tcp_read_loop s wanted data = (n, bs, s') \<Longrightarrow> \<exists>es. s' = s\<lparr>rx := es\<rparr>"
proof (induction s wanted data rule: tcp_read_loop.induct)
  case (1 s wanted data)
  obtain m got s1 where r: "tcp_socket_recv s wanted = (m, got, s1)" by (cases "tcp_socket_recv s wanted")
  obtain es where es: "s1 = s\<lparr>rx := es\<rparr>" using recv_keeps [OF r] by blast
  consider "wanted = 0" | "wanted \<noteq> 0" "m = -2" | "wanted \<noteq> 0" "m \<noteq> -2" "m \<le> 0" | "wanted \<noteq> 0" "0 < m"
    by linarith
  then show ?case
  proof cases
    case 1
    then show ?thesis using "1.prems" by (auto simp: tcp_read_loop.simps intro: exI [of _ "rx s"])
  next
    case 2
    with "1.prems" r have "tcp_read_loop s1 wanted data = (n, bs, s')"
      by (subst (asm) tcp_read_loop.simps) simp
    from "1.IH"(1) [OF 2(1) r [symmetric] refl 2(2) this] es show ?thesis by auto
  next
    case 3
    with "1.prems" r have "s' = s1" by (subst (asm) tcp_read_loop.simps) (auto split: if_splits)
    with es show ?thesis by blast
  next
    case 4
    with "1.prems" r have "tcp_read_loop s1 (wanted - nat m) (data @ got) = (n, bs, s')"
      by (subst (asm) tcp_read_loop.simps) simp
    from "1.IH"(2) [OF 4(1) r [symmetric] refl _ _ _ this] es 4 show ?thesis by auto
  qed
qed

lemma tcp_socket_read_keeps: "tcp_socket_read s len = (n, bs, s') \<Longrightarrow> \<exists>es. s' = s\<lparr>rx := es\<rparr>"
  using tcp_read_loop_keeps by (simp add: tcp_socket_read_def)

text \<open>The loop of tcp_socket_send; a script entry is the answer of one call of send.\<close>

function tcp_send_loop :: "tcp_t \<Rightarrow> bytes \<Rightarrow> int \<times> tcp_t" where
  "tcp_send_loop s data =
     (if data = [] then (0, s)
      else case txq s of
        [] \<Rightarrow> (0, s\<lparr>tx := tx s @ data\<rparr>)
      | ret # rest \<Rightarrow>
          let s = s\<lparr>txq := rest\<rparr>
          in if ret < 0 then (-1, s)
             else if ret = 0 then (-1, s)
             else tcp_send_loop (s\<lparr>tx := tx s @ take (nat ret) data\<rparr>) (drop (nat ret) data))"
  by pat_completeness auto
termination
  by (relation "measure (\<lambda>(s, data). length data)") auto

declare tcp_send_loop.simps [simp del]

definition tcp_socket_send :: "tcp_t \<Rightarrow> bytes \<Rightarrow> int \<times> tcp_t" where
  "tcp_socket_send s data = (if \<not> is_open s then (-1, s) else tcp_send_loop s data)"

abbreviation (input) RCOM_WAIT_ERROR :: int where "RCOM_WAIT_ERROR \<equiv> -1"
abbreviation (input) RCOM_WAIT_OK :: int where "RCOM_WAIT_OK \<equiv> 1"
abbreviation (input) RCOM_WAIT_TIMEOUT :: int where "RCOM_WAIT_TIMEOUT \<equiv> 0"

definition posix_wait_data_positive :: "int \<Rightarrow> int" where
  "posix_wait_data_positive n =
     (if n < 0 then RCOM_WAIT_ERROR else if n = 0 then RCOM_WAIT_TIMEOUT else RCOM_WAIT_OK)"

text \<open>The answer of select is an argument.\<close>

definition posix_wait_data :: "int \<Rightarrow> int \<Rightarrow> int" where
  "posix_wait_data timeout n = (if timeout \<ge> 0 then posix_wait_data_positive n else RCOM_WAIT_ERROR)"

definition tcp_socket_wait_data :: "tcp_t \<Rightarrow> int \<Rightarrow> int \<times> tcp_t" where
  "tcp_socket_wait_data s timeout =
     (if \<not> is_open s then (posix_wait_data timeout (-1), s)
      else case selects s of
             [] \<Rightarrow> (posix_wait_data timeout 1, s)
           | n # ns \<Rightarrow> (posix_wait_data timeout n, s\<lparr>selects := ns\<rparr>))"

lemma tcp_socket_wait_data_keeps:
  "rx (snd (tcp_socket_wait_data s t)) = rx s" "is_open (snd (tcp_socket_wait_data s t)) = is_open s"
  "tx (snd (tcp_socket_wait_data s t)) = tx s"
  by (simp_all add: tcp_socket_wait_data_def split: list.splits)

text \<open>Shutting down, draining what still arrives, closing.\<close>

definition close_tcp_socket :: "tcp_t \<Rightarrow> tcp_t" where
  "close_tcp_socket s = (if is_open s then s\<lparr>is_open := False, rx := []\<rparr> else s)"

text \<open>
  Waiting one second for a connection and accepting it: the answers of select and accept are
  arguments, None where accept fails.  The result is the new connection or a code.
\<close>

datatype accepted = Accepted tcp_t | AcceptTimeout | AcceptInvalid

definition server_socket_accept :: "int \<Rightarrow> tcp_t option \<Rightarrow> accepted" where
  "server_socket_accept n client =
     (let wait_status = posix_wait_data 1 n
      in if wait_status = RCOM_WAIT_OK then (case client of None \<Rightarrow> AcceptInvalid | Some c \<Rightarrow> Accepted c)
         else if wait_status = RCOM_WAIT_TIMEOUT then AcceptTimeout
         else AcceptInvalid)"


text \<open>
  The flag app_quit is set by a signal handler: it stays false for a number of polls, or for ever, and
  is true from then on.
\<close>

fun app_quit :: "nat option \<Rightarrow> bool \<times> nat option" where
  "app_quit None = (False, None)"
| "app_quit (Some 0) = (True, Some 0)"
| "app_quit (Some (Suc n)) = (False, Some n)"

section \<open>UDP\<close>

text \<open>
  sendto sends the packet up to its data length, or fails; recvfrom overwrites the packet with at most
  PACKET_MAXLEN bytes of the datagram and names the sender, or fails.
\<close>

definition udp_datagram :: "data_t \<Rightarrow> bytes" where
  "udp_datagram d = take (nat (PACKET_HEADER + data_len (Some d))) (data_packet d)"

definition udp_socket_send :: "bool \<Rightarrow> data_t \<Rightarrow> int \<times> bytes option" where
  "udp_socket_send sendto_ok d = (if sendto_ok then (0, Some (udp_datagram d)) else (-1, None))"

definition unpack :: "bytes \<Rightarrow> packet_t" where
  "unpack bs = \<lparr>seqnum = take 4 bs, timestamp = take 8 (drop 4 bs), pdata = drop 12 bs\<rparr>"

definition udp_socket_read ::
  "(bytes \<times> addr_t) option \<Rightarrow> data_t \<Rightarrow> addr_t \<Rightarrow> int \<times> data_t \<times> addr_t" where
  "udp_socket_read recvfrom d addr =
     (case recvfrom of
        None \<Rightarrow> (-1, d, addr)
      | Some (datagram, sender) \<Rightarrow>
          let bs = take (nat PACKET_MAXLEN) datagram; len = int (length bs);
              d = d\<lparr>dp := unpack (blit (data_packet d) 0 bs)\<rparr>
          in (0, data_set_len d (len - PACKET_HEADER), sender))"

section \<open>Lemmas\<close>

text \<open>The bytes a script delivers, and scripts without errors and without EAGAIN.\<close>

fun stream :: "rx_event list \<Rightarrow> bytes" where
  "stream [] = []"
| "stream (Seg bs # es) = bs @ stream es"
| "stream (e # es) = stream es"

definition no_fail :: "rx_event list \<Rightarrow> bool" where
  "no_fail es \<longleftrightarrow> RecvFail \<notin> set es"

definition flowing :: "rx_event list \<Rightarrow> bool" where
  "flowing es \<longleftrightarrow> no_fail es \<and> Again \<notin> set es"

lemma no_fail_simps [simp]:
  "no_fail []" "no_fail (e # es) \<longleftrightarrow> e \<noteq> RecvFail \<and> no_fail es"
  by (auto simp: no_fail_def)

lemma flowing_simps [simp]:
  "flowing []" "flowing (Seg bs # es) = flowing es" "\<not> flowing (Again # es)" "\<not> flowing (RecvFail # es)"
  by (auto simp: flowing_def)

text \<open>One call of recv: it asks again, or reports the end, or delivers a piece of the stream.\<close>

lemma recv_rx_cases:
  assumes "no_fail es" "0 < len" "recv_rx es len = (n, bs, es')"
  shows "no_fail es' \<and> (flowing es \<longrightarrow> flowing es' \<and> n \<noteq> -2)
    \<and> (n = -2 \<and> stream es' = stream es
       \<or> n = 0 \<and> bs = [] \<and> stream es = [] \<and> es' = []
       \<or> 0 < n \<and> nat n \<le> len \<and> bs = take (nat n) (stream es) \<and> stream es' = drop (nat n) (stream es)
         \<and> nat n \<le> length (stream es))"
  using assms
proof (induction es len rule: recv_rx.induct)
  case (5 b bs' es len)
  let ?bs = "b # bs'"
  have n: "n = int (min (length ?bs) len)" "bs = take len ?bs"
    and es': "es' = (if drop len ?bs = [] then es else Seg (drop len ?bs) # es)"
    using "5.prems"(3) by (simp_all add: Let_def)
  have "stream es' = drop len ?bs @ stream es" using es' by simp
  moreover have "drop (min (length xs) len) (xs @ ys) = drop len xs @ ys"
    "take (min (length xs) len) (xs @ ys) = take len xs" for xs ys :: bytes
    by (simp_all add: min_def)
  note this [of ?bs "stream es"]
  ultimately show ?case using "5.prems" n es' by (auto simp: flowing_def)
qed (auto split: if_splits)

lemma tcp_recv_cases:
  assumes "is_open s" "no_fail (rx s)" "0 < len" "tcp_socket_recv s len = (n, bs, s')"
  shows "\<exists>es'. s' = s\<lparr>rx := es'\<rparr> \<and> no_fail es' \<and> (flowing (rx s) \<longrightarrow> flowing es' \<and> n \<noteq> -2)
    \<and> (n = -2 \<and> stream es' = stream (rx s)
       \<or> n = 0 \<and> bs = [] \<and> stream (rx s) = [] \<and> es' = []
       \<or> 0 < n \<and> nat n \<le> len \<and> bs = take (nat n) (stream (rx s))
         \<and> stream es' = drop (nat n) (stream (rx s)) \<and> nat n \<le> length (stream (rx s)))"
  using assms recv_rx_cases [OF assms(2,3)]
  by (cases "recv_rx (rx s) len") (auto simp: tcp_socket_recv_def)

text \<open>Reading collects the next bytes of the stream, however they are cut into segments.\<close>

lemma tcp_read_loop_stream:
  assumes "is_open s" "no_fail (rx s)"
  shows "\<exists>es'. tcp_read_loop s wanted data
        = (int (length data + min wanted (length (stream (rx s)))), data @ take wanted (stream (rx s)),
           s\<lparr>rx := es'\<rparr>)
      \<and> no_fail es' \<and> (flowing (rx s) \<longrightarrow> flowing es') \<and> stream es' = drop wanted (stream (rx s))"
  using assms
proof (induction s wanted data rule: tcp_read_loop.induct)
  case (1 s wanted data)
  show ?case
  proof (cases "wanted = 0")
    case True
    then show ?thesis using "1.prems" by (auto simp: tcp_read_loop.simps intro!: exI [of _ "rx s"])
  next
    case False
    obtain n bs s' where r: "tcp_socket_recv s wanted = (n, bs, s')" by (cases "tcp_socket_recv s wanted")
    obtain es where es: "s' = s\<lparr>rx := es\<rparr>" "no_fail es" "flowing (rx s) \<longrightarrow> flowing es \<and> n \<noteq> -2"
      and c: "n = -2 \<and> stream es = stream (rx s)
       \<or> n = 0 \<and> bs = [] \<and> stream (rx s) = [] \<and> es = []
       \<or> 0 < n \<and> nat n \<le> wanted \<and> bs = take (nat n) (stream (rx s))
         \<and> stream es = drop (nat n) (stream (rx s)) \<and> nat n \<le> length (stream (rx s))"
      using tcp_recv_cases [OF "1.prems" _ r] False by blast
    from c show ?thesis
    proof (elim disjE conjE)
      assume "n = -2" "stream es = stream (rx s)"
      with False r es "1.IH"(1) [OF False r [symmetric] refl] "1.prems" show ?thesis
        by (subst tcp_read_loop.simps) auto
    next
      assume "n = 0" "stream (rx s) = []" "es = []"
      with False r es show ?thesis by (subst tcp_read_loop.simps) auto
    next
      assume n: "0 < n" "nat n \<le> wanted" "bs = take (nat n) (stream (rx s))"
        "stream es = drop (nat n) (stream (rx s))" "nat n \<le> length (stream (rx s))"
      have "take (nat n) xs @ take (wanted - nat n) (drop (nat n) xs) = take wanted xs" for xs :: bytes
        using n(2) by (metis le_add_diff_inverse take_add)
      moreover have "nat n + min (wanted - nat n) (length (stream (rx s)) - nat n)
          = min wanted (length (stream (rx s)))"
        using n by (simp add: min_def) arith
      ultimately show ?thesis
        using False r es n "1.IH"(2) [OF False r [symmetric] refl] "1.prems"
        by (subst tcp_read_loop.simps) (auto simp: add.assoc)
    qed
  qed
qed

lemma tcp_socket_read_stream:
  assumes "is_open s" "no_fail (rx s)"
  shows "\<exists>es'. tcp_socket_read s len
        = (int (min len (length (stream (rx s)))), take len (stream (rx s)), s\<lparr>rx := es'\<rparr>)
      \<and> no_fail es' \<and> (flowing (rx s) \<longrightarrow> flowing es') \<and> stream es' = drop len (stream (rx s))"
  using tcp_read_loop_stream [OF assms, of len "[]"] by (simp add: tcp_socket_read_def)


lemma tcp_send_loop_cases:
  "\<exists>r q sent. tcp_send_loop s data = (r, s\<lparr>txq := q, tx := tx s @ sent\<rparr>)
     \<and> (r = 0 \<and> sent = data \<or> r = -1 \<and> (\<exists>k < length data. sent = take k data))"
proof (induction s data rule: tcp_send_loop.induct)
  case (1 s data)
  show ?case
  proof (cases "data = [] \<or> txq s = []")
    case True
    then show ?thesis
      by (subst tcp_send_loop.simps)
         (auto split: list.split intro!: exI [of _ "txq s"] exI [of _ data])
  next
    case False
    then obtain ret rest where q: "txq s = ret # rest" by (cases "txq s") auto
    show ?thesis
    proof (cases "ret \<le> 0")
      case True
      then have "tcp_send_loop s data = (-1, s\<lparr>txq := rest, tx := tx s @ []\<rparr>)"
        using q False by (subst tcp_send_loop.simps) (auto simp: Let_def)
      moreover have "\<exists>k < length data. [] = take k data" using False by (auto intro: exI [of _ "0::nat"])
      ultimately show ?thesis by blast
    next
      case pos: False
      let ?s = "s\<lparr>txq := rest, tx := tx s @ take (nat ret) data\<rparr>"
      obtain r q' sent where ih: "tcp_send_loop ?s (drop (nat ret) data) = (r, ?s\<lparr>txq := q', tx := tx ?s @ sent\<rparr>)"
        "r = 0 \<and> sent = drop (nat ret) data
         \<or> r = -1 \<and> (\<exists>k < length (drop (nat ret) data). sent = take k (drop (nat ret) data))"
        using "1.IH" [of ret rest "s\<lparr>txq := rest\<rparr>"] False q pos by auto
      have eq: "tcp_send_loop s data = (r, s\<lparr>txq := q', tx := tx s @ take (nat ret) data @ sent\<rparr>)"
        using False q pos ih(1) by (subst tcp_send_loop.simps) (simp add: Let_def)
      from ih(2) show ?thesis
      proof (elim disjE conjE exE)
        assume "r = 0" "sent = drop (nat ret) data"
        then show ?thesis using eq by auto
      next
        fix k assume k: "r = -1" "k < length (drop (nat ret) data)" "sent = take k (drop (nat ret) data)"
        then have "take (nat ret) data @ sent = take (nat ret + k) data" by (simp add: take_add)
        moreover have "nat ret + k < length data" using k(2) by simp
        ultimately show ?thesis using eq k(1) by auto
      qed
    qed
  qed
qed

lemma tcp_socket_send_cases:
  assumes "is_open s"
  shows "\<exists>r q sent. tcp_socket_send s data = (r, s\<lparr>txq := q, tx := tx s @ sent\<rparr>)
     \<and> (r = 0 \<and> sent = data \<or> r = -1 \<and> (\<exists>k < length data. sent = take k data))"
  using assms tcp_send_loop_cases by (simp add: tcp_socket_send_def)

lemma tcp_socket_send_keeps:
  "rx (snd (tcp_socket_send s bs)) = rx s" "is_open (snd (tcp_socket_send s bs)) = is_open s"
  "selects (snd (tcp_socket_send s bs)) = selects s"
  using tcp_socket_send_cases [of s bs] by (cases "is_open s", auto simp: tcp_socket_send_def)+

lemma tcp_socket_send_idle: "is_open s \<Longrightarrow> txq s = [] \<Longrightarrow> tcp_socket_send s data = (0, s\<lparr>tx := tx s @ data\<rparr>)"
  by (simp add: tcp_socket_send_def tcp_send_loop.simps)

lemma unpack_data_packet: "packet_wf d \<Longrightarrow> unpack (data_packet d) = dp d"
  by (cases d) (auto simp: packet_wf_def unpack_def data_packet_def)

lemma unpack_wf: "length bs = 1432 \<Longrightarrow> packet_wf (d\<lparr>dp := unpack bs\<rparr>)"
  by (simp add: packet_wf_def unpack_def)

lemma udp_packet_core:
  assumes "data_wf d" "packet_wf m" "udp_socket_send True d = (0, Some datagram)"
  shows "\<exists>m'. udp_socket_read (Some (datagram, sender)) m addr = (0, m', sender)
     \<and> dlen m' = dlen d \<and> seqnum (dp m') = seqnum (dp d) \<and> timestamp (dp m') = timestamp (dp d)
     \<and> take (nat (dlen d)) (pdata (dp m')) = take (nat (dlen d)) (pdata (dp d))
     \<and> data_wf (fst (snd (udp_socket_read (Some (other, sender)) m addr)))"
proof -
  let ?n = "12 + nat (dlen d)"
  have d: "packet_wf d" "0 \<le> dlen d" "dlen d \<le> 1420" using assms(1) by (auto simp: data_wf_def)
  have len: "length (data_packet d) = 1432" "length (data_packet m) = 1432"
    by (simp_all add: length_data_packet d assms(2))
  have n: "nat (PACKET_HEADER + data_len (Some d)) = ?n"
    using d by (simp add: data_len_def nat_add_distrib)
  have dg: "datagram = take ?n (data_packet d)"
    using assms(3) unfolding udp_socket_send_def udp_datagram_def n by simp
  have l: "length datagram = ?n" using dg len d by simp
  have head: "take ?n (data_packet d) = seqnum (dp d) @ timestamp (dp d) @ take (nat (dlen d)) (pdata (dp d))"
    using d by (simp add: data_packet_def packet_wf_def)
  have t: "take (nat PACKET_MAXLEN) datagram = datagram" using l d by simp
  have set: "data_set_len x (dlen d) = x\<lparr>dlen := dlen d\<rparr>" for x
    using d by (simp add: data_set_len_def)
  have "data_wf (fst (snd (udp_socket_read (Some (other, sender)) m addr)))"
    unfolding udp_socket_read_def
    by (simp add: Let_def) (intro data_wf_set_len_packet unpack_wf, simp add: len)
  then show ?thesis
    using d l unfolding udp_socket_read_def
    by (simp add: t Let_def l set unpack_def blit_def dg head packet_wf_def)
qed

section \<open>Properties\<close>

text \<open>C25. Reading a given number of bytes from a connection returns exactly the next bytes of the
  stream and leaves the rest, for every way the stream is cut into segments and interrupted by
  EAGAIN; only the end of the stream makes the result shorter.\<close>

theorem tcp_socket_read_exact:
  assumes "is_open s" "no_fail (rx s)"
  shows "\<exists>es'. tcp_socket_read s len
        = (int (min len (length (stream (rx s)))), take len (stream (rx s)), s\<lparr>rx := es'\<rparr>)
      \<and> stream es' = drop len (stream (rx s))"
  using tcp_socket_read_stream [OF assms] by blast

theorem tcp_socket_read_exact_witness:
  "\<exists>es'. tcp_socket_read
        \<lparr>is_open = True, rx = [Seg [1], Again, Seg [2, 3, 4]], selects = [], txq = [], tx = []\<rparr> 3
      = (3, [1, 2, 3], \<lparr>is_open = True, rx = es', selects = [], txq = [], tx = []\<rparr>) \<and> stream es' = [4]"
  using tcp_socket_read_exact
    [of "\<lparr>is_open = True, rx = [Seg [1], Again, Seg [2, 3, 4]], selects = [], txq = [], tx = []\<rparr>" 3]
  by (simp add: numeral_eq_Suc)

text \<open>Sending either reports success and has put all the bytes on the wire, in order and once, or
  reports failure and has put a proper prefix of them there, for every answer the system gives to
  each call of send.\<close>

theorem tcp_socket_send_exact:
  "\<exists>r q sent. tcp_socket_send s data = (r, s\<lparr>txq := q, tx := tx s @ sent\<rparr>)
     \<and> (if r = 0 then sent = data else r = -1 \<and> (data = [] \<and> \<not> is_open s \<or> (\<exists>k < length data. sent = take k data)))"
proof (cases "is_open s")
  case True
  from tcp_socket_send_cases [OF this, of data] obtain r q sent where
    "tcp_socket_send s data = (r, s\<lparr>txq := q, tx := tx s @ sent\<rparr>)"
    "r = 0 \<and> sent = data \<or> r = -1 \<and> (\<exists>k < length data. sent = take k data)" by blast
  then show ?thesis by (intro exI [of _ r] exI [of _ q] exI [of _ sent]) auto
next
  case False
  then have "tcp_socket_send s data = (-1, s\<lparr>txq := txq s, tx := tx s @ []\<rparr>)"
    by (simp add: tcp_socket_send_def)
  moreover have "data = [] \<or> (\<exists>k < length data. [] = take k data)" by (cases data) auto
  ultimately show ?thesis using False by (intro exI [of _ "-1"] exI [of _ "txq s"] exI [of _ "[]"]) auto
qed

text \<open>A packet sent over UDP and read into any packet of the right size arrives with its length,
  sequence number, time stamp and data, and the address of its sender; and whatever datagram arrives,
  the packet it is read into is well-formed, its length between 0 and DATA_MAXLEN.\<close>

theorem udp_packet_roundtrip:
  assumes "data_wf d" "packet_wf m" "udp_socket_send True d = (0, Some datagram)"
  shows "\<exists>m'. udp_socket_read (Some (datagram, sender)) m addr = (0, m', sender)
     \<and> dlen m' = dlen d \<and> seqnum (dp m') = seqnum (dp d) \<and> timestamp (dp m') = timestamp (dp d)
     \<and> take (nat (dlen d)) (pdata (dp m')) = take (nat (dlen d)) (pdata (dp d))
     \<and> data_wf (fst (snd (udp_socket_read (Some (other, sender)) m addr)))"
  using assms by (rule udp_packet_core)


theorem udp_packet_roundtrip_witness:
  "\<exists>datagram m'. udp_socket_read (Some (datagram, \<lparr>sin_family = AF_INET, sin_port = 5, sin_addr = 7\<rparr>)) new_data
       \<lparr>sin_family = AF_INET, sin_port = 0, sin_addr = 0\<rparr>
     = (0, m', \<lparr>sin_family = AF_INET, sin_port = 5, sin_addr = 7\<rparr>) \<and> dlen m' = 100"
proof -
  have "data_wf (data_set_len new_data 100)" "packet_wf new_data"
    "udp_socket_send True (data_set_len new_data 100) = (0, Some (udp_datagram (data_set_len new_data 100)))"
    using data_wf_set_len [OF data_wf_new] data_wf_new by (auto simp: data_wf_def udp_socket_send_def)
  from udp_packet_roundtrip [OF this] obtain m' where
    "udp_socket_read (Some (udp_datagram (data_set_len new_data 100),
        \<lparr>sin_family = AF_INET, sin_port = 5, sin_addr = 7\<rparr>)) new_data
      \<lparr>sin_family = AF_INET, sin_port = 0, sin_addr = 0\<rparr>
     = (0, m', \<lparr>sin_family = AF_INET, sin_port = 5, sin_addr = 7\<rparr>)"
    "dlen m' = dlen (data_set_len new_data 100)" by blast
  moreover have "dlen (data_set_len new_data 100) = 100" by (simp add: data_set_len_def)
  ultimately show ?thesis by auto
qed

end
