(* ===== verification/Frames.thy ===== *)
theory Frames
  imports Net
begin

text \<open>
  The frames of the websocket protocol, the encoder and the decoder of librcom/src/messagelink.c.  The
  encoder appends to a buffer; the decoder reads from a TCP connection and collects the payload in the
  link's input buffer.  The random mask is an argument.
\<close>

section \<open>Model\<close>

definition htonll :: "u64 \<Rightarrow> u64" where
  "htonll x = push_bit 32 (ucast (htonl (ucast (x AND 0xFFFFFFFF)))) OR ucast (htonl (ucast (drop_bit 32 x)))"

definition ntohll :: "u64 \<Rightarrow> u64" where
  "ntohll x = push_bit 32 (ucast (ntohl (ucast (x AND 0xFFFFFFFF)))) OR ucast (ntohl (ucast (drop_bit 32 x)))"

record ws_frame_t =
  fin :: u8
  opcode :: u8
  mask_bit :: u8
  length7 :: u8

abbreviation (input) WS_CONTINUTATION :: u8 where "WS_CONTINUTATION \<equiv> 0"
abbreviation (input) WS_TEXT :: u8 where "WS_TEXT \<equiv> 1"
abbreviation (input) WS_BINARY :: u8 where "WS_BINARY \<equiv> 2"
abbreviation (input) WS_CLOSE :: u8 where "WS_CLOSE \<equiv> 8"
abbreviation (input) WS_PING :: u8 where "WS_PING \<equiv> 9"
abbreviation (input) WS_PONG :: u8 where "WS_PONG \<equiv> 10"

subsection \<open>Encoding\<close>

definition frame_make_header :: "u8 \<Rightarrow> bool \<Rightarrow> bytes \<Rightarrow> u64 \<Rightarrow> bytes" where
  "frame_make_header opc masked key len =
     [0x80 OR opc]
     @ (if len < 126 then
          [if masked then 0x80 OR ucast (len AND 0x7f) else ucast (len AND 0x7f)]
        else if len \<le> 65536 then
          (let netshort = htons (ucast len)
           in [if masked then 254 else 126,
               ucast (netshort AND 0x00ff), ucast (drop_bit 8 (netshort AND 0xff00))])
        else
          (let netlong = htonll len
           in [if masked then 255 else 127,
               ucast (netlong AND 0x00000000000000ff),
               ucast (drop_bit 8 (netlong AND 0x000000000000ff00)),
               ucast (drop_bit 16 (netlong AND 0x0000000000ff0000)),
               ucast (drop_bit 24 (netlong AND 0x00000000ff000000)),
               ucast (drop_bit 32 (netlong AND 0x000000ff00000000)),
               ucast (drop_bit 40 (netlong AND 0x0000ff0000000000)),
               ucast (drop_bit 48 (netlong AND 0x00ff000000000000)),
               ucast (drop_bit 56 (netlong AND 0xff00000000000000))]))
     @ (if masked then [key ! 0, key ! 1, key ! 2, key ! 3] else [])"

text \<open>The bytes of one buffer xored with the mask; the position in the mask is carried on.\<close>

fun mask_block :: "bytes \<Rightarrow> bytes \<Rightarrow> nat \<Rightarrow> bytes \<times> nat" where
  "mask_block [] key j = ([], j)"
| "mask_block (b # bs) key j =
     (let (out, j') = mask_block bs key (if j + 1 = 4 then 0 else j + 1)
      in ((b XOR key ! j) # out, j'))"

function mask_blocks :: "bytes \<Rightarrow> bytes \<Rightarrow> nat \<Rightarrow> bytes" where
  "mask_blocks data key j =
     (if data = [] then []
      else let (out, j') = mask_block (take 1024 data) key j
           in out @ mask_blocks (drop 1024 data) key j')"
  by pat_completeness auto
termination
  by (relation "measure (\<lambda>(data, key, j). length data)") auto

declare mask_blocks.simps [simp del]

definition frame_append_payload :: "bytes \<Rightarrow> bool \<Rightarrow> bytes \<Rightarrow> bytes \<Rightarrow> bytes" where
  "frame_append_payload buf masked key data =
     (if masked then buf @ mask_blocks data key 0 else buf @ data)"

definition frame_make :: "bytes \<Rightarrow> u8 \<Rightarrow> bool \<Rightarrow> bytes \<Rightarrow> bytes \<Rightarrow> bytes" where
  "frame_make buf opc masked key data =
     (let buf = buf @ frame_make_header opc masked key (of_nat (length data))
      in frame_append_payload buf masked key data)"

subsection \<open>Decoding\<close>

text \<open>Bytes copied into a 16-bit and a 64-bit variable of the little-endian host.\<close>

definition load16 :: "bytes \<Rightarrow> u16" where
  "load16 b = ucast (b ! 0) OR push_bit 8 (ucast (b ! 1))"

definition load64 :: "bytes \<Rightarrow> u64" where
  "load64 b = push_bit 56 (ucast (b ! 7)) OR push_bit 48 (ucast (b ! 6))
     OR push_bit 40 (ucast (b ! 5)) OR push_bit 32 (ucast (b ! 4))
     OR push_bit 24 (ucast (b ! 3)) OR push_bit 16 (ucast (b ! 2))
     OR push_bit 8 (ucast (b ! 1)) OR ucast (b ! 0)"

text \<open>The frame is only assigned when the two bytes could be read.\<close>

definition messagelink_read_frame :: "tcp_t \<Rightarrow> int \<times> ws_frame_t option \<times> tcp_t" where
  "messagelink_read_frame s =
     (let (received, b, s) = tcp_socket_read s 2
      in if received \<noteq> 2 then (-1, None, s)
         else (0, Some \<lparr>fin = drop_bit 7 (b ! 0 AND 0x80), opcode = b ! 0 AND 0x0f,
                        mask_bit = drop_bit 7 (b ! 1 AND 0x80), length7 = b ! 1 AND 0x7f\<rparr>, s))"

text \<open>The length that follows the first two bytes; the code, the length, the connection.\<close>

definition read_length :: "ws_frame_t \<Rightarrow> tcp_t \<Rightarrow> int \<times> u64 \<times> tcp_t" where
  "read_length frame s =
     (if length7 frame < 126 then (0, ucast (length7 frame), s)
      else if length7 frame = 126 then
        (let (received, b, s) = tcp_socket_read s 2
         in if received \<noteq> 2 then (-1, 0, s) else (0, ucast (ntohs (load16 b)), s))
      else
        (let (received, b, s) = tcp_socket_read s 8
         in if received \<noteq> 8 then (-1, 0, s) else (0, ntohll (load64 b), s)))"

definition read_mask :: "ws_frame_t \<Rightarrow> tcp_t \<Rightarrow> int \<times> bytes \<times> tcp_t" where
  "read_mask frame s =
     (if mask_bit frame \<noteq> 0 then
        (let (received, b, s) = tcp_socket_read s 4
         in if received \<noteq> 4 then (-1, [0, 0, 0, 0], s) else (0, b, s))
      else (0, [0, 0, 0, 0], s))"

text \<open>
  The loop over the payload: what is still to be read, the position in the mask, the input buffer.
  The link of a client does not unmask.
\<close>

function read_payload :: "bool \<Rightarrow> bytes \<Rightarrow> tcp_t \<Rightarrow> nat \<Rightarrow> nat \<Rightarrow> bytes \<Rightarrow> int \<times> bytes \<times> tcp_t" where
  "read_payload is_client key s remaining j inp =
     (if remaining = 0 then (0, inp, s)
      else let num_to_read = (if remaining > 1024 then 1024 else remaining);
               (received, buffer, s) = tcp_socket_recv s num_to_read
           in if received < 0 then (received, inp, s)
              else if received = 0 then (-1, inp, s)
              else let (buffer, j) = (if is_client then (buffer, j) else mask_block buffer key j)
                   in read_payload is_client key s (remaining - nat received) j (inp @ buffer))"
  by pat_completeness auto
termination
  by (relation "measure (\<lambda>(is_client, key, s, remaining, j, inp). remaining)") auto

declare read_payload.simps [simp del]

text \<open>
  One message: the code, the frame, the input buffer and the connection.  The input buffer is cleared
  after the length has been accepted.
\<close>

definition messagelink_read_message ::
  "bool \<Rightarrow> tcp_t \<Rightarrow> bytes \<Rightarrow> int \<times> ws_frame_t option \<times> bytes \<times> tcp_t" where
  "messagelink_read_message is_client s inp =
     (case messagelink_read_frame s of
        (err, None, s) \<Rightarrow> (err, None, inp, s)
      | (err, Some frame, s) \<Rightarrow>
          let (err, len, s) = read_length frame s
          in if err \<noteq> 0 then (err, Some frame, inp, s)
             else let (err, key, s) = read_mask frame s
                  in if err \<noteq> 0 then (err, Some frame, inp, s)
                     else if len > 16777216 then (-2, Some frame, inp, s)
                     else let (err, inp, s) = read_payload is_client key s (unat len) 0 []
                          in (err, Some frame, inp, s))"

section \<open>Lemmas\<close>

subsection \<open>Masking\<close>

lemma mask_block_append:
  "mask_block (a @ b) key j
   = (let (x, j1) = mask_block a key j; (y, j2) = mask_block b key j1 in (x @ y, j2))"
  by (induction a arbitrary: j) (simp_all add: Let_def split: prod.splits)

lemma mask_block_twice: "mask_block (fst (mask_block bs key j)) key j = (bs, snd (mask_block bs key j))"
proof (induction bs arbitrary: j)
  case (Cons b bs)
  have "(b XOR key ! j) XOR key ! j = b" by (simp add: xor.assoc)
  with Cons show ?case by (simp split: prod.splits) (metis fst_conv snd_conv)
qed simp

lemma length_mask_block [simp]: "length (fst (mask_block bs key j)) = length bs"
  by (induction bs arbitrary: j) (simp_all split: prod.splits, metis fst_conv)

text \<open>The blocks of the sender make no difference.\<close>

lemma mask_blocks_eq: "mask_blocks data key j = fst (mask_block data key j)"
proof (induction data key j rule: mask_blocks.induct)
  case (1 data key j)
  show ?case
  proof (cases "data = []")
    case False
    obtain out j' where o: "mask_block (take 1024 data) key j = (out, j')" by fastforce
    have "mask_block data key j = mask_block (take 1024 data @ drop 1024 data) key j" by simp
    then have "fst (mask_block data key j) = out @ fst (mask_block (drop 1024 data) key j')"
      unfolding mask_block_append by (simp add: o split: prod.splits)
    with 1 False o show ?thesis by (subst mask_blocks.simps) simp
  qed (simp add: mask_blocks.simps)
qed


subsection \<open>The payload\<close>

definition unmasked :: "bool \<Rightarrow> bytes \<Rightarrow> nat \<Rightarrow> bytes \<Rightarrow> bytes" where
  "unmasked is_client key j bs = (if is_client then bs else fst (mask_block bs key j))"

lemma read_payload_stream:
  assumes "is_open s" "flowing (rx s)" "remaining \<le> length (stream (rx s))"
  shows "\<exists>es'. read_payload c key s remaining j inp
      = (0, inp @ unmasked c key j (take remaining (stream (rx s))), s\<lparr>rx := es'\<rparr>)
    \<and> flowing es' \<and> stream es' = drop remaining (stream (rx s))"
  using assms
proof (induction c key s remaining j inp rule: read_payload.induct)
  case (1 c key s remaining j inp)
  show ?case
  proof (cases "remaining = 0")
    case True
    then show ?thesis using "1.prems"
      by (subst read_payload.simps) (auto simp: unmasked_def intro!: exI [of _ "rx s"])
  next
    case False
    let ?N = "if remaining > 1024 then 1024 else remaining"
    obtain n bs s' where r: "tcp_socket_recv s ?N = (n, bs, s')" by (cases "tcp_socket_recv s ?N")
    have nf: "no_fail (rx s)" using "1.prems"(2) by (simp add: flowing_def)
    have "0 < ?N" using False by simp
    from tcp_recv_cases [OF "1.prems"(1) nf this r] "1.prems"(2,3) False
    obtain es where es: "s' = s\<lparr>rx := es\<rparr>" "flowing es"
      and n: "0 < n" "nat n \<le> ?N" "bs = take (nat n) (stream (rx s))"
        "stream es = drop (nat n) (stream (rx s))" by auto
    obtain out j' where o: "(if c then (bs, j) else mask_block bs key j) = (out, j')" by fastforce
    have le: "nat n \<le> remaining" using n(2) by (simp split: if_splits)
    have split: "take remaining (stream (rx s))
        = bs @ take (remaining - nat n) (stream es)"
      using n le by (metis le_add_diff_inverse take_add)
    have um: "out @ unmasked c key j' (take (remaining - nat n) (stream es))
        = unmasked c key j (take remaining (stream (rx s)))"
      using o unfolding split unmasked_def
      by (auto simp: mask_block_append split: prod.splits if_splits)
    have open': "is_open s'" "flowing (rx s')" "remaining - nat n \<le> length (stream (rx s'))"
      using "1.prems" es n le by simp_all
    from "1.IH" [OF False refl refl r [symmetric] refl _ _ refl o [symmetric] open'] n(1)
    obtain es' where "read_payload c key s' (remaining - nat n) j' (inp @ out)
        = (0, (inp @ out) @ unmasked c key j' (take (remaining - nat n) (stream es)), s'\<lparr>rx := es'\<rparr>)"
      "flowing es'" "stream es' = drop (remaining - nat n) (stream es)"
      using es by auto
    then show ?thesis
      using False r n es o um le by (subst read_payload.simps) (auto simp: Let_def)
  qed
qed


subsection \<open>Progress\<close>

text \<open>A message that was read used up a part of the script, and reading never adds to it.\<close>

lemma read_payload_size:
  "read_payload c key s remaining j inp = (err, inp', s') \<Longrightarrow> rx_size (rx s') \<le> rx_size (rx s)"
proof (induction c key s remaining j inp rule: read_payload.induct)
  case (1 c key s remaining j inp)
  show ?case
  proof (cases "remaining = 0")
    case True
    with "1.prems" show ?thesis by (simp add: read_payload.simps)
  next
    case False
    let ?N = "if remaining > 1024 then 1024 else remaining"
    obtain n bs s1 where r: "tcp_socket_recv s ?N = (n, bs, s1)" by (cases "tcp_socket_recv s ?N")
    obtain out j' where o: "(if c then (bs, j) else mask_block bs key j) = (out, j')" by fastforce
    show ?thesis
    proof (cases "n \<le> 0")
      case True
      with False "1.prems" r recv_size [OF r] show ?thesis
        by (subst (asm) read_payload.simps) (auto simp: Let_def split: if_splits)
    next
      case pos: False
      then have "read_payload c key s1 (remaining - nat n) j' (inp @ out) = (err, inp', s')"
        using False "1.prems" r o by (subst (asm) read_payload.simps) (simp add: Let_def)
      from "1.IH" [OF False refl refl r [symmetric] refl _ _ refl o [symmetric] this] pos recv_size [OF r]
      show ?thesis by simp
    qed
  qed
qed

lemma read_message_size:
  assumes "messagelink_read_message c s inp = (err, frame, inp', s')"
  shows "rx_size (rx s') \<le> rx_size (rx s) \<and> (err = 0 \<longrightarrow> rx_size (rx s') < rx_size (rx s) \<and> frame \<noteq> None)"
proof -
  obtain n b s1 where r: "tcp_socket_read s 2 = (n, b, s1)" by (cases "tcp_socket_read s 2")
  note sz1 = tcp_socket_read_size [OF r]
  show ?thesis
  proof (cases "n = 2")
    case False
    with assms r sz1 show ?thesis
      by (auto simp: messagelink_read_message_def messagelink_read_frame_def)
  next
    case True
    then obtain f where f: "messagelink_read_frame s = (0, Some f, s1)"
      using r by (simp add: messagelink_read_frame_def)
    have lt: "rx_size (rx s1) < rx_size (rx s)" using sz1 True by simp
    obtain e2 len s2 where l: "read_length f s1 = (e2, len, s2)" by (cases "read_length f s1")
    then have sz2: "rx_size (rx s2) \<le> rx_size (rx s1)"
      by (auto simp: read_length_def dest!: tcp_socket_read_size split: if_splits prod.splits)
    obtain e3 key s3 where m: "read_mask f s2 = (e3, key, s3)" by (cases "read_mask f s2")
    then have sz3: "rx_size (rx s3) \<le> rx_size (rx s2)"
      by (auto simp: read_mask_def dest!: tcp_socket_read_size split: if_splits prod.splits)
    obtain e4 inp4 s4 where p: "read_payload c key s3 (unat len) 0 [] = (e4, inp4, s4)"
      by (cases "read_payload c key s3 (unat len) 0 []")
    from assms f l m p read_payload_size [OF p] lt sz2 sz3 show ?thesis
      by (auto simp: messagelink_read_message_def split: if_splits)
  qed
qed

text \<open>The codes of a read.\<close>

lemma recv_codes: "tcp_socket_recv s len = (n, bs, s') \<Longrightarrow> n = -2 \<or> n = -1 \<or> 0 \<le> n"
proof -
  have "recv_rx es l = (n, bs, es') \<Longrightarrow> n = -2 \<or> n = -1 \<or> 0 \<le> n" for es es' l
    by (induction es l rule: recv_rx.induct) (auto simp: Let_def)
  then show "tcp_socket_recv s len = (n, bs, s') \<Longrightarrow> n = -2 \<or> n = -1 \<or> 0 \<le> n"
    by (auto simp: tcp_socket_recv_def split: if_splits prod.splits)
qed

lemma read_payload_codes:
  "read_payload c key s remaining j inp = (err, inp', s') \<Longrightarrow> err = 0 \<or> err = -1 \<or> err = -2"
proof (induction c key s remaining j inp rule: read_payload.induct)
  case (1 c key s remaining j inp)
  show ?case
  proof (cases "remaining = 0")
    case True
    with "1.prems" show ?thesis by (simp add: read_payload.simps)
  next
    case False
    let ?N = "if remaining > 1024 then 1024 else remaining"
    obtain n bs s1 where r: "tcp_socket_recv s ?N = (n, bs, s1)" by (cases "tcp_socket_recv s ?N")
    obtain out j' where o: "(if c then (bs, j) else mask_block bs key j) = (out, j')" by fastforce
    show ?thesis
    proof (cases "n \<le> 0")
      case True
      with False "1.prems" r recv_codes [OF r] show ?thesis
        by (subst (asm) read_payload.simps) (auto simp: Let_def split: if_splits)
    next
      case pos: False
      then have "read_payload c key s1 (remaining - nat n) j' (inp @ out) = (err, inp', s')"
        using False "1.prems" r o by (subst (asm) read_payload.simps) (simp add: Let_def)
      from "1.IH" [OF False refl refl r [symmetric] refl _ _ refl o [symmetric] this] pos show ?thesis
        by simp
    qed
  qed
qed

lemma read_message_codes:
  "messagelink_read_message c s inp = (err, frame, inp', s') \<Longrightarrow> err = 0 \<or> err = -1 \<or> err = -2"
  by (auto simp: messagelink_read_message_def messagelink_read_frame_def read_length_def read_mask_def
      split: prod.splits if_splits option.splits dest: read_payload_codes)

text \<open>Reading changes nothing of the connection but the script of answers.\<close>

lemma read_payload_keeps:
  "read_payload c key s remaining j inp = (err, inp', s') \<Longrightarrow> \<exists>es. s' = s\<lparr>rx := es\<rparr>"
proof (induction c key s remaining j inp rule: read_payload.induct)
  case (1 c key s remaining j inp)
  show ?case
  proof (cases "remaining = 0")
    case True
    then show ?thesis using "1.prems" by (auto simp: read_payload.simps intro: exI [of _ "rx s"])
  next
    case False
    let ?N = "if remaining > 1024 then 1024 else remaining"
    obtain n bs s1 where r: "tcp_socket_recv s ?N = (n, bs, s1)" by (cases "tcp_socket_recv s ?N")
    obtain es where es: "s1 = s\<lparr>rx := es\<rparr>" using recv_keeps [OF r] by blast
    obtain out j' where o: "(if c then (bs, j) else mask_block bs key j) = (out, j')" by fastforce
    show ?thesis
    proof (cases "n \<le> 0")
      case True
      with False "1.prems" r es show ?thesis
        by (subst (asm) read_payload.simps) (auto simp: Let_def split: if_splits)
    next
      case pos: False
      then have "read_payload c key s1 (remaining - nat n) j' (inp @ out) = (err, inp', s')"
        using False "1.prems" r o by (subst (asm) read_payload.simps) (simp add: Let_def)
      from "1.IH" [OF False refl refl r [symmetric] refl _ _ refl o [symmetric] this] pos es
      show ?thesis by auto
    qed
  qed
qed

lemma read_frame_keeps: "messagelink_read_frame s = (err, f, s') \<Longrightarrow> \<exists>es. s' = s\<lparr>rx := es\<rparr>"
  by (auto simp: messagelink_read_frame_def split: prod.splits if_splits dest: tcp_socket_read_keeps)

lemma rx_same: "\<exists>es. s = s\<lparr>rx := es\<rparr>"
  by (rule exI [of _ "rx s"]) simp

lemma read_length_keeps: "read_length f s = (err, len, s') \<Longrightarrow> \<exists>es. s' = s\<lparr>rx := es\<rparr>"
  using rx_same [of s]
  by (auto simp: read_length_def split: prod.splits if_splits dest: tcp_socket_read_keeps)

lemma read_mask_keeps: "read_mask f s = (err, key, s') \<Longrightarrow> \<exists>es. s' = s\<lparr>rx := es\<rparr>"
  using rx_same [of s]
  by (auto simp: read_mask_def split: prod.splits if_splits dest: tcp_socket_read_keeps)

lemma read_message_keeps:
  "messagelink_read_message c s inp = (err, frame, inp', s') \<Longrightarrow> \<exists>es. s' = s\<lparr>rx := es\<rparr>"
proof -
  assume a: "messagelink_read_message c s inp = (err, frame, inp', s')"
  obtain e1 f s1 where f: "messagelink_read_frame s = (e1, f, s1)" by (cases "messagelink_read_frame s")
  obtain es1 where es1: "s1 = s\<lparr>rx := es1\<rparr>" using read_frame_keeps [OF f] by blast
  show ?thesis
  proof (cases f)
    case None
    with a f es1 show ?thesis by (auto simp: messagelink_read_message_def)
  next
    case (Some fr)
    obtain e2 len s2 where l: "read_length fr s1 = (e2, len, s2)" by (cases "read_length fr s1")
    obtain es2 where es2: "s2 = s1\<lparr>rx := es2\<rparr>" using read_length_keeps [OF l] by blast
    obtain e3 key s3 where m: "read_mask fr s2 = (e3, key, s3)" by (cases "read_mask fr s2")
    obtain es3 where es3: "s3 = s2\<lparr>rx := es3\<rparr>" using read_mask_keeps [OF m] by blast
    obtain e4 inp4 s4 where p: "read_payload c key s3 (unat len) 0 [] = (e4, inp4, s4)"
      by (cases "read_payload c key s3 (unat len) 0 []")
    obtain es4 where es4: "s4 = s3\<lparr>rx := es4\<rparr>" using read_payload_keeps [OF p] by blast
    from a f Some l m p es1 es2 es3 es4 show ?thesis
      by (auto simp: messagelink_read_message_def split: if_splits)
  qed
qed

subsection \<open>Byte order\<close>

lemma htonl_masks: "(0x00ff0000 :: u32) = push_bit 16 (mask 8)" "(0x0000ff00 :: u32) = push_bit 8 (mask 8)"
  by (simp_all add: mask_eq_exp_minus_1)

lemma bit_htonl:
  assumes "k < 8"
  shows "bit (htonl w) k = bit w (k + 24)" "bit (htonl w) (k + 8) = bit w (k + 16)"
    "bit (htonl w) (k + 16) = bit w (k + 8)" "bit (htonl w) (k + 24) = bit w k"
proof -
  have w: "\<not> bit w m" if "32 \<le> m" for m using that by (auto dest: bit_imp_le_length)
  have m: "bit (mask 8 :: u32) i = (i < 8)" for i by (auto simp: bit_mask_iff)
  have p: "bit (push_bit i v :: u32) j = (i \<le> j \<and> j < 32 \<and> bit v (j - i))" for i j v
    by (auto simp: bit_push_bit_iff)
  note defs = htonl_def htonl_masks bit_or_iff bit_and_iff p m bit_drop_bit_eq comp_apply
  show "bit (htonl w) k = bit w (k + 24)" unfolding defs using assms w by (simp add: add.commute)
  show "bit (htonl w) (k + 8) = bit w (k + 16)" unfolding defs using assms w by (simp add: add.commute)
  show "bit (htonl w) (k + 16) = bit w (k + 8)" unfolding defs using assms w by (simp add: add.commute)
  show "bit (htonl w) (k + 24) = bit w k" unfolding defs using assms w by (simp add: add.commute)
qed

lemma ntohl_htonl [simp]: "ntohl (htonl w) = w"
proof (rule bit_word_eqI)
  fix n assume "n < LENGTH(32)"
  then have "n < 8 \<or> (\<exists>k < 8. n = k + 8) \<or> (\<exists>k < 8. n = k + 16) \<or> (\<exists>k < 8. n = k + 24)"
    by simp presburger
  then show "bit (ntohl (htonl w)) n = bit w n"
    by (auto simp: ntohl_def bit_htonl)
qed

lemma mask32: "(0xFFFFFFFF :: u64) = mask 32"
  by (simp add: mask_eq_exp_minus_1)

lemma htonll_parts:
  "(ucast (htonll x AND 0xFFFFFFFF) :: u32) = htonl (ucast (drop_bit 32 x))"
  "(ucast (drop_bit 32 (htonll x)) :: u32) = htonl (ucast (x AND 0xFFFFFFFF))"
  unfolding htonll_def mask32
  by (rule bit_word_eqI, auto simp: bit_simps dest: bit_imp_le_length)+

lemma ntohll_htonll [simp]: "ntohll (htonll x) = x"
  unfolding ntohll_def htonll_parts ntohl_htonl unfolding mask32
  by (rule bit_word_eqI) (auto simp: bit_simps dest: bit_imp_le_length)

lemma masks16: "(0x00ff :: u16) = mask 8" "(0xff00 :: u16) = push_bit 8 (mask 8)"
  by (simp_all add: mask_eq_exp_minus_1)

lemma load16_store:
  "load16 [ucast (w AND 0x00ff), ucast (drop_bit 8 (w AND 0xff00))] = w"
  unfolding load16_def masks16
  by (rule bit_word_eqI) (auto simp: bit_simps dest: bit_imp_le_length)

lemma load64_store:
  "load64 [ucast (w AND 0x00000000000000ff), ucast (drop_bit 8 (w AND 0x000000000000ff00)),
           ucast (drop_bit 16 (w AND 0x0000000000ff0000)), ucast (drop_bit 24 (w AND 0x00000000ff000000)),
           ucast (drop_bit 32 (w AND 0x000000ff00000000)), ucast (drop_bit 40 (w AND 0x0000ff0000000000)),
           ucast (drop_bit 48 (w AND 0x00ff000000000000)), ucast (drop_bit 56 (w AND 0xff00000000000000))] = w"
  unfolding byte_drops64 load64_def
  by (simp add: ucast_byte byte_joins64 take_bit_full64)


subsection \<open>The header\<close>

lemma bit_80: "bit (0x80 :: int) n \<longleftrightarrow> n = 7"
proof -
  have "bit (push_bit 7 1 :: int) n \<longleftrightarrow> n = 7" by (subst bit_push_bit_iff) (auto simp: bit_1_iff)
  then show ?thesis by simp
qed

lemma low_bits: "(0x7f :: u8) = mask 7" "(0x0f :: u8) = mask 4" "(0x7f :: u64) = mask 7"
  by (simp_all add: mask_eq_exp_minus_1)

lemma second_byte:
  assumes "unat (l :: u8) < 128"
  shows "(0x80 OR l) AND 0x7f = l" "drop_bit 7 ((0x80 OR l) AND 0x80) = 1"
    "l AND 0x7f = l" "drop_bit 7 (l AND 0x80) = 0"
proof -
  have h: "\<not> bit l n" if "7 \<le> n" for n
  proof -
    have "take_bit 7 (unat l) = unat l" using assms by (simp add: take_bit_nat_eq_self)
    then have "take_bit 7 l = l" by (metis unsigned_take_bit_eq word_unat_eq_iff)
    then have "bit l n = bit (take_bit 7 l) n" by simp
    then show ?thesis using that by (simp add: bit_take_bit_iff)
  qed
  then have h': "bit l n \<Longrightarrow> n < 7" for n by (metis linorder_not_less)
  show "(0x80 OR l) AND 0x7f = l" "drop_bit 7 ((0x80 OR l) AND 0x80) = 1"
    "l AND 0x7f = l" "drop_bit 7 (l AND 0x80) = 0"
    unfolding low_bits
    by (rule bit_word_eqI, auto simp: bit_simps bit_80 dest: h')+
qed

lemma first_byte:
  assumes "opc AND 0x0f = (opc :: u8)"
  shows "(0x80 OR opc) AND 0x0f = opc" "drop_bit 7 ((0x80 OR opc) AND 0x80) = 1"
proof -
  have "take_bit 4 opc = opc" using assms unfolding low_bits by (simp add: take_bit_eq_mask)
  then have b: "bit opc n \<Longrightarrow> n < 4" for n by (metis bit_take_bit_iff)
  show "(0x80 OR opc) AND 0x0f = opc" "drop_bit 7 ((0x80 OR opc) AND 0x80) = 1"
    unfolding low_bits
    by (rule bit_word_eqI, auto simp: bit_simps bit_80 dest: b)+
qed

text \<open>The seven bits of the length, the bytes that extend it, and the length they announce.\<close>

definition short_length :: "u64 \<Rightarrow> u8" where
  "short_length len = (if len < 126 then ucast len else if len \<le> 65536 then 126 else 127)"

definition extended_length :: "u64 \<Rightarrow> bytes" where
  "extended_length len = drop 2 (frame_make_header 0 False [] len)"

definition announced :: "u64 \<Rightarrow> u64" where
  "announced len = (if len = 65536 then 0 else len)"

lemma short_length_small: "unat (short_length len) < 128"
proof (cases "len < 126")
  case True
  then have "unat len < 126" by (simp add: word_less_nat_alt)
  then have "unat (ucast len :: u8) < 126" by (simp add: unsigned_ucast_eq take_bit_nat_eq_self)
  with True show ?thesis by (simp add: short_length_def)
qed (simp add: short_length_def)

lemma and_7f: "len < 126 \<Longrightarrow> ucast (len AND 0x7f :: u64) = (ucast len :: u8)"
proof -
  assume "len < 126"
  then have "take_bit 7 (unat len) = unat len" by (simp add: word_less_nat_alt take_bit_nat_eq_self)
  then have "take_bit 7 len = len" by (metis unsigned_take_bit_eq word_unat_eq_iff)
  then show ?thesis by (simp add: low_bits take_bit_eq_mask)
qed

lemma frame_make_header_parts:
  assumes "length key = 4"
  shows "frame_make_header opc masked key len
    = [0x80 OR opc, (if masked then 0x80 OR short_length len else short_length len)]
      @ extended_length len @ (if masked then key else [])"
proof -
  have k: "[key ! 0, key ! 1, key ! 2, key ! 3] = key"
    using assms by (auto simp: list_eq_iff_nth_eq less_Suc_eq numeral_eq_Suc)
  show ?thesis
    unfolding frame_make_header_def extended_length_def short_length_def k
    by (simp add: Let_def and_7f)
qed


text \<open>Reading what the stream starts with.\<close>

lemma read_prefix:
  assumes "is_open s" "flowing (rx s)" "stream (rx s) = bs @ rest" "n = length bs"
  shows "\<exists>es'. tcp_socket_read s n = (int n, bs, s\<lparr>rx := es'\<rparr>) \<and> flowing es' \<and> stream es' = rest"
  using tcp_socket_read_stream [of s n] assms by (auto simp: flowing_def)

lemma ucast_short: "len < 126 \<Longrightarrow> ucast (ucast (len :: u64) :: u8) = len \<and> (ucast len :: u8) < 126"
proof -
  assume "len < 126"
  then have u: "unat len < 126" by (simp add: word_less_nat_alt)
  then have b: "unat (ucast len :: u8) = unat len" by (simp add: unsigned_ucast_eq take_bit_nat_eq_self)
  have "unat (ucast (ucast len :: u8) :: u64) = take_bit 64 (unat (ucast len :: u8))"
    by (simp only: unsigned_ucast_eq) (simp add: unsigned_take_bit_eq)
  with b u have "unat (ucast (ucast len :: u8) :: u64) = unat len"
    by (simp add: take_bit_nat_eq_self)
  with b u show ?thesis by (simp add: word_unat_eq_iff word_less_nat_alt)
qed

lemma ucast_announced: "\<not> len < 126 \<Longrightarrow> len \<le> 65536 \<Longrightarrow> ucast (ucast (len :: u64) :: u16) = announced len"
proof -
  assume "len \<le> 65536"
  then have u: "unat len \<le> 65536" by (simp add: word_le_nat_alt)
  have "unat (ucast (ucast len :: u16) :: u64) = take_bit 64 (take_bit 16 (unat len))"
    by (simp only: unsigned_ucast_eq) (simp add: unsigned_take_bit_eq)
  then have "unat (ucast (ucast len :: u16) :: u64) = unat len mod 65536"
    by (simp only: take_bit_take_bit) (simp add: take_bit_eq_mod)
  moreover have "unat (announced len) = unat len mod 65536"
  proof (cases "len = 65536")
    case False
    then have "unat len \<noteq> 65536" by (simp add: word_unat_eq_iff)
    with u False show ?thesis by (simp add: announced_def)
  qed (simp add: announced_def)
  ultimately show ?thesis by (simp add: word_unat_eq_iff)
qed

lemma extended_length_eq:
  "extended_length len =
     (if len < 126 then []
      else if len \<le> 65536 then
        [ucast (htons (ucast len) AND 0x00ff), ucast (drop_bit 8 (htons (ucast len) AND 0xff00))]
      else [ucast (htonll len AND 0x00000000000000ff),
               ucast (drop_bit 8 (htonll len AND 0x000000000000ff00)),
               ucast (drop_bit 16 (htonll len AND 0x0000000000ff0000)),
               ucast (drop_bit 24 (htonll len AND 0x00000000ff000000)),
               ucast (drop_bit 32 (htonll len AND 0x000000ff00000000)),
               ucast (drop_bit 40 (htonll len AND 0x0000ff0000000000)),
               ucast (drop_bit 48 (htonll len AND 0x00ff000000000000)),
               ucast (drop_bit 56 (htonll len AND 0xff00000000000000))])"
  by (simp add: extended_length_def frame_make_header_def Let_def)

lemma read_length_extended:
  assumes "is_open s" "flowing (rx s)" "stream (rx s) = extended_length len @ rest"
    "length7 frame = short_length len"
  shows "\<exists>es'. read_length frame s = (0, announced len, s\<lparr>rx := es'\<rparr>) \<and> flowing es' \<and> stream es' = rest"
proof -
  consider "len < 126" | "\<not> len < 126" "len \<le> 65536" | "\<not> len < 126" "\<not> len \<le> 65536" by blast
  then show ?thesis
  proof cases
    case 1
    moreover from 1 have "announced len = len" by (auto simp: announced_def)
    ultimately show ?thesis
      using assms ucast_short [OF 1]
      by (auto simp: read_length_def short_length_def extended_length_eq intro!: exI [of _ "rx s"])
  next
    case 2
    then obtain es' where "tcp_socket_read s 2 = (2, extended_length len, s\<lparr>rx := es'\<rparr>)"
      "flowing es'" "stream es' = rest"
      using read_prefix [OF assms(1,2,3), of 2] by (auto simp: extended_length_eq)
    moreover have "load16 (extended_length len) = htons (ucast len)"
      using 2 load16_store by (simp add: extended_length_eq)
    ultimately show ?thesis
      using 2 assms(4) ucast_announced [OF 2] by (auto simp: read_length_def short_length_def)
  next
    case 3
    then obtain es' where "tcp_socket_read s 8 = (8, extended_length len, s\<lparr>rx := es'\<rparr>)"
      "flowing es'" "stream es' = rest"
      using read_prefix [OF assms(1,2,3), of 8] by (auto simp: extended_length_eq)
    moreover have "load64 (extended_length len) = htonll len"
      using 3 load64_store by (simp add: extended_length_eq)
    moreover have "announced len = len" using 3(2) by (auto simp: announced_def)
    ultimately show ?thesis
      using 3 assms(4) by (auto simp: read_length_def short_length_def)
  qed
qed


subsection \<open>Messages\<close>

definition sent_frame :: "u8 \<Rightarrow> bool \<Rightarrow> u64 \<Rightarrow> ws_frame_t" where
  "sent_frame opc masked len =
     \<lparr>fin = 1, opcode = opc, mask_bit = (if masked then 1 else 0), length7 = short_length len\<rparr>"

lemma read_frame_header:
  assumes "is_open s" "flowing (rx s)" "opc AND 0x0f = opc" "length key = 4"
    "stream (rx s) = frame_make_header opc masked key len @ rest"
  shows "\<exists>es'. messagelink_read_frame s = (0, Some (sent_frame opc masked len), s\<lparr>rx := es'\<rparr>)
     \<and> flowing es' \<and> stream es' = extended_length len @ (if masked then key else []) @ rest"
proof -
  let ?b1 = "if masked then 0x80 OR short_length len else short_length len"
  obtain es' where "tcp_socket_read s 2 = (2, [0x80 OR opc, ?b1], s\<lparr>rx := es'\<rparr>)" "flowing es'"
    "stream es' = extended_length len @ (if masked then key else []) @ rest"
    using read_prefix [OF assms(1,2), of "[0x80 OR opc, ?b1]" _ 2] assms(5)
    by (auto simp: frame_make_header_parts [OF assms(4)])
  then show ?thesis
    using first_byte [OF assms(3)] second_byte [OF short_length_small, of len]
    by (auto simp: messagelink_read_frame_def sent_frame_def)
qed

lemma read_mask_key:
  assumes "is_open s" "flowing (rx s)" "length key = 4" "stream (rx s) = (if masked then key else []) @ rest"
    "mask_bit frame = (if masked then 1 else 0)"
  shows "\<exists>es'. read_mask frame s = (0, if masked then key else [0, 0, 0, 0], s\<lparr>rx := es'\<rparr>)
     \<and> flowing es' \<and> stream es' = rest"
proof (cases masked)
  case True
  then show ?thesis
    using read_prefix [OF assms(1,2), of key rest 4] assms by (auto simp: read_mask_def)
next
  case False
  then show ?thesis using assms by (auto simp: read_mask_def intro!: exI [of _ "rx s"])
qed

lemma read_message_frame:
  assumes "is_open s" "flowing (rx s)" "opc AND 0x0f = opc" "length key = 4"
    "stream (rx s) = frame_make_header opc (\<not> c) key len @ payload"
    "announced len \<le> 16777216" "unat (announced len) \<le> length payload"
  shows "\<exists>es'. messagelink_read_message c s inp
      = (0, Some (sent_frame opc (\<not> c) len), unmasked c key 0 (take (unat (announced len)) payload),
         s\<lparr>rx := es'\<rparr>)
    \<and> flowing es' \<and> stream es' = drop (unat (announced len)) payload"
proof -
  let ?f = "sent_frame opc (\<not> c) len"
  obtain es1 where 1: "messagelink_read_frame s = (0, Some ?f, s\<lparr>rx := es1\<rparr>)" "flowing es1"
    "stream es1 = extended_length len @ (if \<not> c then key else []) @ payload"
    using read_frame_header [OF assms(1-5)] by auto
  obtain es2 where 2: "read_length ?f (s\<lparr>rx := es1\<rparr>) = (0, announced len, s\<lparr>rx := es2\<rparr>)" "flowing es2"
    "stream es2 = (if \<not> c then key else []) @ payload"
    using read_length_extended [of "s\<lparr>rx := es1\<rparr>" len _ ?f] 1(2,3) assms(1)
    by (auto simp: sent_frame_def)
  let ?key = "if \<not> c then key else [0, 0, 0, 0]"
  obtain es3 where 3: "read_mask ?f (s\<lparr>rx := es2\<rparr>) = (0, ?key, s\<lparr>rx := es3\<rparr>)" "flowing es3"
    "stream es3 = payload"
    using read_mask_key [of "s\<lparr>rx := es2\<rparr>" key "\<not> c" payload ?f] 2(2,3) assms(1,4)
    by (auto simp: sent_frame_def)
  have "is_open (s\<lparr>rx := es3\<rparr>)" "flowing (rx (s\<lparr>rx := es3\<rparr>))"
    "unat (announced len) \<le> length (stream (rx (s\<lparr>rx := es3\<rparr>)))"
    using assms 3 by simp_all
  from read_payload_stream [OF this, of c ?key 0 "[]"] 3(3)
  obtain es4 where 4: "read_payload c ?key (s\<lparr>rx := es3\<rparr>) (unat (announced len)) 0 []
      = (0, unmasked c ?key 0 (take (unat (announced len)) payload), s\<lparr>rx := es4\<rparr>)"
    "flowing es4" "stream es4 = drop (unat (announced len)) payload"
    by auto
  have "unmasked c ?key 0 bs = unmasked c key 0 bs" for bs by (simp add: unmasked_def)
  then show ?thesis using 1(1) 2(1) 3(1) 4 assms(6)
    by (intro exI [of _ es4]) (simp add: messagelink_read_message_def not_less)
qed

lemma unmasked_payload: "unmasked c key 0 (if \<not> c then mask_blocks data key 0 else data) = data"
  by (simp add: unmasked_def mask_blocks_eq mask_block_twice)

lemma length_mask_blocks: "length (mask_blocks data key j) = length data"
  by (simp add: mask_blocks_eq)

lemma frame_make_eq:
  "frame_make [] opc masked key data
   = frame_make_header opc masked key (of_nat (length data)) @ (if masked then mask_blocks data key 0 else data)"
  by (simp add: frame_make_def frame_append_payload_def)

lemma unat_of_length: "length xs \<le> 16777216 \<Longrightarrow> unat (of_nat (length xs) :: u64) = length xs"
  by (simp add: unsigned_of_nat take_bit_nat_eq_self)

lemma frame_roundtrip_core:
  assumes "is_open s" "flowing (rx s)" "opc AND 0x0f = opc" "length key = 4"
    "length data \<le> 16777216" "length data \<noteq> 65536"
    "stream (rx s) = frame_make [] opc (\<not> is_client) key data @ rest"
  shows "\<exists>frame es'. messagelink_read_message is_client s inp = (0, Some frame, data, s\<lparr>rx := es'\<rparr>)
     \<and> fin frame = 1 \<and> opcode frame = opc \<and> (mask_bit frame \<noteq> 0 \<longleftrightarrow> \<not> is_client)
     \<and> flowing es' \<and> stream es' = rest"
proof -
  let ?payload = "if \<not> is_client then mask_blocks data key 0 else data"
  have u: "unat (of_nat (length data) :: u64) = length data" by (rule unat_of_length [OF assms(5)])
  then have "(of_nat (length data) :: u64) \<noteq> 65536" using assms(6) by auto
  then have a: "announced (of_nat (length data)) = of_nat (length data)" by (simp add: announced_def)
  have l: "length ?payload = length data" by (simp add: length_mask_blocks)
  have m: "announced (of_nat (length data)) \<le> 16777216"
    unfolding a using assms(5) u by (simp add: word_le_nat_alt)
  have st: "stream (rx s) = frame_make_header opc (\<not> is_client) key (of_nat (length data)) @ ?payload @ rest"
    using assms(7) by (simp add: frame_make_eq)
  have len: "unat (announced (of_nat (length data))) \<le> length (?payload @ rest)"
    unfolding a u using l by simp
  from read_message_frame [OF assms(1-4) st m len, of inp] show ?thesis
    unfolding a u using l unmasked_payload [of is_client key data] by (auto simp: sent_frame_def)
qed

section \<open>Properties\<close>



text \<open>A message of exactly 65536 bytes is lost: its header fits the 16-bit length field only
  truncated, the receiver reads an empty message and takes the payload for the next frames.\<close>

theorem frame_length_65536_lost:
  assumes "is_open s" "flowing (rx s)" "opc AND 0x0f = opc" "length key = 4" "length data = 65536"
    "stream (rx s) = frame_make [] opc (\<not> is_client) key data @ rest"
  shows "\<exists>frame es'. messagelink_read_message is_client s inp = (0, Some frame, [], s\<lparr>rx := es'\<rparr>)
     \<and> opcode frame = opc
     \<and> stream es' = (if is_client then data else fst (mask_block data key 0)) @ rest"
proof -
  let ?payload = "if \<not> is_client then mask_blocks data key 0 else data"
  have a: "announced (of_nat (length data)) = 0" using assms(5) by (simp add: announced_def)
  have st: "stream (rx s) = frame_make_header opc (\<not> is_client) key (of_nat (length data)) @ ?payload @ rest"
    using assms(6) by (simp add: frame_make_eq)
  have m: "announced (of_nat (length data)) \<le> 16777216" "unat (announced (of_nat (length data))) \<le> length (?payload @ rest)"
    unfolding a by simp_all
  from read_message_frame [OF assms(1-4) st m, of inp] show ?thesis
    unfolding a by (auto simp: sent_frame_def mask_blocks_eq unmasked_def)
qed

theorem frame_length_65536_lost_witness:
  "\<exists>frame es'. messagelink_read_message True
      \<lparr>is_open = True, rx = [Seg (frame_make [] 1 False [0, 0, 0, 0] (replicate 65536 7))],
       selects = [], txq = [], tx = []\<rparr> []
    = (0, Some frame, [], \<lparr>is_open = True, rx = es', selects = [], txq = [], tx = []\<rparr>)
    \<and> stream es' = replicate 65536 7"
  using frame_length_65536_lost [of "\<lparr>is_open = True,
       rx = [Seg (frame_make [] 1 False [0, 0, 0, 0] (replicate 65536 7))], selects = [], txq = [], tx = []\<rparr>"
       1 "[0, 0, 0, 0]" "replicate 65536 7" True "[]" "[]"]
  by auto

end
