(* ===== verification/Http.thy ===== *)
theory Http
  imports Net
begin

text \<open>
  HTTP messages, librcom/src/http.c: header fields, the status line, what is sent for requests,
  responses, errors and streams, chunks, and the table of media types.  Texts printed into a buffer of
  the stack are sent with the length snprintf announces, which is the length of the whole text even
  when it did not fit.
\<close>

section \<open>Model\<close>

subsection \<open>Header fields\<close>

record http_header_t =
  h_name :: "string option"
  h_value :: "string option"

definition new_http_header :: "string option \<Rightarrow> string option \<Rightarrow> http_header_t" where
  "new_http_header name value = \<lparr>h_name = name, h_value = value\<rparr>"

definition append_str :: "string option \<Rightarrow> string \<Rightarrow> string" where
  "append_str s value = (case s of None \<Rightarrow> value | Some t \<Rightarrow> t @ value)"

text \<open>The loop of _trim_ cuts line ends and blanks from the end.\<close>

definition trim_str :: "string \<Rightarrow> string" where
  "trim_str s = rev (dropWhile (\<lambda>c. c = chLF \<or> c = chCR \<or> c = CHR '' '') (rev s))"

definition http_header_name_append :: "http_header_t \<Rightarrow> string \<Rightarrow> http_header_t" where
  "http_header_name_append h name = h\<lparr>h_name := Some (append_str (h_name h) name)\<rparr>"

definition http_header_value_append :: "http_header_t \<Rightarrow> string \<Rightarrow> http_header_t" where
  "http_header_value_append h value = h\<lparr>h_value := Some (trim_str (append_str (h_value h) value))\<rparr>"

definition http_header_set_value :: "http_header_t \<Rightarrow> string \<Rightarrow> http_header_t" where
  "http_header_set_value h value = h\<lparr>h_value := Some value\<rparr>"

subsection \<open>Status\<close>

definition status_table :: "(int \<times> string) list" where
  "status_table =
    [(100, ''Continue''), (101, ''Switching Protocols''), (200, ''OK''), (201, ''Created''),
     (202, ''Accepted''), (203, ''Non-Authoritative Information''), (204, ''No Content''),
     (205, ''Reset Content''), (206, ''Partial Content''), (300, ''Multiple Choices''),
     (301, ''Moved Permanently''), (302, ''Found''), (303, ''See Other''), (304, ''Not Modified''),
     (307, ''Temporary Redirect''), (308, ''Permanent Redirect''), (400, ''Bad Request''),
     (401, ''Unauthorized''), (403, ''Forbidden''), (404, ''Not Found''),
     (405, ''Method Not Allowed''), (406, ''Not Acceptable''),
     (407, ''Proxy Authentication Required''), (408, ''Request Timeout''), (409, ''Conflict''),
     (410, ''Gone''), (411, ''Length Required''), (412, ''Precondition Failed''),
     (413, ''Payload Too Large''), (414, ''URI Too Long''), (415, ''Unsupported Media Type''),
     (416, ''Range Not Satisfiable''), (417, ''Expectation Failed''),
     (418, ''I'' @ [CHR 0x27] @ ''m a teapot''), (422, ''Unprocessable Entity''), (425, ''Too Early''),
     (426, ''Upgrade Required''), (428, ''Precondition Required''), (429, ''Too Many Requests''),
     (431, ''Request Header Fields Too Large''), (451, ''Unavailable For Legal Reasons''),
     (500, ''Internal Server Error''), (501, ''Not Implemented''), (502, ''Bad Gateway''),
     (503, ''Service Unavailable''), (504, ''Gateway Timeout''),
     (505, ''HTTP Version Not Supported''), (511, ''Network Authentication Required'')]"

definition http_status_string :: "int \<Rightarrow> string" where
  "http_status_string status = (case map_of status_table status of None \<Rightarrow> ''--'' | Some s \<Rightarrow> s)"

subsection \<open>Sending\<close>

text \<open>
  A text printed with snprintf into a buffer of the given size and sent with the length snprintf
  returned: a text that just does not fit is sent with the final zero in place of its last character,
  a longer one makes the send read past the end of the buffer.
\<close>

definition printed :: "nat \<Rightarrow> string \<Rightarrow> bytes outcome" where
  "printed bufsize text =
     (if length text < bufsize then Ret (bytes_of text)
      else if length text = bufsize then Ret (bytes_of (take (bufsize - 1) text) @ [0])
      else Undef)"

definition send_printed :: "tcp_t \<Rightarrow> nat \<Rightarrow> string \<Rightarrow> (int \<times> tcp_t) outcome" where
  "send_printed s bufsize text = bind_out (printed bufsize text) (\<lambda>bs. Ret (tcp_socket_send s bs))"

definition header_line :: "http_header_t \<Rightarrow> string" where
  "header_line h =
     (case h_name h of None \<Rightarrow> ''(null)'' | Some n \<Rightarrow> n) @ '': ''
     @ (case h_value h of None \<Rightarrow> ''(null)'' | Some v \<Rightarrow> v) @ crlf"

definition status_line :: "int \<Rightarrow> string" where
  "status_line status = ''HTTP/1.1 '' @ show_int status @ '' '' @ http_status_string status @ crlf"

text \<open>The status, the header fields and the body of the response.\<close>

definition http_send_response :: "tcp_t \<Rightarrow> int \<Rightarrow> http_header_t list \<Rightarrow> bytes \<Rightarrow> int \<times> tcp_t" where
  "http_send_response s status hs body =
     (let headers = status_line status
            @ ''Content-Length: '' @ show_nat (length body) @ crlf
            @ ''Connection: close'' @ crlf
            @ concat (map header_line hs) @ crlf;
          (err, s) = tcp_socket_send s (bytes_of headers)
      in if err \<noteq> 0 then (-1, s) else tcp_socket_send s body)"

definition http_send_headers :: "tcp_t \<Rightarrow> int \<Rightarrow> string \<Rightarrow> int \<Rightarrow> int \<times> tcp_t" where
  "http_send_headers s status mimetype content_length =
     (let header = status_line status @ ''Content-Type: '' @ mimetype @ crlf
            @ ''Content-Length: '' @ show_int content_length @ crlf
            @ ''Access-Control-Allow-Origin: *'' @ crlf @ ''Connection: close'' @ crlf @ crlf
      in if length header > 2048 - 1 then (-1, s) else tcp_socket_send s (bytes_of header))"

definition http_send_error_headers :: "tcp_t \<Rightarrow> int \<Rightarrow> (int \<times> tcp_t) outcome" where
  "http_send_error_headers s status =
     send_printed s 2048 (status_line status @ ''Connection: close'' @ crlf @ crlf)"

definition http_send_streaming_headers :: "tcp_t \<Rightarrow> string \<Rightarrow> (int \<times> tcp_t) outcome" where
  "http_send_streaming_headers s mimetype =
     send_printed s 2048 (status_line 200 @ ''Content-Type: '' @ mimetype @ crlf
       @ ''Transfer-Encoding: chunked'' @ crlf @ crlf)"

definition http_send_request_headers ::
  "tcp_t \<Rightarrow> string \<Rightarrow> string \<Rightarrow> string \<Rightarrow> int \<Rightarrow> (int \<times> tcp_t) outcome" where
  "http_send_request_headers s resource host content_type content_length =
     (let slash = (if resource \<noteq> [] \<and> hd resource = CHR ''/'' then [] else ''/'')
      in send_printed s 2048
           (if content_length > 0 then
              ''POST '' @ slash @ resource @ '' HTTP/1.1'' @ crlf @ ''Host: '' @ host @ crlf
              @ ''Content-Type: '' @ content_type @ crlf
              @ ''Content-Length: '' @ show_int content_length @ crlf @ crlf
            else
              ''GET '' @ slash @ resource @ '' HTTP/1.1'' @ crlf @ ''Host: '' @ host @ crlf @ crlf))"

text \<open>A failure to send the headers is reported as success.\<close>

definition http_send_request ::
  "tcp_t \<Rightarrow> addr_t \<Rightarrow> string \<Rightarrow> string \<Rightarrow> bytes \<Rightarrow> (int \<times> tcp_t) outcome" where
  "http_send_request s addr resource content_type body =
     bind_out (http_send_request_headers s resource (addr_string (Some addr) 52) content_type
                 (int (length body))) (\<lambda>(ret, s).
       if ret \<noteq> 0 then Ret (0, s)
       else if body \<noteq> [] then Ret (tcp_socket_send s body)
       else Ret (ret, s))"

definition http_send_chunk :: "tcp_t \<Rightarrow> bytes \<Rightarrow> int \<times> tcp_t" where
  "http_send_chunk s chunk =
     (let (r, s) = tcp_socket_send s (bytes_of (show_hex (length chunk) @ crlf))
      in if r = -1 then (-1, s)
         else let (r, s) = tcp_socket_send s chunk
              in if r = -1 then (-1, s)
                 else let (r, s) = tcp_socket_send s (bytes_of crlf)
                      in if r = -1 then (-1, s) else (0, s))"

subsection \<open>Media types\<close>

definition mime_map :: "(string \<times> string) list" where
  "mime_map =
     [(''.html'', ''text/html''), (''.txt'', ''text/plain''),
      (''.js'', ''application/javascript; charset=utf-8''),
      (''.json'', ''application/json; charset=utf-8''), (''.css'', ''text/css''),
      (''.jpg'', ''image/jpeg''), (''.png'', ''image/png''), (''.glb'', ''application/octet-stream''),
      (''.bin'', ''application/octet-stream''), (''.svg'', ''image/svg+xml''),
      (''.xml'', ''application/xml''), (''.ico'', ''image/vnd.microsoft.icon''),
      (''.webmanifest'', ''application/manifest+json'')]"

fun mimetype_loop :: "(string \<times> string) list \<Rightarrow> string \<Rightarrow> string" where
  "mimetype_loop [] filename = ''application/octet-stream''"
| "mimetype_loop ((ext, mimetype) # m) filename =
     (if length filename < length ext + 1 then mimetype_loop m filename
      else if drop (length filename - length ext) filename = ext then mimetype
      else mimetype_loop m filename)"

definition filename_to_mimetype :: "string \<Rightarrow> string" where
  "filename_to_mimetype filename = mimetype_loop mime_map filename"

fun extension_loop :: "(string \<times> string) list \<Rightarrow> string \<Rightarrow> string option" where
  "extension_loop [] mimetype = None"
| "extension_loop ((ext, mt) # m) mimetype =
     (let len = min (length mimetype) (length mt)
      in if take len mt = take len mimetype then Some ext else extension_loop m mimetype)"

definition mimetype_to_fileextension :: "string \<Rightarrow> string option" where
  "mimetype_to_fileextension mimetype = extension_loop mime_map mimetype"


section \<open>Chunks\<close>

text \<open>
  What a chunk looks like on the wire, and how a receiver takes it apart: the length in hexadecimal,
  the data, and a line end after each.
\<close>

definition encode_chunk :: "bytes \<Rightarrow> bytes" where
  "encode_chunk chunk = bytes_of (show_hex (length chunk) @ crlf) @ chunk @ bytes_of crlf"

definition decode_chunk :: "bytes \<Rightarrow> (bytes \<times> bytes) option" where
  "decode_chunk bs =
     (let line = takeWhile (\<lambda>b. b \<noteq> 13) bs; rest = drop (length line + 2) bs;
          (n, t) = read_digits 16 (string_of line) 0
      in if line = [] \<or> t \<noteq> [] \<or> length rest < n + 2 \<or> take 2 (drop n rest) \<noteq> [13, 10] then None
         else Some (take n rest, drop (n + 2) rest))"

fun decode_chunks :: "nat \<Rightarrow> bytes \<Rightarrow> bytes list option" where
  "decode_chunks 0 bs = (if bs = [] then Some [] else None)"
| "decode_chunks (Suc k) bs =
     (case decode_chunk bs of
        None \<Rightarrow> None
      | Some (chunk, rest) \<Rightarrow> map_option (Cons chunk) (decode_chunks k rest))"

lemma bytes_of_crlf: "bytes_of crlf = [13, 10]"
  by (simp add: bytes_of_def)

lemma hex_no_cr: "13 \<notin> set (bytes_of (show_hex n))"
proof
  assume "13 \<in> set (bytes_of (show_hex n))"
  then obtain c where c: "c \<in> set (show_hex n)" "of_char c = (13 :: u8)" by (auto simp: bytes_of_def)
  then obtain d where d: "d < 16" "c = digit_char d" using set_show_base [of 16 c n] by auto
  have "ord c = 13" using unat_of_char [of c] c(2) by simp
  moreover have "48 \<le> ord c" using d by (simp add: digit_char_def)
  ultimately show False by simp
qed

lemma decode_encode_chunk: "decode_chunk (encode_chunk chunk @ rest) = Some (chunk, rest)"
proof -
  let ?line = "bytes_of (show_hex (length chunk))"
  have split: "encode_chunk chunk @ rest = ?line @ 13 # 10 # chunk @ [13, 10] @ rest"
    by (simp add: encode_chunk_def bytes_of_crlf)
  have line: "takeWhile (\<lambda>b. b \<noteq> 13) (encode_chunk chunk @ rest) = ?line"
    unfolding split using hex_no_cr by (rule takeWhile_neq_append)
  have "read_digits 16 (string_of ?line) 0 = (length chunk, [])"
    using read_digits_show_stop [of 16 "[]" "length chunk"] by simp
  moreover have "?line \<noteq> []" by (simp add: bytes_of_def)
  moreover have "drop (length ?line + 2) (encode_chunk chunk @ rest) = chunk @ [13, 10] @ rest"
    unfolding split by simp
  ultimately show ?thesis unfolding decode_chunk_def line Let_def by (simp only:) simp
qed


lemma send_success: "tcp_socket_send s bs = (0, s') \<Longrightarrow> \<exists>q. s' = s\<lparr>txq := q, tx := tx s @ bs\<rparr>"
proof -
  assume a: "tcp_socket_send s bs = (0, s')"
  then have "is_open s" by (auto simp: tcp_socket_send_def split: if_splits)
  from tcp_socket_send_cases [OF this, of bs] a show ?thesis by auto
qed

lemma send_success_tx: "tcp_socket_send s bs = (0, s') \<Longrightarrow> tx s' = tx s @ bs"
  using send_success by fastforce

lemma send_code: "tcp_socket_send s bs = (r, s') \<Longrightarrow> r = 0 \<or> r = -1"
  using tcp_socket_send_cases [of s bs] by (cases "is_open s") (auto simp: tcp_socket_send_def)

lemma send_chunk_success:
  assumes "http_send_chunk s chunk = (0, s')"
  shows "tx s' = tx s @ encode_chunk chunk"
proof -
  obtain r1 s1 where 1: "tcp_socket_send s (bytes_of (show_hex (length chunk) @ crlf)) = (r1, s1)" by fastforce
  obtain r2 s2 where 2: "tcp_socket_send s1 chunk = (r2, s2)" by fastforce
  obtain r3 s3 where 3: "tcp_socket_send s2 (bytes_of crlf) = (r3, s3)" by fastforce
  have r: "r1 = 0" "r2 = 0" "r3 = 0" "s3 = s'"
    using assms 1 2 3 send_code [OF 1] send_code [OF 2] send_code [OF 3]
    by (auto simp: http_send_chunk_def)
  have "tx s1 = tx s @ bytes_of (show_hex (length chunk) @ crlf)" "tx s2 = tx s1 @ chunk"
    "tx s' = tx s2 @ bytes_of crlf"
    using 1 2 3 unfolding r by (blast intro: send_success_tx)+
  then show ?thesis by (simp add: encode_chunk_def)
qed

text \<open>A stream of chunks, sent until one fails.\<close>

fun send_chunks :: "tcp_t \<Rightarrow> bytes list \<Rightarrow> int \<times> tcp_t" where
  "send_chunks s [] = (0, s)"
| "send_chunks s (c # cs) =
     (let (r, s') = http_send_chunk s c in if r \<noteq> 0 then (r, s') else send_chunks s' cs)"

lemma send_chunks_success:
  "send_chunks s cs = (0, s') \<Longrightarrow> tx s' = tx s @ concat (map encode_chunk cs)"
  by (induction cs arbitrary: s) (auto split: prod.splits if_splits dest!: send_chunk_success)

lemma decode_encode_chunks: "decode_chunks (length cs) (concat (map encode_chunk cs)) = Some cs"
  by (induction cs) (simp_all add: decode_encode_chunk)

section \<open>Properties\<close>

text \<open>Streaming in chunks: when every chunk was reported sent, a receiver that decodes what the
  connection carried since the first of them gets exactly the chunks, in order, for every way the
  system accepted the bytes.\<close>

theorem chunks_roundtrip:
  assumes "send_chunks s chunks = (0, s')"
  shows "decode_chunks (length chunks) (drop (length (tx s)) (tx s')) = Some chunks"
  using send_chunks_success [OF assms] by (simp add: decode_encode_chunks)

theorem chunks_roundtrip_witness:
  "\<exists>s'. send_chunks \<lparr>is_open = True, rx = [], selects = [], txq = [], tx = [9]\<rparr> [[1, 2, 3], [4]] = (0, s')
     \<and> decode_chunks 2 (drop 1 (tx s')) = Some [[1, 2, 3], [4]]"
proof -
  obtain s' where s: "send_chunks \<lparr>is_open = True, rx = [], selects = [], txq = [], tx = [9]\<rparr> [[1, 2, 3], [4]]
      = (0, s')"
    by (simp add: http_send_chunk_def tcp_socket_send_idle)
  from chunks_roundtrip [OF this] s show ?thesis by (simp add: numeral_2_eq_2)
qed

text \<open>Asking for a resource reads past the end of the buffer of 2048 bytes exactly when the text of
  the request is longer than the buffer: the length snprintf returns is the length of the whole
  text.  A resource name from the network of about 2000 characters is enough.\<close>

theorem request_headers_overread:
  assumes "content_length \<le> 0"
  shows "http_send_request_headers s resource host content_type content_length = Undef
     \<longleftrightarrow> 2048 < 25 + length host + length resource
               + (if resource \<noteq> [] \<and> hd resource = CHR ''/'' then 0 else 1)"
  using assms by (auto simp: http_send_request_headers_def send_printed_def printed_def Let_def)

theorem request_headers_overread_witness:
  "http_send_request_headers \<lparr>is_open = True, rx = [], selects = [], txq = [], tx = []\<rparr>
     (replicate 3000 CHR ''a'') ''localhost'' [] 0 = Undef"
  using request_headers_overread [of 0 _ "replicate 3000 CHR ''a''" "''localhost''" "[]"] by simp

end
