(* ===== verification/Headers.thy ===== *)
theory Headers
  imports Http
begin

text \<open>
  How the header fields of an HTTP message are collected.  The HTTP parser hands over the name and the
  value of a field in pieces of any size; requests (request.c), responses (response.c) and message
  links (messagelink.c) keep the list of fields and the pieces in the same way.  This theory holds the
  list operations they share, the contract of such a collector as a locale, and what follows from the
  contract: the fields do not depend on how the parser cuts them.
\<close>

section \<open>The list of fields\<close>

fun find_header :: "http_header_t list \<Rightarrow> string \<Rightarrow> http_header_t option" where
  "find_header [] key = None"
| "find_header (h # hs) key = (if h_name h = Some key then Some h else find_header hs key)"

text \<open>The field found is changed in place; a new one is prepended.\<close>

fun set_found :: "http_header_t list \<Rightarrow> string \<Rightarrow> string \<Rightarrow> http_header_t list" where
  "set_found [] key value = []"
| "set_found (h # hs) key value =
     (if h_name h = Some key then http_header_set_value h value # hs else h # set_found hs key value)"

definition set_header :: "http_header_t list \<Rightarrow> string \<Rightarrow> string \<Rightarrow> http_header_t list" where
  "set_header hs key value =
     (case find_header hs key of
        None \<Rightarrow> new_http_header (Some key) (Some value) # hs
      | Some h \<Rightarrow> set_found hs key value)"

definition header_value :: "http_header_t list \<Rightarrow> string \<Rightarrow> string option" where
  "header_value hs key = Option.bind (find_header hs key) h_value"

lemma find_header_set_found:
  "find_header (set_found hs k v) key
   = (if key = k then map_option (\<lambda>h. http_header_set_value h v) (find_header hs k)
      else find_header hs key)"
  by (induction hs) (auto simp: http_header_set_value_def)

lemma header_value_set [simp]:
  "header_value (set_header hs k v) key = (if key = k then Some v else header_value hs key)"
  by (auto simp: set_header_def header_value_def find_header_set_found new_http_header_def
      http_header_set_value_def split: option.splits)

section \<open>Collecting fields\<close>

datatype header_state = HeaderNew | HeaderField | HeaderValue

record collector =
  c_state :: header_state
  c_name :: string
  c_value :: string
  c_headers :: "http_header_t list"

text \<open>A field is stored when both its name and its value are not empty.\<close>

definition store_field :: "http_header_t list \<Rightarrow> string \<Rightarrow> string \<Rightarrow> http_header_t list" where
  "store_field hs n v = (if n \<noteq> [] \<and> v \<noteq> [] then set_header hs n v else hs)"

definition spec_field :: "string \<Rightarrow> collector \<Rightarrow> collector" where
  "spec_field d c =
     (if c_state c = HeaderField then c\<lparr>c_name := c_name c @ d\<rparr>
      else \<lparr>c_state = HeaderField, c_name = d, c_value = [],
            c_headers = store_field (c_headers c) (c_name c) (c_value c)\<rparr>)"

definition spec_value :: "string \<Rightarrow> collector \<Rightarrow> collector" where
  "spec_value d c =
     (if c_state c = HeaderNew then c else c\<lparr>c_value := c_value c @ d, c_state := HeaderValue\<rparr>)"

datatype header_cb = Field string | Value string

fun spec_cb :: "header_cb \<Rightarrow> collector \<Rightarrow> collector" where
  "spec_cb (Field d) c = spec_field d c"
| "spec_cb (Value d) c = spec_value d c"

text \<open>The fields as the parser hands them over: each name and each value in at least one piece.\<close>

definition cbs_of :: "string list \<times> string list \<Rightarrow> header_cb list" where
  "cbs_of f = map Field (fst f) @ map Value (snd f)"

definition pieces_ok :: "string list \<times> string list \<Rightarrow> bool" where
  "pieces_ok f \<longleftrightarrow> fst f \<noteq> [] \<and> snd f \<noteq> []"

definition fields_of :: "(string list \<times> string list) list \<Rightarrow> (string \<times> string) list" where
  "fields_of fs = map (\<lambda>f. (concat (fst f), concat (snd f))) fs"

definition pending :: "collector \<Rightarrow> http_header_t list" where
  "pending c = store_field (c_headers c) (c_name c) (c_value c)"

lemma fold_more_field:
  "c_state c = HeaderField \<Longrightarrow> fold spec_cb (map Field ds) c = c\<lparr>c_name := c_name c @ concat ds\<rparr>"
  by (induction ds arbitrary: c) (simp_all add: spec_field_def)

lemma fold_value:
  "c_state c \<noteq> HeaderNew \<Longrightarrow> ds \<noteq> [] \<Longrightarrow>
   fold spec_cb (map Value ds) c = c\<lparr>c_value := c_value c @ concat ds, c_state := HeaderValue\<rparr>"
proof (induction ds arbitrary: c)
  case (Cons d ds)
  have s: "c_state c \<noteq> HeaderNew" by fact
  show ?case
  proof (cases "ds = []")
    case True
    with s show ?thesis by (simp add: spec_value_def)
  next
    case False
    with s Cons.IH [of "spec_value d c"] show ?thesis by (simp add: spec_value_def)
  qed
qed simp

lemma fold_one_field:
  assumes "pieces_ok f" "c_state c \<noteq> HeaderField"
  shows "fold spec_cb (cbs_of f) c
    = \<lparr>c_state = HeaderValue, c_name = concat (fst f), c_value = concat (snd f), c_headers = pending c\<rparr>"
proof -
  obtain d ds where d: "fst f = d # ds" using assms by (cases "fst f") (auto simp: pieces_ok_def)
  have "fold spec_cb (map Field (fst f)) c
    = \<lparr>c_state = HeaderField, c_name = concat (fst f), c_value = [], c_headers = pending c\<rparr>"
    using assms(2) by (simp add: d spec_field_def fold_more_field pending_def)
  then show ?thesis using assms(1) by (simp add: cbs_of_def fold_value pieces_ok_def)
qed

lemma fold_fields:
  assumes "list_all pieces_ok fs" "c_state c \<noteq> HeaderField"
  shows "pending (fold spec_cb (concat (map cbs_of fs)) c)
         = fold (\<lambda>(n, v) hs. store_field hs n v) (fields_of fs) (pending c)"
  using assms
proof (induction fs arbitrary: c)
  case (Cons f fs)
  let ?c = "\<lparr>c_state = HeaderValue, c_name = concat (fst f), c_value = concat (snd f), c_headers = pending c\<rparr>"
  have "pending (fold spec_cb (concat (map cbs_of (f # fs))) c) = pending (fold spec_cb (concat (map cbs_of fs)) ?c)"
    using Cons.prems by (simp add: fold_one_field)
  also have "\<dots> = fold (\<lambda>(n, v) hs. store_field hs n v) (fields_of fs) (pending ?c)"
    using Cons.prems by (intro Cons.IH) simp_all
  finally show ?case by (simp add: fields_of_def) (simp add: pending_def)
qed (simp add: fields_of_def)

text \<open>What is found afterwards: the last value given for a name.\<close>

definition nonempty_fields :: "(string \<times> string) list \<Rightarrow> (string \<times> string) list" where
  "nonempty_fields fs = filter (\<lambda>(n, v). n \<noteq> [] \<and> v \<noteq> []) fs"

lemma header_value_store:
  "header_value (store_field hs n v) key
   = (if n \<noteq> [] \<and> v \<noteq> [] \<and> key = n then Some v else header_value hs key)"
  by (simp add: store_field_def)

lemma header_value_fold:
  "header_value (fold (\<lambda>(n, v) hs. store_field hs n v) fs hs) key
   = (case map_of (rev (nonempty_fields fs)) key of None \<Rightarrow> header_value hs key | Some v \<Rightarrow> Some v)"
proof (induction fs arbitrary: hs)
  case (Cons f fs)
  obtain n v where "f = (n, v)" by fastforce
  with Cons [of "store_field hs n v"] show ?case
    by (cases "map_of (rev (nonempty_fields fs)) key")
       (auto simp: header_value_store nonempty_fields_def map_add_def)
qed (simp add: nonempty_fields_def)

section \<open>The contract\<close>

text \<open>
  The parser calls on_field and on_value; the state shows a collector until the header is complete
  and its buffers are gone.
\<close>

fun call_cb :: "(string \<Rightarrow> 's \<Rightarrow> 's outcome) \<Rightarrow> (string \<Rightarrow> 's \<Rightarrow> 's outcome) \<Rightarrow> header_cb \<Rightarrow> 's \<Rightarrow> 's outcome" where
  "call_cb on_field on_value (Field d) s = on_field d s"
| "call_cb on_field on_value (Value d) s = on_value d s"

fun call_cbs ::
  "(string \<Rightarrow> 's \<Rightarrow> 's outcome) \<Rightarrow> (string \<Rightarrow> 's \<Rightarrow> 's outcome) \<Rightarrow> header_cb list \<Rightarrow> 's \<Rightarrow> 's outcome" where
  "call_cbs on_field on_value [] s = Ret s"
| "call_cbs on_field on_value (cb # cbs) s =
     bind_out (call_cb on_field on_value cb s) (call_cbs on_field on_value cbs)"

locale header_collector =
  fixes view :: "'s \<Rightarrow> collector option"
    and on_field :: "string \<Rightarrow> 's \<Rightarrow> 's outcome"
    and on_value :: "string \<Rightarrow> 's \<Rightarrow> 's outcome"
  assumes on_field_spec: "view s = Some c \<Longrightarrow> \<exists>s'. on_field d s = Ret s' \<and> view s' = Some (spec_field d c)"
    and on_value_spec: "view s = Some c \<Longrightarrow> \<exists>s'. on_value d s = Ret s' \<and> view s' = Some (spec_value d c)"
begin

lemma call_refines: "view s = Some c \<Longrightarrow> \<exists>s'. call_cb on_field on_value cb s = Ret s' \<and> view s' = Some (spec_cb cb c)"
  by (cases cb) (simp_all add: on_field_spec on_value_spec)

lemma calls_refine: "view s = Some c \<Longrightarrow> \<exists>s'. call_cbs on_field on_value cbs s = Ret s' \<and> view s' = Some (fold spec_cb cbs c)"
proof (induction cbs arbitrary: s c)
  case (Cons cb cbs)
  from call_refines [OF Cons.prems, of cb] obtain s1 where
    "call_cb on_field on_value cb s = Ret s1" "view s1 = Some (spec_cb cb c)" by blast
  with Cons.IH [of s1] show ?case by auto
qed simp

lemma collected_value:
  assumes "view s = Some c" "c_state c \<noteq> HeaderField" "list_all pieces_ok fs"
  shows "\<exists>s' c'. call_cbs on_field on_value (concat (map cbs_of fs)) s = Ret s' \<and> view s' = Some c'
     \<and> header_value (pending c') key
        = (case map_of (rev (nonempty_fields (fields_of fs))) key of
             None \<Rightarrow> header_value (pending c) key | Some v \<Rightarrow> Some v)"
  using calls_refine [OF assms(1), of "concat (map cbs_of fs)"] fold_fields [OF assms(3,2)]
    header_value_fold by metis

end

end
