(* ===== verification/Request.thy ===== *)
theory Request
  imports Headers
begin

text \<open>
  Requests as a server reads them, librcom/src/request.c.  The HTTP parser is third-party code: it is
  an argument, a function that feeds bytes to the callbacks of the request and tells how many bytes it
  consumed.  The buffers that are deleted when the header is complete are options.
\<close>

section \<open>Model\<close>

datatype http_event =
  OnUrl string | OnStatus string | OnField string | OnValue string
  | OnHeadersComplete int | OnBody bytes | OnComplete

text \<open>
  The parser calls the callbacks of a message of type \<open>'s\<close>; their result codes go back to it.  It has a
  state of its own, and its result is the number of bytes parsed.
\<close>

type_synonym ('s, 'p) parser_exec =
  "('s \<Rightarrow> http_event \<Rightarrow> (int \<times> 's) outcome) \<Rightarrow> 'p \<Rightarrow> bytes \<Rightarrow> 's \<Rightarrow> (nat \<times> 'p \<times> 's) outcome"

abbreviation (input) HTTP_GET :: int where "HTTP_GET \<equiv> 1"
abbreviation (input) HTTP_POST :: int where "HTTP_POST \<equiv> 3"
abbreviation (input) HTTP_METHOD_UNSUPPORTED :: int where "HTTP_METHOD_UNSUPPORTED \<equiv> 0"
abbreviation (input) HTTP_METHOD_GET :: int where "HTTP_METHOD_GET \<equiv> 1"
abbreviation (input) HTTP_METHOD_POST :: int where "HTTP_METHOD_POST \<equiv> 2"

datatype parse_what = PARSE_HEADERS | PARSE_ALL

record request_t =
  r_method :: int
  r_uri :: "string option"
  r_arg :: "string option"
  r_body :: "bytes option"
  r_headers :: "http_header_t list"
  r_continue :: bool
  r_what :: parse_what
  r_hstate :: header_state
  r_uri_buffer :: "string option"
  r_hname :: "string option"
  r_hvalue :: "string option"

definition new_request :: request_t where
  "new_request =
     \<lparr>r_method = 0, r_uri = None, r_arg = None, r_body = None, r_headers = [], r_continue = False,
      r_what = PARSE_HEADERS, r_hstate = HeaderNew, r_uri_buffer = Some [], r_hname = Some [],
      r_hvalue = Some []\<rparr>"

definition request_body :: "request_t \<Rightarrow> bytes option" where
  "request_body r = r_body r"

definition request_length :: "request_t \<Rightarrow> nat" where
  "request_length r = (case r_body r of None \<Rightarrow> 0 | Some b \<Rightarrow> length b)"

text \<open>The JSON parser is an argument; parsing appends a zero to the body.\<close>

definition request_parse :: "(string \<Rightarrow> 'j) \<Rightarrow> 'j \<Rightarrow> request_t \<Rightarrow> 'j \<times> request_t" where
  "request_parse json_parse json_null r =
     (case r_body r of
        None \<Rightarrow> (json_null, r)
      | Some b \<Rightarrow>
          if b = [] then (json_null, r)
          else (json_parse (string_of (takeWhile (\<lambda>x. x \<noteq> 0) b)), r\<lparr>r_body := Some (b @ [0])\<rparr>))"

definition request_message_complete :: "request_t \<Rightarrow> (int \<times> request_t) outcome" where
  "request_message_complete r = Ret (0, r\<lparr>r_continue := False\<rparr>)"

definition request_on_body :: "request_t \<Rightarrow> bytes \<Rightarrow> (int \<times> request_t) outcome" where
  "request_on_body r d =
     Ret (0, r\<lparr>r_body := Some ((case r_body r of None \<Rightarrow> [] | Some b \<Rightarrow> b) @ d)\<rparr>)"

definition request_on_url :: "request_t \<Rightarrow> string \<Rightarrow> (int \<times> request_t) outcome" where
  "request_on_url r d =
     bind_out (deref (r_uri_buffer r)) (\<lambda>u. Ret (0, r\<lparr>r_uri_buffer := Some (u @ d)\<rparr>))"

definition request_add_header :: "request_t \<Rightarrow> string \<Rightarrow> string \<Rightarrow> int \<times> request_t" where
  "request_add_header r key value =
     (0, r\<lparr>r_headers := new_http_header (Some key) (Some value) # r_headers r\<rparr>)"

definition request_get_header :: "request_t \<Rightarrow> string \<Rightarrow> http_header_t option" where
  "request_get_header r key = find_header (r_headers r) key"

definition request_get_header_value :: "request_t \<Rightarrow> string \<Rightarrow> string option" where
  "request_get_header_value r key =
     (case request_get_header r key of None \<Rightarrow> None | Some h \<Rightarrow> h_value h)"

definition request_set_header :: "request_t \<Rightarrow> string \<Rightarrow> string \<Rightarrow> int \<times> request_t" where
  "request_set_header r key value =
     (case request_get_header r key of
        None \<Rightarrow> request_add_header r key value
      | Some h \<Rightarrow> (0, r\<lparr>r_headers := set_found (r_headers r) key value\<rparr>))"

definition request_on_header_field :: "string \<Rightarrow> request_t \<Rightarrow> request_t outcome" where
  "request_on_header_field d r =
     bind_out (deref (r_hname r)) (\<lambda>n. bind_out (deref (r_hvalue r)) (\<lambda>v.
       if r_hstate r = HeaderNew \<or> r_hstate r = HeaderValue then
         (let r = (if length n > 0 \<and> length v > 0 then snd (request_set_header r n v) else r)
          in Ret (r\<lparr>r_hname := Some d, r_hvalue := Some [], r_hstate := HeaderField\<rparr>))
       else Ret (r\<lparr>r_hname := Some (n @ d)\<rparr>)))"

definition request_on_header_value :: "string \<Rightarrow> request_t \<Rightarrow> request_t outcome" where
  "request_on_header_value d r =
     (if r_hstate r = HeaderNew then Ret r
      else bind_out (deref (r_hvalue r)) (\<lambda>v.
             Ret (r\<lparr>r_hvalue := Some (v @ d), r_hstate := HeaderValue\<rparr>)))"

text \<open>
  The last field is stored, the target is split at the first question mark and the buffers go.  A
  target that does not fit into 2048 bytes with its final zero is an error.
\<close>

definition request_on_headers_complete :: "int \<Rightarrow> request_t \<Rightarrow> (int \<times> request_t) outcome" where
  "request_on_headers_complete method r =
     bind_out (deref (r_hname r)) (\<lambda>n. bind_out (deref (r_hvalue r)) (\<lambda>v.
     bind_out (deref (r_uri_buffer r)) (\<lambda>u.
       let r = (if length n > 0 \<and> length v > 0 then snd (request_set_header r n v) else r)
       in if length u + 1 > 2048 then Ret (-1, r)
          else
            let r = (case strchr u CHR ''?'' of
                       None \<Rightarrow> r\<lparr>r_uri := Some u\<rparr>
                     | Some t \<Rightarrow> r\<lparr>r_uri := Some (takeWhile (\<lambda>c. c \<noteq> CHR ''?'') u), r_arg := Some (tl t)\<rparr>);
                r = r\<lparr>r_uri_buffer := None, r_hname := None, r_hvalue := None\<rparr>;
                r = r\<lparr>r_method := (if method = HTTP_GET then HTTP_METHOD_GET
                                   else if method = HTTP_POST then HTTP_METHOD_POST
                                   else HTTP_METHOD_UNSUPPORTED)\<rparr>
            in Ret (0, if r_what r = PARSE_HEADERS then r\<lparr>r_continue := False\<rparr> else r))))"

text \<open>The callbacks installed for a request.\<close>

fun request_callback :: "request_t \<Rightarrow> http_event \<Rightarrow> (int \<times> request_t) outcome" where
  "request_callback r (OnUrl d) = request_on_url r d"
| "request_callback r (OnField d) = map_out (Pair 0) (request_on_header_field d r)"
| "request_callback r (OnValue d) = map_out (Pair 0) (request_on_header_value d r)"
| "request_callback r (OnHeadersComplete m) = request_on_headers_complete m r"
| "request_callback r (OnBody d) = request_on_body r d"
| "request_callback r OnComplete = request_message_complete r"
| "request_callback r (OnStatus d) = Ret (0, r)"

text \<open>The loop: the connection is read byte by byte.\<close>

function request_parse_loop ::
  "(request_t, 'p) parser_exec \<Rightarrow> nat option \<Rightarrow> 'p \<Rightarrow> tcp_t \<Rightarrow> request_t
   \<Rightarrow> (int \<times> tcp_t \<times> request_t) outcome" where
  "request_parse_loop exec q p s r =
     (case app_quit q of
        (True, q') \<Rightarrow> Ret (0, s, r)
      | (False, q') \<Rightarrow>
          if \<not> r_continue r then Ret (0, s, r)
          else case tcp_socket_recv s 1 of
            (received, buf, s') \<Rightarrow>
              if received < 0 then
                map_out (\<lambda>(err, s''). (-1, s'', r)) (http_send_error_headers s' 500)
              else case exec request_callback p buf r of
                Undef \<Rightarrow> Undef
              | Ret (parsed, p', r') \<Rightarrow>
                  if received = 0 then (if r_continue r' then Ret (-1, s', r') else Ret (0, s', r'))
                  else if int parsed \<noteq> received \<and> int parsed \<noteq> received - 1 \<and> r_continue r'
                    then Ret (-1, s', r')
                  else request_parse_loop exec q' p' s' r')"
  by pat_completeness auto
termination
  by (relation "measure (\<lambda>(exec, q, p, s, r). rx_size (rx s))") (auto intro!: recv_decreases [OF sym])

declare request_parse_loop.simps [simp del]

definition request_parse_html ::
  "(request_t, 'p) parser_exec \<Rightarrow> nat option \<Rightarrow> 'p \<Rightarrow> request_t \<Rightarrow> tcp_t \<Rightarrow> parse_what
   \<Rightarrow> (int \<times> tcp_t \<times> request_t) outcome" where
  "request_parse_html exec q p r s what =
     request_parse_loop exec q p s (r\<lparr>r_what := what, r_continue := True\<rparr>)"

definition request_is_websocket :: "request_t \<Rightarrow> bool" where
  "request_is_websocket r =
     (if request_get_header_value r ''Sec-WebSocket-Key'' \<noteq> None then True
      else if request_get_header_value r ''Sec-WebSocket-Version'' \<noteq> None then True
      else if request_get_header_value r ''Upgrade'' = Some ''websocket'' then True
      else case request_get_header_value r ''Connection'' of
             None \<Rightarrow> False
           | Some v \<Rightarrow> contains v ''Upgrade'' \<or> contains v ''upgrade'')"

definition valid_websocket_key :: "string \<Rightarrow> bool" where
  "valid_websocket_key key =
     (if length key \<noteq> 24 then False
      else if key ! 22 \<noteq> CHR ''='' \<or> key ! 23 \<noteq> CHR ''='' then False
      else list_all (\<lambda>c. is_lower c \<or> is_upper c \<or> is_digit c \<or> c = CHR ''+'' \<or> c = CHR ''/'') (take 22 key))"

definition request_is_valid_websocket :: "request_t \<Rightarrow> bool" where
  "request_is_valid_websocket r =
     (case request_get_header_value r ''Sec-WebSocket-Key'' of
        None \<Rightarrow> False
      | Some k \<Rightarrow>
          if \<not> valid_websocket_key k then False
          else if request_get_header_value r ''Sec-WebSocket-Version'' \<noteq> Some ''13'' then False
          else if request_get_header_value r ''Upgrade'' \<noteq> Some ''websocket'' then False
          else case request_get_header_value r ''Connection'' of
                 None \<Rightarrow> False
               | Some v \<Rightarrow> contains v ''Upgrade'' \<or> contains v ''upgrade'')"


section \<open>Header fields\<close>

definition request_view :: "request_t \<Rightarrow> collector option" where
  "request_view r =
     (case (r_hname r, r_hvalue r) of
        (Some n, Some v) \<Rightarrow> Some \<lparr>c_state = r_hstate r, c_name = n, c_value = v, c_headers = r_headers r\<rparr>
      | _ \<Rightarrow> None)"

lemma request_set_header_eq:
  "request_set_header r key value = (0, r\<lparr>r_headers := set_header (r_headers r) key value\<rparr>)"
  by (simp add: request_set_header_def request_get_header_def set_header_def request_add_header_def
      split: option.splits)

lemma request_view_Some:
  "request_view r = Some c \<longleftrightarrow> r_hname r = Some (c_name c) \<and> r_hvalue r = Some (c_value c)
     \<and> r_hstate r = c_state c \<and> r_headers r = c_headers c"
  by (cases c) (auto simp: request_view_def split: option.splits)

lemma request_on_header_field_spec:
  assumes "request_view r = Some c"
  shows "\<exists>r'. request_on_header_field d r = Ret r' \<and> request_view r' = Some (spec_field d c)"
  using assms unfolding request_view_Some
  by (cases "c_state c")
     (auto simp: request_on_header_field_def spec_field_def store_field_def request_set_header_eq)

lemma request_on_header_value_spec:
  assumes "request_view r = Some c"
  shows "\<exists>r'. request_on_header_value d r = Ret r' \<and> request_view r' = Some (spec_value d c)"
  using assms unfolding request_view_Some
  by (auto simp: request_on_header_value_def spec_value_def)

interpretation req: header_collector request_view request_on_header_field request_on_header_value
  by unfold_locales (fact request_on_header_field_spec request_on_header_value_spec)+

lemma request_value_header_value: "request_get_header_value r key = header_value (r_headers r) key"
  by (simp add: request_get_header_value_def request_get_header_def header_value_def split: option.splits)

text \<open>The callbacks for fields leave the target alone.\<close>

lemma call_cbs_uri:
  "call_cbs request_on_header_field request_on_header_value cbs r = Ret r' \<Longrightarrow>
   r_uri_buffer r' = r_uri_buffer r \<and> r_arg r' = r_arg r"
proof (induction cbs arbitrary: r)
  case (Cons cb cbs)
  then obtain r1 where "call_cb request_on_header_field request_on_header_value cb r = Ret r1"
    "call_cbs request_on_header_field request_on_header_value cbs r1 = Ret r'"
    by (auto simp: outcome_simps)
  moreover from this(1) have "r_uri_buffer r1 = r_uri_buffer r \<and> r_arg r1 = r_arg r"
    by (cases cb) (auto simp: request_on_header_field_def request_on_header_value_def outcome_simps
        request_set_header_eq Let_def split: if_splits)
  ultimately show ?case using Cons.IH [of r1] by simp
qed simp

lemma headers_complete_stored:
  assumes "request_view r = Some c" "r_uri_buffer r = Some u" "length u < 2048"
  shows "\<exists>r'. request_on_headers_complete m r = Ret (0, r') \<and> r_headers r' = pending c
     \<and> r_uri r' = Some (takeWhile (\<lambda>c. c \<noteq> CHR ''?'') u)
     \<and> r_arg r' = (case strchr u CHR ''?'' of None \<Rightarrow> r_arg r | Some t \<Rightarrow> Some (tl t))"
proof -
  have n: "deref (r_hname r) = Ret (c_name c)" "deref (r_hvalue r) = Ret (c_value c)"
    "deref (r_uri_buffer r) = Ret u" "\<not> 2048 < length u + 1"
    using assms by (simp_all add: request_view_Some)
  have hs: "r_headers (if length (c_name c) > 0 \<and> length (c_value c) > 0
      then snd (request_set_header r (c_name c) (c_value c)) else r) = pending c"
    using assms(1) by (simp add: request_view_Some pending_def store_field_def request_set_header_eq)
  have arg: "r_arg (if length (c_name c) > 0 \<and> length (c_value c) > 0
      then snd (request_set_header r (c_name c) (c_value c)) else r) = r_arg r"
    by (simp add: request_set_header_eq)
  show ?thesis
  proof (cases "strchr u CHR ''?''")
    case None
    then have "takeWhile (\<lambda>c. c \<noteq> CHR ''?'') u = u"
      by (auto simp: strchr_None_iff takeWhile_eq_all_conv)
    note u = this [symmetric]
    from None n hs arg show ?thesis
      by (simp add: request_on_headers_complete_def Let_def) (rule u)
  next
    case (Some t)
    with n hs arg show ?thesis by (simp add: request_on_headers_complete_def Let_def)
  qed
qed

section \<open>The parser loop\<close>

text \<open>A parser consumes at most the bytes it is given.\<close>

definition consumes_at_most :: "(request_t, 'p) parser_exec \<Rightarrow> bool" where
  "consumes_at_most exec \<longleftrightarrow>
     (\<forall>p bs r n p' r'. exec request_callback p bs r = Ret (n, p', r') \<longrightarrow> n \<le> length bs)"

lemma parse_loop_error:
  assumes "consumes_at_most exec" "is_open s" "flowing (rx s)"
    "request_parse_loop exec q p s r = Ret (-1, s', r')"
  shows "stream (rx s') = []"
  using assms
proof (induction exec q p s r rule: request_parse_loop.induct)
  case (1 exec q p s r)
  obtain quit q' where q: "app_quit q = (quit, q')" by fastforce
  obtain received buf s1 where r: "tcp_socket_recv s 1 = (received, buf, s1)" by (cases "tcp_socket_recv s 1")
  have run: "\<not> quit" "r_continue r"
    using "1.prems"(4) q by (auto simp: request_parse_loop.simps [of exec q] split: bool.splits if_splits)
  have "no_fail (rx s)" using "1.prems"(3) by (simp add: flowing_def)
  from tcp_recv_cases [OF "1.prems"(2) this _ r] "1.prems"(3) obtain es where
    es: "s1 = s\<lparr>rx := es\<rparr>" "flowing es"
    and rc: "received = 0 \<and> es = [] \<or> 0 < received \<and> nat received \<le> 1 \<and> length buf \<le> 1"
    by auto
  obtain parsed p1 r1 where e: "exec request_callback p buf r = Ret (parsed, p1, r1)"
    using "1.prems"(4) q run r rc
    by (cases "exec request_callback p buf r") (auto simp: request_parse_loop.simps [of exec q])
  show ?case
  proof (cases "received = 0")
    case True
    then show ?thesis
      using "1.prems"(4) q run r e rc es
      by (auto simp: request_parse_loop.simps [of exec q] split: if_splits)
  next
    case False
    with rc have one: "received = 1" by auto
    have "length buf \<le> 1" using False rc by simp
    moreover have "parsed \<le> length buf" using "1.prems"(1) e unfolding consumes_at_most_def by blast
    ultimately have "parsed \<le> 1" by simp
    then have p: "int parsed = 1 \<or> int parsed = 0" by auto
    show ?thesis
      using "1.prems"(1,2,4) q run r e es one p "1.IH" [of quit q'] by (auto simp: request_parse_loop.simps [of exec q] split: if_splits)
  qed
qed


text \<open>Reading a request leaves the connection as open as it was.\<close>

lemma error_headers_open: "http_send_error_headers s status = Ret (e, s') \<Longrightarrow> is_open s' = is_open s"
  using tcp_socket_send_keeps(2)
  by (auto simp: http_send_error_headers_def send_printed_def outcome_simps) (metis snd_conv)+

lemma parse_loop_open:
  "request_parse_loop exec q p s r = Ret (err, s', r') \<Longrightarrow> is_open s' = is_open s"
proof (induction exec q p s r rule: request_parse_loop.induct)
  case (1 exec q p s r)
  obtain quit q' where q: "app_quit q = (quit, q')" by fastforce
  obtain received buf s1 where r: "tcp_socket_recv s 1 = (received, buf, s1)" by (cases "tcp_socket_recv s 1")
  have o: "is_open s1 = is_open s" using recv_keeps [OF r] by auto
  show ?case
  proof (cases "quit \<or> \<not> r_continue r \<or> received < 0")
    case True
    with "1.prems" q r o show ?thesis
      by (auto simp: request_parse_loop.simps [of exec q] outcome_simps split: bool.splits if_splits
          dest: error_headers_open)
  next
    case False
    then obtain n p1 r1 where e: "exec request_callback p buf r = Ret (n, p1, r1)"
      using "1.prems" q r
      by (cases "exec request_callback p buf r") (auto simp: request_parse_loop.simps [of exec q])
    show ?thesis
      using "1.prems" q r o e False "1.IH" [of quit q'] by (auto simp: request_parse_loop.simps [of exec q] split: if_splits)
  qed
qed

section \<open>Properties\<close>

text \<open>However the parser cuts the target and the fields of a request into pieces, the request ends
  up with the same values: for every name the last value given, the path before the first question
  mark, and the arguments after it.\<close>

theorem request_header_any_pieces:
  assumes "list_all pieces_ok fs" "length target < 2048"
  shows "\<exists>r r'. call_cbs request_on_header_field request_on_header_value (concat (map cbs_of fs))
            (new_request\<lparr>r_uri_buffer := Some target\<rparr>) = Ret r
     \<and> request_on_headers_complete m r = Ret (0, r')
     \<and> request_get_header_value r' key = map_of (rev (nonempty_fields (fields_of fs))) key
     \<and> r_uri r' = Some (takeWhile (\<lambda>c. c \<noteq> CHR ''?'') target)
     \<and> r_arg r' = map_option tl (strchr target CHR ''?'')"
proof -
  let ?r0 = "new_request\<lparr>r_uri_buffer := Some target\<rparr>"
  let ?c0 = "\<lparr>c_state = HeaderNew, c_name = [], c_value = [], c_headers = []\<rparr>"
  have "request_view ?r0 = Some ?c0" by (simp add: request_view_Some new_request_def)
  from req.collected_value [OF this _ assms(1), of key] obtain r c where
    r: "call_cbs request_on_header_field request_on_header_value (concat (map cbs_of fs)) ?r0 = Ret r"
      "request_view r = Some c"
    and v: "header_value (pending c) key
       = (case map_of (rev (nonempty_fields (fields_of fs))) key of
            None \<Rightarrow> header_value (pending ?c0) key | Some v \<Rightarrow> Some v)" by auto
  have "header_value (pending ?c0) key = None" by (simp add: pending_def store_field_def header_value_def)
  with v have v': "header_value (pending c) key = map_of (rev (nonempty_fields (fields_of fs))) key"
    by (simp split: option.splits)
  have "r_uri_buffer r = Some target" "r_arg r = None"
    using call_cbs_uri [OF r(1)] by (simp_all add: new_request_def)
  from headers_complete_stored [OF r(2) this(1) assms(2), of m] this(2) r(1) v' show ?thesis
    by (cases "strchr target CHR ''?''") (auto simp: request_value_header_value)
qed

theorem request_header_any_pieces_witness:
  "\<exists>r r'. call_cbs request_on_header_field request_on_header_value
       (concat (map cbs_of [([''Ho'', ''st''], [''a'', ''b'']), ([''X''], [''1'']), ([''Host''], [''c''])]))
       (new_request\<lparr>r_uri_buffer := Some ''/x?y''\<rparr>) = Ret r
     \<and> request_on_headers_complete 1 r = Ret (0, r')
     \<and> request_get_header_value r' ''Host'' = Some ''c'' \<and> r_uri r' = Some ''/x'' \<and> r_arg r' = Some ''y''"
proof -
  have "list_all pieces_ok [([''Ho'', ''st''], [''a'', ''b'']), ([''X''], [''1'']), ([''Host''], [''c''])]"
    by (simp add: pieces_ok_def)
  moreover have "strchr ''/x?y'' CHR ''?'' = Some ''?y''" by (simp add: strchr_def)
  moreover have "length ''/x?y'' < 2048" by simp
  ultimately show ?thesis
    using request_header_any_pieces [of "[([''Ho'', ''st''], [''a'', ''b'']), ([''X''], [''1'']), ([''Host''], [''c''])]"
        "''/x?y''" 1 "''Host''"]
    by (simp add: fields_of_def nonempty_fields_def)
qed



end
