(* ===== verification/Util.thy ===== *)
theory Util
  imports CLib
begin

text \<open>
  Text encodings, librcom/src/util.c: escaping of strings put into JSON messages, base64 for the
  websocket handshake, and URL encoding.  Buffers of type membuf are the strings they hold.
\<close>

section \<open>Model\<close>

text \<open>The switch of escape_string for one character, and its loop.\<close>

definition escape_char :: "char \<Rightarrow> string" where
  "escape_char c =
     (if c = chTAB then [chBACKSLASH, CHR ''t'']
      else if c = chLF then [chBACKSLASH, CHR ''n'']
      else if c = chCR then [chBACKSLASH, CHR ''r'']
      else if c = chQUOTE then [chBACKSLASH, chQUOTE]
      else if c = chBACKSLASH then [chBACKSLASH, chBACKSLASH]
      else [c])"

fun escape_string :: "string \<Rightarrow> string" where
  "escape_string [] = []"
| "escape_string (c # s) = escape_char c @ escape_string s"

definition base64_table :: string where
  "base64_table = ''ABCDEFGHIJKLMNOPQRSTUVWXYZabcdefghijklmnopqrstuvwxyz0123456789+/''"

definition base64_char :: "u32 \<Rightarrow> nat \<Rightarrow> char" where
  "base64_char p k = base64_table ! unat (drop_bit k p AND 0x3F)"

text \<open>The three cases of the loop over the input, three bytes at a time.\<close>

fun encode_base64 :: "bytes \<Rightarrow> string" where
  "encode_base64 [] = []"
| "encode_base64 [a] =
     (let p = push_bit 16 (ucast a)
      in [base64_char p 18, base64_char p 12, CHR ''='', CHR ''=''])"
| "encode_base64 [a, b] =
     (let p = push_bit 16 (ucast a) + push_bit 8 (ucast b)
      in [base64_char p 18, base64_char p 12, base64_char p 6, CHR ''=''])"
| "encode_base64 (a # b # c # s) =
     (let p = push_bit 16 (ucast a) + push_bit 8 (ucast b) + ucast c
      in [base64_char p 18, base64_char p 12, base64_char p 6, base64_char p 0] @ encode_base64 s)"

definition hex_upper :: "nat \<Rightarrow> char" where
  "hex_upper d = char_of (if d < 10 then 48 + d else 55 + d)"

definition is_unreserved :: "char \<Rightarrow> bool" where
  "is_unreserved c \<longleftrightarrow> is_digit c \<or> is_lower c \<or> is_upper c
                      \<or> c = CHR ''-'' \<or> c = CHR ''_'' \<or> c = CHR ''.'' \<or> c = CHR ''~''"

text \<open>The result code and what the buffer holds; an error leaves what was encoded so far.\<close>

fun urlencode :: "string \<Rightarrow> int \<times> string" where
  "urlencode [] = (0, [])"
| "urlencode (c # s) =
     (if ord c < 32 \<or> 127 \<le> ord c then (-1, [])
      else let (r, t) = urlencode s
           in if is_unreserved c then (r, c # t)
              else (r, CHR ''%'' # hex_upper (ord c div 16) # hex_upper (ord c mod 16) # t))"

definition hex2c :: "char \<Rightarrow> int" where
  "hex2c c =
     (if is_digit c then int (ord c) - 48
      else if 97 \<le> ord c \<and> ord c \<le> 102 then 10 + int (ord c) - 97
      else if 65 \<le> ord c \<and> ord c \<le> 70 then 10 + int (ord c) - 65
      else -1)"

fun urldecode :: "string \<Rightarrow> int \<times> string" where
  "urldecode [] = (0, [])"
| "urldecode (c # s) =
     (if c = CHR ''%'' then
        (case s of
           x # y # t \<Rightarrow>
             let a = hex2c x in
             if a = -1 then (-1, [])
             else let b = hex2c y in
                  if b = -1 then (-1, [])
                  else let (r, u) = urldecode t
                       in (r, char_of (nat (16 * a + b) mod 256) # u)
         | _ \<Rightarrow> (-1, []))
      else let (r, u) = urldecode s in (r, c # u))"

section \<open>Reference decoders\<close>

text \<open>How a JSON parser reads the escapes this program writes.\<close>

fun unescape :: "string \<Rightarrow> string option" where
  "unescape [] = Some []"
| "unescape (c # s) =
     (if c = chQUOTE \<or> c = chTAB \<or> c = chLF \<or> c = chCR then None
      else if c = chBACKSLASH then
        (case s of
           [] \<Rightarrow> None
         | e # t \<Rightarrow>
             (case (if e = CHR ''t'' then Some chTAB else if e = CHR ''n'' then Some chLF
                    else if e = CHR ''r'' then Some chCR else if e = chQUOTE then Some chQUOTE
                    else if e = chBACKSLASH then Some chBACKSLASH else None) of
                None \<Rightarrow> None
              | Some d \<Rightarrow> map_option ((#) d) (unescape t)))
      else map_option ((#) c) (unescape s))"

text \<open>RFC 4648: four characters are 24 bits, a padding character at the end drops a byte.\<close>

fun index_of :: "char \<Rightarrow> string \<Rightarrow> nat option" where
  "index_of c [] = None"
| "index_of c (d # s) = (if c = d then Some 0 else map_option Suc (index_of c s))"

definition byte_at :: "nat \<Rightarrow> nat \<Rightarrow> u8" where
  "byte_at n k = word_of_nat (n div 2 ^ k)"

fun decode_base64 :: "string \<Rightarrow> bytes option" where
  "decode_base64 [] = Some []"
| "decode_base64 (w # x # y # z # s) =
     (case (index_of w base64_table, index_of x base64_table) of
        (Some i, Some j) \<Rightarrow>
          (let n = i * 2 ^ 18 + j * 2 ^ 12
           in if y = CHR ''='' \<and> z = CHR ''='' \<and> s = [] then Some [byte_at n 16]
              else case index_of y base64_table of
                     None \<Rightarrow> None
                   | Some k \<Rightarrow>
                       (let n = n + k * 2 ^ 6
                        in if z = CHR ''='' \<and> s = [] then Some [byte_at n 16, byte_at n 8]
                           else case index_of z base64_table of
                                  None \<Rightarrow> None
                                | Some l \<Rightarrow>
                                    map_option (\<lambda>t. byte_at (n + l) 16 # byte_at (n + l) 8 # byte_at (n + l) 0 # t)
                                      (decode_base64 s)))
      | _ \<Rightarrow> None)"
| "decode_base64 _ = None"

section \<open>Lemmas\<close>

lemma unescape_escape_char: "unescape (escape_char c @ s) = map_option ((#) c) (unescape s)"
  by (auto simp: escape_char_def)

lemma index_of_nth: "distinct s \<Longrightarrow> k < length s \<Longrightarrow> index_of (s ! k) s = Some k"
proof (induction s arbitrary: k)
  case Nil
  then show ?case by simp
next
  case (Cons d s)
  then show ?case by (cases k) (auto simp: nth_mem)
qed

lemma length_base64_table: "length base64_table = 64"
  by (simp add: base64_table_def)

lemma distinct_base64_table: "distinct base64_table"
  by (simp add: base64_table_def)

lemma padding_not_in_table: "CHR ''='' \<notin> set base64_table"
  by (simp add: base64_table_def)

lemma sextet: "unat (drop_bit k (p :: u32) AND 0x3F) = unat p div 2 ^ k mod 64"
proof -
  have "unat (drop_bit k p AND mask 6) = take_bit 6 (drop_bit k (unat p))"
    by (simp only: take_bit_eq_mask [symmetric] unsigned_take_bit_eq unat_drop_bit_eq)
  moreover have "take_bit 6 (drop_bit k (unat p)) = unat p div 2 ^ k mod 2 ^ 6"
    by (simp only: take_bit_eq_mod drop_bit_eq_div)
  moreover have "(0x3F :: u32) = mask 6" by (simp add: mask_eq_exp_minus_1)
  ultimately show ?thesis by simp
qed

lemma index_of_base64_char: "index_of (base64_char p k) base64_table = Some (unat p div 2 ^ k mod 64)"
  unfolding base64_char_def sextet
  by (rule index_of_nth) (simp_all add: distinct_base64_table length_base64_table)

lemma base64_char_no_padding: "base64_char p k \<noteq> CHR ''=''"
proof -
  have "base64_char p k \<in> set base64_table"
    unfolding base64_char_def sextet by (rule nth_mem) (simp add: length_base64_table)
  then show ?thesis using padding_not_in_table by metis
qed

lemma unat_byte_less: "unat (b :: u8) < 256"
proof -
  have "unat b < 2 ^ LENGTH(8)" by (rule unsigned_less)
  then show ?thesis by simp
qed

lemma unat_ucast_byte: "unat (ucast (b :: u8) :: u32) = unat b"
  using unat_byte_less [of b] by (simp add: unsigned_ucast_eq take_bit_nat_eq_self)

lemma unat_push_byte:
  "k \<le> 16 \<Longrightarrow> unat (push_bit k (ucast (b :: u8)) :: u32) = unat b * 2 ^ k"
proof -
  assume k: "k \<le> 16"
  have "unat b * 2 ^ k < 256 * 2 ^ 16"
    using unat_byte_less [of b] power_increasing [OF k, of "2 :: nat"]
    by (metis (no_types, lifting) mult_less_le_imp_less one_le_numeral zero_le zero_less_numeral zero_less_power)
  then have "take_bit LENGTH(32) (push_bit k (unat b)) = unat b * 2 ^ k"
    by (simp add: push_bit_eq_mult take_bit_nat_eq_self)
  then show ?thesis by (simp only: unsigned_push_bit_eq unat_ucast_byte)
qed

lemma unat_group:
  "unat (push_bit 16 (ucast (a :: u8)) + push_bit 8 (ucast (b :: u8)) + ucast (c :: u8) :: u32)
   = unat a * 65536 + unat b * 256 + unat c"
  using unat_byte_less [of a] unat_byte_less [of b] unat_byte_less [of c]
  by (simp add: unat_word_ariths unat_push_byte unat_ucast_byte)

lemma unat_group2:
  "unat (push_bit 16 (ucast (a :: u8)) + push_bit 8 (ucast (b :: u8)) :: u32)
   = unat a * 65536 + unat b * 256"
  using unat_group [of a b 0] by simp

lemma unat_group1: "unat (push_bit 16 (ucast (a :: u8)) :: u32) = unat a * 65536"
  by (simp add: unat_push_byte)

lemma sextets_join:
  assumes "n < 2 ^ 24"
  defines "i \<equiv> n div 2 ^ 18 mod 64" and "j \<equiv> n div 2 ^ 12 mod 64"
    and "k \<equiv> n div 2 ^ 6 mod 64" and "l \<equiv> n div 2 ^ 0 mod (64 :: nat)"
  shows "i * 262144 + j * 4096 = n div 4096 * 4096"
    and "n div 4096 * 4096 + k * 64 = n div 64 * 64"
    and "n div 64 * 64 + l = n"
proof -
  have d: "n div 4096 = n div 64 div 64" "n div 262144 = n div 4096 div 64"
    by (simp_all add: div_mult2_eq [symmetric])
  have m: "x = x div 64 * 64 + x mod 64" for x :: nat by simp
  have "n div 262144 < 64" using assms by (simp add: less_mult_imp_div_less)
  then have "i = n div 4096 div 64" using d by (simp add: i_def)
  moreover have "n div 4096 div 64 * 262144 + n div 4096 mod 64 * 4096 = n div 4096 * 4096"
    using m [of "n div 4096"] by linarith
  ultimately show "i * 262144 + j * 4096 = n div 4096 * 4096" by (simp add: j_def)
  have "n div 64 div 64 * 4096 + n div 64 mod 64 * 64 = n div 64 * 64"
    using m [of "n div 64"] by linarith
  then show "n div 4096 * 4096 + k * 64 = n div 64 * 64" using d(1) by (simp add: k_def)
  show "n div 64 * 64 + l = n" by (simp add: l_def)
qed

lemma byte_at_group:
  "byte_at (unat a * 65536 + unat b * 256 + unat c) 16 = a"
  "byte_at (unat a * 65536 + unat b * 256 + unat c) 8 = b"
  "byte_at (unat a * 65536 + unat b * 256 + unat c) 0 = c"
proof -
  let ?n = "unat a * 65536 + unat b * 256 + unat c"
  have u: "byte_at n k = b \<longleftrightarrow> n div 2 ^ k mod 256 = unat b" for n k b
    by (simp add: byte_at_def word_unat_eq_iff unsigned_of_nat take_bit_eq_mod)
  have "?n = (unat a * 256 + unat b) * 256 + unat c" by simp
  then have "?n mod 256 = unat c" using unat_byte_less [of c] by (metis mod_less mod_mult_self3)
  moreover have "?n div 65536 = unat a" "?n div 256 = unat a * 256 + unat b"
    using unat_byte_less [of a] unat_byte_less [of b] unat_byte_less [of c] by linarith+
  ultimately show "byte_at ?n 16 = a" "byte_at ?n 8 = b" "byte_at ?n 0 = c"
    unfolding u using unat_byte_less [of a] unat_byte_less [of b] by simp_all
qed

lemma group_less: "unat (a :: u8) * 65536 + unat (b :: u8) * 256 + unat (c :: u8) < 2 ^ 24"
  using unat_byte_less [of a] unat_byte_less [of b] unat_byte_less [of c] by simp

lemma decode_quad:
  assumes "unat p < 2 ^ 24"
  shows "decode_base64 ([base64_char p 18, base64_char p 12, base64_char p 6, base64_char p 0] @ s)
   = map_option (\<lambda>t. byte_at (unat p) 16 # byte_at (unat p) 8 # byte_at (unat p) 0 # t) (decode_base64 s)"
proof -
  obtain i j k l where
    "index_of (base64_char p 18) base64_table = Some i" "index_of (base64_char p 12) base64_table = Some j"
    "index_of (base64_char p 6) base64_table = Some k" "index_of (base64_char p 0) base64_table = Some l"
    and "i * 262144 + j * 4096 + k * 64 + l = unat p"
    using sextets_join [OF assms] index_of_base64_char by metis
  then show ?thesis by (simp add: base64_char_no_padding Let_def)
qed

lemma decode_three:
  assumes "unat p < 2 ^ 24" "unat p div 64 * 64 = unat p"
  shows "decode_base64 [base64_char p 18, base64_char p 12, base64_char p 6, CHR ''='']
   = Some [byte_at (unat p) 16, byte_at (unat p) 8]"
proof -
  obtain i j k where
    "index_of (base64_char p 18) base64_table = Some i" "index_of (base64_char p 12) base64_table = Some j"
    "index_of (base64_char p 6) base64_table = Some k"
    and "i * 262144 + j * 4096 + k * 64 = unat p"
    using sextets_join [OF assms(1)] assms(2) index_of_base64_char by metis
  then show ?thesis by (simp add: base64_char_no_padding Let_def)
qed

lemma decode_two:
  assumes "unat p < 2 ^ 24" "unat p div 4096 * 4096 = unat p"
  shows "decode_base64 [base64_char p 18, base64_char p 12, CHR ''='', CHR ''='']
   = Some [byte_at (unat p) 16]"
proof -
  obtain i j where
    "index_of (base64_char p 18) base64_table = Some i" "index_of (base64_char p 12) base64_table = Some j"
    and "i * 262144 + j * 4096 = unat p"
    using sextets_join [OF assms(1)] assms(2) index_of_base64_char by metis
  then show ?thesis by (simp add: base64_char_no_padding Let_def)
qed

section \<open>Properties\<close>

text \<open>C19. Base64 decoding inverts encode_base64 on every byte string, and the text is as long as the
  allocation of the code assumes, four characters for every three bytes begun.\<close>

theorem base64_roundtrip:
  "decode_base64 (encode_base64 bs) = Some bs \<and> length (encode_base64 bs) = 4 * ((length bs + 2) div 3)"
proof (induction bs rule: encode_base64.induct)
  case 1
  then show ?case by simp
next
  case (2 a)
  have "unat a * 65536 < 2 ^ 24" using group_less [of a 0 0] by simp
  then show ?case
    using decode_two [of "push_bit 16 (ucast a)"] byte_at_group [of a 0 0]
    by (simp add: Let_def unat_group1)
next
  case (3 a b)
  have "(unat a * 65536 + unat b * 256) div 64 * 64 = unat a * 65536 + unat b * 256" by presburger
  then show ?case
    using decode_three [of "push_bit 16 (ucast a) + push_bit 8 (ucast b)"] byte_at_group [of a b 0]
      group_less [of a b 0]
    by (simp add: Let_def unat_group2)
next
  case (4 a b c s)
  moreover have "(5 + length s) div 3 = Suc ((length s + 2) div 3)" by presburger
  ultimately show ?case
    using decode_quad [of "push_bit 16 (ucast a) + push_bit 8 (ucast b) + ucast c" "encode_base64 s"]
      byte_at_group [of a b c] group_less [of a b c]
    by (simp add: Let_def unat_group del: decode_base64.simps)
qed


text \<open>URL encoding: the two hexadecimal digits of a character below 128.\<close>

lemma hex2c_hex_upper: "d < 16 \<Longrightarrow> hex2c (hex_upper d) = int d"
  by (auto simp: hex2c_def hex_upper_def is_digit_def)

lemma urldecode_percent:
  "n < 256 \<Longrightarrow> urldecode (CHR ''%'' # hex_upper (n div 16) # hex_upper (n mod 16) # t)
     = (let (r, u) = urldecode t in (r, char_of n # u))"
proof -
  assume n: "n < 256"
  have "n div 16 < 16" "n mod 16 < 16" using n by auto
  moreover have "nat (16 * int (n div 16) + int (n mod 16)) mod 256 = n"
  proof -
    have "16 * (n div 16) + n mod 16 = n" by simp
    then have "16 * int (n div 16) + int (n mod 16) = int n" by linarith
    with n show ?thesis by simp
  qed
  ultimately show ?thesis by (simp add: hex2c_hex_upper Let_def)
qed

lemma char_of_ord [simp]: "char_of (ord c) = c"
  by (simp add: ord_def)

text \<open>URL encoding accepts exactly the strings of printable ASCII characters, writes only
  unreserved characters and percent escapes, and urldecode inverts it.\<close>

theorem urlencode_roundtrip:
  "fst (urlencode s) = (if \<forall>c \<in> set s. 32 \<le> ord c \<and> ord c < 127 then 0 else -1)
   \<and> (fst (urlencode s) = 0 \<longrightarrow> urldecode (snd (urlencode s)) = (0, s))"
proof (induction s)
  case Nil
  then show ?case by simp
next
  case (Cons c s)
  obtain r t where rt: "urlencode s = (r, t)" by fastforce
  show ?case
  proof (cases "is_unreserved c")
    case True
    then have "c \<noteq> CHR ''%''"
      by (auto simp: is_unreserved_def is_digit_def is_lower_def is_upper_def ord_def)
    with True Cons rt show ?thesis by auto
  next
    case False
    with Cons rt urldecode_percent [of "ord c" t] show ?thesis
      by (auto simp del: urldecode.simps)
  qed
qed

theorem urlencode_roundtrip_witness: "urldecode (snd (urlencode ''a b/c'')) = (0, ''a b/c'')"
proof -
  have "fst (urlencode ''a b/c'') = 0" by code_simp
  with urlencode_roundtrip [of "''a b/c''"] show ?thesis by blast
qed


end
