(* ===== verification/Messagelink.thy ===== *)
theory Messagelink
  imports Frames Headers Request Util
begin

text \<open>
  Message links, librcom/src/messagelink.c: the two ends of a websocket connection.  A link keeps its
  connection, its state in the life of a websocket, and the input buffer of the last message.  The
  handlers a user installs are not code of the library: a call of one is an entry of the list
  \<open>calls\<close>.  Three fields stand for the environment: when the application is told to quit, how many
  rounds the loop that waits for a close message takes until five seconds have passed, and the random
  masks.

  The JSON parser is an argument; None stands for its null value.
\<close>

section \<open>Model\<close>

datatype ws_state =
  WS_CREATED | WS_CLIENT_CONNECTING | WS_SERVER_CONNECTING | WS_OPEN | WS_CLOSING | WS_CLOSE_RECEIVED
  | WS_FINALIZING_CLOSE | WS_CLOSED

fun get_state_str :: "ws_state \<Rightarrow> string" where
  "get_state_str WS_CREATED = ''WS_CREATED''"
| "get_state_str WS_CLIENT_CONNECTING = ''WS_CLIENT_CONNECTING''"
| "get_state_str WS_SERVER_CONNECTING = ''WS_SERVER_CONNECTING''"
| "get_state_str WS_OPEN = ''WS_OPEN''"
| "get_state_str WS_CLOSING = ''WS_CLOSING''"
| "get_state_str WS_CLOSE_RECEIVED = ''WS_CLOSE_RECEIVED''"
| "get_state_str WS_FINALIZING_CLOSE = ''WS_FINALIZING_CLOSE''"
| "get_state_str WS_CLOSED = ''WS_CLOSED''"

datatype 'j ml_call = CallMessage 'j | CallPong bytes | CallClose

record 'j messagelink_t =
  ml_name :: string
  ml_topic :: string
  ml_socket :: tcp_t
  ml_addr :: "addr_t option"
  ml_remote :: "addr_t option"
  ml_state :: ws_state
  ml_close_code :: int
  ml_cont :: bool
  ml_hstate :: header_state
  ml_headers :: "http_header_t list"
  ml_hname :: string
  ml_hvalue :: string
  ml_status :: int
  ml_client :: bool
  ml_in :: bytes
  ml_onmessage :: bool
  ml_onpong :: bool
  ml_onclose :: bool
  ml_thread :: bool
  ml_thread_quit :: bool
  calls :: "'j ml_call list"
  ml_quit :: "nat option"
  ml_patience :: nat
  ml_masks :: "bytes list"

definition no_socket :: tcp_t where
  "no_socket = \<lparr>is_open = False, rx = [], selects = [], txq = [], tx = []\<rparr>"

text \<open>The environment of the link is what the last three arguments hold.\<close>

definition new_messagelink ::
  "string \<Rightarrow> string \<Rightarrow> bool \<Rightarrow> bool \<Rightarrow> nat option \<Rightarrow> nat \<Rightarrow> bytes list \<Rightarrow> 'j messagelink_t" where
  "new_messagelink name topic onmessage onclose quit patience masks =
     \<lparr>ml_name = name, ml_topic = topic, ml_socket = no_socket, ml_addr = new_addr0, ml_remote = None,
      ml_state = WS_CREATED, ml_close_code = 0, ml_cont = True, ml_hstate = HeaderNew, ml_headers = [],
      ml_hname = [], ml_hvalue = [], ml_status = 0, ml_client = False, ml_in = [],
      ml_onmessage = onmessage, ml_onpong = False, ml_onclose = onclose, ml_thread = False,
      ml_thread_quit = False, calls = [], ml_quit = quit, ml_patience = patience, ml_masks = masks\<rparr>"

definition link_quit :: "'j messagelink_t \<Rightarrow> bool \<times> 'j messagelink_t" where
  "link_quit link = (let (b, q) = app_quit (ml_quit link) in (b, link\<lparr>ml_quit := q\<rparr>))"

definition make_mask :: "'j messagelink_t \<Rightarrow> bytes \<times> 'j messagelink_t" where
  "make_mask link =
     (case ml_masks link of
        [] \<Rightarrow> ([0, 0, 0, 0], link)
      | m # ms \<Rightarrow> (take 4 (m @ [0, 0, 0, 0]), link\<lparr>ml_masks := ms\<rparr>))"

definition messagelink_set_onmessage :: "'j messagelink_t \<Rightarrow> bool \<Rightarrow> 'j messagelink_t" where
  "messagelink_set_onmessage link h = link\<lparr>ml_onmessage := h\<rparr>"

definition messagelink_set_onpong :: "'j messagelink_t \<Rightarrow> bool \<Rightarrow> 'j messagelink_t" where
  "messagelink_set_onpong link h = link\<lparr>ml_onpong := h\<rparr>"

definition messagelink_set_onclose :: "'j messagelink_t \<Rightarrow> bool \<Rightarrow> 'j messagelink_t" where
  "messagelink_set_onclose link h = link\<lparr>ml_onclose := h\<rparr>"

subsection \<open>Sending\<close>

definition link_send :: "'j messagelink_t \<Rightarrow> bytes \<Rightarrow> int \<times> 'j messagelink_t" where
  "link_send link bs = (let (err, s) = tcp_socket_send (ml_socket link) bs in (err, link\<lparr>ml_socket := s\<rparr>))"

definition send_frame :: "'j messagelink_t \<Rightarrow> u8 \<Rightarrow> bytes \<Rightarrow> int \<times> 'j messagelink_t" where
  "send_frame link opc payload =
     (let masked = ml_client link;
          (key, link) = (if masked then make_mask link else ([0, 0, 0, 0], link))
      in link_send link (frame_make [] opc masked key payload))"

definition close_payload :: "int \<Rightarrow> bytes" where
  "close_payload code =
     (let c = htons (word_of_int code) in [ucast (c AND 0x00ff), ucast (drop_bit 8 (c AND 0xff00))])"

definition messagelink_send_close :: "'j messagelink_t \<Rightarrow> int \<Rightarrow> int \<times> 'j messagelink_t" where
  "messagelink_send_close link code = send_frame link WS_CLOSE (close_payload code)"

definition messagelink_send_ping :: "'j messagelink_t \<Rightarrow> bytes \<Rightarrow> int \<times> 'j messagelink_t" where
  "messagelink_send_ping link payload = send_frame link WS_PING payload"

definition messagelink_send_pong :: "'j messagelink_t \<Rightarrow> bytes \<Rightarrow> int \<times> 'j messagelink_t" where
  "messagelink_send_pong link payload = send_frame link WS_PONG payload"

text \<open>The payload of a text goes out in blocks of at most 1024 bytes, masked on the way by a client.\<close>

function send_blocks :: "'j messagelink_t \<Rightarrow> bytes \<Rightarrow> bytes \<Rightarrow> nat \<Rightarrow> int \<times> 'j messagelink_t" where
  "send_blocks link key p j =
     (if p = [] then (0, link)
      else let n = (if length p < 1024 then length p else 1024);
               (buffer, j) = (if ml_client link then mask_block (take n p) key j else (take n p, j));
               (err, link') = link_send link buffer
           in if err \<noteq> 0 then (-1, link') else send_blocks link' key (drop n p) j)"
  by pat_completeness auto
termination
  by (relation "measure (\<lambda>(link, key, p, j). length p)") auto

declare send_blocks.simps [simp del]

definition messagelink_send_text :: "'j messagelink_t \<Rightarrow> bytes \<Rightarrow> int \<times> 'j messagelink_t" where
  "messagelink_send_text link payload =
     (if \<not> is_open (ml_socket link) \<or> ml_state link \<noteq> WS_OPEN then (-2, link)
      else let (key, link) = (if ml_client link then make_mask link else ([0, 0, 0, 0], link));
               header = frame_make_header WS_TEXT (ml_client link) key (of_nat (length payload));
               (err, link) = link_send link header
           in if err \<noteq> 0 then (-1, link) else send_blocks link key payload 0)"

text \<open>Strings are escaped and quoted; other texts are sent as they are.\<close>

definition messagelink_send_str :: "'j messagelink_t \<Rightarrow> string \<Rightarrow> int \<times> 'j messagelink_t" where
  "messagelink_send_str link value =
     messagelink_send_text link (bytes_of ([chQUOTE] @ escape_string value @ [chQUOTE]))"

definition messagelink_send_f :: "'j messagelink_t \<Rightarrow> string \<Rightarrow> int \<times> 'j messagelink_t" where
  "messagelink_send_f link text = messagelink_send_text link (bytes_of text)"

text \<open>The JSON writer is an argument; it may fail.\<close>

definition messagelink_send_obj ::
  "('j \<Rightarrow> string option) \<Rightarrow> 'j messagelink_t \<Rightarrow> 'j \<Rightarrow> int \<times> 'j messagelink_t" where
  "messagelink_send_obj json_write link value =
     (case json_write value of
        None \<Rightarrow> (-1, link)
      | Some text \<Rightarrow> messagelink_send_text link (bytes_of text))"

subsection \<open>Closing\<close>

definition link_read_message ::
  "'j messagelink_t \<Rightarrow> int \<times> ws_frame_t option \<times> 'j messagelink_t" where
  "link_read_message link =
     (let (err, frame, inp, s) = messagelink_read_message (ml_client link) (ml_socket link) (ml_in link)
      in (err, frame, link\<lparr>ml_in := inp, ml_socket := s\<rparr>))"

definition link_wait_data :: "'j messagelink_t \<Rightarrow> int \<times> 'j messagelink_t" where
  "link_wait_data link =
     (let (w, s) = tcp_socket_wait_data (ml_socket link) 1 in (w, link\<lparr>ml_socket := s\<rparr>))"

definition messagelink_close_socket :: "'j messagelink_t \<Rightarrow> 'j messagelink_t" where
  "messagelink_close_socket link =
     (if is_open (ml_socket link)
      then link\<lparr>ml_socket := close_tcp_socket (ml_socket link), ml_state := WS_CLOSED, ml_addr := None\<rparr>
      else link)"

definition owner_messagelink_send_close :: "'j messagelink_t \<Rightarrow> int \<Rightarrow> int \<times> 'j messagelink_t" where
  "owner_messagelink_send_close link code = messagelink_send_close (link\<lparr>ml_close_code := code\<rparr>) code"

text \<open>The number is the round in which the clock passes five seconds.\<close>

fun wait_close_loop :: "nat \<Rightarrow> 'j messagelink_t \<Rightarrow> int \<times> 'j messagelink_t" where
  "wait_close_loop k link =
     (let (w, link) = link_wait_data link
      in if w = 1 then
           (case link_read_message link of
              (err, frame, link) \<Rightarrow>
                if err < 0 then (-1, link)
                else if map_option opcode frame = Some WS_CLOSE then (0, link)
                else (case k of 0 \<Rightarrow> (-2, link) | Suc k' \<Rightarrow> wait_close_loop k' link))
         else (case k of 0 \<Rightarrow> (-2, link) | Suc k' \<Rightarrow> wait_close_loop k' link))"

definition owner_messagelink_wait_close :: "'j messagelink_t \<Rightarrow> int \<times> 'j messagelink_t" where
  "owner_messagelink_wait_close link = wait_close_loop (ml_patience link) link"

definition owner_messagelink_close :: "'j messagelink_t \<Rightarrow> int \<Rightarrow> 'j messagelink_t" where
  "owner_messagelink_close link code =
     (if ml_state link = WS_CLOSED \<or> ml_state link = WS_CLOSING then link
      else let (err, link) = owner_messagelink_send_close link code;
               link = (if err \<noteq> 0 then link else snd (owner_messagelink_wait_close link))
           in messagelink_close_socket link)"

definition client_messagelink_disconnect :: "'j messagelink_t \<Rightarrow> int \<times> 'j messagelink_t" where
  "client_messagelink_disconnect link = (0, owner_messagelink_close link 1001)"

definition owner_messagelink_close_oneway :: "'j messagelink_t \<Rightarrow> int \<Rightarrow> 'j messagelink_t" where
  "owner_messagelink_close_oneway link code =
     (let link = link\<lparr>ml_state := WS_CLOSED\<rparr>; (_, link) = messagelink_send_close link code
      in messagelink_close_socket link)"

definition remote_messagelink_close_code :: "'j messagelink_t \<Rightarrow> int" where
  "remote_messagelink_close_code link =
     (if length (ml_in link) \<ge> 2 then uint (ntohs (load16 (take 2 (ml_in link)))) else 1005)"

definition remote_messagelink_close :: "'j messagelink_t \<Rightarrow> 'j messagelink_t" where
  "remote_messagelink_close link =
     (let link = (if ml_state link = WS_OPEN then
                    (let link = link\<lparr>ml_close_code := remote_messagelink_close_code link\<rparr>
                     in snd (messagelink_send_close link (ml_close_code link)))
                  else link);
          link = messagelink_close_socket (link\<lparr>ml_state := WS_CLOSED\<rparr>)
      in if ml_onclose link then link\<lparr>calls := calls link @ [CallClose]\<rparr> else link)"

subsection \<open>Reading\<close>

lemma wait_data_selects:
  "link_wait_data link = (w, link') \<Longrightarrow> w = 0 \<Longrightarrow>
   length (selects (ml_socket link')) < length (selects (ml_socket link))"
  by (auto simp: link_wait_data_def tcp_socket_wait_data_def posix_wait_data_def
      posix_wait_data_positive_def split: if_splits list.splits)

lemma link_quit_socket: "link_quit link = (b, link') \<Longrightarrow> ml_socket link' = ml_socket link"
  by (auto simp: link_quit_def split: prod.splits)

function messagelink_try_read_message ::
  "'j messagelink_t \<Rightarrow> int \<times> ws_frame_t option \<times> 'j messagelink_t" where
  "messagelink_try_read_message link =
     (if ml_state link \<noteq> WS_OPEN then (-3, None, link)
      else case link_quit link of
        (quit, link') \<Rightarrow>
          if quit \<or> ml_thread_quit link' then (-4, None, link')
          else case link_wait_data link' of
            (w, link'') \<Rightarrow>
              if w \<noteq> 0 then link_read_message link''
              else messagelink_try_read_message link'')"
  by pat_completeness auto
termination
  by (relation "measure (\<lambda>link. length (selects (ml_socket link)))")
     (auto dest!: wait_data_selects [OF sym] link_quit_socket [OF sym])

declare messagelink_try_read_message.simps [simp del]

text \<open>How much of the connection's script is left; no operation adds to it, a message takes some.\<close>

definition link_size :: "'j messagelink_t \<Rightarrow> nat" where
  "link_size link = rx_size (rx (ml_socket link))"

named_theorems sizes "operations on links never add to the script"

lemma size_update [simp]:
  "link_size (link\<lparr>ml_state := a\<rparr>) = link_size link" "link_size (link\<lparr>ml_in := b\<rparr>) = link_size link"
  "link_size (link\<lparr>calls := c\<rparr>) = link_size link" "link_size (link\<lparr>ml_masks := d\<rparr>) = link_size link"
  "link_size (link\<lparr>ml_close_code := e\<rparr>) = link_size link" "link_size (link\<lparr>ml_quit := q\<rparr>) = link_size link"
  by (simp_all add: link_size_def)

lemma size_quit [sizes]: "link_quit link = (b, link') \<Longrightarrow> link_size link' = link_size link"
  using link_quit_socket [of link] by (simp add: link_size_def)

lemma size_wait [sizes]: "link_wait_data link = (w, link') \<Longrightarrow> link_size link' = link_size link"
  using tcp_socket_wait_data_keeps [of "ml_socket link" 1]
  by (cases "tcp_socket_wait_data (ml_socket link) 1") (auto simp: link_wait_data_def link_size_def)

lemma size_link_send [sizes]: "link_send link bs = (r, link') \<Longrightarrow> link_size link' = link_size link"
  using tcp_socket_send_keeps [of "ml_socket link" bs]
  by (cases "tcp_socket_send (ml_socket link) bs") (auto simp: link_send_def link_size_def)

lemma size_make_mask [sizes]: "make_mask link = (key, link') \<Longrightarrow> link_size link' = link_size link"
  by (auto simp: make_mask_def split: list.splits)

lemma size_send_frame [sizes]: "send_frame link opc p = (r, link') \<Longrightarrow> link_size link' = link_size link"
  by (cases "make_mask link")
     (auto simp: send_frame_def Let_def split: if_splits dest!: size_link_send size_make_mask)

lemma size_read_message [sizes]:
  "link_read_message link = (err, f, link') \<Longrightarrow>
   link_size link' \<le> link_size link \<and> (err = 0 \<longrightarrow> link_size link' < link_size link \<and> f \<noteq> None)"
  by (auto simp: link_read_message_def link_size_def split: prod.splits dest: read_message_size)

lemma size_close_socket [sizes]: "link_size (messagelink_close_socket link) \<le> link_size link"
  by (simp add: messagelink_close_socket_def link_size_def close_tcp_socket_def)

lemma size_wait_close [sizes]: "wait_close_loop k link = (r, link') \<Longrightarrow> link_size link' \<le> link_size link"
proof (induction k arbitrary: link)
  case 0
  then show ?case
    by (auto split: prod.splits if_splits dest!: size_wait size_read_message)
next
  case (Suc k)
  obtain w l1 where w: "link_wait_data link = (w, l1)" by fastforce
  obtain err f l2 where m: "link_read_message l1 = (err, f, l2)" by (cases "link_read_message l1")
  from Suc.prems w m Suc.IH [of l1] Suc.IH [of l2] size_wait [OF w] size_read_message [OF m] show ?case
    by (auto split: if_splits)
qed

lemma size_owner_close [sizes]: "link_size (owner_messagelink_close link code) \<le> link_size link"
proof -
  obtain err l1 where s: "owner_messagelink_send_close link code = (err, l1)" by fastforce
  then have "link_size l1 = link_size link"
    by (auto simp: owner_messagelink_send_close_def messagelink_send_close_def dest: size_send_frame)
  moreover have "link_size (snd (owner_messagelink_wait_close l1)) \<le> link_size l1"
    by (metis owner_messagelink_wait_close_def prod.collapse size_wait_close)
  ultimately show ?thesis
    using s size_close_socket [of l1] size_close_socket [of "snd (owner_messagelink_wait_close l1)"]
    by (auto simp: owner_messagelink_close_def)
qed

lemma size_try_read [sizes]:
  "messagelink_try_read_message link = (err, f, link') \<Longrightarrow>
   link_size link' \<le> link_size link \<and> (err = 0 \<longrightarrow> link_size link' < link_size link \<and> f \<noteq> None)"
proof (induction link rule: messagelink_try_read_message.induct)
  case (1 link)
  obtain b l1 where q: "link_quit link = (b, l1)" by fastforce
  obtain w l2 where w: "link_wait_data l1 = (w, l2)" by fastforce
  show ?case
  proof (cases "ml_state link \<noteq> WS_OPEN \<or> b \<or> ml_thread_quit l1")
    case True
    with "1.prems" q size_quit [OF q] show ?thesis
      by (auto simp: messagelink_try_read_message.simps [of link] split: if_splits)
  next
    case False
    with "1.prems" q w "1.IH" [OF _ q [symmetric] _ w [symmetric]] size_quit [OF q] size_wait [OF w]
      size_read_message [of l2 err f link']
    show ?thesis by (auto simp: messagelink_try_read_message.simps [of link] split: if_splits)
  qed
qed

text \<open>What follows a frame that does not end the reading: a close, a pong, a handler, or nothing.\<close>

definition after_frame :: "'j messagelink_t \<Rightarrow> u8 \<Rightarrow> 'j messagelink_t" where
  "after_frame link opc =
     (if opc = WS_CONTINUTATION then owner_messagelink_close link 1003
      else if opc = WS_PING then snd (messagelink_send_pong link (ml_in link))
      else if opc = WS_PONG then
        (if ml_onpong link then link\<lparr>calls := calls link @ [CallPong (ml_in link)]\<rparr> else link)
      else link)"

lemma size_after_frame [sizes]: "link_size (after_frame link opc) \<le> link_size link"
proof -
  have "link_size (snd (messagelink_send_pong link p)) = link_size link" for p
    by (metis messagelink_send_pong_def prod.collapse size_send_frame)
  then show ?thesis by (simp add: after_frame_def size_owner_close)
qed

function read_loop :: "(string \<Rightarrow> 'j option) \<Rightarrow> 'j messagelink_t \<Rightarrow> 'j option \<times> 'j messagelink_t" where
  "read_loop parse link =
     (if ml_state link \<noteq> WS_OPEN then (None, link)
      else case link_quit link of
        (quit, link1) \<Rightarrow>
          if quit then (None, link1)
          else case messagelink_try_read_message link1 of
            (err, frame, link2) \<Rightarrow>
              if err = -1 then (None, owner_messagelink_close_oneway link2 1011)
              else if err = -2 then (None, owner_messagelink_close_oneway link2 1009)
              else if err \<noteq> 0 then (None, link2)
              else case frame of
                None \<Rightarrow> (None, link2)
              | Some f \<Rightarrow>
                  if \<not> ml_client link2 \<and> length (ml_in link2) > 0 \<and> mask_bit f = 0
                  then (None, owner_messagelink_close link2 1002)
                  else if opcode f = WS_TEXT then
                    (parse (string_of (takeWhile (\<lambda>b. b \<noteq> 0) (ml_in link2))), link2)
                  else if opcode f = WS_BINARY then (None, owner_messagelink_close link2 1003)
                  else if opcode f = WS_CLOSE then (None, remote_messagelink_close link2)
                  else read_loop parse (after_frame link2 (opcode f)))"
  by pat_completeness auto
termination
proof (relation "measure (\<lambda>(parse, link). link_size link)", goal_cases)
  case 1
  then show ?case by simp
next
  case 2
  then show ?case
    by (auto dest!: size_quit [OF sym] size_try_read [OF sym] intro: le_less_trans [OF size_after_frame])
qed

declare read_loop.simps [simp del]

definition messagelink_read_internal ::
  "(string \<Rightarrow> 'j option) \<Rightarrow> 'j messagelink_t \<Rightarrow> 'j option \<times> 'j messagelink_t" where
  "messagelink_read_internal parse link =
     (if ml_state link \<noteq> WS_OPEN then (None, link) else read_loop parse link)"

definition messagelink_read ::
  "(string \<Rightarrow> 'j option) \<Rightarrow> 'j messagelink_t \<Rightarrow> 'j option \<times> 'j messagelink_t" where
  "messagelink_read parse link =
     (if ml_onmessage link \<or> ml_thread link then (None, link) else messagelink_read_internal parse link)"

subsection \<open>The loop of the thread\<close>

text \<open>A read that took nothing from the connection leaves the link in a condition that ends the loop.\<close>

definition loop_runs :: "'j messagelink_t \<Rightarrow> bool" where
  "loop_runs link \<longleftrightarrow> \<not> ml_thread_quit link \<and> ml_state link = WS_OPEN \<and> ml_quit link \<noteq> Some 0"

lemma link_quit_True: "link_quit link = (True, link') \<Longrightarrow> ml_quit link' = Some 0"
  by (cases "ml_quit link" rule: app_quit.cases) (auto simp: link_quit_def)

lemma try_read_codes:
  "messagelink_try_read_message link = (err, f, link') \<Longrightarrow> err \<noteq> 0 \<Longrightarrow>
   err = -1 \<or> err = -2 \<or> \<not> loop_runs link'"
proof (induction link rule: messagelink_try_read_message.induct)
  case (1 link)
  obtain b l1 where q: "link_quit link = (b, l1)" by fastforce
  obtain w l2 where w: "link_wait_data l1 = (w, l2)" by fastforce
  show ?case
  proof (cases "ml_state link \<noteq> WS_OPEN \<or> b \<or> ml_thread_quit l1")
    case True
    then show ?thesis
      using "1.prems" q link_quit_True [of link l1]
      by (auto simp: messagelink_try_read_message.simps [of link] loop_runs_def split: if_splits)
  next
    case False
    then show ?thesis
      using "1.prems" q w "1.IH" [OF _ q [symmetric] _ w [symmetric]]
      by (auto simp: messagelink_try_read_message.simps [of link] link_read_message_def
          split: if_splits prod.splits dest: read_message_codes)
  qed
qed

lemma close_socket_state:
  "ml_state (messagelink_close_socket link) = (if is_open (ml_socket link) then WS_CLOSED else ml_state link)"
  by (simp add: messagelink_close_socket_def)

lemma link_send_state: "link_send link bs = (r, link') \<Longrightarrow> ml_state link' = ml_state link"
  by (auto simp: link_send_def split: prod.splits)

lemma send_frame_state: "send_frame link opc p = (r, link') \<Longrightarrow> ml_state link' = ml_state link"
  by (cases "make_mask link")
     (auto simp: send_frame_def Let_def make_mask_def split: if_splits list.splits dest!: link_send_state)

lemma close_oneway_state: "ml_state (owner_messagelink_close_oneway link code) = WS_CLOSED"
proof -
  obtain r l where s: "messagelink_send_close (link\<lparr>ml_state := WS_CLOSED\<rparr>) code = (r, l)" by fastforce
  then have "ml_state l = WS_CLOSED" by (auto simp: messagelink_send_close_def dest: send_frame_state)
  with s show ?thesis by (simp add: owner_messagelink_close_oneway_def close_socket_state)
qed

lemma size_send_close: "link_size (snd (messagelink_send_close link code)) = link_size link"
  by (metis messagelink_send_close_def prod.collapse size_send_frame)

lemma size_close_oneway: "link_size (owner_messagelink_close_oneway link code) \<le> link_size link"
  using size_close_socket [of "snd (messagelink_send_close (link\<lparr>ml_state := WS_CLOSED\<rparr>) code)"]
  by (cases "messagelink_send_close (link\<lparr>ml_state := WS_CLOSED\<rparr>) code")
     (use size_send_close [of "link\<lparr>ml_state := WS_CLOSED\<rparr>" code] in
       \<open>simp add: owner_messagelink_close_oneway_def\<close>)

lemma size_remote_close: "link_size (remote_messagelink_close link) \<le> link_size link"
proof -
  have "link_size (messagelink_close_socket (l\<lparr>ml_state := WS_CLOSED\<rparr>)) \<le> link_size l" for l :: "'a messagelink_t"
    using size_close_socket [of "l\<lparr>ml_state := WS_CLOSED\<rparr>"] by simp
  then show ?thesis
    using size_send_close [of "link\<lparr>ml_close_code := remote_messagelink_close_code link\<rparr>"]
    by (auto simp: remote_messagelink_close_def Let_def) (metis size_send_close size_update(5))+
qed

lemma read_loop_progress:
  "read_loop parse link = (r, link') \<Longrightarrow>
   link_size link' < link_size link \<or> link_size link' \<le> link_size link \<and> \<not> loop_runs link'"
proof (induction parse link rule: read_loop.induct)
  case (1 parse link)
  obtain b l1 where q: "link_quit link = (b, l1)" by fastforce
  obtain err f l2 where m: "messagelink_try_read_message l1 = (err, f, l2)"
    by (cases "messagelink_try_read_message l1")
  note sz = size_quit [OF q] size_try_read [OF m]
  show ?case
  proof (cases "ml_state link \<noteq> WS_OPEN \<or> b \<or> err \<noteq> 0")
    case True
    then show ?thesis
      using "1.prems" q m sz link_quit_True [of link l1] try_read_codes [OF m]
        size_close_oneway [of l2 1011] size_close_oneway [of l2 1009]
        close_oneway_state [of l2 1011] close_oneway_state [of l2 1009]
      by (auto simp: read_loop.simps [of parse link] loop_runs_def split: if_splits)
  next
    case False
    then obtain fr where fr: "f = Some fr" and lt: "link_size l2 < link_size link" using sz by auto
    note ends = size_owner_close [of l2 1002] size_owner_close [of l2 1003] size_remote_close [of l2]
    show ?thesis
    proof (cases "(\<not> ml_client l2 \<and> length (ml_in l2) > 0 \<and> mask_bit fr = 0)
        \<or> opcode fr = WS_TEXT \<or> opcode fr = WS_BINARY \<or> opcode fr = WS_CLOSE")
      case True
      then show ?thesis
        using "1.prems" q m fr lt ends False
        by (auto simp: read_loop.simps [of parse link] split: if_splits)
    next
      case more: False
      have "read_loop parse (after_frame l2 (opcode fr)) = (r, link')"
        using "1.prems" q m fr False more
        by (auto simp: read_loop.simps [of parse link] split: if_splits)
      from "1.IH" [OF _ q [symmetric] _ m [symmetric] refl _ _ _ fr _ _ _ _ this] False more
        size_after_frame [of l2 "opcode fr"] lt
      show ?thesis by auto
    qed
  qed
qed

text \<open>The number that decreases from one round of the thread to the next.\<close>

definition loop_rank :: "'j messagelink_t \<Rightarrow> nat" where
  "loop_rank link = 2 * link_size link + (if loop_runs link then 1 else 0)"

lemma link_quit_False: "link_quit link = (False, link') \<Longrightarrow> ml_quit link \<noteq> Some 0"
  by (auto simp: link_quit_def)

lemma read_internal_size:
  "messagelink_read_internal parse link = (r, link') \<Longrightarrow>
   link_size link' < link_size link \<or> link_size link' \<le> link_size link \<and> \<not> loop_runs link'"
  using read_loop_progress [of parse link r link']
  by (auto simp: messagelink_read_internal_def loop_runs_def split: if_splits)

lemma loop_rank_call [simp]: "loop_rank (link\<lparr>calls := c\<rparr>) = loop_rank link"
  by (simp add: loop_rank_def loop_runs_def)

lemma loop_turn:
  assumes "\<not> ml_thread_quit link" "ml_state link = WS_OPEN" "link_quit link = (False, link1)"
    "messagelink_read_internal parse link1 = (r, link2)"
  shows "loop_rank link2 < loop_rank link"
proof -
  have "loop_runs link" using assms(1,2) link_quit_False [OF assms(3)] by (simp add: loop_runs_def)
  then have "loop_rank link = 2 * link_size link + 1" by (simp add: loop_rank_def)
  moreover have "link_size link1 = link_size link" by (rule size_quit [OF assms(3)])
  ultimately show ?thesis using read_internal_size [OF assms(4)] by (auto simp: loop_rank_def)
qed

function messagelink_loop :: "(string \<Rightarrow> 'j option) \<Rightarrow> 'j messagelink_t \<Rightarrow> 'j messagelink_t" where
  "messagelink_loop parse link =
     (if ml_thread_quit link \<or> ml_state link \<noteq> WS_OPEN then link
      else case link_quit link of
        (quit, link1) \<Rightarrow>
          if quit then link1
          else case messagelink_read_internal parse link1 of
            (message, link2) \<Rightarrow>
              messagelink_loop parse
                (case message of None \<Rightarrow> link2 | Some j \<Rightarrow> link2\<lparr>calls := calls link2 @ [CallMessage j]\<rparr>))"
  by pat_completeness auto
termination
  by (relation "measure (\<lambda>(parse, link). loop_rank link)")
     (simp, auto simp: loop_rank_call dest!: loop_turn [OF _ _ sym sym] split: option.splits)

declare messagelink_loop.simps [simp del]

definition server_messagelink_read_in_background :: "'j messagelink_t \<Rightarrow> 'j messagelink_t" where
  "server_messagelink_read_in_background link = link\<lparr>ml_thread_quit := False, ml_thread := True\<rparr>"

definition client_messagelink_read_in_background :: "'j messagelink_t \<Rightarrow> 'j messagelink_t" where
  "client_messagelink_read_in_background link =
     (if \<not> ml_thread link \<and> ml_onmessage link
      then link\<lparr>ml_thread_quit := False, ml_thread := True\<rparr> else link)"

text \<open>The flag is set and the thread has come to its end.\<close>

definition messagelink_stop_thread :: "'j messagelink_t \<Rightarrow> 'j messagelink_t" where
  "messagelink_stop_thread link =
     (if ml_thread link then link\<lparr>ml_thread_quit := True, ml_thread := False\<rparr> else link)"

text \<open>What delete_messagelink does to the connection.\<close>

definition delete_messagelink :: "'j messagelink_t \<Rightarrow> 'j messagelink_t" where
  "delete_messagelink link =
     (let link = messagelink_stop_thread link
      in if ml_state link = WS_OPEN then owner_messagelink_close link 1001 else link)"

definition messagelink_send_command ::
  "(string \<Rightarrow> 'j option) \<Rightarrow> ('j \<Rightarrow> string) \<Rightarrow> 'j messagelink_t \<Rightarrow> 'j \<Rightarrow> 'j option \<times> 'j messagelink_t" where
  "messagelink_send_command parse print link command =
     (let (err, link) = messagelink_send_text link (bytes_of (print command))
      in if err = 0 then messagelink_read parse link else (None, link))"

subsection \<open>The server side\<close>

text \<open>The connection accepted and its address are arguments.\<close>

definition server_messagelink_connect ::
  "string \<Rightarrow> string \<Rightarrow> tcp_t \<Rightarrow> addr_t option \<Rightarrow> nat option \<Rightarrow> nat \<Rightarrow> bytes list \<Rightarrow> 'j messagelink_t" where
  "server_messagelink_connect name topic socket addr quit patience masks =
     (new_messagelink name topic False False quit patience masks)
       \<lparr>ml_client := False, ml_socket := socket, ml_addr := addr, ml_state := WS_OPEN\<rparr>"

subsection \<open>The client side\<close>

definition messagelink_get_header :: "'j messagelink_t \<Rightarrow> string \<Rightarrow> http_header_t option" where
  "messagelink_get_header link name = find_header (ml_headers link) name"

definition messagelink_add_header :: "'j messagelink_t \<Rightarrow> string \<Rightarrow> string \<Rightarrow> int \<times> 'j messagelink_t" where
  "messagelink_add_header link key value =
     (0, link\<lparr>ml_headers := new_http_header (Some key) (Some value) # ml_headers link\<rparr>)"

definition messagelink_set_header :: "'j messagelink_t \<Rightarrow> string \<Rightarrow> string \<Rightarrow> int \<times> 'j messagelink_t" where
  "messagelink_set_header link key value =
     (case messagelink_get_header link key of
        None \<Rightarrow> messagelink_add_header link key value
      | Some h \<Rightarrow> (0, link\<lparr>ml_headers := set_found (ml_headers link) key value\<rparr>))"

definition messagelink_on_header_field :: "string \<Rightarrow> 'j messagelink_t \<Rightarrow> 'j messagelink_t outcome" where
  "messagelink_on_header_field d link =
     (if ml_hstate link = HeaderNew \<or> ml_hstate link = HeaderValue then
        (let link = (if length (ml_hname link) > 0 \<and> length (ml_hvalue link) > 0
                     then snd (messagelink_set_header link (ml_hname link) (ml_hvalue link)) else link)
         in Ret (link\<lparr>ml_hname := d, ml_hvalue := [], ml_hstate := HeaderField\<rparr>))
      else Ret (link\<lparr>ml_hname := ml_hname link @ d\<rparr>))"

definition messagelink_on_header_value :: "string \<Rightarrow> 'j messagelink_t \<Rightarrow> 'j messagelink_t outcome" where
  "messagelink_on_header_value d link =
     (if ml_hstate link = HeaderNew then Ret link
      else Ret (link\<lparr>ml_hvalue := ml_hvalue link @ d, ml_hstate := HeaderValue\<rparr>))"

definition messagelink_on_headers_complete :: "'j messagelink_t \<Rightarrow> (int \<times> 'j messagelink_t) outcome" where
  "messagelink_on_headers_complete link =
     (let link = (if length (ml_hname link) > 0 \<and> length (ml_hvalue link) > 0
                  then snd (messagelink_set_header link (ml_hname link) (ml_hvalue link)) else link)
      in Ret (0, link\<lparr>ml_cont := False\<rparr>))"

fun messagelink_callback :: "'j messagelink_t \<Rightarrow> http_event \<Rightarrow> (int \<times> 'j messagelink_t) outcome" where
  "messagelink_callback link (OnField d) = map_out (Pair 0) (messagelink_on_header_field d link)"
| "messagelink_callback link (OnValue d) = map_out (Pair 0) (messagelink_on_header_value d link)"
| "messagelink_callback link (OnHeadersComplete status) = messagelink_on_headers_complete link"
| "messagelink_callback link _ = Ret (0, link)"

text \<open>
  The key is 16 random bytes in base64; the accept value is the hash of the key and a fixed text, the
  hash function being an argument.
\<close>

definition make_accept :: "(bytes \<Rightarrow> bytes) \<Rightarrow> string \<Rightarrow> string" where
  "make_accept sha1 key =
     encode_base64 (take 20 (sha1 (bytes_of
       (snprintf 100 (key @ ''258EAFA5-E914-47DA-95CA-C5AB0DC85B11''))) @ replicate 21 0))"

definition client_request :: "string \<Rightarrow> string \<Rightarrow> string" where
  "client_request host key =
     ''GET / HTTP/1.1'' @ crlf @ ''Host: '' @ host @ crlf @ ''Connection: Upgrade'' @ crlf
     @ ''Upgrade: websocket'' @ crlf @ ''Sec-WebSocket-Version: 13'' @ crlf
     @ ''Sec-WebSocket-Key: '' @ key @ crlf @ crlf"

definition client_messagelink_send_request ::
  "'j messagelink_t \<Rightarrow> string \<Rightarrow> string \<Rightarrow> (int \<times> 'j messagelink_t) outcome" where
  "client_messagelink_send_request link host key =
     map_out (\<lambda>(err, s). (err, link\<lparr>ml_socket := s\<rparr>))
       (send_printed (ml_socket link) 2048 (client_request host key))"

function parse_response_loop ::
  "('j messagelink_t, 'p) parser_exec \<Rightarrow> 'p \<Rightarrow> tcp_t \<Rightarrow> 'j messagelink_t
   \<Rightarrow> (int \<times> 'p \<times> tcp_t \<times> 'j messagelink_t) outcome" where
  "parse_response_loop exec p s link =
     (if \<not> ml_cont link then Ret (0, p, s, link)
      else case tcp_socket_recv s 1 of
        (received, buf, s') \<Rightarrow>
          if received < 0 then Ret (-1, p, s', link)
          else case exec messagelink_callback p buf link of
            Undef \<Rightarrow> Undef
          | Ret (parsed, p', link') \<Rightarrow>
              if received = 0 then Ret (0, p', s', link')
              else if int parsed \<noteq> received \<and> int parsed \<noteq> received - 1 \<and> ml_cont link'
                then Ret (-1, p', s', link')
              else parse_response_loop exec p' s' link')"
  by pat_completeness auto
termination
  by (relation "measure (\<lambda>(exec, p, s, link). rx_size (rx s))") (auto intro!: recv_decreases [OF sym])

declare parse_response_loop.simps [simp del]

definition client_messagelink_parse_response ::
  "('j messagelink_t, 'p) parser_exec \<Rightarrow> 'p \<Rightarrow> ('p \<Rightarrow> int) \<Rightarrow> 'j messagelink_t
   \<Rightarrow> (int \<times> 'j messagelink_t) outcome" where
  "client_messagelink_parse_response exec p status_code link =
     bind_out (parse_response_loop exec p (ml_socket link) (link\<lparr>ml_hstate := HeaderNew, ml_cont := True\<rparr>))
       (\<lambda>(err, p', s', link').
          let link' = link'\<lparr>ml_socket := s'\<rparr>
          in if err \<noteq> 0 then Ret (-1, link') else Ret (0, link'\<lparr>ml_status := status_code p'\<rparr>))"

definition client_messagelink_validate_response :: "'j messagelink_t \<Rightarrow> string \<Rightarrow> int" where
  "client_messagelink_validate_response link accept =
     (if ml_status link \<noteq> 101 then -1
      else case messagelink_get_header link ''Connection'' of
        None \<Rightarrow> -1
      | Some h \<Rightarrow> if h_value h \<noteq> Some ''Upgrade'' then -1
      else case messagelink_get_header link ''Upgrade'' of
        None \<Rightarrow> -1
      | Some h \<Rightarrow> if h_value h \<noteq> Some ''websocket'' then -1
      else case messagelink_get_header link ''Sec-WebSocket-Accept'' of
        None \<Rightarrow> -1
      | Some h \<Rightarrow> if h_value h \<noteq> Some accept then -1 else 0)"

definition client_messagelink_open_websocket ::
  "('j messagelink_t, 'p) parser_exec \<Rightarrow> 'p \<Rightarrow> ('p \<Rightarrow> int) \<Rightarrow> (bytes \<Rightarrow> bytes) \<Rightarrow> bytes
   \<Rightarrow> 'j messagelink_t \<Rightarrow> string \<Rightarrow> (int \<times> 'j messagelink_t) outcome" where
  "client_messagelink_open_websocket exec p status_code sha1 random16 link host =
     (let key = encode_base64 random16; accept = make_accept sha1 key
      in bind_out (client_messagelink_send_request link host key) (\<lambda>(err, link).
         if err \<noteq> 0 then Ret (-1, link)
         else bind_out (client_messagelink_parse_response exec p status_code link) (\<lambda>(err, link).
              if err \<noteq> 0 then Ret (-1, link)
              else if client_messagelink_validate_response link accept \<noteq> 0 then Ret (-1, link)
              else Ret (0, link))))"

text \<open>The connection, when open_tcp_socket succeeds, and its local address are an argument.\<close>

definition client_messagelink_open_socket ::
  "'j messagelink_t \<Rightarrow> (tcp_t \<times> addr_t option) option \<Rightarrow> int \<times> 'j messagelink_t" where
  "client_messagelink_open_socket link connection =
     (case connection of
        None \<Rightarrow> (-1, link\<lparr>ml_socket := (ml_socket link)\<lparr>is_open := False\<rparr>\<rparr>)
      | Some (s, a) \<Rightarrow> (0, link\<lparr>ml_socket := s, ml_addr := a\<rparr>))"

definition same_remote :: "'j messagelink_t \<Rightarrow> addr_t \<Rightarrow> bool" where
  "same_remote link addr = (case ml_remote link of None \<Rightarrow> False | Some a \<Rightarrow> addr_eq a addr)"

definition client_messagelink_connect ::
  "('j messagelink_t, 'p) parser_exec \<Rightarrow> 'p \<Rightarrow> ('p \<Rightarrow> int) \<Rightarrow> (bytes \<Rightarrow> bytes) \<Rightarrow> bytes
   \<Rightarrow> (tcp_t \<times> addr_t option) option \<Rightarrow> 'j messagelink_t \<Rightarrow> addr_t
   \<Rightarrow> (int \<times> 'j messagelink_t) outcome" where
  "client_messagelink_connect exec p status_code sha1 random16 connection link addr =
     (let link = link\<lparr>ml_client := True\<rparr>
      in if same_remote link addr \<and> ml_state link = WS_OPEN then Ret (-2, link)
         else
           let link = (if same_remote link addr \<and> ml_state link \<noteq> WS_OPEN
                       then messagelink_close_socket link else link);
               link = (if ml_remote link \<noteq> None \<and> \<not> same_remote link addr
                       then messagelink_close_socket link else link);
               (err, link) = client_messagelink_open_socket link connection
           in if err \<noteq> 0 then Ret (-1, link)
              else bind_out (client_messagelink_open_websocket exec p status_code sha1 random16
                      (link\<lparr>ml_state := WS_CLIENT_CONNECTING\<rparr>) (addr_ip addr 64)) (\<lambda>(err, link).
                   if err \<noteq> 0 then Ret (-1, messagelink_close_socket link)
                   else Ret (0, client_messagelink_read_in_background
                          (link\<lparr>ml_remote := Some addr, ml_state := WS_OPEN\<rparr>))))"

definition messagelink_is_connected :: "'j messagelink_t \<Rightarrow> bool" where
  "messagelink_is_connected link \<longleftrightarrow> ml_state link = WS_OPEN"

end
