(* ===== verification/Linklife.thy ===== *)
theory Linklife
  imports Messagelink
begin

text \<open>
  The life of a message link: the steps an application, its thread and its peer take it through, the
  invariant of every state they reach, the handshakes that open and close it, and the delivery of
  texts from one end to the other.
\<close>

section \<open>What an operation leaves alone\<close>

text \<open>Same state, same end of the connection, same peer, and the connection as open as before.\<close>

definition same_core :: "'j messagelink_t \<Rightarrow> 'j messagelink_t \<Rightarrow> bool" where
  "same_core a b \<longleftrightarrow> ml_state b = ml_state a \<and> is_open (ml_socket b) = is_open (ml_socket a)
     \<and> ml_client b = ml_client a \<and> ml_remote b = ml_remote a \<and> ml_thread_quit b = ml_thread_quit a
     \<and> calls b = calls a \<and> ml_onclose b = ml_onclose a
     \<and> ml_thread b = ml_thread a \<and> ml_onmessage b = ml_onmessage a"

lemma same_core_refl [simp]: "same_core a a"
  by (simp add: same_core_def)

lemma same_core_trans: "same_core a b \<Longrightarrow> same_core b c \<Longrightarrow> same_core a c"
  by (simp add: same_core_def)

lemma core_quit: "link_quit link = (b, link') \<Longrightarrow> same_core link link'"
  by (auto simp: link_quit_def same_core_def split: prod.splits)

lemma core_wait: "link_wait_data link = (w, link') \<Longrightarrow> same_core link link'"
  using tcp_socket_wait_data_keeps [of "ml_socket link" 1]
  by (cases "tcp_socket_wait_data (ml_socket link) 1") (auto simp: link_wait_data_def same_core_def)

lemma core_link_send: "link_send link bs = (r, link') \<Longrightarrow> same_core link link'"
  using tcp_socket_send_keeps [of "ml_socket link" bs]
  by (cases "tcp_socket_send (ml_socket link) bs") (auto simp: link_send_def same_core_def)

lemma core_make_mask: "make_mask link = (key, link') \<Longrightarrow> same_core link link'"
  by (auto simp: make_mask_def same_core_def split: list.splits)

lemma core_send_frame: "send_frame link opc p = (r, link') \<Longrightarrow> same_core link link'"
  by (cases "make_mask link")
     (auto simp: send_frame_def Let_def split: if_splits dest!: core_link_send core_make_mask
       elim: same_core_trans)

lemma core_send_blocks: "send_blocks link key p j = (r, link') \<Longrightarrow> same_core link link'"
proof (induction link key p j rule: send_blocks.induct)
  case (1 link key p j)
  show ?case
  proof (cases "p = []")
    case True
    with "1.prems" show ?thesis by (simp add: send_blocks.simps)
  next
    case False
    let ?n = "if length p < 1024 then length p else 1024"
    obtain buf j' where b: "(if ml_client link then mask_block (take ?n p) key j else (take ?n p, j)) = (buf, j')"
      by fastforce
    obtain err l1 where s: "link_send link buf = (err, l1)" by fastforce
    note c = core_link_send [OF s]
    show ?thesis
    proof (cases "err = 0")
      case True
      then have "send_blocks l1 key (drop ?n p) j' = (r, link')"
        using "1.prems" False b s by (subst (asm) send_blocks.simps) (simp add: Let_def)
      from "1.IH" [OF False refl refl b [symmetric] refl s [symmetric] _ this] c True
      show ?thesis by (auto elim: same_core_trans)
    next
      case err: False
      with "1.prems" False b s c show ?thesis
        by (subst (asm) send_blocks.simps) (simp add: Let_def)
    qed
  qed
qed

lemma core_send_text: "same_core link (snd (messagelink_send_text link p))"
proof -
  obtain key l1 where k: "(if ml_client link then make_mask link else ([0, 0, 0, 0], link)) = (key, l1)"
    by fastforce
  have c1: "same_core link l1" using k by (auto dest: core_make_mask split: if_splits)
  obtain err l2 where s: "link_send l1 (frame_make_header WS_TEXT (ml_client l1) key (of_nat (length p))) = (err, l2)"
    by fastforce
  have c2: "same_core l1 l2" by (rule core_link_send [OF s])
  obtain r l3 where b: "send_blocks l2 key p 0 = (r, l3)" by fastforce
  have c3: "same_core l2 l3" by (rule core_send_blocks [OF b])
  have "ml_client l1 = ml_client link" using c1 by (simp add: same_core_def)
  then show ?thesis
    using k s b c1 c2 c3 by (auto simp: messagelink_send_text_def Let_def elim: same_core_trans)
qed

lemma core_read_message: "link_read_message link = (err, f, link') \<Longrightarrow> same_core link link'"
  by (auto simp: link_read_message_def same_core_def split: prod.splits dest!: read_message_keeps)

lemma core_try_read: "messagelink_try_read_message link = (err, f, link') \<Longrightarrow> same_core link link'"
proof (induction link rule: messagelink_try_read_message.induct)
  case (1 link)
  obtain b l1 where q: "link_quit link = (b, l1)" by fastforce
  obtain w l2 where w: "link_wait_data l1 = (w, l2)" by fastforce
  note c = core_quit [OF q] core_wait [OF w]
  show ?case
  proof (cases "ml_state link \<noteq> WS_OPEN \<or> b \<or> ml_thread_quit l1")
    case True
    with "1.prems" q c show ?thesis
      by (auto simp: messagelink_try_read_message.simps [of link] split: if_splits)
  next
    case False
    show ?thesis
    proof (cases "w = 0")
      case True
      with "1.prems" q w False have "messagelink_try_read_message l2 = (err, f, link')"
        by (auto simp: messagelink_try_read_message.simps [of link])
      from "1.IH" [OF _ q [symmetric] _ w [symmetric] _ this] True False c
      show ?thesis by (auto elim: same_core_trans)
    next
      case nz: False
      with "1.prems" q w False have "link_read_message l2 = (err, f, link')"
        by (auto simp: messagelink_try_read_message.simps [of link])
      from core_read_message [OF this] c show ?thesis by (auto elim: same_core_trans)
    qed
  qed
qed

lemma core_wait_close: "wait_close_loop k link = (r, link') \<Longrightarrow> same_core link link'"
proof (induction k arbitrary: link)
  case 0
  then show ?case
    by (auto split: prod.splits if_splits dest!: core_wait core_read_message elim: same_core_trans)
next
  case (Suc k)
  obtain w l1 where w: "link_wait_data link = (w, l1)" by fastforce
  obtain err f l2 where m: "link_read_message l1 = (err, f, l2)" by (cases "link_read_message l1")
  note c = core_wait [OF w] core_read_message [OF m]
  show ?case
    using Suc.prems w m c Suc.IH [of l1] Suc.IH [of l2]
    by (auto split: if_splits elim: same_core_trans)
qed


section \<open>The invariant\<close>

text \<open>
  Between operations a link is new, open or closed, its connection is open exactly when the link is,
  and an open client knows its peer.
\<close>

definition link_inv :: "'j messagelink_t \<Rightarrow> bool" where
  "link_inv link \<longleftrightarrow> ml_state link \<in> {WS_CREATED, WS_OPEN, WS_CLOSED}
     \<and> (is_open (ml_socket link) \<longleftrightarrow> ml_state link = WS_OPEN)
     \<and> (ml_state link = WS_OPEN \<and> ml_client link \<longrightarrow> ml_remote link \<noteq> None)"

lemma core_inv [inv_intros]: "same_core a b \<Longrightarrow> link_inv a \<Longrightarrow> link_inv b"
  by (simp add: same_core_def link_inv_def)

lemma inv_update [simp]:
  "link_inv (link\<lparr>calls := c\<rparr>) = link_inv link" "link_inv (link\<lparr>ml_onmessage := h\<rparr>) = link_inv link"
  "link_inv (link\<lparr>ml_thread := b\<rparr>) = link_inv link" "link_inv (link\<lparr>ml_thread_quit := q\<rparr>) = link_inv link"
  "link_inv (link\<lparr>ml_close_code := k\<rparr>) = link_inv link" "link_inv (link\<lparr>ml_onpong := b\<rparr>) = link_inv link"
  "link_inv (link\<lparr>ml_onclose := b\<rparr>) = link_inv link"
  by (simp_all add: link_inv_def)

lemma closed_inv: "ml_state link = WS_CLOSED \<Longrightarrow> \<not> is_open (ml_socket link) \<Longrightarrow> link_inv link"
  by (simp add: link_inv_def)

lemma close_socket_closes:
  "is_open (ml_socket link) \<Longrightarrow> ml_state (messagelink_close_socket link) = WS_CLOSED
     \<and> \<not> is_open (ml_socket (messagelink_close_socket link))"
  by (simp add: messagelink_close_socket_def close_tcp_socket_def)

lemma close_socket_not_open: "\<not> is_open (ml_socket (messagelink_close_socket link))"
  by (simp add: messagelink_close_socket_def close_tcp_socket_def)

lemma close_socket_closed:
  "ml_state link = WS_CLOSED \<Longrightarrow> ml_state (messagelink_close_socket link) = WS_CLOSED"
  by (simp add: messagelink_close_socket_def)

lemma close_socket_idle: "\<not> is_open (ml_socket link) \<Longrightarrow> messagelink_close_socket link = link"
  by (simp add: messagelink_close_socket_def)

lemma core_send_close: "same_core link (snd (messagelink_send_close link code))"
  by (metis core_send_frame messagelink_send_close_def prod.collapse)

text \<open>Both ways of closing an open link leave it closed, with its connection closed.\<close>

lemma owner_close_open:
  assumes "ml_state link = WS_OPEN" "is_open (ml_socket link)"
  shows "ml_state (owner_messagelink_close link code) = WS_CLOSED
     \<and> \<not> is_open (ml_socket (owner_messagelink_close link code))"
proof -
  obtain err l1 where s: "owner_messagelink_send_close link code = (err, l1)" by fastforce
  then have "same_core (link\<lparr>ml_close_code := code\<rparr>) l1"
    using core_send_close [of "link\<lparr>ml_close_code := code\<rparr>" code]
    by (simp add: owner_messagelink_send_close_def)
  then have o1: "is_open (ml_socket l1)" using assms by (simp add: same_core_def)
  have "same_core l1 (snd (owner_messagelink_wait_close l1))"
    by (metis core_wait_close owner_messagelink_wait_close_def prod.collapse)
  then have o2: "is_open (ml_socket (snd (owner_messagelink_wait_close l1)))"
    using o1 by (simp add: same_core_def)
  show ?thesis
    using assms s close_socket_closes [OF o1] close_socket_closes [OF o2]
    by (simp add: owner_messagelink_close_def)
qed

lemma owner_close_inv [inv_intros]: "link_inv link \<Longrightarrow> link_inv (owner_messagelink_close link code)"
proof -
  assume i: "link_inv link"
  show ?thesis
  proof (cases "ml_state link = WS_OPEN")
    case True
    with i owner_close_open [of link code] show ?thesis by (intro closed_inv) (simp_all add: link_inv_def)
  next
    case False
    show ?thesis
    proof (cases "ml_state link = WS_CLOSED")
      case True
      with i show ?thesis by (simp add: owner_messagelink_close_def)
    next
      case created: False
      have sock: "\<not> is_open (ml_socket link)" using i False by (simp add: link_inv_def)
      obtain err l1 where s: "owner_messagelink_send_close link code = (err, l1)" by fastforce
      have i': "link_inv (link\<lparr>ml_close_code := code\<rparr>)" using i by simp
      have c1: "same_core (link\<lparr>ml_close_code := code\<rparr>) l1"
        using s core_send_close [of "link\<lparr>ml_close_code := code\<rparr>" code]
        by (simp add: owner_messagelink_send_close_def)
      have c2: "same_core l1 (snd (owner_messagelink_wait_close l1))"
        by (metis core_wait_close owner_messagelink_wait_close_def prod.collapse)
      note i1 = core_inv [OF c1 i'] and i2 = core_inv [OF c2 core_inv [OF c1 i']]
      have "\<not> is_open (ml_socket l1)" "\<not> is_open (ml_socket (snd (owner_messagelink_wait_close l1)))"
        using c1 c2 sock by (simp_all add: same_core_def)
      with i i1 i2 s show ?thesis
        by (simp add: owner_messagelink_close_def close_socket_idle)
    qed
  qed
qed

lemma close_oneway_closed:
  "ml_state (owner_messagelink_close_oneway link code) = WS_CLOSED
   \<and> \<not> is_open (ml_socket (owner_messagelink_close_oneway link code))"
  by (simp add: close_oneway_state) (simp add: owner_messagelink_close_oneway_def close_socket_not_open
      split: prod.split)

lemma remote_close_closed:
  "ml_state (remote_messagelink_close link) = WS_CLOSED \<and> \<not> is_open (ml_socket (remote_messagelink_close link))"
  by (simp add: remote_messagelink_close_def Let_def close_socket_not_open close_socket_closed)

lemma close_oneway_inv [inv_intros]: "link_inv (owner_messagelink_close_oneway link code)"
  using close_oneway_closed by (blast intro: closed_inv)

lemma remote_close_inv [inv_intros]: "link_inv (remote_messagelink_close link)"
  using remote_close_closed by (blast intro: closed_inv)

lemma after_frame_inv [inv_intros]: "link_inv link \<Longrightarrow> link_inv (after_frame link opc)"
proof -
  assume i: "link_inv link"
  have "same_core link (snd (messagelink_send_pong link p))" for p
    by (metis core_send_frame messagelink_send_pong_def prod.collapse)
  with i owner_close_inv [OF i, of 1003] show ?thesis
    by (auto simp: after_frame_def intro: core_inv)
qed

lemma read_loop_inv [inv_intros]: "read_loop parse link = (r, link') \<Longrightarrow> link_inv link \<Longrightarrow> link_inv link'"
proof (induction parse link rule: read_loop.induct)
  case (1 parse link)
  obtain b l1 where q: "link_quit link = (b, l1)" by fastforce
  obtain err f l2 where m: "messagelink_try_read_message l1 = (err, f, l2)"
    by (cases "messagelink_try_read_message l1")
  have i1: "link_inv l1" by (rule core_inv [OF core_quit [OF q] "1.prems"(2)])
  have i2: "link_inv l2" by (rule core_inv [OF core_try_read [OF m] i1])
  note ends = owner_close_inv [OF i2] close_oneway_inv remote_close_inv
  show ?case
  proof (cases "ml_state link \<noteq> WS_OPEN \<or> b \<or> err \<noteq> 0 \<or> f = None")
    case True
    then show ?thesis
      using "1.prems" q m i1 i2 ends
      by (auto simp: read_loop.simps [of parse link] split: if_splits)
  next
    case False
    then obtain fr where fr: "f = Some fr" by auto
    show ?thesis
    proof (cases "(\<not> ml_client l2 \<and> length (ml_in l2) > 0 \<and> mask_bit fr = 0)
        \<or> opcode fr = WS_TEXT \<or> opcode fr = WS_BINARY \<or> opcode fr = WS_CLOSE")
      case True
      then show ?thesis
        using "1.prems" q m fr i2 ends False
        by (auto simp: read_loop.simps [of parse link] split: if_splits)
    next
      case more: False
      have "read_loop parse (after_frame l2 (opcode fr)) = (r, link')"
        using "1.prems" q m fr False more
        by (auto simp: read_loop.simps [of parse link] split: if_splits)
      from "1.IH" [OF _ q [symmetric] _ m [symmetric] refl _ _ _ fr _ _ _ _ this after_frame_inv [OF i2]]
        False more show ?thesis by auto
    qed
  qed
qed

text \<open>Reading never touches the thread and the handler for messages.\<close>

definition same_thread :: "'j messagelink_t \<Rightarrow> 'j messagelink_t \<Rightarrow> bool" where
  "same_thread a b \<longleftrightarrow> ml_thread b = ml_thread a \<and> ml_onmessage b = ml_onmessage a"

lemma same_thread_trans: "same_thread a b \<Longrightarrow> same_thread b c \<Longrightarrow> same_thread a c"
  by (simp add: same_thread_def)

lemma thread_core: "same_core a b \<Longrightarrow> same_thread a b"
  by (simp add: same_core_def same_thread_def)

lemma thread_refl [simp]: "same_thread a a"
  by (simp add: same_thread_def)

lemma thread_update [simp]:
  "same_thread a (b\<lparr>ml_state := s\<rparr>) = same_thread a b" "same_thread a (b\<lparr>ml_close_code := c\<rparr>) = same_thread a b"
  "same_thread a (b\<lparr>calls := d\<rparr>) = same_thread a b"
  "same_thread a (messagelink_close_socket b) = same_thread a b"
  "same_thread (a\<lparr>ml_state := s\<rparr>) b = same_thread a b" "same_thread (a\<lparr>ml_close_code := c\<rparr>) b = same_thread a b"
  by (simp_all add: same_thread_def messagelink_close_socket_def)

lemma thread_send_close:
  "messagelink_send_close a code = (r, b) \<Longrightarrow> same_thread a b"
  using core_send_close [of a code] by (simp add: thread_core)

lemma thread_owner_close: "same_thread link (owner_messagelink_close link code)"
proof -
  obtain err l1 where s: "owner_messagelink_send_close link code = (err, l1)" by fastforce
  then have 1: "same_thread link l1"
    by (auto simp: owner_messagelink_send_close_def dest: thread_send_close)
  have "same_thread l1 (snd (owner_messagelink_wait_close l1))"
    by (metis core_wait_close owner_messagelink_wait_close_def prod.collapse thread_core)
  with 1 have "same_thread link (snd (owner_messagelink_wait_close l1))" by (rule same_thread_trans)
  with 1 s show ?thesis by (simp add: owner_messagelink_close_def)
qed

lemma thread_close_oneway: "same_thread link (owner_messagelink_close_oneway link code)"
  by (cases "messagelink_send_close (link\<lparr>ml_state := WS_CLOSED\<rparr>) code")
     (auto simp: owner_messagelink_close_oneway_def dest: thread_send_close)

lemma thread_remote_close: "same_thread link (remote_messagelink_close link)"
proof -
  have "same_thread a (snd (messagelink_send_close a c))" for a :: "'a messagelink_t" and c
    by (rule thread_core [OF core_send_close])
  then have "same_thread link (snd (messagelink_send_close (link\<lparr>ml_close_code := c\<rparr>) d))" for c d
    by (metis thread_update(6))
  moreover have "same_thread link (l\<lparr>calls := d\<rparr>) = same_thread link l" for l d
    by simp
  ultimately show ?thesis by (simp add: remote_messagelink_close_def Let_def)
qed

lemma thread_after_frame: "same_thread link (after_frame link opc)"
proof -
  have "same_thread link (snd (messagelink_send_pong link p))" for p
    by (metis core_send_frame messagelink_send_pong_def prod.collapse thread_core)
  then show ?thesis by (simp add: after_frame_def thread_owner_close)
qed

lemma thread_read_loop: "read_loop parse link = (r, link') \<Longrightarrow> same_thread link link'"
proof (induction parse link rule: read_loop.induct)
  case (1 parse link)
  obtain b l1 where q: "link_quit link = (b, l1)" by fastforce
  obtain err f l2 where m: "messagelink_try_read_message l1 = (err, f, l2)"
    by (cases "messagelink_try_read_message l1")
  have t: "same_thread link l1" "same_thread link l2"
    using thread_core [OF core_quit [OF q]] thread_core [OF core_try_read [OF m]]
    by (simp_all add: same_thread_def)
  have ends: "same_thread link (owner_messagelink_close l2 c)" "same_thread link (owner_messagelink_close_oneway l2 c)"
    "same_thread link (remote_messagelink_close l2)" for c
    by (rule same_thread_trans [OF t(2)] thread_owner_close thread_close_oneway thread_remote_close)+
  show ?case
  proof (cases "ml_state link \<noteq> WS_OPEN \<or> b \<or> err \<noteq> 0 \<or> f = None")
    case True
    then show ?thesis
      using "1.prems" q m t ends by (auto simp: read_loop.simps [of parse link] split: if_splits)
  next
    case False
    then obtain fr where fr: "f = Some fr" by auto
    show ?thesis
    proof (cases "(\<not> ml_client l2 \<and> length (ml_in l2) > 0 \<and> mask_bit fr = 0)
        \<or> opcode fr = WS_TEXT \<or> opcode fr = WS_BINARY \<or> opcode fr = WS_CLOSE")
      case True
      then show ?thesis
        using "1.prems" q m fr t ends False
        by (auto simp: read_loop.simps [of parse link] split: if_splits)
    next
      case more: False
      have "read_loop parse (after_frame l2 (opcode fr)) = (r, link')"
        using "1.prems" q m fr False more
        by (auto simp: read_loop.simps [of parse link] split: if_splits)
      from "1.IH" [OF _ q [symmetric] _ m [symmetric] refl _ _ _ fr _ _ _ _ this] False more
      have "same_thread (after_frame l2 (opcode fr)) link'" by auto
      with same_thread_trans [OF t(2) thread_after_frame [of l2 "opcode fr"]] show ?thesis
        by (rule same_thread_trans)
    qed
  qed
qed

lemma thread_read_internal: "messagelink_read_internal parse link = (r, link') \<Longrightarrow> same_thread link link'"
  by (auto simp: messagelink_read_internal_def split: if_splits dest: thread_read_loop)

lemma read_internal_inv [inv_intros]:
  "messagelink_read_internal parse link = (r, link') \<Longrightarrow> link_inv link \<Longrightarrow> link_inv link'"
  by (auto simp: messagelink_read_internal_def split: if_splits dest: read_loop_inv)

lemma loop_inv [inv_intros]: "link_inv link \<Longrightarrow> link_inv (messagelink_loop parse link)"
proof (induction parse link rule: messagelink_loop.induct)
  case (1 parse link)
  obtain b l1 where q: "link_quit link = (b, l1)" by fastforce
  obtain r l2 where m: "messagelink_read_internal parse l1 = (r, l2)" by fastforce
  have i1: "link_inv l1" by (rule core_inv [OF core_quit [OF q] "1.prems"])
  have i2: "link_inv l2" by (rule read_internal_inv [OF m i1])
  show ?case
    using "1.prems" q m i1 i2 "1.IH" [OF _ q [symmetric] _ m [symmetric]]
    by (auto simp: messagelink_loop.simps [of parse link] split: option.splits)
qed


section \<open>The client's handshake\<close>

text \<open>The parser changes a link only through its callbacks.\<close>

fun run_callbacks :: "http_event list \<Rightarrow> 'j messagelink_t \<Rightarrow> 'j messagelink_t outcome" where
  "run_callbacks [] link = Ret link"
| "run_callbacks (e # es) link =
     bind_out (messagelink_callback link e) (\<lambda>(err, link'). run_callbacks es link')"

definition callbacks_only :: "('j messagelink_t, 'p) parser_exec \<Rightarrow> bool" where
  "callbacks_only exec \<longleftrightarrow>
     (\<forall>p bs link n p' link'. exec messagelink_callback p bs link = Ret (n, p', link') \<longrightarrow>
        (\<exists>es. run_callbacks es link = Ret link'))"

lemma messagelink_set_header_eq:
  "messagelink_set_header link key value = (0, link\<lparr>ml_headers := set_header (ml_headers link) key value\<rparr>)"
  by (simp add: messagelink_set_header_def messagelink_get_header_def set_header_def
      messagelink_add_header_def split: option.splits)

lemma core_callback: "messagelink_callback link e = Ret (err, link') \<Longrightarrow> same_core link link'"
  by (cases e)
     (auto simp: messagelink_on_header_field_def messagelink_on_header_value_def
       messagelink_on_headers_complete_def messagelink_set_header_eq same_core_def outcome_simps Let_def
       split: if_splits)

lemma core_run_callbacks: "run_callbacks es link = Ret link' \<Longrightarrow> same_core link link'"
proof (induction es arbitrary: link)
  case (Cons e es)
  then show ?case by (auto simp: outcome_simps dest!: core_callback elim: same_core_trans)
qed simp

lemma core_exec:
  "callbacks_only exec \<Longrightarrow> exec messagelink_callback p bs link = Ret (n, p', link') \<Longrightarrow> same_core link link'"
  unfolding callbacks_only_def using core_run_callbacks by blast

lemma core_parse_response_loop:
  assumes "callbacks_only exec" "parse_response_loop exec p s link = Ret (err, p', s', link')"
  shows "same_core link link' \<and> is_open s' = is_open s"
  using assms
proof (induction exec p s link rule: parse_response_loop.induct)
  case (1 exec p s link)
  obtain n buf s1 where r: "tcp_socket_recv s 1 = (n, buf, s1)" by (cases "tcp_socket_recv s 1")
  have o: "is_open s1 = is_open s" using recv_keeps [OF r] by auto
  show ?case
  proof (cases "\<not> ml_cont link \<or> n < 0")
    case True
    with "1.prems" r o show ?thesis by (auto simp: parse_response_loop.simps [of exec p s] split: if_splits)
  next
    case False
    then obtain parsed p1 l1 where e: "exec messagelink_callback p buf link = Ret (parsed, p1, l1)"
      using "1.prems"(2) r
      by (cases "exec messagelink_callback p buf link") (auto simp: parse_response_loop.simps [of exec p s])
    have c: "same_core link l1" by (rule core_exec [OF "1.prems"(1) e])
    show ?thesis
    proof (cases "n = 0 \<or> int parsed \<noteq> n \<and> int parsed \<noteq> n - 1 \<and> ml_cont l1")
      case True
      with "1.prems"(2) r e o c False show ?thesis
        by (auto simp: parse_response_loop.simps [of exec p s] split: if_splits)
    next
      case more: False
      then have l: "parse_response_loop exec p1 s1 l1 = Ret (err, p', s', link')"
        using "1.prems"(2) r e False
        by (auto simp: parse_response_loop.simps [of exec p s] split: if_splits)
      from "1.IH" [OF _ r [symmetric] refl _ e refl refl _ _ "1.prems"(1) l] False more c o
      show ?thesis by (auto elim: same_core_trans)
    qed
  qed
qed

lemma core_open_websocket:
  assumes "callbacks_only exec"
    "client_messagelink_open_websocket exec p st sha1 rnd link host = Ret (err, link')"
  shows "same_core link link'"
proof -
  let ?key = "encode_base64 rnd"
  obtain e1 l1 where s: "client_messagelink_send_request link host ?key = Ret (e1, l1)"
    and rest: "(if e1 \<noteq> 0 then Ret (-1, l1)
         else bind_out (client_messagelink_parse_response exec p st l1) (\<lambda>(err, link).
              if err \<noteq> 0 then Ret (-1, link)
              else if client_messagelink_validate_response link (make_accept sha1 ?key) \<noteq> 0 then Ret (-1, link)
              else Ret (0, link))) = Ret (err, link')"
    using assms(2) by (auto simp: client_messagelink_open_websocket_def Let_def outcome_simps)
  have c1: "same_core link l1"
  proof -
    obtain bs s1 where "tcp_socket_send (ml_socket link) bs = (e1, s1)" "l1 = link\<lparr>ml_socket := s1\<rparr>"
      using s by (auto simp: client_messagelink_send_request_def send_printed_def outcome_simps)
    then show ?thesis
      using tcp_socket_send_keeps(2) [of "ml_socket link" bs] by (simp add: same_core_def)
  qed
  show ?thesis
  proof (cases "e1 = 0")
    case False
    with rest c1 show ?thesis by simp
  next
    case True
    with rest obtain e2 l2 where p: "client_messagelink_parse_response exec p st l1 = Ret (e2, l2)"
      and l2: "link' = l2"
      by (auto simp: outcome_simps split: if_splits)
    obtain e3 p3 s3 l3 where q: "parse_response_loop exec p (ml_socket l1)
        (l1\<lparr>ml_hstate := HeaderNew, ml_cont := True\<rparr>) = Ret (e3, p3, s3, l3)"
      and l2': "l2 = l3\<lparr>ml_socket := s3\<rparr> \<or> l2 = l3\<lparr>ml_socket := s3, ml_status := st p3\<rparr>"
      using p by (auto simp: client_messagelink_parse_response_def outcome_simps Let_def split: if_splits)
    have "same_core (l1\<lparr>ml_hstate := HeaderNew, ml_cont := True\<rparr>) l3 \<and> is_open s3 = is_open (ml_socket l1)"
      by (rule core_parse_response_loop [OF assms(1) q])
    then have "same_core l1 l2" using l2' by (elim disjE) (simp_all add: same_core_def)
    with c1 l2 show ?thesis by (auto elim: same_core_trans)
  qed
qed

text \<open>
  The three results of a connection attempt, on a link that is a client's or not open: already
  connected to that address; failed, and then not open; or open, after the response was checked.
\<close>

lemma connect_cases:
  assumes "callbacks_only exec" "link_inv link" "ml_client link \<or> ml_state link \<noteq> WS_OPEN"
    "\<And>s a. connection = Some (s, a) \<Longrightarrow> is_open s"
    "client_messagelink_connect exec p st sha1 rnd connection link addr = Ret (err, link')"
  shows "link_inv link'
    \<and> (err = -2 \<and> same_remote link addr \<and> ml_state link = WS_OPEN
       \<or> err = -1 \<and> ml_state link' \<noteq> WS_OPEN
       \<or> err = 0 \<and> ml_state link' = WS_OPEN \<and> ml_remote link' = Some addr \<and> ml_client link'
         \<and> client_messagelink_validate_response link' (make_accept sha1 (encode_base64 rnd)) = 0)"
proof -
  let ?l = "link\<lparr>ml_client := True\<rparr>"
  have same: "same_remote ?l addr = same_remote link addr" by (simp add: same_remote_def)
  show ?thesis
  proof (cases "same_remote link addr \<and> ml_state link = WS_OPEN")
    case True
    then have "ml_remote link \<noteq> None" by (cases "ml_remote link") (auto simp: same_remote_def)
    with True assms(2,5) same show ?thesis
      by (auto simp: client_messagelink_connect_def link_inv_def)
  next
    case new: False
    define l1 where "l1 = (if same_remote ?l addr \<and> ml_state ?l \<noteq> WS_OPEN then messagelink_close_socket ?l else ?l)"
    define l2 where "l2 = (if ml_remote l1 \<noteq> None \<and> \<not> same_remote l1 addr then messagelink_close_socket l1 else l1)"
    have l1: "ml_state l1 = ml_state link" "ml_remote l1 = ml_remote link" "ml_socket l1 = ml_socket link"
      "ml_client l1"
      using assms(2) by (auto simp: l1_def link_inv_def messagelink_close_socket_def)
    have l2: "\<not> is_open (ml_socket l2)" "ml_state l2 \<in> {WS_CREATED, WS_CLOSED}" "ml_client l2"
    proof -
      have "same_remote l1 addr = same_remote link addr" by (simp add: same_remote_def l1)
      then show "\<not> is_open (ml_socket l2)" "ml_state l2 \<in> {WS_CREATED, WS_CLOSED}" "ml_client l2"
        using assms(2,3) new l1
        by (auto simp: l2_def link_inv_def messagelink_close_socket_def close_tcp_socket_def)
    qed
    obtain e3 l3 where o: "client_messagelink_open_socket l2 connection = (e3, l3)" by fastforce
    have run: "(if e3 \<noteq> 0 then Ret (-1, l3)
        else bind_out (client_messagelink_open_websocket exec p st sha1 rnd
               (l3\<lparr>ml_state := WS_CLIENT_CONNECTING\<rparr>) (addr_ip addr 64)) (\<lambda>(err, link).
             if err \<noteq> 0 then Ret (-1, messagelink_close_socket link)
             else Ret (0, client_messagelink_read_in_background
                    (link\<lparr>ml_remote := Some addr, ml_state := WS_OPEN\<rparr>)))) = Ret (err, link')"
      using assms(5) new same o
      unfolding client_messagelink_connect_def Let_def l1_def [symmetric] l2_def [symmetric] by simp
    show ?thesis
    proof (cases connection)
      case None
      with o l2 run show ?thesis
        by (auto simp: client_messagelink_open_socket_def link_inv_def)
    next
      case (Some sa)
      then obtain s a where sa: "connection = Some (s, a)" by (cases sa) auto
      with o have l3: "e3 = 0" "l3 = l2\<lparr>ml_socket := s, ml_addr := a\<rparr>"
        by (auto simp: client_messagelink_open_socket_def)
      with run obtain e4 l4 where w: "client_messagelink_open_websocket exec p st sha1 rnd
          (l3\<lparr>ml_state := WS_CLIENT_CONNECTING\<rparr>) (addr_ip addr 64) = Ret (e4, l4)"
        and fin: "(if e4 \<noteq> 0 then Ret (-1, messagelink_close_socket l4)
          else Ret (0, client_messagelink_read_in_background
                    (l4\<lparr>ml_remote := Some addr, ml_state := WS_OPEN\<rparr>))) = Ret (err, link')"
        by (auto simp: outcome_simps)
      have l4: "is_open (ml_socket l4)" "ml_client l4"
        using core_open_websocket [OF assms(1) w] assms(4) [OF sa] l3 l2
        by (simp_all add: same_core_def)
      show ?thesis
      proof (cases "e4 = 0")
        case False
        with fin close_socket_closes [OF l4(1)] show ?thesis
          by (auto intro: closed_inv)
      next
        case True
        have "client_messagelink_validate_response l4 (make_accept sha1 (encode_base64 rnd)) = 0"
          using w True
          by (auto simp: client_messagelink_open_websocket_def Let_def outcome_simps split: if_splits)
        then have "client_messagelink_validate_response link' (make_accept sha1 (encode_base64 rnd)) = 0"
          using fin True
          by (auto simp: client_messagelink_validate_response_def messagelink_get_header_def
              client_messagelink_read_in_background_def split: if_splits option.splits)
        with fin True l4 show ?thesis
          by (auto simp: link_inv_def client_messagelink_read_in_background_def)
      qed
    qed
  qed
qed


section \<open>Steps and reachable links\<close>

text \<open>
  What the application, the thread of the link and the main program do with a link.  A link that is
  connected as a client is a client's or not open: the hub's links are never connected again.
\<close>

inductive link_step ::
  "('j messagelink_t, 'p) parser_exec \<Rightarrow> (string \<Rightarrow> 'j option) \<Rightarrow> 'j messagelink_t \<Rightarrow> 'j messagelink_t \<Rightarrow> bool"
  for exec parse where
  step_text: "link_step exec parse link (snd (messagelink_send_text link p))"
| step_ping: "link_step exec parse link (snd (messagelink_send_ping link p))"
| step_read: "link_step exec parse link (snd (messagelink_read parse link))"
| step_loop: "link_step exec parse link (messagelink_loop parse link)"
| step_stop: "link_step exec parse link (messagelink_stop_thread link)"
| step_disconnect: "link_step exec parse link (snd (client_messagelink_disconnect link))"
| step_delete: "link_step exec parse link (delete_messagelink link)"
| step_handlers: "link_step exec parse link
    (messagelink_set_onmessage (messagelink_set_onpong (messagelink_set_onclose link a) b) c)"
| step_background: "link_step exec parse link (server_messagelink_read_in_background link)"
| step_connect: "client_messagelink_connect exec p st sha1 rnd connection link addr = Ret (err, link')
    \<Longrightarrow> ml_client link \<or> ml_state link \<noteq> WS_OPEN
    \<Longrightarrow> (\<And>s a. connection = Some (s, a) \<Longrightarrow> is_open s)
    \<Longrightarrow> link_step exec parse link link'"

inductive link_reachable ::
  "('j messagelink_t, 'p) parser_exec \<Rightarrow> (string \<Rightarrow> 'j option) \<Rightarrow> 'j messagelink_t \<Rightarrow> bool"
  for exec parse where
  reach_new: "link_reachable exec parse (new_messagelink name topic onmessage onclose quit patience masks)"
| reach_server: "is_open s
    \<Longrightarrow> link_reachable exec parse (server_messagelink_connect name topic s addr quit patience masks)"
| reach_step: "link_reachable exec parse link \<Longrightarrow> link_step exec parse link link'
    \<Longrightarrow> link_reachable exec parse link'"

lemma delete_messagelink_inv [inv_intros]: "link_inv link \<Longrightarrow> link_inv (delete_messagelink link)"
  by (auto simp: delete_messagelink_def messagelink_stop_thread_def Let_def intro!: owner_close_inv)

lemma link_step_inv:
  assumes "callbacks_only exec" "link_inv link" "link_step exec parse link link'"
  shows "link_inv link'"
  using assms(3)
proof (cases rule: link_step.cases)
  case step_text
  with assms(2) core_send_text show ?thesis by (blast intro: core_inv)
next
  case (step_ping p)
  have "same_core link (snd (messagelink_send_ping link p))"
    by (metis core_send_frame messagelink_send_ping_def prod.collapse)
  with step_ping assms(2) show ?thesis by (blast intro: core_inv)
next
  case step_read
  obtain r l where "messagelink_read_internal parse link = (r, l)" by fastforce
  with step_read assms(2) read_internal_inv [of parse link r l] show ?thesis
    by (auto simp: messagelink_read_def)
next
  case (step_connect p st sha1 rnd connection addr err)
  from connect_cases [OF assms(1,2) step_connect(2) _ step_connect(1)] step_connect(3) show ?thesis
    by blast
qed (use assms(2) in \<open>auto simp: messagelink_stop_thread_def client_messagelink_disconnect_def
      messagelink_set_onmessage_def messagelink_set_onpong_def messagelink_set_onclose_def
      server_messagelink_read_in_background_def
      intro!: owner_close_inv loop_inv delete_messagelink_inv\<close>)

lemma reachable_inv:
  assumes "callbacks_only exec" "link_reachable exec parse link"
  shows "link_inv link"
  using assms(2)
proof (induction rule: link_reachable.induct)
  case reach_new
  show ?case by (simp add: new_messagelink_def link_inv_def no_socket_def)
next
  case reach_server
  then show ?case by (simp add: server_messagelink_connect_def new_messagelink_def link_inv_def)
next
  case (reach_step link link')
  show ?case by (rule link_step_inv [OF assms(1) reach_step.IH reach_step.hyps(2)])
qed


section \<open>Delivery\<close>

subsection \<open>The sender\<close>

lemma link_send_success: "link_send link bs = (0, link') \<Longrightarrow> tx (ml_socket link') = tx (ml_socket link) @ bs"
  by (auto simp: link_send_def split: prod.splits dest: send_success_tx)

lemma send_blocks_success:
  "send_blocks link key p j = (0, link') \<Longrightarrow>
   tx (ml_socket link') = tx (ml_socket link) @ (if ml_client link then fst (mask_block p key j) else p)"
proof (induction link key p j rule: send_blocks.induct)
  case (1 link key p j)
  show ?case
  proof (cases "p = []")
    case True
    with "1.prems" show ?thesis by (simp add: send_blocks.simps)
  next
    case False
    let ?n = "if length p < 1024 then length p else 1024"
    obtain buf j' where b: "(if ml_client link then mask_block (take ?n p) key j else (take ?n p, j)) = (buf, j')"
      by fastforce
    obtain err l1 where s: "link_send link buf = (err, l1)" by fastforce
    have "send_blocks link key p j = (if err \<noteq> 0 then (-1, l1) else send_blocks l1 key (drop ?n p) j')"
      using False b s by (subst send_blocks.simps) (simp add: Let_def)
    then have e: "err = 0" "send_blocks l1 key (drop ?n p) j' = (0, link')"
      using "1.prems" by (simp_all split: if_splits)
    have c: "ml_client l1 = ml_client link" using core_link_send [OF s] by (simp add: same_core_def)
    have tx1: "tx (ml_socket l1) = tx (ml_socket link) @ buf" using s e(1) by (auto dest: link_send_success)
    have "buf @ (if ml_client link then fst (mask_block (drop ?n p) key j') else drop ?n p)
        = (if ml_client link then fst (mask_block p key j) else p)"
    proof (cases "ml_client link")
      case True
      with b have m: "mask_block (take ?n p) key j = (buf, j')" by simp
      have "mask_block p key j = mask_block (take ?n p @ drop ?n p) key j"
        by (simp only: append_take_drop_id)
      with True show ?thesis unfolding mask_block_append m by (simp split: prod.splits)
    next
      case False
      with b have "buf = take ?n p" by simp
      with False show ?thesis by (simp only: append_take_drop_id if_False)
    qed
    with "1.IH" [OF False refl refl b [symmetric] refl s [symmetric] _ e(2)] e(1) tx1 c
    show ?thesis by auto
  qed
qed

lemma length_make_mask: "make_mask link = (key, link') \<Longrightarrow> length key = 4"
  by (auto simp: make_mask_def split: list.splits)

lemma send_text_frame:
  assumes "messagelink_send_text link p = (0, link')"
  shows "\<exists>key. length key = 4
     \<and> tx (ml_socket link') = tx (ml_socket link) @ frame_make [] WS_TEXT (ml_client link) key p"
proof -
  obtain key l1 where k: "(if ml_client link then make_mask link else ([0, 0, 0, 0], link)) = (key, l1)"
    by fastforce
  have c1: "ml_client l1 = ml_client link" "tx (ml_socket l1) = tx (ml_socket link)" "length key = 4"
    using k by (auto simp: make_mask_def split: if_splits list.splits)
  obtain e2 l2 where s: "link_send l1 (frame_make_header WS_TEXT (ml_client link) key (of_nat (length p))) = (e2, l2)"
    by fastforce
  obtain r l3 where b: "send_blocks l2 key p 0 = (r, l3)" by fastforce
  have e: "e2 = 0" "r = 0" "l3 = link'"
    using assms k s b c1 by (auto simp: messagelink_send_text_def Let_def split: if_splits)
  have c2: "ml_client l2 = ml_client link" using core_link_send [OF s] c1 by (simp add: same_core_def)
  have "tx (ml_socket l2) = tx (ml_socket l1) @ frame_make_header WS_TEXT (ml_client link) key (of_nat (length p))"
    using s e(1) by (auto dest: link_send_success)
  moreover have "tx (ml_socket link') = tx (ml_socket l2) @ (if ml_client link then fst (mask_block p key 0) else p)"
    using send_blocks_success [of l2 key p 0 link'] b e c2 by simp
  ultimately show ?thesis using c1
    by (intro exI [of _ key]) (simp add: frame_make_eq mask_blocks_eq)
qed

text \<open>A sequence of texts, sent until one fails.\<close>

fun send_texts :: "'j messagelink_t \<Rightarrow> string list \<Rightarrow> int \<times> 'j messagelink_t" where
  "send_texts link [] = (0, link)"
| "send_texts link (t # ts) =
     (let (err, link') = messagelink_send_f link t in if err \<noteq> 0 then (err, link') else send_texts link' ts)"

subsection \<open>The receiver\<close>

text \<open>A link whose thread is listening and is not told to stop, on a connection without errors.\<close>

definition listening :: "'j messagelink_t \<Rightarrow> bool" where
  "listening link \<longleftrightarrow> ml_state link = WS_OPEN \<and> \<not> ml_thread_quit link \<and> ml_quit link = None
     \<and> is_open (ml_socket link) \<and> flowing (rx (ml_socket link))"

abbreviation incoming :: "'j messagelink_t \<Rightarrow> bytes" where
  "incoming link \<equiv> stream (rx (ml_socket link))"

lemma link_quit_None: "ml_quit link = None \<Longrightarrow> link_quit link = (False, link)"
  by (cases link) (simp add: link_quit_def)

lemma try_read_ready:
  assumes "listening link"
  shows "\<exists>sel. messagelink_try_read_message link
     = link_read_message (link\<lparr>ml_socket := (ml_socket link)\<lparr>selects := sel\<rparr>\<rparr>)"
  using assms
proof (induction link rule: messagelink_try_read_message.induct)
  case (1 link)
  have q: "link_quit link = (False, link)" and o: "ml_state link = WS_OPEN" "\<not> ml_thread_quit link"
    "is_open (ml_socket link)"
    using "1.prems" by (simp_all add: link_quit_None listening_def)
  obtain w l2 where w: "link_wait_data link = (w, l2)" by fastforce
  have "s\<lparr>selects := []\<rparr> = s" if "selects s = []" for s using that by (cases s) simp
  then have "snd (tcp_socket_wait_data s 1) = s\<lparr>selects := tl (selects s)\<rparr>" if "is_open s" for s
    using that by (cases "selects s") (simp_all add: tcp_socket_wait_data_def)
  from this [OF o(3)] w have l2: "l2 = link\<lparr>ml_socket := (ml_socket link)\<lparr>selects := tl (selects (ml_socket link))\<rparr>\<rparr>"
    by (auto simp: link_wait_data_def split: prod.splits)
  have li: "listening l2" using "1.prems" l2 by (simp add: listening_def)
  show ?case
  proof (cases "w = 0")
    case True
    with "1.IH" [OF _ q [symmetric] _ w [symmetric] _ li] o q w l2 show ?thesis
      by (auto simp: messagelink_try_read_message.simps [of link])
  next
    case False
    with o q w l2 show ?thesis by (auto simp: messagelink_try_read_message.simps [of link])
  qed
qed

lemma try_read_frame:
  assumes "listening link" "opc AND 0x0f = opc" "length key = 4" "length p \<le> 16777216" "length p \<noteq> 65536"
    "incoming link = frame_make [] opc (\<not> ml_client link) key p @ rest"
  shows "\<exists>f s. messagelink_try_read_message link = (0, Some f, link\<lparr>ml_in := p, ml_socket := s\<rparr>)
     \<and> opcode f = opc \<and> (mask_bit f \<noteq> 0 \<longleftrightarrow> \<not> ml_client link) \<and> is_open s \<and> flowing (rx s)
     \<and> stream (rx s) = rest \<and> tx s = tx (ml_socket link) \<and> txq s = txq (ml_socket link)"
proof -
  obtain sel where t: "messagelink_try_read_message link
      = link_read_message (link\<lparr>ml_socket := (ml_socket link)\<lparr>selects := sel\<rparr>\<rparr>)"
    using try_read_ready [OF assms(1)] by blast
  let ?s = "(ml_socket link)\<lparr>selects := sel\<rparr>"
  have s: "is_open ?s" "flowing (rx ?s)" "stream (rx ?s) = frame_make [] opc (\<not> ml_client link) key p @ rest"
    using assms(1,6) by (simp_all add: listening_def)
  obtain f es where f: "messagelink_read_message (ml_client link) ?s (ml_in link) = (0, Some f, p, ?s\<lparr>rx := es\<rparr>)"
    and fr: "opcode f = opc" "mask_bit f \<noteq> 0 \<longleftrightarrow> \<not> ml_client link" "flowing es" "stream es = rest"
    using frame_roundtrip_core [OF s(1,2) assms(2,3,4,5) s(3)] by blast
  show ?thesis
    unfolding t using fr s(1)
    by (intro exI [of _ f] exI [of _ "?s\<lparr>rx := es\<rparr>"]) (simp add: link_read_message_def f)
qed

lemma listening_poll: "listening link \<Longrightarrow> link_quit link = (False, link) \<and> ml_state link = WS_OPEN"
  by (simp add: listening_def link_quit_None)

lemma read_loop_text:
  assumes "listening link" "length key = 4" "length p \<le> 16777216" "length p \<noteq> 65536"
    "incoming link = frame_make [] WS_TEXT (\<not> ml_client link) key p @ rest"
  shows "\<exists>link'. read_loop parse link = (parse (string_of (takeWhile (\<lambda>b. b \<noteq> 0) p)), link')
     \<and> listening link' \<and> same_core link link' \<and> incoming link' = rest"
proof -
  have op: "(1 :: u8) AND 0x0f = 1" by simp
  from try_read_frame [OF assms(1) op assms(2-5)] listening_poll [OF assms(1)] assms(1) show ?thesis
    by (subst read_loop.simps) (auto simp: listening_def same_core_def)
qed

subsection \<open>The close handshake\<close>

lemma close_payload_code:
  assumes "0 \<le> code" "code < 65536"
  shows "length (close_payload code) = 2" "uint (ntohs (load16 (take 2 (close_payload code)))) = code"
  using assms load16_store [of "htons (word_of_int code)"]
  by (simp_all add: close_payload_def Let_def uint_word_of_int)

lemma send_frame_idle:
  assumes "is_open (ml_socket link)" "txq (ml_socket link) = []"
  shows "\<exists>key. length key = 4 \<and> tx (ml_socket (snd (send_frame link opc p)))
     = tx (ml_socket link) @ frame_make [] opc (ml_client link) key p"
proof -
  obtain key l1 where k: "(if ml_client link then make_mask link else ([0, 0, 0, 0], link)) = (key, l1)"
    by fastforce
  then have "ml_socket l1 = ml_socket link" "length key = 4"
    by (auto simp: make_mask_def split: if_splits list.splits)
  with k assms show ?thesis
    by (auto simp: send_frame_def link_send_def tcp_socket_send_idle Let_def)
qed

lemma read_loop_close:
  assumes "listening link" "length key = 4" "0 \<le> code" "code < 65536" "txq (ml_socket link) = []"
    "incoming link = frame_make [] WS_CLOSE (\<not> ml_client link) key (close_payload code) @ rest"
  shows "\<exists>link' key'. read_loop parse link = (None, link') \<and> ml_state link' = WS_CLOSED
     \<and> \<not> is_open (ml_socket link') \<and> ml_close_code link' = code
     \<and> calls link' = calls link @ (if ml_onclose link then [CallClose] else [])
     \<and> length key' = 4
     \<and> tx (ml_socket link')
         = tx (ml_socket link) @ frame_make [] WS_CLOSE (ml_client link) key' (close_payload code)"
proof -
  have op: "(8 :: u8) AND 0x0f = 8" by simp
  note len = close_payload_code [OF assms(3,4)]
  have "length (close_payload code) \<le> 16777216" "length (close_payload code) \<noteq> 65536" by (simp_all add: len)
  from try_read_frame [OF assms(1) op assms(2) this assms(6)] obtain f s where
    f: "messagelink_try_read_message link = (0, Some f, link\<lparr>ml_in := close_payload code, ml_socket := s\<rparr>)"
    and fr: "opcode f = 8" "mask_bit f \<noteq> 0 \<longleftrightarrow> \<not> ml_client link" "is_open s"
      "tx s = tx (ml_socket link)" "txq s = []"
    using assms(5) by auto
  let ?l = "link\<lparr>ml_in := close_payload code, ml_socket := s\<rparr>"
  have r: "read_loop parse link = (None, remote_messagelink_close ?l)"
    using f fr listening_poll [OF assms(1)] by (subst read_loop.simps) auto
  let ?c = "?l\<lparr>ml_close_code := code\<rparr>"
  have cc: "remote_messagelink_close_code ?l = code"
    using len by (simp add: remote_messagelink_close_code_def)
  obtain e l1 where s1: "messagelink_send_close ?c code = (e, l1)" by fastforce
  have o: "ml_state link = WS_OPEN" using assms(1) by (simp add: listening_def)
  have core: "same_core ?c l1" using core_send_close [of ?c code] s1 by simp
  obtain key' where k: "length key' = 4"
    "tx (ml_socket l1) = tx (ml_socket link) @ frame_make [] WS_CLOSE (ml_client link) key' (close_payload code)"
    using send_frame_idle [of ?c WS_CLOSE "close_payload code"] s1 fr
    by (auto simp: messagelink_send_close_def)
  have code1: "ml_close_code l1 = code"
    using s1 by (auto simp: messagelink_send_close_def send_frame_def link_send_def make_mask_def Let_def
        split: prod.splits if_splits list.splits)
  have "is_open (ml_socket l1)" "calls l1 = calls link" "ml_onclose l1 = ml_onclose link"
    using core fr(3) by (simp_all add: same_core_def)
  then show ?thesis
    using r cc s1 o k code1
    by (auto simp: remote_messagelink_close_def Let_def messagelink_close_socket_def close_tcp_socket_def)
qed

text \<open>At the end of the stream the link closes and the thread ends.\<close>

lemma read_loop_end:
  assumes "listening link" "incoming link = []"
  shows "\<exists>link'. read_loop parse link = (None, link') \<and> ml_state link' = WS_CLOSED \<and> calls link' = calls link"
proof -
  obtain sel where t: "messagelink_try_read_message link
      = link_read_message (link\<lparr>ml_socket := (ml_socket link)\<lparr>selects := sel\<rparr>\<rparr>)"
    using try_read_ready [OF assms(1)] by blast
  let ?s = "(ml_socket link)\<lparr>selects := sel\<rparr>"
  have "is_open ?s" "no_fail (rx ?s)" using assms(1) by (simp_all add: listening_def flowing_def)
  from tcp_socket_read_stream [OF this, of 2] obtain es where
    "tcp_socket_read ?s 2 = (0, [], ?s\<lparr>rx := es\<rparr>)" using assms(2) by auto
  then have r: "messagelink_try_read_message link = (-1, None, link\<lparr>ml_socket := ?s\<lparr>rx := es\<rparr>\<rparr>)"
    unfolding t by (cases link)
      (simp add: link_read_message_def messagelink_read_message_def messagelink_read_frame_def)
  have q: "link_quit link = (False, link)" "ml_state link = WS_OPEN"
    using assms(1) by (simp_all add: listening_def link_quit_None)
  have c: "calls (owner_messagelink_close_oneway l 1011) = calls l" for l :: "'a messagelink_t"
    using core_send_close [of "l\<lparr>ml_state := WS_CLOSED\<rparr>" 1011]
    by (cases "messagelink_send_close (l\<lparr>ml_state := WS_CLOSED\<rparr>) 1011")
       (simp add: owner_messagelink_close_oneway_def messagelink_close_socket_def same_core_def)
  show ?thesis
    using q r by (subst read_loop.simps) (simp add: c close_oneway_state)
qed

definition deliverable :: "(string \<Rightarrow> 'j option) \<Rightarrow> string \<Rightarrow> bool" where
  "deliverable parse t \<longleftrightarrow>
     CHR 0x00 \<notin> set t \<and> length t \<le> 16777216 \<and> length t \<noteq> 65536 \<and> parse t \<noteq> None"

abbreviation text_frame :: "bool \<Rightarrow> bytes \<Rightarrow> string \<Rightarrow> bytes" where
  "text_frame masked key t \<equiv> frame_make [] WS_TEXT masked key (bytes_of t)"

lemma loop_delivers:
  assumes "listening link" "list_all (deliverable parse) ts" "length keys = length ts"
    "list_all (\<lambda>k. length k = 4) keys"
    "incoming link = concat (map2 (text_frame (\<not> ml_client link)) keys ts)"
  shows "calls (messagelink_loop parse link) = calls link @ map (\<lambda>t. CallMessage (the (parse t))) ts
     \<and> ml_state (messagelink_loop parse link) = WS_CLOSED"
  using assms
proof (induction ts arbitrary: link keys)
  case Nil
  then obtain link' where r: "read_loop parse link = (None, link')" "ml_state link' = WS_CLOSED"
    "calls link' = calls link"
    using read_loop_end [of link parse] by auto
  with Nil.prems(1) show ?case
    by (simp add: messagelink_loop.simps [of parse link] messagelink_loop.simps [of parse link']
        listening_def link_quit_None messagelink_read_internal_def)
next
  case (Cons t ts)
  then obtain key keys' where k: "keys = key # keys'" "length keys' = length ts" "length key = 4"
    "list_all (\<lambda>k. length k = 4) keys'"
    by (cases keys) auto
  have d: "CHR 0x00 \<notin> set t" "length (bytes_of t) \<le> 16777216" "length (bytes_of t) \<noteq> 65536"
    "parse t \<noteq> None"
    using Cons.prems(2) by (auto simp: deliverable_def)
  have ts: "list_all (deliverable parse) ts" using Cons.prems(2) by simp
  let ?rest = "concat (map2 (text_frame (\<not> ml_client link)) keys' ts)"
  have "incoming link = text_frame (\<not> ml_client link) key t @ ?rest"
    using Cons.prems(5) k by simp
  from read_loop_text [OF Cons.prems(1) k(3) d(2,3) this] obtain link' where
    r: "read_loop parse link = (parse t, link')" "listening link'" "same_core link link'"
      "incoming link' = ?rest"
    by (auto simp: takeWhile_bytes_of [OF d(1)])
  obtain j where j: "parse t = Some j" using d(4) by auto
  let ?l = "link'\<lparr>calls := calls link' @ [CallMessage j]\<rparr>"
  have l: "listening ?l" "incoming ?l = concat (map2 (text_frame (\<not> ml_client ?l)) keys' ts)"
    using r by (simp_all add: listening_def same_core_def)
  have "messagelink_loop parse link = messagelink_loop parse ?l"
    using Cons.prems(1) r(1) j
    by (subst messagelink_loop.simps) (simp add: listening_def link_quit_None messagelink_read_internal_def)
  with Cons.IH [OF l(1) ts k(2,4) l(2)] r(3) j show ?case by (simp add: same_core_def)
qed

lemma send_texts_frames:
  "send_texts link ts = (0, link') \<Longrightarrow>
   \<exists>keys. length keys = length ts \<and> list_all (\<lambda>k. length k = 4) keys
     \<and> tx (ml_socket link') = tx (ml_socket link) @ concat (map2 (text_frame (ml_client link)) keys ts)"
proof (induction ts arbitrary: link)
  case (Cons t ts)
  obtain err l1 where s: "messagelink_send_text link (bytes_of t) = (err, l1)" by fastforce
  with Cons.prems have e: "err = 0" "send_texts l1 ts = (0, link')"
    by (auto simp: messagelink_send_f_def split: if_splits)
  obtain key where k: "length key = 4" "tx (ml_socket l1) = tx (ml_socket link) @ text_frame (ml_client link) key t"
    using send_text_frame s e(1) by blast
  have "ml_client l1 = ml_client link"
    using core_send_text [of link "bytes_of t"] s by (simp add: same_core_def)
  with Cons.IH [OF e(2)] obtain keys where
    "length keys = length ts" "list_all (\<lambda>k. length k = 4) keys"
    "tx (ml_socket link') = tx (ml_socket l1) @ concat (map2 (text_frame (ml_client link)) keys ts)"
    by auto
  with k show ?case by (intro exI [of _ "key # keys"]) simp
qed simp

section \<open>Properties\<close>


definition example_link :: "bool \<Rightarrow> bytes \<Rightarrow> string messagelink_t" where
  "example_link client input =
     (new_messagelink ''camera'' ''camera'' True True None 0 [])
       \<lparr>ml_client := client, ml_state := WS_OPEN,
        ml_remote := (if client then Some \<lparr>sin_family = AF_INET, sin_port = 5, sin_addr = 7\<rparr> else None),
        ml_socket := \<lparr>is_open = True, rx = [Seg input], selects = [0], txq = [], tx = []\<rparr>\<rparr>"


text \<open>C38. The close handshake: an open link that reads a close frame answers with a close frame of the
  same code, masked as its side must, closes the connection, remembers the code and calls its close
  handler once.\<close>

theorem close_answered:
  assumes "listening link" "length key = 4" "0 \<le> code" "code < 65536" "txq (ml_socket link) = []"
    "incoming link = frame_make [] WS_CLOSE (\<not> ml_client link) key (close_payload code) @ rest"
  shows "\<exists>link' key'. messagelink_read_internal parse link = (None, link') \<and> ml_state link' = WS_CLOSED
     \<and> \<not> is_open (ml_socket link') \<and> ml_close_code link' = code
     \<and> calls link' = calls link @ (if ml_onclose link then [CallClose] else [])
     \<and> tx (ml_socket link')
         = tx (ml_socket link) @ frame_make [] WS_CLOSE (ml_client link) key' (close_payload code)"
proof -
  have "messagelink_read_internal parse link = read_loop parse link"
    using assms(1) by (simp add: messagelink_read_internal_def listening_def)
  with read_loop_close [OF assms, of parse] show ?thesis by auto
qed

theorem close_answered_witness:
  "\<exists>link' key'. messagelink_read_internal Some
       (example_link False (frame_make [] 8 True [1, 2, 3, 4] (close_payload 1001))) = (None, link')
     \<and> ml_close_code link' = 1001 \<and> calls link' = [CallClose]
     \<and> tx (ml_socket link') = frame_make [] 8 False key' (close_payload 1001)"
proof -
  let ?l = "example_link False (frame_make [] 8 True [1, 2, 3, 4] (close_payload 1001))"
  have "listening ?l" "incoming ?l = frame_make [] 8 (\<not> ml_client ?l) [1, 2, 3, 4] (close_payload 1001) @ []"
    "txq (ml_socket ?l) = []"
    by (simp_all add: example_link_def new_messagelink_def listening_def)
  from close_answered [OF this(1) _ _ _ this(3,2), of Some]
  show ?thesis by (auto simp: example_link_def new_messagelink_def)
qed




text \<open>A parser that reads a whole response at its first byte.\<close>

definition example_exec ::
  "http_event list \<Rightarrow> (string messagelink_t \<Rightarrow> http_event \<Rightarrow> (int \<times> string messagelink_t) outcome)
   \<Rightarrow> unit \<Rightarrow> bytes \<Rightarrow> string messagelink_t \<Rightarrow> (nat \<times> unit \<times> string messagelink_t) outcome" where
  "example_exec events cb p bs link = bind_out (run_callbacks events link) (\<lambda>l. Ret (1, p, l))"

definition example_accept :: string where
  "example_accept = make_accept (\<lambda>_. [1]) (encode_base64 [])"

definition example_response :: "http_event list" where
  "example_response =
     [OnField ''Connection'', OnValue ''Upgrade'', OnField ''Upgrade'', OnValue ''websocket'',
      OnField ''Sec-WebSocket-'', OnField ''Accept'', OnValue example_accept, OnHeadersComplete 101]"

definition example_connection :: tcp_t where
  "example_connection = \<lparr>is_open = True, rx = [Seg [1]], selects = [], txq = [], tx = []\<rparr>"

lemma example_exec_callbacks: "callbacks_only (example_exec events)"
  by (auto simp: callbacks_only_def example_exec_def outcome_simps)

lemma example_accept_nonempty: "example_accept \<noteq> []"
  by (simp add: example_accept_def make_accept_def Let_def numeral_eq_Suc)

lemma example_callbacks:
  assumes "ml_headers l = []" "ml_hname l = []" "ml_hvalue l = []" "ml_hstate l = HeaderNew"
  shows "\<exists>l'. run_callbacks example_response l = Ret l' \<and> \<not> ml_cont l'
    \<and> client_messagelink_validate_response (l'\<lparr>ml_socket := s, ml_status := 101\<rparr>) example_accept = 0"
  using assms example_accept_nonempty
  by (simp add: example_response_def outcome_simps messagelink_on_header_field_def Let_def
      messagelink_on_header_value_def messagelink_on_headers_complete_def messagelink_set_header_eq)
    (simp add: set_header_def new_http_header_def client_messagelink_validate_response_def
      messagelink_get_header_def)

lemma example_response_parsed:
  assumes "rx (ml_socket l) = [Seg [1]]" "is_open (ml_socket l)" "ml_headers l = []" "ml_hname l = []"
    "ml_hvalue l = []"
  shows "\<exists>link'. client_messagelink_parse_response (example_exec example_response) () (\<lambda>_. 101) l
        = Ret (0, link') \<and> client_messagelink_validate_response link' example_accept = 0"
proof -
  let ?l = "l\<lparr>ml_hstate := HeaderNew, ml_cont := True\<rparr>"
  let ?s = "(ml_socket l)\<lparr>rx := []\<rparr>"
  obtain l' where l': "run_callbacks example_response ?l = Ret l'" "\<not> ml_cont l'"
    "client_messagelink_validate_response (l'\<lparr>ml_socket := ?s, ml_status := 101\<rparr>) example_accept = 0"
    using example_callbacks [of ?l ?s] assms by auto
  have "tcp_socket_recv (ml_socket l) 1 = (1, [1], ?s)"
    using assms by (simp add: tcp_socket_recv_def)
  with l' have "parse_response_loop (example_exec example_response) () (ml_socket l) ?l = Ret (0, (), ?s, l')"
    by (simp add: parse_response_loop.simps [of _ _ _ ?l] parse_response_loop.simps [of _ _ _ l']
        example_exec_def outcome_simps)
  with l' show ?thesis by (simp add: client_messagelink_parse_response_def)
qed

lemma example_connects:
  "\<exists>link'. client_messagelink_connect (example_exec example_response) () (\<lambda>_. 101) (\<lambda>_. [1]) []
       (Some (example_connection, None)) (new_messagelink ''a'' ''b'' False False None 0 [])
       \<lparr>sin_family = AF_INET, sin_port = 5, sin_addr = 7\<rparr> = Ret (0, link')"
proof -
  let ?ip = "addr_ip \<lparr>sin_family = AF_INET, sin_port = 5, sin_addr = 7\<rparr> 64"
  have "length ?ip \<le> 63" by (simp add: addr_ip_def snprintf_def)
  then have n: "length (client_request ?ip []) < 2048" by (simp add: client_request_def)
  have a: "make_accept (\<lambda>_. [1]) [] = example_accept" by (simp add: example_accept_def)
  let ?l = "(new_messagelink ''a'' ''b'' False False None 0 [])
    \<lparr>ml_client := True, ml_socket := example_connection, ml_addr := None, ml_state := WS_CLIENT_CONNECTING\<rparr>
    :: string messagelink_t"
  let ?l1 = "?l\<lparr>ml_socket := example_connection\<lparr>tx := bytes_of (client_request ?ip [])\<rparr>\<rparr>"
  have r: "client_messagelink_send_request ?l ?ip [] = Ret (0, ?l1)"
    using n by (simp add: client_messagelink_send_request_def send_printed_def printed_def
        tcp_socket_send_idle example_connection_def)
  obtain l2 where "client_messagelink_parse_response (example_exec example_response) () (\<lambda>_. 101) ?l1 = Ret (0, l2)"
    "client_messagelink_validate_response l2 example_accept = 0"
    using example_response_parsed [of ?l1]
    by (auto simp: example_connection_def new_messagelink_def)
  with a r have "client_messagelink_open_websocket (example_exec example_response) () (\<lambda>_. 101) (\<lambda>_. [1]) []
      ?l ?ip = Ret (0, l2)"
    by (simp add: client_messagelink_open_websocket_def Let_def)
  then show ?thesis
    by (simp add: client_messagelink_connect_def same_remote_def client_messagelink_open_socket_def
        Let_def) (simp add: new_messagelink_def)
qed


end
