(* ===== verification/Circular.thy ===== *)
theory Circular
  imports Prelude
begin

text \<open>
  The circular buffer, librcom/src/circular.c, through which a streamer hands its data to the
  thread of each client.  The positions are C ints, here natural numbers: they are never negative.
  The mutex makes every operation one step.

  The interface the streamer relies on is the locale \<open>byte_queue\<close> at the end: a bounded
  first-in first-out queue, as long as no write fills it completely.
\<close>

section \<open>Model\<close>

record circular_buffer_t =
  buffer :: bytes
  buflength :: nat
  readpos :: nat
  writepos :: nat

definition new_circular_buffer :: "nat \<Rightarrow> circular_buffer_t" where
  "new_circular_buffer sz =
     \<lparr>buffer = replicate sz 0, buflength = sz, readpos = 0, writepos = 0\<rparr>"

definition circular_buffer_size :: "circular_buffer_t \<Rightarrow> nat" where
  "circular_buffer_size r = buflength r"

definition circular_buffer_data_available :: "circular_buffer_t \<Rightarrow> nat" where
  "circular_buffer_data_available r =
     (if writepos r \<ge> readpos r then writepos r - readpos r
      else buflength r + writepos r - readpos r)"

definition circular_buffer_space_available :: "circular_buffer_t \<Rightarrow> nat" where
  "circular_buffer_space_available r =
     (if writepos r \<ge> readpos r then buflength r + readpos r - writepos r
      else readpos r - writepos r)"

text \<open>
  The two memcpy calls and the updates of the write position, in the code's order: \<open>len1\<close> bytes up
  to the end of the array, \<open>len2\<close> from its start.  A request longer than the buffer is ignored.
\<close>

definition circular_buffer_write :: "circular_buffer_t \<Rightarrow> bytes \<Rightarrow> nat \<Rightarrow> circular_buffer_t" where
  "circular_buffer_write r src len =
     (if len > buflength r then r
      else let over = writepos r + len > buflength r;
               len1 = (if over then buflength r - writepos r else len);
               len2 = (if over then len - len1 else 0);
               r = (if len1 \<noteq> 0
                    then r\<lparr>buffer := blit (buffer r) (writepos r) (take len1 src),
                           writepos := writepos r + len1\<rparr> else r)
           in if len2 \<noteq> 0
              then r\<lparr>buffer := blit (buffer r) 0 (take len2 (drop len1 src)), writepos := len2\<rparr>
              else r)"

text \<open>A read returns what is copied into the caller's buffer; longer requests are cut.\<close>

definition circular_buffer_read :: "circular_buffer_t \<Rightarrow> nat \<Rightarrow> bytes \<times> circular_buffer_t" where
  "circular_buffer_read r len =
     (let req = (if len > buflength r then buflength r else len);
          over = readpos r + req > buflength r;
          len1 = (if over then buflength r - readpos r else req);
          len2 = (if over then req - len1 else 0);
          out1 = take len1 (drop (readpos r) (buffer r));
          r = (if len1 \<noteq> 0 then r\<lparr>readpos := readpos r + len1\<rparr> else r);
          out2 = take len2 (buffer r);
          r = (if len2 \<noteq> 0 then r\<lparr>readpos := len2\<rparr> else r)
      in (out1 @ out2, r))"

section \<open>Abstraction to a queue\<close>

definition buffer_wf :: "circular_buffer_t \<Rightarrow> bool" where
  "buffer_wf r \<longleftrightarrow> length (buffer r) = buflength r \<and> readpos r \<le> buflength r
                   \<and> writepos r \<le> buflength r"

definition contents :: "circular_buffer_t \<Rightarrow> bytes" where
  "contents r =
     (if writepos r \<ge> readpos r then take (writepos r - readpos r) (drop (readpos r) (buffer r))
      else drop (readpos r) (buffer r) @ take (writepos r) (buffer r))"

lemma buffer_wf_new [inv_intros]: "buffer_wf (new_circular_buffer n)"
  by (simp add: buffer_wf_def new_circular_buffer_def)

lemma contents_new [simp]: "contents (new_circular_buffer n) = []"
  by (simp add: contents_def new_circular_buffer_def)

lemma length_contents: "buffer_wf r \<Longrightarrow> length (contents r) = circular_buffer_data_available r"
  by (auto simp: contents_def buffer_wf_def circular_buffer_data_available_def)

lemma space_and_data:
  "buffer_wf r \<Longrightarrow> circular_buffer_data_available r + circular_buffer_space_available r
                   = buflength r"
  by (auto simp: buffer_wf_def circular_buffer_data_available_def circular_buffer_space_available_def)

lemma buffer_wf_write [inv_intros]:
  "buffer_wf r \<Longrightarrow> len \<le> length src \<Longrightarrow> buffer_wf (circular_buffer_write r src len)"
  by (auto simp: buffer_wf_def circular_buffer_write_def Let_def)

lemma buffer_wf_read [inv_intros]:
  "buffer_wf r \<Longrightarrow> buffer_wf (snd (circular_buffer_read r len))"
  by (auto simp: buffer_wf_def circular_buffer_read_def Let_def)

lemma buflength_write [simp]: "buflength (circular_buffer_write r src len) = buflength r"
  by (simp add: circular_buffer_write_def Let_def)

lemma buflength_read [simp]: "buflength (snd (circular_buffer_read r len)) = buflength r"
  by (simp add: circular_buffer_read_def Let_def)

lemma write_straight:
  assumes "buffer_wf r" "len \<le> length src" "writepos r + len \<le> buflength r"
  shows "circular_buffer_write r src len =
     r\<lparr>buffer := blit (buffer r) (writepos r) (take len src), writepos := writepos r + len\<rparr>"
  using assms by (cases "len = 0") (auto simp: circular_buffer_write_def Let_def buffer_wf_def)

lemma write_wrap:
  assumes "buffer_wf r" "len \<le> length src" "len \<le> buflength r" "buflength r < writepos r + len"
  shows "circular_buffer_write r src len =
     r\<lparr>buffer := blit (blit (buffer r) (writepos r) (take (buflength r - writepos r) src)) 0
                      (take (len - (buflength r - writepos r)) (drop (buflength r - writepos r) src)),
       writepos := len - (buflength r - writepos r)\<rparr>"
  using assms by (auto simp: circular_buffer_write_def Let_def buffer_wf_def)

lemma contents_write_straight:
  assumes wf: "buffer_wf r" and len: "len \<le> length src" "writepos r + len \<le> buflength r"
    and space: "len < circular_buffer_space_available r"
  shows "contents (circular_buffer_write r src len) = contents r @ take len src"
proof (cases "readpos r \<le> writepos r")
  case True
  have "take (writepos r + len - readpos r) (drop (readpos r) (blit (buffer r) (writepos r) (take len src)))
        = drop (readpos r) (take (writepos r + len) (blit (buffer r) (writepos r) (take len src)))"
    by (simp add: drop_take)
  also have "\<dots> = drop (readpos r) (take (writepos r) (buffer r)) @ take len src"
    using wf len True by (simp add: blit_def buffer_wf_def)
  finally show ?thesis
    using True by (simp add: write_straight [OF wf len] contents_def drop_take)
next
  case False
  then have lt: "writepos r + len < readpos r"
    using space by (simp add: circular_buffer_space_available_def)
  have "drop (readpos r) (blit (buffer r) (writepos r) (take len src)) = drop (readpos r) (buffer r)"
    using wf len lt by (simp add: blit_def buffer_wf_def)
  moreover have "take (writepos r + len) (blit (buffer r) (writepos r) (take len src))
      = take (writepos r) (buffer r) @ take len src"
    using wf len by (simp add: blit_def buffer_wf_def)
  ultimately show ?thesis
    using False lt by (simp add: write_straight [OF wf len] contents_def)
qed

lemma contents_write_wrap:
  assumes wf: "buffer_wf r" and len: "len \<le> length src" "buflength r < writepos r + len"
    and space: "len < circular_buffer_space_available r"
  shows "contents (circular_buffer_write r src len) = contents r @ take len src"
proof -
  have rw: "readpos r \<le> writepos r"
    using assms by (auto simp: circular_buffer_space_available_def buffer_wf_def split: if_splits)
  define k where "k = buflength r - writepos r"
  have k: "k \<le> len" "len - k < readpos r" "writepos r + k = buflength r" "len \<le> buflength r"
    using assms rw by (auto simp: k_def circular_buffer_space_available_def buffer_wf_def)
  define b where "b = blit (blit (buffer r) (writepos r) (take k src)) 0 (take (len - k) (drop k src))"
  have b: "b = take (len - k) (drop k src) @ drop (len - k) (take (writepos r) (buffer r) @ take k src)"
    using wf len k by (simp add: b_def blit_def buffer_wf_def)
  have "drop (readpos r) b = drop (readpos r) (take (writepos r) (buffer r)) @ take k src"
    using wf len k rw by (simp add: b buffer_wf_def)
  moreover have "take (len - k) b = take (len - k) (drop k src)"
    using len k by (simp add: b)
  moreover have "take k src @ take (len - k) (drop k src) = take len src"
    using k by (metis le_add_diff_inverse take_add)
  moreover have "contents (circular_buffer_write r src len) = drop (readpos r) b @ take (len - k) b"
    using k by (simp add: write_wrap [OF wf len(1) k(4) len(2)] contents_def b_def k_def [symmetric])
  ultimately show ?thesis using rw by (simp add: contents_def drop_take)
qed

lemma contents_write:
  assumes "buffer_wf r" "len \<le> length src" "len < circular_buffer_space_available r"
  shows "contents (circular_buffer_write r src len) = contents r @ take len src"
  using contents_write_straight [OF assms(1,2) _ assms(3)] contents_write_wrap [OF assms(1,2) _ assms(3)]
  by linarith


lemma contents_read:
  assumes wf: "buffer_wf r" and len: "len \<le> circular_buffer_data_available r"
  shows "fst (circular_buffer_read r len) = take len (contents r)"
    and "contents (snd (circular_buffer_read r len)) = drop len (contents r)"
proof -
  have le: "len \<le> buflength r" using space_and_data [OF wf] len by linarith
  define k where "k = buflength r - readpos r"
  have "fst (circular_buffer_read r len) = take len (contents r)
    \<and> contents (snd (circular_buffer_read r len)) = drop len (contents r)"
  proof (cases "readpos r + len \<le> buflength r")
    case True
    then have rd: "circular_buffer_read r len
        = (take len (drop (readpos r) (buffer r)), r\<lparr>readpos := readpos r + len\<rparr>)"
      using le by (cases "len = 0") (auto simp: circular_buffer_read_def Let_def)
    show ?thesis
    proof (cases "readpos r \<le> writepos r")
      case True
      then have "len + readpos r \<le> writepos r"
        using len by (simp add: circular_buffer_data_available_def)
      with True show ?thesis
        by (simp add: rd contents_def min_absorb1 drop_take add.commute)
    next
      case False
      then show ?thesis
        using wf \<open>readpos r + len \<le> buflength r\<close>
        by (simp add: rd contents_def buffer_wf_def add.commute)
    qed
  next
    case False
    then have gt: "writepos r < readpos r"
      using len wf by (auto simp: circular_buffer_data_available_def buffer_wf_def split: if_splits)
    have k: "k < len" "len - k \<le> writepos r" "len - k \<noteq> 0"
      using False len gt wf by (auto simp: k_def circular_buffer_data_available_def buffer_wf_def)
    have rd: "circular_buffer_read r len
        = (drop (readpos r) (buffer r) @ take (len - k) (buffer r), r\<lparr>readpos := len - k\<rparr>)"
      using False le k wf by (auto simp: circular_buffer_read_def Let_def k_def buffer_wf_def)
    show ?thesis
      using gt k wf by (simp add: rd contents_def buffer_wf_def k_def drop_take min_def)
  qed
  then show "fst (circular_buffer_read r len) = take len (contents r)"
    and "contents (snd (circular_buffer_read r len)) = drop len (contents r)" by auto
qed

section \<open>The queue interface\<close>

text \<open>
  What a client of the buffer may rely on.  \<open>space\<close> counts the free bytes; a write that leaves at
  least one of them free appends, and a read of no more than is there takes from the front.
\<close>

locale byte_queue =
  fixes inv :: "'q \<Rightarrow> bool"
    and queue :: "'q \<Rightarrow> bytes"
    and capacity :: "'q \<Rightarrow> nat"
    and avail :: "'q \<Rightarrow> nat"
    and space :: "'q \<Rightarrow> nat"
    and enq :: "'q \<Rightarrow> bytes \<Rightarrow> nat \<Rightarrow> 'q"
    and deq :: "'q \<Rightarrow> nat \<Rightarrow> bytes \<times> 'q"
  assumes avail_queue: "inv q \<Longrightarrow> avail q = length (queue q)"
    and space_avail: "inv q \<Longrightarrow> avail q + space q = capacity q"
    and inv_enq: "inv q \<Longrightarrow> n \<le> length bs \<Longrightarrow> inv (enq q bs n)"
    and inv_deq: "inv q \<Longrightarrow> inv (snd (deq q n))"
    and capacity_enq: "capacity (enq q bs n) = capacity q"
    and capacity_deq: "capacity (snd (deq q n)) = capacity q"
    and queue_enq: "inv q \<Longrightarrow> n \<le> length bs \<Longrightarrow> n < space q \<Longrightarrow> queue (enq q bs n) = queue q @ take n bs"
    and deq_front: "inv q \<Longrightarrow> n \<le> avail q \<Longrightarrow> fst (deq q n) = take n (queue q)"
    and queue_deq: "inv q \<Longrightarrow> n \<le> avail q \<Longrightarrow> queue (snd (deq q n)) = drop n (queue q)"
begin

lemma space_enq:
  assumes "inv q" "n \<le> length bs" "n < space q"
  shows "space (enq q bs n) = space q - n"
proof -
  have "avail (enq q bs n) = avail q + n"
    using assms by (simp add: avail_queue inv_enq queue_enq)
  with space_avail [OF assms(1)] space_avail [OF inv_enq [OF assms(1,2)]] assms(3)
  show ?thesis by (simp add: capacity_enq)
qed

text \<open>Two writes that fit together are one message, whole and in order.\<close>

lemma enq_two:
  assumes "inv q" "length a + length b < space q"
  shows "queue (enq (enq q a (length a)) b (length b)) = queue q @ a @ b"
    and "inv (enq (enq q a (length a)) b (length b))"
    and "space (enq (enq q a (length a)) b (length b)) = space q - (length a + length b)"
proof -
  have a: "inv (enq q a (length a))" "queue (enq q a (length a)) = queue q @ a"
    "space (enq q a (length a)) = space q - length a"
    using assms by (simp_all add: inv_enq queue_enq space_enq)
  with assms show "queue (enq (enq q a (length a)) b (length b)) = queue q @ a @ b"
    "inv (enq (enq q a (length a)) b (length b))"
    "space (enq (enq q a (length a)) b (length b)) = space q - (length a + length b)"
    by (simp_all add: inv_enq queue_enq space_enq)
qed

text \<open>What was written is what is read, after what was there before.\<close>

lemma enq_deq:
  assumes "inv q" "n \<le> length bs" "n < space q"
  shows "fst (deq (enq q bs n) (avail q + n)) = queue q @ take n bs"
  using assms by (simp add: avail_queue deq_front inv_enq queue_enq)

end

interpretation cb: byte_queue buffer_wf contents buflength circular_buffer_data_available
  circular_buffer_space_available circular_buffer_write circular_buffer_read
  by unfold_locales
     (simp_all add: length_contents space_and_data buffer_wf_write buffer_wf_read contents_write
       contents_read)

section \<open>Properties\<close>

text \<open>
  A run of guarded writes and reads, as the streamer and its clients make them: a message is written
  only when the space left is larger than the message, a read takes at most what is available.
\<close>

datatype queue_op = Enqueue bytes | Dequeue nat

fun buffer_trace :: "circular_buffer_t \<Rightarrow> queue_op list \<Rightarrow> bytes list" where
  "buffer_trace r [] = []"
| "buffer_trace r (Enqueue bs # ops) =
     buffer_trace (if circular_buffer_space_available r > length bs
                   then circular_buffer_write r bs (length bs) else r) ops"
| "buffer_trace r (Dequeue n # ops) =
     (let (out, r') = circular_buffer_read r (min n (circular_buffer_data_available r))
      in out # buffer_trace r' ops)"

text \<open>The same run on the specification, a list of at most \<open>cap\<close> bytes.\<close>

fun queue_trace :: "nat \<Rightarrow> bytes \<Rightarrow> queue_op list \<Rightarrow> bytes list" where
  "queue_trace cap q [] = []"
| "queue_trace cap q (Enqueue bs # ops) =
     queue_trace cap (if length q + length bs < cap then q @ bs else q) ops"
| "queue_trace cap q (Dequeue n # ops) = take n q # queue_trace cap (drop n q) ops"



text \<open>A write that takes all the space the buffer announces, at any time after the reader has moved
  on from the start, makes the buffer report that it is empty: every byte in it is lost.\<close>

theorem full_write_empties:
  assumes "buffer_wf r" "0 < readpos r" "len = circular_buffer_space_available r" "len \<le> length src"
  shows "circular_buffer_data_available (circular_buffer_write r src len) = 0"
proof (cases "readpos r \<le> writepos r")
  case True
  with assms have "len \<le> buflength r" "buflength r < writepos r + len"
    by (auto simp: circular_buffer_space_available_def buffer_wf_def)
  with assms True show ?thesis
    by (simp add: write_wrap circular_buffer_data_available_def circular_buffer_space_available_def
        buffer_wf_def)
next
  case False
  with assms have "writepos r + len \<le> buflength r"
    by (simp add: circular_buffer_space_available_def buffer_wf_def)
  with assms False show ?thesis
    by (simp add: write_straight circular_buffer_data_available_def circular_buffer_space_available_def)
qed

theorem full_write_empties_witness:
  "circular_buffer_data_available
     (circular_buffer_write \<lparr>buffer = [1, 2, 3, 4], buflength = 4, readpos = 2, writepos = 4\<rparr> [5, 6] 2) = 0"
  by (rule full_write_empties) (simp_all add: buffer_wf_def circular_buffer_space_available_def)

end
