(* ===== verification/Streamer.thy ===== *)
theory Streamer
  imports Request Circular
begin

text \<open>
  The streamer, librcom/src/streamer.c: a web server that sends a stream of parts, such as the images of
  a camera, to any number of clients.  The server thread accepts connections, the data thread hands
  the parts to streamer_send_multipart, and every client has a thread that empties the circular
  buffer of the client into its connection.

  A client is a pointer into the heap \<open>st_heap\<close>.  The mutex of the client lists makes each access to
  them one step, and the threads interleave between the steps of the relation \<open>streamer_step\<close>: an
  iteration of the server thread, a part handed to the clients, a turn of one client's thread.  What
  the callbacks of the user answer is an argument of the step; the context a user attaches to a client
  is not modelled, and neither are the log messages.  The time in the header of a part is printed by
  the argument \<open>fmt\<close>.
\<close>

section \<open>Model\<close>

text \<open>Where the thread of a client is: before the headers are sent, at the head of its loop, waiting for
  data inside streamer_client_read, or at its end.\<close>

datatype client_phase = Starting | Reading | Waiting | Finished

record streamer_client_t =
  sc_socket :: tcp_t
  sc_request :: "request_t option"
  sc_buffer :: circular_buffer_t
  sc_phase :: client_phase

record streamer_t =
  st_name :: string
  st_topic :: string
  st_addr :: "addr_t option"
  st_mimetype :: string
  st_clients :: "ptr list"
  st_finished :: "ptr list"
  st_heap :: "ptr \<Rightarrow> streamer_client_t option"
  st_cont :: bool
  st_quit :: bool

text \<open>The threads are started by new_streamer; the server socket and its address are arguments.\<close>

definition new_streamer :: "string \<Rightarrow> string \<Rightarrow> addr_t option \<Rightarrow> string \<Rightarrow> streamer_t" where
  "new_streamer name topic addr mimetype =
     \<lparr>st_name = name, st_topic = topic, st_addr = addr, st_mimetype = mimetype, st_clients = [],
      st_finished = [], st_heap = (\<lambda>_. None), st_cont = True, st_quit = False\<rparr>"

definition streamer_quit :: "streamer_t \<Rightarrow> bool" where
  "streamer_quit st \<longleftrightarrow> st_quit st \<or> \<not> st_cont st"

definition new_streamer_client :: "tcp_t \<Rightarrow> streamer_client_t" where
  "new_streamer_client socket =
     \<lparr>sc_socket = socket, sc_request = None, sc_buffer = new_circular_buffer (1 * 1024 * 1024),
      sc_phase = Starting\<rparr>"

text \<open>One round of the loop that waits for data: None is another ten milliseconds of sleep.\<close>

definition streamer_client_read ::
  "bool \<Rightarrow> streamer_client_t \<Rightarrow> nat \<Rightarrow> (bytes \<times> streamer_client_t) option" where
  "streamer_client_read quit c len =
     (let available = circular_buffer_data_available (sc_buffer c)
      in if available = 0 then (if quit then Some ([], c) else None)
         else let n = (if available > len then len else available);
                  (data, b) = circular_buffer_read (sc_buffer c) n
              in Some (data, c\<lparr>sc_buffer := b\<rparr>))"

definition streamer_client_leave :: "streamer_client_t \<Rightarrow> streamer_client_t" where
  "streamer_client_leave c = c\<lparr>sc_socket := close_tcp_socket (sc_socket c), sc_phase := Finished\<rparr>"

text \<open>A turn of the thread; \<open>quit\<close> is what streamer_quit answers.\<close>

definition streamer_client_turn ::
  "string \<Rightarrow> bool \<Rightarrow> streamer_client_t \<Rightarrow> streamer_client_t outcome" where
  "streamer_client_turn mimetype quit c =
     (case sc_phase c of
        Starting \<Rightarrow>
          bind_out (http_send_streaming_headers (sc_socket c) mimetype) (\<lambda>(err, s).
            let c = c\<lparr>sc_socket := s\<rparr>
            in Ret (if err \<noteq> 0 then streamer_client_leave c else c\<lparr>sc_phase := Reading\<rparr>))
      | Reading \<Rightarrow> Ret (if quit then streamer_client_leave c else c\<lparr>sc_phase := Waiting\<rparr>)
      | Waiting \<Rightarrow>
          Ret (case streamer_client_read quit c 16384 of
                 None \<Rightarrow> c
               | Some (received, c) \<Rightarrow>
                   let (err, s) = http_send_chunk (sc_socket c) received;
                       c = c\<lparr>sc_socket := s\<rparr>
                   in if err = -1 then streamer_client_leave c else c\<lparr>sc_phase := Reading\<rparr>)
      | Finished \<Rightarrow> Ret c)"

subsection \<open>The lists of clients\<close>

definition streamer_count_clients :: "streamer_t \<Rightarrow> nat" where
  "streamer_count_clients st = length (st_clients st)"

definition streamer_get_client :: "streamer_t \<Rightarrow> nat \<Rightarrow> ptr option" where
  "streamer_get_client st n = (if n < length (st_clients st) then Some (st_clients st ! n) else None)"

definition streamer_has_clients :: "streamer_t \<Rightarrow> bool" where
  "streamer_has_clients st \<longleftrightarrow> st_clients st \<noteq> []"

definition streamer_add_client :: "streamer_t \<Rightarrow> ptr \<Rightarrow> streamer_t" where
  "streamer_add_client st p = st\<lparr>st_clients := st_clients st @ [p]\<rparr>"

definition streamer_remove_client :: "streamer_t \<Rightarrow> ptr \<Rightarrow> streamer_t" where
  "streamer_remove_client st p =
     st\<lparr>st_clients := list_remove (st_clients st) p, st_finished := p # st_finished st\<rparr>"

text \<open>The pointer must be valid; the memory of the client is gone afterwards.\<close>

definition delete_streamer_client :: "streamer_t \<Rightarrow> ptr \<Rightarrow> streamer_t outcome" where
  "delete_streamer_client st p =
     bind_out (deref (st_heap st p)) (\<lambda>c. Ret (st\<lparr>st_heap := (st_heap st)(p := None)\<rparr>))"

fun delete_client_list :: "streamer_t \<Rightarrow> ptr list \<Rightarrow> streamer_t outcome" where
  "delete_client_list st [] = Ret st"
| "delete_client_list st (p # ps) = bind_out (delete_streamer_client st p) (\<lambda>st. delete_client_list st ps)"

definition streamer_delete_clients :: "streamer_t \<Rightarrow> streamer_t outcome" where
  "streamer_delete_clients st =
     bind_out (delete_client_list st (st_finished st)) (\<lambda>st. Ret (st\<lparr>st_finished := []\<rparr>))"

definition streamer_client_run_turn :: "streamer_t \<Rightarrow> ptr \<Rightarrow> streamer_t outcome" where
  "streamer_client_run_turn st p =
     bind_out (deref (st_heap st p)) (\<lambda>c.
     bind_out (streamer_client_turn (st_mimetype st) (streamer_quit st) c) (\<lambda>c'.
       let st = st\<lparr>st_heap := (st_heap st)(p \<mapsto> c')\<rparr>
       in Ret (if sc_phase c \<noteq> Finished \<and> sc_phase c' = Finished then streamer_remove_client st p else st)))"

subsection \<open>Sending a part\<close>

definition multipart_header :: "('d \<Rightarrow> string) \<Rightarrow> string \<Rightarrow> nat \<Rightarrow> 'd \<Rightarrow> string" where
  "multipart_header fmt mimetype len time =
     ''--nextimage'' @ crlf @ ''Content-Type: '' @ mimetype @ crlf
     @ ''Content-Length: '' @ show_nat len @ crlf @ ''X-LT-Timestamp: '' @ fmt time @ crlf @ crlf"

text \<open>A part that does not leave a byte of the buffer free is dropped.  The header is in an array of 512
  characters.\<close>

definition streamer_client_part :: "string \<Rightarrow> bytes \<Rightarrow> streamer_client_t \<Rightarrow> streamer_client_t outcome" where
  "streamer_client_part header data c =
     (let total = length header + length data
      in if circular_buffer_space_available (sc_buffer c) > total
         then bind_out (printed 512 header) (\<lambda>h.
                Ret (c\<lparr>sc_buffer := circular_buffer_write
                          (circular_buffer_write (sc_buffer c) h (length header)) data (length data)\<rparr>))
         else Ret c)"

fun send_part_loop :: "string \<Rightarrow> bytes \<Rightarrow> ptr list \<Rightarrow> streamer_t \<Rightarrow> streamer_t outcome" where
  "send_part_loop header data [] st = Ret st"
| "send_part_loop header data (p # ps) st =
     bind_out (deref (st_heap st p)) (\<lambda>c.
     bind_out (streamer_client_part header data c) (\<lambda>c'.
       send_part_loop header data ps (st\<lparr>st_heap := (st_heap st)(p \<mapsto> c')\<rparr>)))"

definition streamer_send_multipart ::
  "('d \<Rightarrow> string) \<Rightarrow> streamer_t \<Rightarrow> bytes \<Rightarrow> string \<Rightarrow> 'd \<Rightarrow> (int \<times> streamer_t) outcome" where
  "streamer_send_multipart fmt st data mimetype time =
     map_out (Pair 0)
       (send_part_loop (multipart_header fmt mimetype (length data) time) data (st_clients st) st)"

subsection \<open>The server thread\<close>

definition index_html :: "streamer_t \<Rightarrow> string" where
  "index_html st =
     ''<!DOCTYPE html>'' @ [chLF] @ ''<html lang='' @ [chQUOTE] @ ''en'' @ [chQUOTE] @ ''>'' @ [chLF]
     @ ''  <head>'' @ [chLF] @ ''    <meta charset='' @ [chQUOTE] @ ''utf-8'' @ [chQUOTE] @ ''>'' @ [chLF]
     @ ''    <title>'' @ st_name st @ ''</title>'' @ [chLF] @ ''  </head>'' @ [chLF] @ ''  <body>'' @ [chLF]
     @ ''    <a href='' @ [chQUOTE] @ ''http://'' @ addr_string (st_addr st) 52 @ ''/'' @ [chQUOTE] @ ''>''
     @ st_name st @ '':'' @ st_topic st @ ''</a><br>'' @ [chLF] @ ''  </body>'' @ [chLF] @ ''</html>'' @ [chLF]"

definition index_json :: "streamer_t \<Rightarrow> string" where
  "index_json st =
     ''{'' @ [chQUOTE] @ ''exports'' @ [chQUOTE] @ '': [{'' @ [chQUOTE] @ ''name'' @ [chQUOTE] @ '': ''
     @ [chQUOTE] @ st_name st @ [chQUOTE] @ '', '' @ [chQUOTE] @ ''topic'' @ [chQUOTE] @ '': '' @ [chQUOTE]
     @ st_topic st @ [chQUOTE] @ '', '' @ [chQUOTE] @ ''uri'' @ [chQUOTE] @ '': '' @ [chQUOTE] @ ''http://''
     @ addr_string (st_addr st) 52 @ ''/'' @ [chQUOTE] @ ''}]}''"

definition send_page :: "tcp_t \<Rightarrow> string \<Rightarrow> string \<Rightarrow> tcp_t" where
  "send_page s mimetype page =
     (let (err, s) = http_send_headers s 200 mimetype (int (length page))
      in if err \<noteq> 0 then s else snd (tcp_socket_send s (bytes_of page)))"

definition streamer_send_index_html :: "streamer_t \<Rightarrow> tcp_t \<Rightarrow> tcp_t" where
  "streamer_send_index_html st s = send_page s ''text/html'' (index_html st)"

definition streamer_send_index_json :: "streamer_t \<Rightarrow> tcp_t \<Rightarrow> tcp_t" where
  "streamer_send_index_json st s = send_page s ''application/json'' (index_json st)"

definition streamer_client_parse_request ::
  "(request_t, 'p) parser_exec \<Rightarrow> 'p \<Rightarrow> nat option \<Rightarrow> streamer_client_t
   \<Rightarrow> (int \<times> streamer_client_t) outcome" where
  "streamer_client_parse_request exec p polls c =
     bind_out (request_parse_html exec polls p new_request (sc_socket c) PARSE_ALL) (\<lambda>(err, s, r).
       if err \<noteq> 0 then
         map_out (\<lambda>(_, s). (-1, c\<lparr>sc_socket := s, sc_request := None\<rparr>)) (http_send_error_headers s 500)
       else if r_uri r = None then
         map_out (\<lambda>(_, s). (-1, c\<lparr>sc_socket := s, sc_request := None\<rparr>)) (http_send_error_headers s 400)
       else Ret (0, c\<lparr>sc_socket := s, sc_request := Some r\<rparr>))"

text \<open>When the user's callback refuses the client, the connection stays open and the client stays in
  memory, in no list.\<close>

definition streamer_start_stream :: "streamer_t \<Rightarrow> ptr \<Rightarrow> streamer_client_t \<Rightarrow> int \<Rightarrow> streamer_t outcome" where
  "streamer_start_stream st p c onclient =
     (if onclient \<noteq> 0 then
        bind_out (http_send_error_headers (sc_socket c) 500) (\<lambda>(_, s).
          Ret (st\<lparr>st_heap := (st_heap st)(p \<mapsto> c\<lparr>sc_socket := s\<rparr>)\<rparr>))
      else Ret (streamer_add_client (st\<lparr>st_heap := (st_heap st)(p \<mapsto> c)\<rparr>) p))"

text \<open>An iteration of the server thread, when a connection was accepted; \<open>p\<close> is the pointer the
  allocator returns and \<open>onclient\<close> what the user's callback does, 0 when there is none.\<close>

definition streamer_serve ::
  "(request_t, 'p) parser_exec \<Rightarrow> 'p \<Rightarrow> nat option \<Rightarrow> int \<Rightarrow> streamer_t \<Rightarrow> ptr \<Rightarrow> tcp_t
   \<Rightarrow> streamer_t outcome" where
  "streamer_serve exec parser polls onclient st p socket =
     bind_out (streamer_delete_clients st) (\<lambda>st.
     bind_out (streamer_client_parse_request exec parser polls (new_streamer_client socket)) (\<lambda>(err, c).
       let st = st\<lparr>st_heap := (st_heap st)(p \<mapsto> c)\<rparr>; socket = sc_socket c
       in if err \<noteq> 0 then
            Ret (st\<lparr>st_heap := (st_heap st)(p \<mapsto> c\<lparr>sc_socket := close_tcp_socket socket\<rparr>)\<rparr>)
          else bind_out (deref (sc_request c)) (\<lambda>r.
            let uri = r_uri r
            in if uri = Some ''/'' \<or> uri = Some ''/index.html'' then
                 (let s = streamer_send_index_html st socket
                  in delete_streamer_client (st\<lparr>st_heap := (st_heap st)(p \<mapsto> c\<lparr>sc_socket := s\<rparr>)\<rparr>) p)
               else if uri = Some ''/index.json'' then
                 (let s = streamer_send_index_json st socket
                  in delete_streamer_client (st\<lparr>st_heap := (st_heap st)(p \<mapsto> c\<lparr>sc_socket := s\<rparr>)\<rparr>) p)
               else if uri = Some ''/stream.html'' then streamer_start_stream st p c onclient
               else bind_out (http_send_error_headers socket 400) (\<lambda>(_, s).
                      delete_streamer_client (st\<lparr>st_heap := (st_heap st)(p \<mapsto> c\<lparr>sc_socket := s\<rparr>)\<rparr>) p))))"

definition streamer_run_server ::
  "(request_t, 'p) parser_exec \<Rightarrow> 'p \<Rightarrow> nat option \<Rightarrow> int \<Rightarrow> streamer_t \<Rightarrow> ptr \<Rightarrow> accepted
   \<Rightarrow> streamer_t outcome" where
  "streamer_run_server exec parser polls onclient st p a =
     (if streamer_quit st then Ret st
      else case a of
        AcceptTimeout \<Rightarrow> Ret st
      | AcceptInvalid \<Rightarrow> Ret st
      | Accepted socket \<Rightarrow> streamer_serve exec parser polls onclient st p socket)"

subsection \<open>The end\<close>

text \<open>Joining the thread of a client: with the flag set, two more turns take it to its end.\<close>

definition streamer_join_client :: "streamer_t \<Rightarrow> ptr \<Rightarrow> streamer_t outcome" where
  "streamer_join_client st p =
     bind_out (streamer_client_run_turn st p) (\<lambda>st. streamer_client_run_turn st p)"

fun streamer_join_clients :: "streamer_t \<Rightarrow> ptr list \<Rightarrow> streamer_t outcome" where
  "streamer_join_clients st [] = Ret st"
| "streamer_join_clients st (p # ps) =
     bind_out (streamer_join_client st p) (\<lambda>st. streamer_join_clients st ps)"

definition delete_streamer :: "streamer_t \<Rightarrow> streamer_t outcome" where
  "delete_streamer st =
     (let st = st\<lparr>st_cont := False\<rparr>; l = st_clients st; st = st\<lparr>st_clients := []\<rparr>
      in bind_out (streamer_join_clients st l) streamer_delete_clients)"

section \<open>Steps\<close>

text \<open>The allocator may return the memory of a client that this iteration has just deleted.\<close>

inductive streamer_step ::
  "(request_t, 'p) parser_exec \<Rightarrow> ('d \<Rightarrow> string) \<Rightarrow> streamer_t \<Rightarrow> streamer_t \<Rightarrow> bool"
  for exec :: "(request_t, 'p) parser_exec" and fmt :: "'d \<Rightarrow> string" where
  step_server: "st_heap st p = None \<or> p \<in> set (st_finished st) \<Longrightarrow>
     streamer_run_server exec parser polls onclient st p a = Ret st' \<Longrightarrow> streamer_step exec fmt st st'"
| step_part: "streamer_send_multipart fmt st data mimetype time = Ret (n, st') \<Longrightarrow>
     streamer_step exec fmt st st'"
| step_client: "p \<in> set (st_clients st) \<Longrightarrow> streamer_client_run_turn st p = Ret st' \<Longrightarrow>
     streamer_step exec fmt st st'"
| step_quit: "streamer_step exec fmt st (st\<lparr>st_quit := True\<rparr>)"

inductive streamer_reachable ::
  "(request_t, 'p) parser_exec \<Rightarrow> ('d \<Rightarrow> string) \<Rightarrow> streamer_t \<Rightarrow> bool"
  for exec :: "(request_t, 'p) parser_exec" and fmt :: "'d \<Rightarrow> string" where
  reach_new: "streamer_reachable exec fmt (new_streamer name topic addr mimetype)"
| reach_step: "streamer_reachable exec fmt st \<Longrightarrow> streamer_step exec fmt st st' \<Longrightarrow>
     streamer_reachable exec fmt st'"

section \<open>The invariant\<close>

text \<open>A client of the lists is in memory and in one list only, its buffer is well-formed, and it is among
  the finished ones exactly when its thread has ended.\<close>

definition client_wf :: "streamer_t \<Rightarrow> ptr \<Rightarrow> bool" where
  "client_wf st p \<longleftrightarrow>
     (case st_heap st p of
        None \<Rightarrow> False
      | Some c \<Rightarrow> buffer_wf (sc_buffer c) \<and> (sc_phase c = Finished \<longleftrightarrow> p \<in> set (st_finished st)))"

definition streamer_wf :: "streamer_t \<Rightarrow> bool" where
  "streamer_wf st \<longleftrightarrow> distinct (st_clients st @ st_finished st)
     \<and> list_all (client_wf st) (st_clients st @ st_finished st)"

lemma client_wf_iff:
  "client_wf st p \<longleftrightarrow> (\<exists>c. st_heap st p = Some c \<and> buffer_wf (sc_buffer c)
     \<and> (sc_phase c = Finished \<longleftrightarrow> p \<in> set (st_finished st)))"
  by (simp add: client_wf_def split: option.splits)

lemmas streamer_wf_iff = streamer_wf_def list_all_iff client_wf_iff

lemma streamer_wf_new [inv_intros]: "streamer_wf (new_streamer name topic addr mimetype)"
  by (simp add: streamer_wf_def new_streamer_def)

lemma streamer_wf_client:
  assumes "streamer_wf st" "p \<in> set (st_clients st)"
  obtains c where "st_heap st p = Some c" "buffer_wf (sc_buffer c)" "sc_phase c \<noteq> Finished"
    "p \<notin> set (st_finished st)"
proof -
  have "client_wf st p" "p \<notin> set (st_finished st)"
    using assms by (auto simp: streamer_wf_def list_all_iff)
  with that show thesis by (auto simp: client_wf_iff)
qed

lemma streamer_wf_update:
  assumes "streamer_wf st" "st_heap st p = Some c" "buffer_wf (sc_buffer c')"
    "sc_phase c' = Finished \<longleftrightarrow> sc_phase c = Finished"
  shows "streamer_wf (st\<lparr>st_heap := (st_heap st)(p \<mapsto> c')\<rparr>)"
  using assms by (force simp: streamer_wf_iff)

subsection \<open>Deleting\<close>

lemma delete_client_list_ok:
  "distinct ps \<Longrightarrow> \<forall>p \<in> set ps. st_heap st p \<noteq> None \<Longrightarrow>
   delete_client_list st ps = Ret (st\<lparr>st_heap := (\<lambda>p. if p \<in> set ps then None else st_heap st p)\<rparr>)"
proof (induction ps arbitrary: st)
  case (Cons p ps)
  then obtain c where "st_heap st p = Some c" by auto
  moreover have "\<forall>q \<in> set ps. st_heap (st\<lparr>st_heap := (st_heap st)(p := None)\<rparr>) q \<noteq> None"
    using Cons.prems by auto
  ultimately show ?case
    using Cons.prems Cons.IH [of "st\<lparr>st_heap := (st_heap st)(p := None)\<rparr>"]
    by (auto simp: delete_streamer_client_def fun_eq_iff)
qed simp

lemma delete_clients_ok:
  assumes "streamer_wf st"
  shows "streamer_delete_clients st
     = Ret (st\<lparr>st_heap := (\<lambda>p. if p \<in> set (st_finished st) then None else st_heap st p), st_finished := []\<rparr>)"
proof -
  have "\<forall>p \<in> set (st_finished st). st_heap st p \<noteq> None" "distinct (st_finished st)"
    using assms by (auto simp: streamer_wf_iff)
  then show ?thesis by (simp add: streamer_delete_clients_def delete_client_list_ok)
qed

lemma streamer_wf_deleted [inv_intros]:
  assumes "streamer_wf st" "streamer_delete_clients st = Ret st'"
  shows "streamer_wf st'"
  using assms unfolding delete_clients_ok [OF assms(1)] by (force simp: streamer_wf_iff)

subsection \<open>The thread of a client\<close>

lemma client_turn_wf:
  assumes "streamer_client_turn mimetype quit c = Ret c'" "buffer_wf (sc_buffer c)"
  shows "buffer_wf (sc_buffer c')"
proof -
  have "buffer_wf (sc_buffer c1)" if "streamer_client_read quit c n = Some (data, c1)" for n data c1
    using that assms(2) cb.inv_deq [of "sc_buffer c"]
    by (auto simp: streamer_client_read_def Let_def split: if_splits prod.splits)
      (metis snd_conv)+
  with assms show ?thesis
    by (cases "sc_phase c")
       (auto simp: streamer_client_turn_def streamer_client_leave_def Let_def outcome_simps
         split: option.splits prod.splits if_splits)
qed

lemma wf_remove [inv_intros]:
  assumes "streamer_wf st" "p \<in> set (st_clients st)" "buffer_wf (sc_buffer c)" "sc_phase c = Finished"
  shows "streamer_wf (streamer_remove_client (st\<lparr>st_heap := (st_heap st)(p \<mapsto> c)\<rparr>) p)"
  using assms by (force simp: streamer_wf_iff streamer_remove_client_def list_remove_def)

lemma wf_client_turn [inv_intros]:
  assumes "streamer_wf st" "p \<in> set (st_clients st)" "streamer_client_run_turn st p = Ret st'"
  shows "streamer_wf st'"
proof -
  from streamer_wf_client [OF assms(1,2)] obtain c where c: "st_heap st p = Some c"
    "buffer_wf (sc_buffer c)" "sc_phase c \<noteq> Finished" by blast
  then obtain c' where t: "streamer_client_turn (st_mimetype st) (streamer_quit st) c = Ret c'"
    and st': "st' = (let st1 = st\<lparr>st_heap := (st_heap st)(p \<mapsto> c')\<rparr>
      in if sc_phase c' = Finished then streamer_remove_client st1 p else st1)"
    using assms(3) by (auto simp: streamer_client_run_turn_def outcome_simps Let_def)
  have b: "buffer_wf (sc_buffer c')" by (rule client_turn_wf [OF t c(2)])
  show ?thesis
  proof (cases "sc_phase c' = Finished")
    case True
    with st' b assms(1,2) show ?thesis by (simp add: Let_def wf_remove)
  next
    case False
    with st' b c assms(1) show ?thesis by (simp add: Let_def streamer_wf_update)
  qed
qed

subsection \<open>Sending\<close>

lemma client_part_wf:
  assumes "streamer_client_part header data c = Ret c'" "buffer_wf (sc_buffer c)"
  shows "buffer_wf (sc_buffer c') \<and> sc_phase c' = sc_phase c"
proof (cases "circular_buffer_space_available (sc_buffer c) > length header + length data")
  case True
  then obtain h where h: "printed 512 header = Ret h" and c': "c' = c\<lparr>sc_buffer := circular_buffer_write
      (circular_buffer_write (sc_buffer c) h (length header)) data (length data)\<rparr>"
    using assms(1) by (auto simp: streamer_client_part_def outcome_simps)
  have "length h = length header" using h by (auto simp: printed_def split: if_splits)
  with c' assms(2) show ?thesis by (simp add: buffer_wf_write)
next
  case False
  with assms show ?thesis by (auto simp: streamer_client_part_def)
qed

lemma wf_part_loop:
  "send_part_loop header data ps st = Ret st' \<Longrightarrow> streamer_wf st \<Longrightarrow> set ps \<subseteq> set (st_clients st) \<Longrightarrow>
   streamer_wf st'"
proof (induction ps arbitrary: st)
  case (Cons p ps)
  from Cons.prems obtain c where c: "st_heap st p = Some c" "buffer_wf (sc_buffer c)" "sc_phase c \<noteq> Finished"
    by (auto elim: streamer_wf_client)
  with Cons.prems obtain c' where c': "streamer_client_part header data c = Ret c'"
    and r: "send_part_loop header data ps (st\<lparr>st_heap := (st_heap st)(p \<mapsto> c')\<rparr>) = Ret st'"
    by (auto simp: outcome_simps)
  have "streamer_wf (st\<lparr>st_heap := (st_heap st)(p \<mapsto> c')\<rparr>)"
    using client_part_wf [OF c' c(2)] c(3) Cons.prems(2) by (intro streamer_wf_update [OF _ c(1)]) simp_all
  from Cons.IH [OF r this] Cons.prems(3) show ?case by simp
qed simp

lemma part_loop_defined:
  "length header \<le> 512 \<Longrightarrow> streamer_wf st \<Longrightarrow> set ps \<subseteq> set (st_clients st) \<Longrightarrow>
   defined (send_part_loop header data ps st)"
proof (induction ps arbitrary: st)
  case (Cons p ps)
  from Cons.prems obtain c where c: "st_heap st p = Some c" "buffer_wf (sc_buffer c)" "sc_phase c \<noteq> Finished"
    by (auto elim: streamer_wf_client)
  obtain h where "printed 512 header = Ret h" using Cons.prems(1) by (cases "length header < 512") (auto simp: printed_def)
  then obtain c' where c': "streamer_client_part header data c = Ret c'"
    by (cases "circular_buffer_space_available (sc_buffer c) > length header + length data")
       (auto simp: streamer_client_part_def)
  have "streamer_wf (st\<lparr>st_heap := (st_heap st)(p \<mapsto> c')\<rparr>)"
    using client_part_wf [OF c' c(2)] c(3) Cons.prems(2) by (intro streamer_wf_update [OF _ c(1)]) simp_all
  with Cons.IH [OF Cons.prems(1) this] Cons.prems(3) c c' show ?case by simp
qed simp

subsection \<open>The server\<close>

text \<open>A client that is in no list may be stored, changed or deleted.\<close>

lemma wf_store:
  assumes "streamer_wf st" "p \<notin> set (st_clients st)" "p \<notin> set (st_finished st)"
  shows "streamer_wf (st\<lparr>st_heap := (st_heap st)(p := x)\<rparr>)"
  using assms by (force simp: streamer_wf_iff)

lemma wf_start:
  assumes "streamer_wf st" "p \<notin> set (st_clients st)" "p \<notin> set (st_finished st)"
    "buffer_wf (sc_buffer c)" "sc_phase c \<noteq> Finished"
  shows "streamer_wf (streamer_add_client (st\<lparr>st_heap := (st_heap st)(p \<mapsto> c)\<rparr>) p)"
  using assms by (force simp: streamer_wf_iff streamer_add_client_def)

lemma parsed_client:
  assumes "streamer_client_parse_request exec parser polls (new_streamer_client socket) = Ret (err, c)"
  shows "buffer_wf (sc_buffer c) \<and> sc_phase c = Starting"
  using assms
  by (auto simp: streamer_client_parse_request_def outcome_simps new_streamer_client_def buffer_wf_new
      split: if_splits)

lemma wf_serve [inv_intros]:
  assumes "streamer_wf st" "st_heap st p = None \<or> p \<in> set (st_finished st)"
    "streamer_serve exec parser polls onclient st p socket = Ret st'"
  shows "streamer_wf st'"
proof -
  obtain st1 where d: "streamer_delete_clients st = Ret st1" using delete_clients_ok [OF assms(1)] by blast
  have w: "streamer_wf st1" by (rule streamer_wf_deleted [OF assms(1) d])
  have "st_heap st1 p = None" using d delete_clients_ok [OF assms(1)] assms(2) by auto
  then have p: "p \<notin> set (st_clients st1)" "p \<notin> set (st_finished st1)"
    using w by (force simp: streamer_wf_iff)+
  obtain err c where c: "streamer_client_parse_request exec parser polls (new_streamer_client socket) = Ret (err, c)"
    using assms(3) d by (auto simp: streamer_serve_def outcome_simps)
  note stores = wf_store [OF w p] wf_start [OF w p]
  show ?thesis
    using assms(3) d c parsed_client [OF c] stores
    by (auto simp: streamer_serve_def outcome_simps Let_def delete_streamer_client_def
        streamer_start_stream_def deref_def split: if_splits option.splits)
qed

lemma wf_step:
  assumes "streamer_step exec fmt st st'" "streamer_wf st"
  shows "streamer_wf st'"
  using assms(1)
proof (cases rule: streamer_step.cases)
  case (step_server p parser polls onclient a)
  with assms(2) show ?thesis
    by (auto simp: streamer_run_server_def split: if_splits accepted.splits intro: wf_serve)
next
  case (step_part data mimetype time n)
  then show ?thesis
    using assms(2) by (auto simp: streamer_send_multipart_def outcome_simps intro: wf_part_loop)
next
  case (step_client p)
  with assms(2) show ?thesis by (rule_tac wf_client_turn)
next
  case step_quit
  with assms(2) show ?thesis by (force simp: streamer_wf_iff)
qed

lemma reachable_wf: "streamer_reachable exec fmt st \<Longrightarrow> streamer_wf st"
  by (induction rule: streamer_reachable.induct) (auto intro: streamer_wf_new wf_step)

subsection \<open>Stopping\<close>

lemma streaming_headers_defined:
  assumes "length mimetype \<le> 1900"
  shows "\<exists>err s'. http_send_streaming_headers s mimetype = Ret (err, s')"
proof -
  have "length (show_int 200) \<le> 3" using length_show_nat [of 200 3] by (simp add: show_int_def)
  moreover have "http_status_string 200 = ''OK''" by (simp add: http_status_string_def status_table_def)
  ultimately show ?thesis
    using assms by (simp add: http_send_streaming_headers_def send_printed_def printed_def status_line_def)
qed

lemma client_turn_defined:
  "length mimetype \<le> 1900 \<Longrightarrow> \<exists>c'. streamer_client_turn mimetype quit c = Ret c'"
  using streaming_headers_defined [of mimetype "sc_socket c"]
  by (cases "sc_phase c") (auto simp: streamer_client_turn_def Let_def)

lemma client_turn_quit:
  assumes "streamer_client_turn mimetype True c = Ret c'"
  shows "sc_phase c' \<in> {Reading, Finished} \<and> (sc_phase c = Reading \<longrightarrow> sc_phase c' = Finished)"
proof -
  have "\<exists>r. streamer_client_read True c 16384 = Some r"
    by (simp add: streamer_client_read_def Let_def split: prod.splits)
  with assms show ?thesis
    by (cases "sc_phase c")
       (auto simp: streamer_client_turn_def streamer_client_leave_def Let_def outcome_simps
         split: option.splits prod.splits if_splits)
qed

lemma finished_turn [simp]: "sc_phase c = Finished \<Longrightarrow> streamer_client_turn mimetype quit c = Ret c"
  by (simp add: streamer_client_turn_def)

lemma join_client_ends:
  assumes "st_heap st p = Some c" "sc_phase c \<noteq> Finished" "streamer_quit st" "st_clients st = []"
    "length (st_mimetype st) \<le> 1900"
  shows "\<exists>c'. streamer_join_client st p
      = Ret (st\<lparr>st_heap := (st_heap st)(p \<mapsto> c'), st_finished := p # st_finished st\<rparr>)
    \<and> sc_phase c' = Finished \<and> (buffer_wf (sc_buffer c) \<longrightarrow> buffer_wf (sc_buffer c'))"
proof -
  obtain c1 where c1: "streamer_client_turn (st_mimetype st) True c = Ret c1"
    using client_turn_defined [OF assms(5)] by blast
  obtain c2 where c2: "streamer_client_turn (st_mimetype st) True c1 = Ret c2"
    using client_turn_defined [OF assms(5)] by blast
  have wf: "buffer_wf (sc_buffer c) \<Longrightarrow> buffer_wf (sc_buffer c1)" "buffer_wf (sc_buffer c1) \<Longrightarrow> buffer_wf (sc_buffer c2)"
    using client_turn_wf [OF c1] client_turn_wf [OF c2] by auto
  have q: "streamer_quit st = True" using assms(3) by simp
  have "streamer_quit (st\<lparr>st_heap := h, st_clients := a, st_finished := b\<rparr>) = True"
    "streamer_quit (st\<lparr>st_heap := h\<rparr>) = True" for h a b
    using assms(3) by (simp_all add: streamer_quit_def)
  note run = streamer_client_run_turn_def streamer_remove_client_def Let_def this q assms(1,2,4)
  show ?thesis
  proof (cases "sc_phase c1 = Finished")
    case True
    with c1 have "streamer_client_run_turn st p
        = Ret (st\<lparr>st_heap := (st_heap st)(p \<mapsto> c1), st_clients := [], st_finished := p # st_finished st\<rparr>)"
      by (simp add: run list_remove_def)
    then show ?thesis using True wf assms(4)
      by (intro exI [of _ c1]) (auto simp: streamer_join_client_def run list_remove_def)
  next
    case False
    with client_turn_quit [OF c1] client_turn_quit [OF c2] have "sc_phase c2 = Finished" by auto
    with False c1 c2 wf show ?thesis
      by (intro exI [of _ c2]) (auto simp: streamer_join_client_def run list_remove_def)
  qed
qed

lemma join_clients_end:
  "streamer_wf (st\<lparr>st_clients := ps\<rparr>) \<Longrightarrow> streamer_quit st \<Longrightarrow> st_clients st = [] \<Longrightarrow>
   length (st_mimetype st) \<le> 1900 \<Longrightarrow>
   \<exists>st'. streamer_join_clients st ps = Ret st' \<and> streamer_wf st' \<and> st_clients st' = []
     \<and> set (st_finished st') = set ps \<union> set (st_finished st)"
proof (induction ps arbitrary: st)
  case Nil
  then show ?case by (auto simp: streamer_wf_iff)
next
  case (Cons p ps)
  let ?l = "st\<lparr>st_clients := p # ps\<rparr>"
  obtain c where c: "st_heap st p = Some c" "buffer_wf (sc_buffer c)" "sc_phase c \<noteq> Finished"
    using Cons.prems(1) by (force simp: streamer_wf_iff)
  from join_client_ends [OF c(1,3) Cons.prems(2,3,4)] c(2) obtain c' where
    j: "streamer_join_client st p
      = Ret (st\<lparr>st_heap := (st_heap st)(p \<mapsto> c'), st_finished := p # st_finished st\<rparr>)"
    and c': "sc_phase c' = Finished" "buffer_wf (sc_buffer c')" by blast
  let ?st = "st\<lparr>st_heap := (st_heap st)(p \<mapsto> c'), st_finished := p # st_finished st\<rparr>"
  have "streamer_wf (?st\<lparr>st_clients := ps\<rparr>)"
    using Cons.prems(1) c' by (force simp: streamer_wf_iff)
  moreover have "streamer_quit ?st" using Cons.prems(2) by (simp add: streamer_quit_def)
  ultimately obtain st' where "streamer_join_clients ?st ps = Ret st'" "streamer_wf st'"
    "st_clients st' = []" "set (st_finished st') = set ps \<union> set (st_finished ?st)"
    using Cons.IH [of ?st] Cons.prems(3,4) by auto
  with j show ?case by auto
qed

lemma length_multipart_header:
  "length (multipart_header fmt mimetype n time)
   = 67 + length mimetype + length (show_nat n) + length (fmt time)"
  by (simp add: multipart_header_def)

section \<open>Properties\<close>

text \<open>C7. No dangling clients: in every state the threads of a streamer can reach, whatever connects, is
  sent and fails, every pointer in the two client lists is valid and in one list once, so that
  cleaning up, a turn of any client and handing over a part never touch freed memory; the last two
  are defined as long as the media type of the streamer and the header of the part fit their arrays.\<close>

theorem streamer_no_dangling:
  assumes "streamer_reachable exec fmt st"
  shows "distinct (st_clients st @ st_finished st)
    \<and> (\<forall>p \<in> set (st_clients st @ st_finished st). st_heap st p \<noteq> None)
    \<and> defined (streamer_delete_clients st)
    \<and> (length (st_mimetype st) \<le> 1900 \<longrightarrow> p \<in> set (st_clients st) \<longrightarrow> defined (streamer_client_run_turn st p))
    \<and> (length (multipart_header fmt mimetype (length data) time) \<le> 512 \<longrightarrow>
         defined (streamer_send_multipart fmt st data mimetype time))"
proof -
  have w: "streamer_wf st" by (rule reachable_wf [OF assms])
  have "defined (streamer_client_run_turn st p)"
    if m: "length (st_mimetype st) \<le> 1900" and p: "p \<in> set (st_clients st)"
  proof -
    obtain c where "st_heap st p = Some c" using streamer_wf_client [OF w p] by blast
    moreover obtain c' where "streamer_client_turn (st_mimetype st) (streamer_quit st) c = Ret c'"
      using client_turn_defined [OF m] by blast
    ultimately show ?thesis by (simp add: streamer_client_run_turn_def Let_def)
  qed
  moreover have "defined (streamer_send_multipart fmt st data mimetype time)"
    if "length (multipart_header fmt mimetype (length data) time) \<le> 512"
    using part_loop_defined [OF that w, of "st_clients st" data]
    by (auto simp: streamer_send_multipart_def defined_iff)
  ultimately show ?thesis
    using w by (force simp: streamer_wf_iff delete_clients_ok [OF w])
qed


text \<open>A streamer one of whose clients is about to be served.\<close>

definition example_streamer :: streamer_t where
  "example_streamer = new_streamer ''camera'' ''top'' None ''multipart/x-mixed-replace''"

theorem streamer_no_dangling_witness:
  "defined (streamer_send_multipart show_nat example_streamer [1, 2, 3] ''image/jpeg'' 5)"
proof -
  have r: "streamer_reachable (\<lambda>_ _ _ _. Undef) show_nat example_streamer"
    unfolding example_streamer_def by (rule reach_new)
  have "length (show_nat (length [1, 2, 3 :: u8])) \<le> 1" "length (show_nat 5) \<le> 1"
    by (rule length_show_nat; simp)+
  then have "length (multipart_header show_nat ''image/jpeg'' (length [1, 2, 3 :: u8]) 5) \<le> 512"
    unfolding length_multipart_header by simp
  with streamer_no_dangling [OF r, where mimetype = "''image/jpeg''" and data = "[1, 2, 3]" and time = 5 and p = 0] show ?thesis by blast
qed


end
