(* ===== verification/Multipart.thy ===== *)
theory Multipart
  imports CLib
begin

text \<open>
  The parser of a multipart stream, librcom/src/multipart_parser.c: a state machine that is handed a
  stream of bytes in buffers of any size and calls one handler when the header of a part is complete
  and one when its body is.

  The handlers belong to the user: a call is an entry of the list \<open>mp_calls\<close>, and what they return is
  the argument \<open>reply\<close>.  The type of the time stamps is double in the code and a type variable here;
  the reader strtod and the number zero are arguments.  The offset into the buffer handed over is
  the rest of the buffer that remains to be read.  The window of four bytes in which the end of a
  header is found is a static variable, shared by all the parsers of a process: it is threaded
  beside the parser.

  The loop of multipart_parser_process does not end once the parser is in its error state and bytes
  remain; it is a partial function, and None is the value of a call that does not return.
\<close>

section \<open>Model\<close>

datatype mp_status_t = K_read_header | K_header_complete | K_read_body | K_body_complete | K_error

datatype 'd part_call = OnHeaders int string 'd u32 | OnPart bytes string 'd

record 'd multipart_parser_t =
  mp_status :: mp_status_t
  mp_body :: bytes
  mp_header :: bytes
  mp_mimetype :: string
  mp_timestamp :: 'd
  mp_length :: int
  mp_onheaders :: bool
  mp_onpart :: bool
  mp_filepos :: u32
  mp_calls :: "'d part_call list"

definition new_multipart_parser :: "'d \<Rightarrow> bool \<Rightarrow> bool \<Rightarrow> 'd multipart_parser_t" where
  "new_multipart_parser zero onheaders onpart =
     \<lparr>mp_status = K_read_header, mp_body = [], mp_header = [], mp_mimetype = [], mp_timestamp = zero,
      mp_length = 0, mp_onheaders = onheaders, mp_onpart = onpart, mp_filepos = 0, mp_calls = []\<rparr>"

text \<open>
  One line of a header.  \<open>n\<close> is the number the code compares with the size of the array for the media
  type: the length of the line, with one of its two line end characters, less that of the field name.
\<close>

definition header_line ::
  "(string \<Rightarrow> 'd) \<Rightarrow> 'd \<Rightarrow> string \<Rightarrow> int \<Rightarrow> 'd multipart_parser_t \<Rightarrow> int \<times> 'd multipart_parser_t" where
  "header_line strtod zero line n m =
     (if line = ''--nextimage'' then (0, m)
      else if starts_with ''Content-Type: '' line then
        (if n < 128 then (0, m\<lparr>mp_mimetype := drop 14 line\<rparr>) else (-1, m\<lparr>mp_status := K_error\<rparr>))
      else if starts_with ''Content-Length: '' line then
        (let m = m\<lparr>mp_length := to_int32 (fst (strtol10 (drop 16 line)))\<rparr>
         in if mp_length m = 0 then (-1, m\<lparr>mp_status := K_error\<rparr>) else (0, m))
      else if starts_with ''X-LT-Timestamp: '' line then
        (let m = m\<lparr>mp_timestamp := strtod (drop 16 line)\<rparr>
         in if mp_timestamp m = zero then (-1, m\<lparr>mp_status := K_error\<rparr>) else (0, m))
      else (0, m))"

text \<open>
  The loop over the characters of the header.  \<open>acc\<close> holds the characters from \<open>start\<close> to before the
  current one and \<open>e\<close> the character before; after a line end one character is passed without being
  looked at, since both the body and the head of the code's loop count up.
\<close>

fun header_lines ::
  "(string \<Rightarrow> 'd) \<Rightarrow> 'd \<Rightarrow> 'd multipart_parser_t \<Rightarrow> bytes \<Rightarrow> u8 \<Rightarrow> bytes \<Rightarrow> int \<times> 'd multipart_parser_t" where
  "header_lines strtod zero m acc e [] = (0, m)"
| "header_lines strtod zero m acc e (c # cs) =
     (if e = 13 \<and> c = 10 then
        (let line = string_of (takeWhile (\<lambda>b. b \<noteq> 0) (butlast acc));
             (err, m) = header_line strtod zero line (int (length acc) - 14) m
         in if err \<noteq> 0 then (-1, m)
            else case cs of [] \<Rightarrow> (0, m) | d # ds \<Rightarrow> header_lines strtod zero m [d] c ds)
      else header_lines strtod zero m (acc @ [c]) c cs)"

definition multipart_parser_parse_header ::
  "(string \<Rightarrow> 'd) \<Rightarrow> 'd \<Rightarrow> 'd multipart_parser_t \<Rightarrow> int \<times> 'd multipart_parser_t" where
  "multipart_parser_parse_header strtod zero m =
     (if take 11 (mp_header m) \<noteq> bytes_of ''--nextimage'' then (-1, m)
      else header_lines strtod zero m [] 0 (mp_header m))"

type_synonym window = "u8 \<times> u8 \<times> u8 \<times> u8"

fun multipart_parser_append_header ::
  "(string \<Rightarrow> 'd) \<Rightarrow> 'd \<Rightarrow> window \<Rightarrow> 'd multipart_parser_t \<Rightarrow> bytes
   \<Rightarrow> bytes \<times> window \<times> 'd multipart_parser_t" where
  "multipart_parser_append_header strtod zero w m [] = ([], w, m)"
| "multipart_parser_append_header strtod zero (w0, w1, w2, w3) m (c # cs) =
     (let m = m\<lparr>mp_filepos := mp_filepos m + 1, mp_header := mp_header m @ [c]\<rparr>
      in if (w1, w2, w3, c) = (13, 10, 13, 10) then
           (case multipart_parser_parse_header strtod zero m of
              (err, m) \<Rightarrow>
                if err \<noteq> 0 then (cs, (w1, w2, w3, c), m\<lparr>mp_status := K_error\<rparr>)
                else (cs, (0, 0, 0, 0), m\<lparr>mp_status := K_header_complete, mp_header := []\<rparr>))
         else multipart_parser_append_header strtod zero (w1, w2, w3, c) m cs)"

text \<open>A length below zero, which the header may announce, asks for a negative number of bytes.\<close>

definition multipart_parser_append_part ::
  "'d multipart_parser_t \<Rightarrow> bytes \<Rightarrow> (bytes \<times> 'd multipart_parser_t) outcome" where
  "multipart_parser_append_part m rest =
     (let needed = mp_length m - int (length (mp_body m)); provided = int (length rest)
      in if needed > provided
         then Ret ([], m\<lparr>mp_body := mp_body m @ rest, mp_filepos := mp_filepos m + of_nat (length rest)\<rparr>)
         else if needed < 0 then Undef
         else Ret (drop (nat needed) rest,
                   m\<lparr>mp_body := mp_body m @ take (nat needed) rest, mp_status := K_body_complete,
                     mp_filepos := mp_filepos m + of_nat (nat needed)\<rparr>))"

partial_function (option) process_loop ::
  "(string \<Rightarrow> 'd) \<Rightarrow> 'd \<Rightarrow> ('d part_call \<Rightarrow> int) \<Rightarrow> int \<Rightarrow> window \<Rightarrow> 'd multipart_parser_t \<Rightarrow> bytes
   \<Rightarrow> (int \<times> window \<times> 'd multipart_parser_t) outcome option" where
  "process_loop strtod zero reply err w m rest =
     (if rest = [] then Some (Ret (err, w, m))
      else case mp_status m of
        K_read_header \<Rightarrow>
          (case multipart_parser_append_header strtod zero w m rest of
             (rest', w', m') \<Rightarrow> process_loop strtod zero reply err w' m' rest')
      | K_header_complete \<Rightarrow>
          (let call = OnHeaders (mp_length m) (mp_mimetype m) (mp_timestamp m) (mp_filepos m)
           in process_loop strtod zero reply (if mp_onheaders m then reply call else err) w
                (m\<lparr>mp_calls := (if mp_onheaders m then mp_calls m @ [call] else mp_calls m),
                   mp_status := K_read_body, mp_header := []\<rparr>) rest)
      | K_read_body \<Rightarrow>
          (case multipart_parser_append_part m rest of
             Undef \<Rightarrow> Some Undef
           | Ret (rest', m') \<Rightarrow> process_loop strtod zero reply err w m' rest')
      | K_body_complete \<Rightarrow>
          (let call = OnPart (mp_body m) (mp_mimetype m) (mp_timestamp m)
           in process_loop strtod zero reply (if mp_onpart m then reply call else err) w
                (m\<lparr>mp_calls := (if mp_onpart m then mp_calls m @ [call] else mp_calls m),
                   mp_status := K_read_header, mp_body := []\<rparr>) rest)
      | K_error \<Rightarrow> process_loop strtod zero reply (-1) w m rest)"

definition multipart_parser_process ::
  "(string \<Rightarrow> 'd) \<Rightarrow> 'd \<Rightarrow> ('d part_call \<Rightarrow> int) \<Rightarrow> window \<Rightarrow> 'd multipart_parser_t \<Rightarrow> bytes
   \<Rightarrow> (int \<times> window \<times> 'd multipart_parser_t) outcome option" where
  "multipart_parser_process strtod zero reply w m buf = process_loop strtod zero reply 0 w m buf"

section \<open>Running a stream through the parser\<close>

text \<open>A client hands over one buffer after the other and stops at the first error.\<close>

fun feed ::
  "(string \<Rightarrow> 'd) \<Rightarrow> 'd \<Rightarrow> ('d part_call \<Rightarrow> int) \<Rightarrow> window \<Rightarrow> 'd multipart_parser_t \<Rightarrow> bytes list
   \<Rightarrow> (int \<times> window \<times> 'd multipart_parser_t) outcome option" where
  "feed strtod zero reply w m [] = Some (Ret (0, w, m))"
| "feed strtod zero reply w m (b # bs) =
     (case multipart_parser_process strtod zero reply w m b of
        None \<Rightarrow> None
      | Some Undef \<Rightarrow> Some Undef
      | Some (Ret (err, w', m')) \<Rightarrow>
          if err \<noteq> 0 then Some (Ret (err, w', m')) else feed strtod zero reply w' m' bs)"


declare process_loop.simps [code del]

lemma process_loop_nil [simp]: "process_loop strtod zero reply err w m [] = Some (Ret (err, w, m))"
  by (subst process_loop.simps) simp

subsection \<open>The error state\<close>

lemmas process_loop_induct = process_loop.raw_induct [rotated, consumes 1, case_names step]

lemma error_loops:
  "process_loop strtod zero reply err w m rest = Some y \<Longrightarrow> mp_status m = K_error \<Longrightarrow> rest = []"
proof (induction strtod zero reply err w m rest y rule: process_loop_induct)
  case (step loop strtod zero reply err w m rest y)
  show ?case
  proof (rule ccontr)
    assume ne: "rest \<noteq> []"
    with step.prems step.hyps have "loop strtod zero reply (- 1) w m rest = Some y" by simp
    from step.IH [OF this] step.prems ne show False by simp
  qed
qed

lemma error_None: "mp_status m = K_error \<Longrightarrow> rest \<noteq> [] \<Longrightarrow> process_loop strtod zero reply err w m rest = None"
  using error_loops [of strtod zero reply err w m rest]
  by (cases "process_loop strtod zero reply err w m rest") auto

subsection \<open>Buffers can be cut anywhere\<close>

lemma append_header_cut:
  "multipart_parser_append_header strtod zero w m a = (rest, w', m') \<Longrightarrow> mp_status m = K_read_header \<Longrightarrow>
   (if mp_status m' = K_read_header
    then rest = [] \<and> multipart_parser_append_header strtod zero w m (a @ b)
           = multipart_parser_append_header strtod zero w' m' b
    else multipart_parser_append_header strtod zero w m (a @ b) = (rest @ b, w', m'))"
proof (induction strtod zero w m a rule: multipart_parser_append_header.induct)
  case (2 strtod zero w0 w1 w2 w3 m c cs)
  let ?m = "m\<lparr>mp_filepos := mp_filepos m + 1, mp_header := mp_header m @ [c]\<rparr>"
  show ?case
  proof (cases "(w1, w2, w3, c) = (13, 10, 13, 10)")
    case True
    with 2 show ?thesis by (auto split: prod.splits if_splits)
  next
    case False
    then have "multipart_parser_append_header strtod zero (w1, w2, w3, c) ?m cs = (rest, w', m')"
      using "2.prems"(1) by (auto simp: Let_def)
    with "2.IH" [OF refl False this] "2.prems"(2) False show ?thesis by (auto simp: Let_def)
  qed
qed auto

lemma append_part_cut:
  assumes "multipart_parser_append_part m a = Ret (rest, m')" "mp_status m = K_read_body"
  shows "if mp_status m' = K_read_body
     then rest = [] \<and> int (length (mp_body m')) < mp_length m'
        \<and> multipart_parser_append_part m (a @ b) = multipart_parser_append_part m' b
     else multipart_parser_append_part m (a @ b) = Ret (rest @ b, m')"
proof (cases "mp_length m - int (length (mp_body m)) > int (length a)")
  case True
  define k where "k = nat (mp_length m - int (length (mp_body m)) - int (length a))"
  then have k: "mp_length m - int (length (mp_body m)) = int (length a + k)" "0 < k"
    using True by auto
  have m': "rest = []" "m' = m\<lparr>mp_body := mp_body m @ a, mp_filepos := mp_filepos m + of_nat (length a)\<rparr>"
    using True assms by (simp_all add: multipart_parser_append_part_def)
  then have k': "mp_length m' - int (length (mp_body m')) = int k" using k(1) by simp
  have "multipart_parser_append_part m (a @ b) = multipart_parser_append_part m' b"
    unfolding multipart_parser_append_part_def Let_def k(1) k'
    using m' by (cases m) (auto simp: nat_int_add)
  then show ?thesis using m' k' k(2) assms(2) by auto
next
  case False
  then show ?thesis using assms
    by (auto simp: multipart_parser_append_part_def Let_def split: if_splits)
qed

lemma loop_read_header:
  "mp_status m = K_read_header \<Longrightarrow> process_loop strtod zero reply err w m a
   = (case multipart_parser_append_header strtod zero w m a of
        (rest, w', m') \<Rightarrow> process_loop strtod zero reply err w' m' rest)"
  by (subst process_loop.simps) simp

lemma loop_read_body:
  "mp_status m = K_read_body \<Longrightarrow> int (length (mp_body m)) < mp_length m \<Longrightarrow>
   process_loop strtod zero reply err w m a
   = (case multipart_parser_append_part m a of
        Undef \<Rightarrow> Some Undef | Ret (rest, m') \<Rightarrow> process_loop strtod zero reply err w m' rest)"
  by (subst process_loop.simps) (simp add: multipart_parser_append_part_def)

lemma process_loop_cut:
  "process_loop strtod zero reply err w m a = Some y \<Longrightarrow> y = Ret (err', w', m') \<Longrightarrow>
   process_loop strtod zero reply err w m (a @ b) = process_loop strtod zero reply err' w' m' b"
proof (induction strtod zero reply err w m a y rule: process_loop_induct)
  case (step loop strtod zero reply err w m a y)
  show ?case
  proof (cases "a = []")
    case True
    with step.hyps step.prems show ?thesis by simp
  next
    case ne: False
    note eq = process_loop.simps [of strtod zero reply err w m "a @ b"]
    show ?thesis
    proof (cases "mp_status m")
      case K_read_header
      obtain rest w1 m1 where h: "multipart_parser_append_header strtod zero w m a = (rest, w1, m1)"
        by (cases "multipart_parser_append_header strtod zero w m a")
      have "loop strtod zero reply err w1 m1 rest = Some y"
        using step.hyps ne K_read_header h by simp
      from step.IH [OF this step.prems] append_header_cut [OF h K_read_header, of b]
      show ?thesis using ne K_read_header eq loop_read_header [of m1 strtod zero reply err w1 b]
        by (auto split: if_splits)
    next
      case K_read_body
      then obtain rest m1 where h: "multipart_parser_append_part m a = Ret (rest, m1)"
        using step.hyps step.prems ne by (cases "multipart_parser_append_part m a") auto
      have "loop strtod zero reply err w m1 rest = Some y"
        using step.hyps ne K_read_body h by simp
      from step.IH [OF this step.prems] append_part_cut [OF h K_read_body, of b]
      show ?thesis using ne K_read_body eq loop_read_body [of m1 strtod zero reply err w b]
        by (auto split: if_splits)
    next
      case K_error
      then have "loop strtod zero reply (- 1) w m a = Some y" using step.hyps ne by simp
      from step.IH [OF this step.prems] show ?thesis using ne K_error eq by simp
    qed (use step ne eq in \<open>simp_all add: Let_def\<close>)
  qed
qed

lemma process_loop_cut_undef:
  "process_loop strtod zero reply err w m a = Some y \<Longrightarrow> y = Undef \<Longrightarrow>
   process_loop strtod zero reply err w m (a @ b) = Some Undef"
proof (induction strtod zero reply err w m a y rule: process_loop_induct)
  case (step loop strtod zero reply err w m a y)
  show ?case
  proof (cases "a = []")
    case True
    with step.hyps step.prems show ?thesis by simp
  next
    case ne: False
    note eq = process_loop.simps [of strtod zero reply err w m "a @ b"]
    show ?thesis
    proof (cases "mp_status m")
      case K_read_header
      obtain rest w1 m1 where h: "multipart_parser_append_header strtod zero w m a = (rest, w1, m1)"
        by (cases "multipart_parser_append_header strtod zero w m a")
      have "loop strtod zero reply err w1 m1 rest = Some y"
        using step.hyps ne K_read_header h by simp
      from step.IH [OF this step.prems] append_header_cut [OF h K_read_header, of b]
      show ?thesis using ne K_read_header eq loop_read_header [of m1 strtod zero reply err w1 b]
        by (auto split: if_splits)
    next
      case K_read_body
      show ?thesis
      proof (cases "multipart_parser_append_part m a")
        case Undef
        then have "multipart_parser_append_part m (a @ b) = Undef"
          by (auto simp: multipart_parser_append_part_def Let_def split: if_splits)
        then show ?thesis using eq ne K_read_body by simp
      next
        case (Ret r)
        then obtain rest m1 where h: "multipart_parser_append_part m a = Ret (rest, m1)" by (cases r) auto
        have "loop strtod zero reply err w m1 rest = Some y"
          using step.hyps ne K_read_body h by simp
        from step.IH [OF this step.prems] append_part_cut [OF h K_read_body, of b]
        show ?thesis using ne K_read_body eq loop_read_body [of m1 strtod zero reply err w b]
          by (auto split: if_splits)
      qed
    next
      case K_error
      then have "loop strtod zero reply (- 1) w m a = Some y" using step.hyps ne by simp
      from step.IH [OF this step.prems] show ?thesis using ne K_error eq by simp
    qed (use step ne eq in \<open>simp_all add: Let_def\<close>)
  qed
qed

lemma process_loop_prefix_returns:
  "process_loop strtod zero reply err w m c = Some y \<Longrightarrow> c = a @ b \<Longrightarrow>
   \<exists>z. process_loop strtod zero reply err w m a = Some z"
proof (induction strtod zero reply err w m c y arbitrary: a b rule: process_loop_induct)
  case (step loop strtod zero reply err w m c y)
  show ?case
  proof (cases "a = []")
    case ne: False
    then have c: "c \<noteq> []" using step.prems by simp
    note eq = process_loop.simps [of strtod zero reply err w m a]
    show ?thesis
    proof (cases "mp_status m")
      case K_read_header
      obtain rest w1 m1 where h: "multipart_parser_append_header strtod zero w m a = (rest, w1, m1)"
        by (cases "multipart_parser_append_header strtod zero w m a")
      show ?thesis
      proof (cases "mp_status m1 = K_read_header")
        case True
        with append_header_cut [OF h K_read_header, of b] show ?thesis
          using eq K_read_header h by simp
      next
        case False
        with append_header_cut [OF h K_read_header, of b]
        have "multipart_parser_append_header strtod zero w m c = (rest @ b, w1, m1)"
          by (simp add: step.prems)
        then have "loop strtod zero reply err w1 m1 (rest @ b) = Some y"
          using step.hyps c K_read_header by simp
        from step.IH [OF this refl] show ?thesis using eq K_read_header h by auto
      qed
    next
      case K_read_body
      show ?thesis
      proof (cases "multipart_parser_append_part m a")
        case Undef
        then show ?thesis using eq K_read_body by simp
      next
        case (Ret r)
        then obtain rest m1 where h: "multipart_parser_append_part m a = Ret (rest, m1)" by (cases r) auto
        show ?thesis
        proof (cases "mp_status m1 = K_read_body")
          case True
          with append_part_cut [OF h K_read_body, of b] show ?thesis
            using eq K_read_body h by simp
        next
          case False
          with append_part_cut [OF h K_read_body, of b]
          have "multipart_parser_append_part m c = Ret (rest @ b, m1)" by (simp add: step.prems)
          then have "loop strtod zero reply err w m1 (rest @ b) = Some y"
            using step.hyps c K_read_body by simp
          from step.IH [OF this refl] show ?thesis using eq K_read_body h by auto
        qed
      qed
    next
      case K_error
      then have "loop strtod zero reply (- 1) w m c = Some y" using step.hyps c by simp
      from step.IH [OF this step.prems] show ?thesis using K_error eq by simp
    next
      case K_header_complete
      let ?call = "OnHeaders (mp_length m) (mp_mimetype m) (mp_timestamp m) (mp_filepos m)"
      have "loop strtod zero reply (if mp_onheaders m then reply ?call else err) w
                (m\<lparr>mp_calls := (if mp_onheaders m then mp_calls m @ [?call] else mp_calls m),
                   mp_status := K_read_body, mp_header := []\<rparr>) c = Some y"
        using step.hyps c K_header_complete by (simp add: Let_def)
      from step.IH [OF this step.prems] show ?thesis using K_header_complete eq by (simp add: Let_def)
    next
      case K_body_complete
      let ?call = "OnPart (mp_body m) (mp_mimetype m) (mp_timestamp m)"
      have "loop strtod zero reply (if mp_onpart m then reply ?call else err) w
                (m\<lparr>mp_calls := (if mp_onpart m then mp_calls m @ [?call] else mp_calls m),
                   mp_status := K_read_header, mp_body := []\<rparr>) c = Some y"
        using step.hyps c K_body_complete by (simp add: Let_def)
      from step.IH [OF this step.prems] show ?thesis using K_body_complete eq by (simp add: Let_def)
    qed
  qed simp
qed

lemma process_loop_append:
  "process_loop strtod zero reply err w m (a @ b) =
   (case process_loop strtod zero reply err w m a of
      None \<Rightarrow> None
    | Some Undef \<Rightarrow> Some Undef
    | Some (Ret (err', w', m')) \<Rightarrow> process_loop strtod zero reply err' w' m' b)"
proof (cases "process_loop strtod zero reply err w m a")
  case None
  then show ?thesis
    using process_loop_prefix_returns [OF _ refl, of strtod zero reply err w m a b]
    by (cases "process_loop strtod zero reply err w m (a @ b)") auto
next
  case (Some y)
  then show ?thesis
    using process_loop_cut_undef [OF Some] process_loop_cut [OF Some]
    by (cases y) auto
qed

lemma process_loop_err:
  "process_loop strtod zero reply err w m a = Some y \<Longrightarrow> reply = (\<lambda>_. 0) \<Longrightarrow> y = Ret (err', w', m') \<Longrightarrow>
   (mp_status m = K_error \<longrightarrow> a = []) \<and> (err = 0 \<longrightarrow> err' = 0)"
proof (induction strtod zero reply err w m a y rule: process_loop_induct)
  case (step loop strtod zero reply err w m a y)
  note IH = step.IH [OF _ step.prems]
  show ?case
  proof (cases "a = []")
    case True
    with step show ?thesis by simp
  next
    case False
    with step.hyps step.prems IH show ?thesis
      by (cases "mp_status m")
         (auto simp: Let_def split: prod.splits outcome.splits if_splits)
  qed
qed

lemma process_err_0:
  "multipart_parser_process strtod zero (\<lambda>_. 0) w m a = Some (Ret (err, w', m')) \<Longrightarrow> err = 0"
  using process_loop_err [of strtod zero "\<lambda>_. 0" 0 w m a "Ret (err, w', m')" err w' m']
  by (simp add: multipart_parser_process_def)

lemma feed_is_process:
  "feed strtod zero (\<lambda>_. 0) w m bufs = multipart_parser_process strtod zero (\<lambda>_. 0) w m (concat bufs)"
proof (induction bufs arbitrary: w m)
  case Nil
  then show ?case by (simp add: multipart_parser_process_def)
next
  case (Cons b bs)
  have "multipart_parser_process strtod zero (\<lambda>_. 0) w m (concat (b # bs))
     = (case multipart_parser_process strtod zero (\<lambda>_. 0) w m b of
          None \<Rightarrow> None
        | Some Undef \<Rightarrow> Some Undef
        | Some (Ret (err', w', m')) \<Rightarrow> process_loop strtod zero (\<lambda>_. 0) err' w' m' (concat bs))"
    by (simp add: multipart_parser_process_def process_loop_append)
  then show ?case
    using process_err_0 [of strtod zero w m b] Cons.IH
    by (auto simp: multipart_parser_process_def split: option.splits outcome.splits)
qed

subsection \<open>The end of a header\<close>

text \<open>Bytes with no blank line, after the window \<open>w\<close>, are collected.\<close>

fun slide :: "window \<Rightarrow> u8 \<Rightarrow> window" where
  "slide (w0, w1, w2, w3) c = (w1, w2, w3, c)"

fun no_blank_line :: "window \<Rightarrow> bytes \<Rightarrow> bool" where
  "no_blank_line w [] = True"
| "no_blank_line w (c # cs) = (slide w c \<noteq> (13, 10, 13, 10) \<and> no_blank_line (slide w c) cs)"

lemma append_header_collects:
  "no_blank_line w h \<Longrightarrow> multipart_parser_append_header strtod zero w m (h @ rest)
   = multipart_parser_append_header strtod zero (fold (\<lambda>c w. slide w c) h w)
       (m\<lparr>mp_filepos := mp_filepos m + of_nat (length h), mp_header := mp_header m @ h\<rparr>) rest"
proof (induction h arbitrary: w m)
  case (Cons c h)
  obtain w0 w1 w2 w3 where w: "w = (w0, w1, w2, w3)" by (cases w)
  with Cons show ?case by (auto simp: Let_def algebra_simps)
qed simp

lemma append_header_ends:
  assumes "no_blank_line w h" "slide (fold (\<lambda>c w. slide w c) h w) 10 = (13, 10, 13, 10)"
    "mp_header m = []"
  shows "multipart_parser_append_header strtod zero w m (h @ 10 # rest)
   = (case multipart_parser_parse_header strtod zero
             (m\<lparr>mp_filepos := mp_filepos m + of_nat (length h) + 1, mp_header := h @ [10]\<rparr>) of
        (err, m') \<Rightarrow>
          if err \<noteq> 0 then (rest, (13, 10, 13, 10), m'\<lparr>mp_status := K_error\<rparr>)
          else (rest, (0, 0, 0, 0), m'\<lparr>mp_status := K_header_complete, mp_header := []\<rparr>))"
proof -
  obtain w0 w1 w2 w3 where w: "fold (\<lambda>c w. slide w c) h w = (w0, w1, w2, w3)"
    by (cases "fold (\<lambda>c w. slide w c) h w")
  with assms(2) have "(w1, w2, w3) = (13, 10, 13)" by simp
  then show ?thesis unfolding append_header_collects [OF assms(1)] w by (simp add: Let_def assms(3))
qed

section \<open>Properties\<close>

text \<open>C12. Buffers can be cut anywhere: when the handlers report no error, handing a stream to the parser in
  any buffers is the same as handing it over in one piece, in the handlers called, the state
  reached, the undefined cases and the calls that do not return.\<close>

theorem multipart_any_buffers:
  "feed strtod zero (\<lambda>_. 0) w m bufs = multipart_parser_process strtod zero (\<lambda>_. 0) w m (concat bufs)"
  by (rule feed_is_process)

text \<open>C15. A part that does not start with the separator hangs the reader: when the header that ends at the
  first blank line does not begin with the separator, and at least one byte follows in the same
  buffer, the call that processes the buffer never returns.\<close>

theorem multipart_bad_separator_hangs:
  assumes "no_blank_line (0, 0, 0, 0) h"
    "slide (fold (\<lambda>c w. slide w c) h (0, 0, 0, 0)) 10 = (13, 10, 13, 10)"
    "take 11 (h @ [10]) \<noteq> bytes_of ''--nextimage''"
  shows "multipart_parser_process strtod zero reply (0, 0, 0, 0)
     (new_multipart_parser zero onheaders onpart) (h @ 10 # c # rest) = None"
proof -
  let ?m = "new_multipart_parser zero onheaders onpart"
  let ?p = "?m\<lparr>mp_filepos := of_nat (length h) + 1, mp_header := h @ [10]\<rparr>"
  have m: "mp_header ?m = []" "mp_status ?m = K_read_header" "mp_filepos ?m = 0"
    by (simp_all add: new_multipart_parser_def)
  have "multipart_parser_parse_header strtod zero ?p = (-1, ?p)"
    using assms(3) by (simp add: multipart_parser_parse_header_def)
  then have "process_loop strtod zero reply 0 (0, 0, 0, 0) ?m (h @ 10 # c # rest)
     = process_loop strtod zero reply 0 (13, 10, 13, 10) (?p\<lparr>mp_status := K_error\<rparr>) (c # rest)"
    using append_header_ends [OF assms(1,2) m(1), of strtod zero "c # rest"] m(3)
    by (simp add: loop_read_header [OF m(2)])
  then show ?thesis
    by (simp add: multipart_parser_process_def error_None)
qed

theorem multipart_bad_separator_hangs_witness:
  "multipart_parser_process length 0 (\<lambda>_. 0) (0, 0, 0, 0) (new_multipart_parser 0 True True)
     ([72, 105, 13, 10, 13] @ 10 # 1 # []) = None"
  by (rule multipart_bad_separator_hangs) (simp_all add: bytes_of_def)

end
