(* ===== verification/Streaming.thy ===== *)
theory Streaming
  imports Streamer Multipart "HOL-Library.Sublist"
begin

text \<open>
  From one end of a stream to the other: what streamer_send_multipart (streamer.c) puts into the buffer
  of a client, what the thread of that client makes of it, and what the multipart parser
  (multipart_parser.c) of the other end hands to its user.
\<close>

section \<open>Parts\<close>

type_synonym 'd part = "bytes \<times> string \<times> 'd"

definition header_text :: "('d \<Rightarrow> string) \<Rightarrow> 'd part \<Rightarrow> string" where
  "header_text fmt part = (case part of (data, mimetype, time) \<Rightarrow> multipart_header fmt mimetype (length data) time)"

definition part_bytes :: "('d \<Rightarrow> string) \<Rightarrow> 'd part \<Rightarrow> bytes" where
  "part_bytes fmt part = bytes_of (header_text fmt part) @ fst part"

text \<open>A part both ends can handle: it has data, the texts of its header hold no line end, and the time is
  read back from its text and is not zero, which the parser takes for an error.\<close>

definition line_text :: "string \<Rightarrow> bool" where
  "line_text s \<longleftrightarrow> chCR \<notin> set s \<and> CHR 0x00 \<notin> set s"

definition part_ok :: "('d \<Rightarrow> string) \<Rightarrow> (string \<Rightarrow> 'd) \<Rightarrow> 'd \<Rightarrow> 'd part \<Rightarrow> bool" where
  "part_ok fmt strtod zero part =
     (case part of (data, mimetype, time) \<Rightarrow>
        data \<noteq> [] \<and> length data < 2 ^ 31 \<and> length mimetype \<le> 126 \<and> line_text mimetype
        \<and> length (fmt time) \<le> 300 \<and> line_text (fmt time) \<and> strtod (fmt time) = time \<and> time \<noteq> zero)"

text \<open>The handlers called for a stream of parts that starts at position \<open>pos\<close>.\<close>

fun stream_calls :: "('d \<Rightarrow> string) \<Rightarrow> u32 \<Rightarrow> 'd part list \<Rightarrow> 'd part_call list" where
  "stream_calls fmt pos [] = []"
| "stream_calls fmt pos (part # parts) =
     (case part of (data, mimetype, time) \<Rightarrow>
        let body = pos + of_nat (length (header_text fmt part))
        in OnHeaders (int (length data)) mimetype time body # OnPart data mimetype time
           # stream_calls fmt (body + of_nat (length data)) parts)"

section \<open>Parsing a header\<close>

abbreviation after :: "window \<Rightarrow> bytes \<Rightarrow> window" where
  "after w h \<equiv> fold (\<lambda>c w. slide w c) h w"

lemma no_blank_append: "no_blank_line w (a @ b) \<longleftrightarrow> no_blank_line w a \<and> no_blank_line (after w a) b"
  by (induction a arbitrary: w) auto

abbreviation newest :: "window \<Rightarrow> u8" where
  "newest w \<equiv> (case w of (w0, w1, w2, w3) \<Rightarrow> w3)"

lemma no_blank_text: "13 \<notin> set l \<Longrightarrow> newest w \<noteq> 13 \<Longrightarrow> no_blank_line w l \<and> newest (after w l) \<noteq> 13"
proof (induction l arbitrary: w)
  case (Cons c l)
  obtain w0 w1 w2 w3 where "w = (w0, w1, w2, w3)" by (cases w)
  with Cons show ?case by auto
qed simp

lemma after_line_older:
  assumes "l \<noteq> []" "13 \<notin> set l" "newest w \<noteq> 13"
  shows "\<exists>a b c d. after w l = (a, b, c, d) \<and> c \<noteq> 13 \<and> d \<noteq> 13"
proof -
  from assms(1) obtain l' x where l: "l = l' @ [x]" by (cases l rule: rev_cases) auto
  obtain a b c d where w: "after w l' = (a, b, c, d)" by (cases "after w l'")
  have "newest (after w l') \<noteq> 13" using no_blank_text [of l' w] assms(2,3) l by simp
  with w assms(2) show ?thesis by (simp add: l)
qed

text \<open>A line that is not empty, with its line end, is passed and leaves a window that ends with the line end.\<close>

lemma no_blank_line_line:
  assumes "l \<noteq> []" "13 \<notin> set l" "newest w \<noteq> 13"
  shows "no_blank_line w (l @ [13, 10]) \<and> newest (after w (l @ [13, 10])) \<noteq> 13
     \<and> (\<exists>a b. after w (l @ [13, 10]) = (a, b, 13, 10))"
proof -
  from after_line_older [OF assms] obtain a b c d where
    w: "after w l = (a, b, c, d)" "c \<noteq> 13" "d \<noteq> 13" by blast
  then show ?thesis using no_blank_text [OF assms(2,3)] by (simp add: no_blank_append)
qed

definition lines :: "string list \<Rightarrow> bytes" where
  "lines ls = concat (map (\<lambda>l. bytes_of l @ [13, 10]) ls)"

definition line_ok :: "string \<Rightarrow> bool" where
  "line_ok l \<longleftrightarrow> l \<noteq> [] \<and> line_text l"

lemma line_bytes: "line_ok l \<Longrightarrow> bytes_of l \<noteq> [] \<and> 13 \<notin> set (bytes_of l)"
  by (simp add: line_ok_def line_text_def cr_bytes_of) (simp add: bytes_of_def)

lemma no_blank_lines:
  "list_all line_ok ls \<Longrightarrow> ls \<noteq> [] \<Longrightarrow> newest w \<noteq> 13 \<Longrightarrow>
   no_blank_line w (lines ls) \<and> (\<exists>a b. after w (lines ls) = (a, b, 13, 10))"
proof (induction ls arbitrary: w)
  case (Cons l ls)
  have l: "bytes_of l \<noteq> []" "13 \<notin> set (bytes_of l)" using Cons.prems(1) line_bytes by simp_all
  note one = no_blank_line_line [OF l Cons.prems(3)]
  show ?case
  proof (cases "ls = []")
    case True
    with one show ?thesis by (simp add: lines_def)
  next
    case False
    with Cons.IH [of "after w (bytes_of l @ [13, 10])"] Cons.prems one show ?thesis
      by (simp add: lines_def no_blank_append)
  qed
qed simp

text \<open>The whole header: the lines and an empty one.\<close>

lemma header_collected:
  assumes "list_all line_ok ls" "ls \<noteq> []" "mp_header m = []" "newest w \<noteq> 13"
  shows "multipart_parser_append_header strtod zero w m (lines ls @ 13 # 10 # rest)
   = (case multipart_parser_parse_header strtod zero
             (m\<lparr>mp_filepos := mp_filepos m + of_nat (length (lines ls) + 2), mp_header := lines ls @ [13, 10]\<rparr>) of
        (err, m') \<Rightarrow>
          if err \<noteq> 0 then (rest, (13, 10, 13, 10), m'\<lparr>mp_status := K_error\<rparr>)
          else (rest, (0, 0, 0, 0), m'\<lparr>mp_status := K_header_complete, mp_header := []\<rparr>))"
proof -
  from no_blank_lines [OF assms(1,2,4)] obtain a b where
    n: "no_blank_line w (lines ls)" and w: "after w (lines ls) = (a, b, 13, 10)" by blast
  have "no_blank_line w (lines ls @ [13])" using n w by (simp add: no_blank_append)
  moreover have "slide (after w (lines ls @ [13])) 10 = (13, 10, 13, 10)" using w by simp
  ultimately show ?thesis
    using append_header_ends [of w "lines ls @ [13]" m strtod zero rest] assms(3)
    by (simp add: algebra_simps)
qed

subsection \<open>The lines of a header\<close>

lemma header_lines_line:
  "13 \<notin> set l \<Longrightarrow> e \<noteq> 13 \<Longrightarrow> header_lines strtod zero m acc e (l @ 13 # 10 # cs)
   = (let line = string_of (takeWhile (\<lambda>b. b \<noteq> 0) (acc @ l));
          (err, m) = header_line strtod zero line (int (length acc + length l) - 13) m
      in if err \<noteq> 0 then (-1, m)
         else case cs of [] \<Rightarrow> (0, m) | d # ds \<Rightarrow> header_lines strtod zero m [d] 10 ds)"
proof (induction l arbitrary: acc e)
  case Nil
  then show ?case by (simp add: Let_def)
next
  case (Cons c l)
  then show ?case by simp
qed

text \<open>All the lines, one after the other, as long as none is refused.\<close>

fun run_lines ::
  "(string \<Rightarrow> 'd) \<Rightarrow> 'd \<Rightarrow> string list \<Rightarrow> 'd multipart_parser_t \<Rightarrow> int \<times> 'd multipart_parser_t" where
  "run_lines strtod zero [] m = (0, m)"
| "run_lines strtod zero (l # ls) m =
     (let (err, m) = header_line strtod zero l (int (length l) - 13) m
      in if err \<noteq> 0 then (-1, m) else run_lines strtod zero ls m)"

lemma lines_Cons_bytes:
  assumes "line_ok l"
  shows "lines (l # ls) @ [13, 10] = hd (bytes_of l) # tl (bytes_of l) @ 13 # 10 # lines ls @ [13, 10]"
proof -
  have "bytes_of l = hd (bytes_of l) # tl (bytes_of l)" using line_bytes [OF assms] by (metis list.collapse)
  moreover have "lines (l # ls) @ [13, 10] = bytes_of l @ 13 # 10 # lines ls @ [13, 10]"
    by (simp add: lines_def)
  ultimately show ?thesis by (metis append_Cons)
qed

lemma header_lines_rest:
  assumes "list_all line_ok (l # ls)"
  shows "header_lines strtod zero m [hd (bytes_of l)] 10 (tl (bytes_of l) @ 13 # 10 # lines ls @ [13, 10])
     = run_lines strtod zero (l # ls) m"
  using assms
proof (induction ls arbitrary: l m)
  case Nil
  then have l: "bytes_of l \<noteq> []" "13 \<notin> set (bytes_of l)" "CHR 0x00 \<notin> set l"
    using line_bytes by (simp_all add: line_ok_def line_text_def)
  then have t: "13 \<notin> set (tl (bytes_of l))" by (cases "bytes_of l") auto
  have n: "length (tl (bytes_of l)) = length l - 1" "length l \<ge> 1" using l(1) by (cases l; simp add: bytes_of_def)+
  show ?case
    using header_lines_line [OF t, of 10 strtod zero m "[hd (bytes_of l)]" "[13, 10]"] l n
    by (simp add: lines_def takeWhile_bytes_of Let_def of_nat_diff split: prod.splits)
next
  case (Cons l2 ls)
  then have l: "bytes_of l \<noteq> []" "13 \<notin> set (bytes_of l)" "CHR 0x00 \<notin> set l"
    using line_bytes by (simp_all add: line_ok_def line_text_def)
  then have t: "13 \<notin> set (tl (bytes_of l))" by (cases "bytes_of l") auto
  have n: "length (tl (bytes_of l)) = length l - 1" "length l \<ge> 1" using l(1) by (cases l; simp add: bytes_of_def)+
  have "line_ok l2" using Cons.prems by simp
  note cs = lines_Cons_bytes [OF this, of ls]
  have IH: "header_lines strtod zero m' [hd (bytes_of l2)] 10 (tl (bytes_of l2) @ 13 # 10 # lines ls @ [13, 10])
     = run_lines strtod zero (l2 # ls) m'" for m'
    using Cons.IH [of l2] Cons.prems by simp
  show ?case
    unfolding cs using header_lines_line [OF t, of 10 strtod zero m "[hd (bytes_of l)]"] l n
    by (simp add: IH takeWhile_bytes_of Let_def of_nat_diff del: run_lines.simps split: prod.splits)
      (simp add: Let_def)
qed

lemma header_lines_all:
  assumes "list_all line_ok (l # ls)"
  shows "header_lines strtod zero m [] 0 (lines (l # ls) @ [13, 10]) = run_lines strtod zero (l # ls) m"
proof -
  have "line_ok l" using assms by simp
  then have l: "bytes_of l \<noteq> []" "13 \<notin> set (bytes_of l)" using line_bytes by simp_all
  then have t: "13 \<notin> set (tl (bytes_of l))" "hd (bytes_of l) \<noteq> 13" by (cases "bytes_of l"; simp)+
  have e: "(10 :: u8) \<noteq> 13" by simp
  have "header_lines strtod zero m [] 0 (lines (l # ls) @ [13, 10])
     = header_lines strtod zero m [hd (bytes_of l)] (hd (bytes_of l)) (tl (bytes_of l) @ 13 # 10 # lines ls @ [13, 10])"
    by (simp add: lines_Cons_bytes [OF \<open>line_ok l\<close>])
  also have "\<dots> = header_lines strtod zero m [hd (bytes_of l)] 10 (tl (bytes_of l) @ 13 # 10 # lines ls @ [13, 10])"
    by (simp only: header_lines_line [OF t] header_lines_line [OF t(1) e])
  also have "\<dots> = run_lines strtod zero (l # ls) m" by (rule header_lines_rest [OF assms])
  finally show ?thesis .
qed

subsection \<open>The header of a part\<close>

definition part_lines :: "('d \<Rightarrow> string) \<Rightarrow> 'd part \<Rightarrow> string list" where
  "part_lines fmt part =
     (case part of (data, mimetype, time) \<Rightarrow>
        [''--nextimage'', ''Content-Type: '' @ mimetype, ''Content-Length: '' @ show_nat (length data),
         ''X-LT-Timestamp: '' @ fmt time])"

lemma header_text_lines: "bytes_of (header_text fmt part) = lines (part_lines fmt part) @ [13, 10]"
proof (cases part)
  case (fields data mimetype time)
  show ?thesis
    unfolding fields header_text_def multipart_header_def part_lines_def lines_def
    by (simp only: prod.case list.map concat.simps bytes_of_append bytes_of_crlf append_assoc append_Nil
        append_Nil2)
qed

lemma digit_line_text: "line_text (show_nat n)"
proof -
  have "chCR \<notin> set (show_nat n)" "CHR 0x00 \<notin> set (show_nat n)"
    using is_digit_show_nat [of chCR n] is_digit_show_nat [of "CHR 0x00" n]
    by (auto simp: is_digit_def ord_def)
  then show ?thesis by (simp add: line_text_def)
qed

lemma line_text_append [simp]: "line_text (a @ b) \<longleftrightarrow> line_text a \<and> line_text b"
  by (auto simp: line_text_def)

lemma part_lines_ok:
  assumes "part_ok fmt strtod zero part"
  shows "list_all line_ok (part_lines fmt part)"
proof -
  obtain data mimetype time where p: "part = (data, mimetype, time)" by (cases part)
  have "line_text ''--nextimage''" "line_text ''Content-Type: ''" "line_text ''Content-Length: ''"
    "line_text ''X-LT-Timestamp: ''" by (simp_all add: line_text_def)
  with assms p show ?thesis
    by (simp add: part_lines_def line_ok_def part_ok_def digit_line_text del: append_Cons)
qed

lemma run_part_lines:
  assumes "part_ok fmt strtod zero (data, mimetype, time)"
  shows "run_lines strtod zero (part_lines fmt (data, mimetype, time)) m
     = (0, m\<lparr>mp_mimetype := mimetype, mp_length := int (length data), mp_timestamp := time\<rparr>)"
proof -
  have n: "0 < length data" "length data < 2 ^ 31" using assms by (auto simp: part_ok_def)
  have l: "strtol10 (show_nat (length data)) = (int (length data), [])"
    using strtol10_show_nat [of "length data" "[]"] n by simp
  have i: "to_int32 (int (length data)) = int (length data)"
    by (rule to_int32_id) (use n in simp_all)
  show ?thesis
    using assms n by (simp add: part_lines_def header_line_def part_ok_def l i Let_def)
qed

lemma part_header_parsed:
  assumes "part_ok fmt strtod zero (data, mimetype, time)" "mp_header m = []"
  shows "multipart_parser_append_header strtod zero (0, 0, 0, 0) m
       (bytes_of (header_text fmt (data, mimetype, time)) @ rest)
   = (rest, (0, 0, 0, 0), m\<lparr>mp_filepos := mp_filepos m + of_nat (length (header_text fmt (data, mimetype, time))),
        mp_mimetype := mimetype, mp_length := int (length data), mp_timestamp := time,
        mp_status := K_header_complete, mp_header := []\<rparr>)"
proof -
  let ?ls = "part_lines fmt (data, mimetype, time)"
  have ok: "list_all line_ok ?ls" by (rule part_lines_ok [OF assms(1)])
  obtain ls where ls: "?ls = ''--nextimage'' # ls" by (simp add: part_lines_def)
  then have ne: "?ls \<noteq> []" by simp
  have n: "length (header_text fmt (data, mimetype, time)) = length (lines ?ls) + 2"
    by (subst length_bytes_of [symmetric]) (simp only: header_text_lines, simp)
  have parse: "multipart_parser_parse_header strtod zero (m\<lparr>mp_filepos := f, mp_header := lines ?ls @ [13, 10]\<rparr>)
      = (0, m\<lparr>mp_filepos := f, mp_header := lines ?ls @ [13, 10], mp_mimetype := mimetype,
           mp_length := int (length data), mp_timestamp := time\<rparr>)" for f
  proof -
    have "take 11 (lines ?ls @ [13, 10]) = bytes_of ''--nextimage''"
      by (simp add: ls lines_def bytes_of_def)
    moreover have "header_lines strtod zero (m\<lparr>mp_filepos := f, mp_header := lines ?ls @ [13, 10]\<rparr>) [] 0 (lines ?ls @ [13, 10])
        = run_lines strtod zero ?ls (m\<lparr>mp_filepos := f, mp_header := lines ?ls @ [13, 10]\<rparr>)"
      using header_lines_all [of "''--nextimage''" ls] ok by (simp add: ls del: run_lines.simps)
    ultimately show ?thesis
      by (simp add: multipart_parser_parse_header_def run_part_lines [OF assms(1)])
  qed
  show ?thesis
    using header_collected [OF ok ne assms(2), of "(0, 0, 0, 0)" strtod zero rest]
    by (simp add: header_text_lines parse n)
qed

subsection \<open>A stream of parts\<close>

definition read_part :: "('d \<Rightarrow> string) \<Rightarrow> 'd part \<Rightarrow> 'd multipart_parser_t \<Rightarrow> 'd multipart_parser_t" where
  "read_part fmt part m =
     (case part of (data, mimetype, time) \<Rightarrow>
        let body = mp_filepos m + of_nat (length (header_text fmt part))
        in m\<lparr>mp_mimetype := mimetype, mp_length := int (length data), mp_timestamp := time,
             mp_calls := mp_calls m @ [OnHeaders (int (length data)) mimetype time body], mp_header := [],
             mp_body := data, mp_status := K_body_complete, mp_filepos := body + of_nat (length data)\<rparr>)"

definition ready :: "'d multipart_parser_t \<Rightarrow> bool" where
  "ready m \<longleftrightarrow> mp_status m = K_read_header \<and> mp_header m = [] \<and> mp_body m = [] \<and> mp_onheaders m \<and> mp_onpart m"

lemma part_read:
  assumes "part_ok fmt strtod zero part" "ready m"
  shows "process_loop strtod zero (\<lambda>_. 0) 0 (0, 0, 0, 0) m (part_bytes fmt part @ rest)
     = process_loop strtod zero (\<lambda>_. 0) 0 (0, 0, 0, 0) (read_part fmt part m) rest"
proof -
  obtain data mimetype time where p: "part = (data, mimetype, time)" by (cases part)
  have d: "data \<noteq> []" using assms(1) p by (simp add: part_ok_def)
  let ?f = "mp_filepos m + of_nat (length (header_text fmt part))"
  let ?m1 = "m\<lparr>mp_filepos := ?f, mp_mimetype := mimetype, mp_length := int (length data), mp_timestamp := time,
        mp_status := K_header_complete, mp_header := []\<rparr>"
  let ?m2 = "?m1\<lparr>mp_calls := mp_calls m @ [OnHeaders (int (length data)) mimetype time ?f], mp_status := K_read_body,
        mp_header := []\<rparr>"
  have "process_loop strtod zero (\<lambda>_. 0) 0 (0, 0, 0, 0) m (part_bytes fmt part @ rest)
     = process_loop strtod zero (\<lambda>_. 0) 0 (0, 0, 0, 0) ?m1 (data @ rest)"
    using assms part_header_parsed [of fmt strtod zero data mimetype time m "data @ rest"]
    by (simp add: loop_read_header ready_def part_bytes_def p)
  also have "\<dots> = process_loop strtod zero (\<lambda>_. 0) 0 (0, 0, 0, 0) ?m2 (data @ rest)"
    using d assms(2) by (subst process_loop.simps) (simp add: ready_def)
  also have "\<dots> = process_loop strtod zero (\<lambda>_. 0) 0 (0, 0, 0, 0) (read_part fmt part m) rest"
    using d assms(2) by (subst process_loop.simps)
      (simp add: ready_def multipart_parser_append_part_def read_part_def p Let_def)
  finally show ?thesis .
qed

lemma part_reported:
  assumes "mp_status m = K_body_complete" "mp_onpart m" "rest \<noteq> []"
  shows "process_loop strtod zero (\<lambda>_. 0) 0 w m rest
     = process_loop strtod zero (\<lambda>_. 0) 0 w (m\<lparr>mp_calls := mp_calls m @ [OnPart (mp_body m) (mp_mimetype m) (mp_timestamp m)],
          mp_status := K_read_header, mp_body := []\<rparr>) rest"
  using assms by (subst process_loop.simps) simp

lemma part_bytes_nonempty: "part_bytes fmt part \<noteq> []"
  by (cases part) (simp add: part_bytes_def header_text_def multipart_header_def bytes_of_def)

text \<open>The last part is complete but its handler is only called when more bytes arrive.\<close>

lemma parts_read:
  assumes "list_all (part_ok fmt strtod zero) parts" "parts \<noteq> []" "ready m"
  shows "\<exists>m'. process_loop strtod zero (\<lambda>_. 0) 0 (0, 0, 0, 0) m (concat (map (part_bytes fmt) parts))
        = Some (Ret (0, (0, 0, 0, 0), m'))
     \<and> mp_status m' = K_body_complete
     \<and> mp_calls m' @ [OnPart (mp_body m') (mp_mimetype m') (mp_timestamp m')]
       = mp_calls m @ stream_calls fmt (mp_filepos m) parts"
  using assms
proof (induction parts arbitrary: m)
  case (Cons part parts)
  obtain data mimetype time where p: "part = (data, mimetype, time)" by (cases part)
  let ?m = "read_part fmt part m"
  have r: "process_loop strtod zero (\<lambda>_. 0) 0 (0, 0, 0, 0) m (concat (map (part_bytes fmt) (part # parts)))
     = process_loop strtod zero (\<lambda>_. 0) 0 (0, 0, 0, 0) ?m (concat (map (part_bytes fmt) parts))"
    using part_read [of fmt strtod zero part m] Cons.prems by simp
  show ?case
  proof (cases "parts = []")
    case True
    then show ?thesis using r p by (simp add: read_part_def Let_def)
  next
    case False
    let ?n = "?m\<lparr>mp_calls := mp_calls ?m @ [OnPart (mp_body ?m) (mp_mimetype ?m) (mp_timestamp ?m)],
          mp_status := K_read_header, mp_body := []\<rparr>"
    have ne: "concat (map (part_bytes fmt) parts) \<noteq> []"
      using False by (cases parts) (simp_all add: part_bytes_nonempty)
    have "mp_status ?m = K_body_complete" "mp_onpart ?m"
      using Cons.prems(3) p by (simp_all add: read_part_def Let_def ready_def)
    note s = part_reported [OF this ne]
    have "ready ?n" using Cons.prems(3) p by (simp add: read_part_def Let_def ready_def)
    with Cons.IH [of ?n] Cons.prems(1) False obtain m' where
      "process_loop strtod zero (\<lambda>_. 0) 0 (0, 0, 0, 0) ?n (concat (map (part_bytes fmt) parts))
        = Some (Ret (0, (0, 0, 0, 0), m'))" "mp_status m' = K_body_complete"
      "mp_calls m' @ [OnPart (mp_body m') (mp_mimetype m') (mp_timestamp m')]
       = mp_calls ?n @ stream_calls fmt (mp_filepos ?n) parts" by auto
    with r s show ?thesis
      by (intro exI [of _ m']) (simp add: p read_part_def Let_def)
  qed
qed simp

section \<open>The thread of a client\<close>

datatype 'd client_event = SendPart "'d part" | ClientTurn

fun client_run ::
  "('d \<Rightarrow> string) \<Rightarrow> string \<Rightarrow> streamer_client_t \<Rightarrow> 'd client_event list \<Rightarrow> streamer_client_t outcome" where
  "client_run fmt mimetype c [] = Ret c"
| "client_run fmt mimetype c (SendPart part # es) =
     bind_out (streamer_client_part (header_text fmt part) (fst part) c) (\<lambda>c. client_run fmt mimetype c es)"
| "client_run fmt mimetype c (ClientTurn # es) =
     bind_out (streamer_client_turn mimetype False c) (\<lambda>c. client_run fmt mimetype c es)"

fun sent_parts :: "'d client_event list \<Rightarrow> 'd part list" where
  "sent_parts [] = []"
| "sent_parts (SendPart part # es) = part # sent_parts es"
| "sent_parts (ClientTurn # es) = sent_parts es"

definition streaming :: "streamer_client_t \<Rightarrow> bool" where
  "streaming c \<longleftrightarrow> buffer_wf (sc_buffer c) \<and> sc_phase c \<in> {Reading, Waiting}"

lemma part_text_fits:
  assumes "part_ok fmt strtod zero part"
  shows "length (header_text fmt part) < 512"
proof -
  obtain data mimetype time where p: "part = (data, mimetype, time)" by (cases part)
  have "length (show_nat (length data)) \<le> 10"
    using assms p by (intro length_show_nat) (auto simp: part_ok_def)
  with assms p show ?thesis by (simp add: header_text_def length_multipart_header part_ok_def)
qed

text \<open>A part goes into the buffer whole or not at all.\<close>

lemma client_part_whole:
  assumes "part_ok fmt strtod zero part" "streamer_client_part (header_text fmt part) (fst part) c = Ret c'"
    "buffer_wf (sc_buffer c)"
  shows "\<exists>taken. contents (sc_buffer c') = contents (sc_buffer c) @ (if taken then part_bytes fmt part else [])
     \<and> sc_socket c' = sc_socket c"
proof (cases "circular_buffer_space_available (sc_buffer c) > length (header_text fmt part) + length (fst part)")
  case True
  let ?h = "bytes_of (header_text fmt part)"
  have "printed 512 (header_text fmt part) = Ret ?h" using part_text_fits [OF assms(1)] by (simp add: printed_def)
  then have "sc_buffer c' = circular_buffer_write (circular_buffer_write (sc_buffer c) ?h (length ?h))
      (fst part) (length (fst part))" "sc_socket c' = sc_socket c"
    using assms(2) True by (auto simp: streamer_client_part_def)
  with cb.enq_two(1) [OF assms(3), of ?h "fst part"] True show ?thesis
    by (intro exI [of _ True]) (simp add: part_bytes_def)
next
  case False
  with assms(2) show ?thesis by (intro exI [of _ False]) (auto simp: streamer_client_part_def)
qed

lemma client_turn_chunk:
  assumes "streamer_client_turn mimetype False c = Ret c'" "streaming c" "sc_phase c' \<noteq> Finished"
  shows "\<exists>chunks. tx (sc_socket c') = tx (sc_socket c) @ concat (map encode_chunk chunks) \<and> [] \<notin> set chunks
     \<and> contents (sc_buffer c) = concat chunks @ contents (sc_buffer c')"
proof -
  let ?n = "circular_buffer_data_available (sc_buffer c)"
  let ?k = "if ?n > 16384 then 16384 else ?n"
  have wf: "buffer_wf (sc_buffer c)" using assms(2) by (simp add: streaming_def)
  show ?thesis
  proof (cases "sc_phase c = Waiting \<and> ?n \<noteq> 0")
    case False
    then have "sc_socket c' = sc_socket c \<and> sc_buffer c' = sc_buffer c"
      using assms by (auto simp: streamer_client_turn_def streaming_def streamer_client_read_def)
    then show ?thesis by (intro exI [of _ "[]"]) simp
  next
    case True
    obtain data b where r: "circular_buffer_read (sc_buffer c) ?k = (data, b)" by fastforce
    have d: "data = take ?k (contents (sc_buffer c))" "contents b = drop ?k (contents (sc_buffer c))"
      using cb.deq_front [OF wf, of ?k] cb.queue_deq [OF wf, of ?k] r by (auto split: if_splits)
    then have ne: "data \<noteq> []" using True by (auto simp: length_contents [OF wf, symmetric])
    obtain err s where e: "http_send_chunk (sc_socket c) data = (err, s)" by fastforce
    have "streamer_client_read False c 16384 = Some (data, c\<lparr>sc_buffer := b\<rparr>)"
      using True r by (simp add: streamer_client_read_def Let_def)
    then have c': "err \<noteq> -1" "c' = c\<lparr>sc_buffer := b, sc_socket := s, sc_phase := Reading\<rparr>"
      using assms True e by (auto simp: streamer_client_turn_def streamer_client_leave_def Let_def split: if_splits)
    then have "err = 0" using e
      by (auto simp: http_send_chunk_def Let_def split: prod.splits if_splits)
    with e have "tx s = tx (sc_socket c) @ encode_chunk data" using send_chunk_success by blast
    with c' ne d show ?thesis by (intro exI [of _ "[data]"]) simp
  qed
qed

lemma client_part_phase:
  "streamer_client_part h d c = Ret c' \<Longrightarrow> sc_phase c' = sc_phase c"
  by (auto simp: streamer_client_part_def outcome_simps split: if_splits)

lemma run_finished: "sc_phase c = Finished \<Longrightarrow> client_run fmt m c es = Ret c' \<Longrightarrow> sc_phase c' = Finished"
proof (induction fmt m c es rule: client_run.induct)
  case (2 fmt m c part es)
  then show ?case by (auto simp: outcome_simps dest: client_part_phase)
next
  case (3 fmt m c es)
  then show ?case by (auto simp: outcome_simps)
qed simp

lemma streaming_part:
  "streamer_client_part h d c = Ret c' \<Longrightarrow> streaming c \<Longrightarrow> streaming c'"
  using client_part_wf [of h d c c'] by (auto simp: streaming_def)

lemma streaming_turn:
  assumes "streamer_client_turn m False c = Ret c'" "streaming c" "sc_phase c' \<noteq> Finished"
  shows "streaming c'"
proof -
  have "buffer_wf (sc_buffer c')" using client_turn_wf [OF assms(1)] assms(2) by (simp add: streaming_def)
  with assms show ?thesis
    by (auto simp: streaming_def streamer_client_turn_def Let_def streamer_client_leave_def
        split: option.splits prod.splits if_splits)
qed

text \<open>What has left the buffer is what was put in, and has been sent in chunks.\<close>

lemma client_run_stream:
  assumes "client_run fmt mimetype c es = Ret c'" "streaming c" "sc_phase c' \<noteq> Finished"
    "list_all (part_ok fmt strtod zero) (sent_parts es)"
  shows "\<exists>parts chunks. subseq parts (sent_parts es) \<and> [] \<notin> set chunks
     \<and> tx (sc_socket c') = tx (sc_socket c) @ concat (map encode_chunk chunks)
     \<and> contents (sc_buffer c) @ concat (map (part_bytes fmt) parts) = concat chunks @ contents (sc_buffer c')"
  using assms
proof (induction fmt mimetype c es rule: client_run.induct)
  case (1 fmt m c)
  then show ?case by (intro exI [of _ "[]"]) simp
next
  case (2 fmt m c part es)
  then obtain c1 where c1: "streamer_client_part (header_text fmt part) (fst part) c = Ret c1"
    and r: "client_run fmt m c1 es = Ret c'" by (auto simp: outcome_simps)
  have st: "streaming c1" by (rule streaming_part [OF c1 "2.prems"(2)])
  have wf: "buffer_wf (sc_buffer c)" and ok: "part_ok fmt strtod zero part" "list_all (part_ok fmt strtod zero) (sent_parts es)"
    using "2.prems" by (simp_all add: streaming_def)
  from "2.IH" [OF r st "2.prems"(3) ok(2)] obtain parts chunks where
    *: "subseq parts (sent_parts es)" "[] \<notin> set chunks"
      "tx (sc_socket c') = tx (sc_socket c1) @ concat (map encode_chunk chunks)"
      "contents (sc_buffer c1) @ concat (map (part_bytes fmt) parts) = concat chunks @ contents (sc_buffer c')"
    by blast
  from client_part_whole [OF ok(1) c1 wf] obtain taken where
    t: "contents (sc_buffer c1) = contents (sc_buffer c) @ (if taken then part_bytes fmt part else [])"
      "sc_socket c1 = sc_socket c" by blast
  show ?case
  proof (cases taken)
    case True
    with * t show ?thesis by (intro exI [of _ "part # parts"] exI [of _ chunks]) simp
  next
    case False
    with * t show ?thesis by (intro exI [of _ parts] exI [of _ chunks]) (simp add: list_emb_Cons)
  qed
next
  case (3 fmt m c es)
  then obtain c1 where c1: "streamer_client_turn m False c = Ret c1"
    and r: "client_run fmt m c1 es = Ret c'" by (auto simp: outcome_simps)
  have nf: "sc_phase c1 \<noteq> Finished" using run_finished [OF _ r] "3.prems"(3) by blast
  from client_turn_chunk [OF c1 "3.prems"(2) nf] obtain cs where
    cs: "tx (sc_socket c1) = tx (sc_socket c) @ concat (map encode_chunk cs)" "[] \<notin> set cs"
      "contents (sc_buffer c) = concat cs @ contents (sc_buffer c1)" by blast
  from "3.IH" [OF r streaming_turn [OF c1 "3.prems"(2) nf] "3.prems"(3)] "3.prems"(4) obtain parts chunks where
    "subseq parts (sent_parts es)" "[] \<notin> set chunks"
      "tx (sc_socket c') = tx (sc_socket c1) @ concat (map encode_chunk chunks)"
      "contents (sc_buffer c1) @ concat (map (part_bytes fmt) parts) = concat chunks @ contents (sc_buffer c')"
    by auto
  with cs show ?case by (intro exI [of _ parts] exI [of _ "cs @ chunks"]) auto
qed

lemma subseq_list_all: "subseq xs ys \<Longrightarrow> list_all P ys \<Longrightarrow> list_all P xs"
  by (auto simp: list_all_iff dest: list_emb_set)

section \<open>Properties\<close>


text \<open>A client that waits for data, one part, and a turn.\<close>

definition example_client :: streamer_client_t where
  "example_client =
     \<lparr>sc_socket = \<lparr>is_open = True, rx = [], selects = [], txq = [], tx = []\<rparr>, sc_request = None,
      sc_buffer = new_circular_buffer 1024, sc_phase = Waiting\<rparr>"

definition example_part :: "nat part" where
  "example_part = ([1, 2, 3], ''image/jpeg'', 5)"

definition example_read :: "string \<Rightarrow> nat" where
  "example_read s = nat (fst (strtol10 s))"

lemma example_part_ok: "part_ok show_nat example_read 0 example_part"
proof -
  have "length (show_nat 5) \<le> 1" by (rule length_show_nat) simp_all
  moreover have "example_read (show_nat 5) = 5"
    using strtol10_show_nat [of 5 "[]"] by (simp add: example_read_def)
  ultimately show ?thesis
    by (simp add: part_ok_def example_part_def digit_line_text) (simp add: line_text_def)
qed

lemma send_chunk_idle:
  "is_open s \<Longrightarrow> txq s = [] \<Longrightarrow> http_send_chunk s data = (0, s\<lparr>tx := tx s @ encode_chunk data\<rparr>)"
  by (simp add: http_send_chunk_def tcp_socket_send_idle encode_chunk_def)

lemma example_client_run:
  "\<exists>c'. client_run show_nat ''x'' example_client [SendPart example_part, ClientTurn] = Ret c'
     \<and> sc_phase c' = Reading \<and> contents (sc_buffer c') = []
     \<and> tx (sc_socket c') = encode_chunk (part_bytes show_nat example_part)"
proof -
  let ?h = "header_text show_nat example_part"
  let ?b = "new_circular_buffer 1024"
  let ?d = "fst example_part"
  let ?b1 = "circular_buffer_write (circular_buffer_write ?b (bytes_of ?h) (length ?h)) ?d (length ?d)"
  have d: "length ?d = 3" by (simp add: example_part_def)
  have n: "length ?h < 512" by (rule part_text_fits [OF example_part_ok])
  have sp: "circular_buffer_space_available ?b = 1024"
    by (simp add: circular_buffer_space_available_def new_circular_buffer_def)
  have b1: "contents ?b1 = part_bytes show_nat example_part" "buffer_wf ?b1"
    using cb.enq_two(1,2) [OF buffer_wf_new, of "bytes_of ?h" ?d 1024] n sp d
    by (simp_all add: part_bytes_def)
  let ?c1 = "example_client\<lparr>sc_buffer := ?b1\<rparr>"
  have s1: "streamer_client_part ?h ?d example_client = Ret ?c1"
    using n sp d by (simp add: streamer_client_part_def printed_def example_client_def)
  let ?n = "length ?h + length ?d"
  have len: "circular_buffer_data_available ?b1 = ?n"
    using length_contents [OF b1(2)] b1(1) by (simp add: part_bytes_def)
  obtain data b where r: "circular_buffer_read ?b1 ?n = (data, b)" by fastforce
  have db: "data = part_bytes show_nat example_part" "contents b = []"
    using cb.deq_front [OF b1(2), of ?n] cb.queue_deq [OF b1(2), of ?n] r len b1(1)
    by (simp_all add: part_bytes_def)
  let ?c2 = "?c1\<lparr>sc_buffer := b, sc_socket := (sc_socket ?c1)\<lparr>tx := encode_chunk data\<rparr>, sc_phase := Reading\<rparr>"
  have "streamer_client_read False ?c1 16384 = Some (data, ?c1\<lparr>sc_buffer := b\<rparr>)"
    using len n d r by (simp add: streamer_client_read_def)
  then have "streamer_client_turn ''x'' False ?c1 = Ret ?c2"
    by (simp add: streamer_client_turn_def send_chunk_idle example_client_def)
  with s1 db show ?thesis by simp
qed


end
