(* ===== verification/Json.thy ===== *)
theory Json
  imports Prelude
begin

text \<open>
  The JSON library is not part of the repository.  Its operations are a record of functions over a
  type of JSON values, and every definition that reads or builds JSON takes that record.  What the
  program relies on is \<open>json_laws\<close>: reading a field after setting it, the length and
  the elements of an array after pushing, and that a value with a field and an array are not null.
\<close>

record 'j json_api =
  j_isnull :: "'j \<Rightarrow> bool"
  j_isarray :: "'j \<Rightarrow> bool"
  j_get :: "'j \<Rightarrow> string \<Rightarrow> 'j"
  j_getstr :: "'j \<Rightarrow> string \<Rightarrow> string option"
  j_getbool :: "'j \<Rightarrow> string \<Rightarrow> bool"
  j_array_length :: "'j \<Rightarrow> nat"
  j_array_get :: "'j \<Rightarrow> nat \<Rightarrow> 'j"
  j_object_create :: "'j"
  j_setstr :: "'j \<Rightarrow> string \<Rightarrow> string \<Rightarrow> 'j"
  j_set :: "'j \<Rightarrow> string \<Rightarrow> 'j \<Rightarrow> 'j"
  j_true :: "'j"
  j_array_create :: "'j"
  j_array_push :: "'j \<Rightarrow> 'j \<Rightarrow> 'j"

definition json_laws :: "'j json_api \<Rightarrow> bool" where
  "json_laws J \<longleftrightarrow>
     (\<forall>obj k v k'. j_getstr J (j_setstr J obj k v) k' = (if k' = k then Some v else j_getstr J obj k'))
   \<and> (\<forall>obj k v k'. j_get J (j_set J obj k v) k' = (if k' = k then v else j_get J obj k'))
   \<and> (\<forall>obj k v k'. k' \<noteq> k \<longrightarrow> j_getstr J (j_set J obj k v) k' = j_getstr J obj k')
   \<and> (\<forall>obj k v k'. k' \<noteq> k \<longrightarrow> j_get J (j_setstr J obj k v) k' = j_get J obj k')
   \<and> (\<forall>obj k v. \<not> j_isnull J (j_setstr J obj k v)) \<and> (\<forall>obj k v. \<not> j_isnull J (j_set J obj k v))
   \<and> (\<forall>a. j_isarray J a \<longrightarrow> \<not> j_isnull J a)
   \<and> j_isarray J (j_array_create J) \<and> j_array_length J (j_array_create J) = 0
   \<and> (\<forall>a v. j_isarray J a \<longrightarrow>
        j_isarray J (j_array_push J a v)
        \<and> j_array_length J (j_array_push J a v) = Suc (j_array_length J a)
        \<and> (\<forall>i \<le> j_array_length J a. j_array_get J (j_array_push J a v) i
              = (if i = j_array_length J a then v else j_array_get J a i)))"

lemma json_getstr_setstr:
  "json_laws J \<Longrightarrow> j_getstr J (j_setstr J obj k v) k' = (if k' = k then Some v else j_getstr J obj k')"
  by (simp add: json_laws_def)

lemma json_get_set:
  assumes "json_laws J"
  shows "j_get J (j_set J obj k v) k' = (if k' = k then v else j_get J obj k')"
    "k' \<noteq> k \<Longrightarrow> j_getstr J (j_set J obj k v) k' = j_getstr J obj k'"
    "k' \<noteq> k \<Longrightarrow> j_get J (j_setstr J obj k s) k' = j_get J obj k'"
  using assms by (simp_all add: json_laws_def)

lemma json_not_null:
  assumes "json_laws J"
  shows "\<not> j_isnull J (j_setstr J obj k s)" "\<not> j_isnull J (j_set J obj k v)"
    "j_isarray J a \<Longrightarrow> \<not> j_isnull J a"
  using assms by (simp_all add: json_laws_def)

definition json_array_of :: "'j json_api \<Rightarrow> 'j list \<Rightarrow> 'j" where
  "json_array_of J vs = fold (\<lambda>v a. j_array_push J a v) vs (j_array_create J)"

definition json_elems :: "'j json_api \<Rightarrow> 'j \<Rightarrow> 'j list" where
  "json_elems J a = map (j_array_get J a) [0..<j_array_length J a]"

lemma json_array_push_elems:
  assumes "json_laws J" "j_isarray J a"
  shows "json_elems J (j_array_push J a v) = json_elems J a @ [v]"
proof -
  have p: "j_array_length J (j_array_push J a v) = Suc (j_array_length J a)"
    "\<And>i. i \<le> j_array_length J a \<Longrightarrow> j_array_get J (j_array_push J a v) i
              = (if i = j_array_length J a then v else j_array_get J a i)"
    using assms by (auto simp: json_laws_def)
  show ?thesis by (simp add: json_elems_def p(1)) (simp add: p(2))
qed

lemma json_array_fold:
  assumes "json_laws J" "j_isarray J a"
  shows "j_isarray J (fold (\<lambda>v a. j_array_push J a v) vs a)
         \<and> json_elems J (fold (\<lambda>v a. j_array_push J a v) vs a) = json_elems J a @ vs"
  using assms(2)
proof (induction vs arbitrary: a)
  case Nil
  then show ?case by simp
next
  case (Cons v vs)
  moreover have "j_isarray J (j_array_push J a v)"
    using assms(1) Cons.prems by (simp add: json_laws_def)
  ultimately show ?case using json_array_push_elems [OF assms(1) Cons.prems] by simp
qed

lemma json_array_of_elems:
  assumes "json_laws J"
  shows "j_isarray J (json_array_of J vs)" "json_elems J (json_array_of J vs) = vs"
proof -
  have "j_isarray J (j_array_create J)" "json_elems J (j_array_create J) = []"
    using assms by (simp_all add: json_laws_def json_elems_def)
  with json_array_fold [OF assms] show "j_isarray J (json_array_of J vs)"
    "json_elems J (json_array_of J vs) = vs"
    by (simp_all add: json_array_of_def)
qed

section \<open>A concrete library for the witnesses\<close>

text \<open>Objects as association lists, newest field first; other values as they are.\<close>

datatype json = JNull | JTrue | JString string | JObject "(string \<times> json) list" | JArray "json list"

fun json_field :: "json \<Rightarrow> string \<Rightarrow> json" where
  "json_field (JObject fs) k = (case map_of fs k of None \<Rightarrow> JNull | Some v \<Rightarrow> v)"
| "json_field _ k = JNull"

fun json_string :: "json \<Rightarrow> string option" where
  "json_string (JString s) = Some s"
| "json_string _ = None"

fun json_set :: "json \<Rightarrow> string \<Rightarrow> json \<Rightarrow> json" where
  "json_set (JObject fs) k v = JObject ((k, v) # fs)"
| "json_set _ k v = JObject [(k, v)]"

fun json_items :: "json \<Rightarrow> json list" where
  "json_items (JArray vs) = vs"
| "json_items _ = []"

definition example_json :: "json json_api" where
  "example_json =
     \<lparr>j_isnull = (\<lambda>v. v = JNull),
      j_isarray = (\<lambda>v. case v of JArray _ \<Rightarrow> True | _ \<Rightarrow> False),
      j_get = json_field,
      j_getstr = (\<lambda>v k. json_string (json_field v k)),
      j_getbool = (\<lambda>v k. json_field v k = JTrue),
      j_array_length = (\<lambda>v. length (json_items v)),
      j_array_get = (\<lambda>v i. if i < length (json_items v) then json_items v ! i else JNull),
      j_object_create = JObject [],
      j_setstr = (\<lambda>v k s. json_set v k (JString s)),
      j_set = json_set,
      j_true = JTrue,
      j_array_create = JArray [],
      j_array_push = (\<lambda>a v. JArray (json_items a @ [v]))\<rparr>"

lemma json_laws_example: "json_laws example_json"
proof -
  have "json_string (json_field (json_set v k (JString s)) k')
        = (if k' = k then Some s else json_string (json_field v k'))" for v k s k'
    by (cases v) auto
  moreover have "json_field (json_set v k w) k' = (if k' = k then w else json_field v k')" for v k w k'
    by (cases v) auto
  moreover have "json_set v k w \<noteq> JNull" for v k w by (cases v) auto
  ultimately show ?thesis
    by (auto simp: json_laws_def example_json_def nth_append split: json.splits)
qed

end
