(* ===== verification/Registry.thy ===== *)
theory Registry
  imports Addr Json
begin

text \<open>
  The table of communication end-points, librcom/src/registry.c, used by the registry server and by
  the proxy of every application.  An entry has an id, the user's name, a topic, a type, an address
  and, when it is local, a pointer to its end-point; the address is an option because an update with
  an invalid text leaves NULL there.  The table is the code's linked list in order.

  Operations that follow a pointer return an outcome: \<open>Undef\<close> where the pointer is NULL.
\<close>

section \<open>Model\<close>

abbreviation TYPE_NONE :: int where "TYPE_NONE \<equiv> -2"
abbreviation TYPE_ANY :: int where "TYPE_ANY \<equiv> -1"
abbreviation TYPE_DATALINK :: int where "TYPE_DATALINK \<equiv> 0"
abbreviation TYPE_DATAHUB :: int where "TYPE_DATAHUB \<equiv> 1"
abbreviation TYPE_MESSAGELINK :: int where "TYPE_MESSAGELINK \<equiv> 2"
abbreviation TYPE_MESSAGEHUB :: int where "TYPE_MESSAGEHUB \<equiv> 3"
abbreviation TYPE_SERVICE :: int where "TYPE_SERVICE \<equiv> 4"
abbreviation TYPE_STREAMER :: int where "TYPE_STREAMER \<equiv> 5"
abbreviation TYPE_STREAMERLINK :: int where "TYPE_STREAMERLINK \<equiv> 6"

definition registry_str_to_type :: "string \<Rightarrow> int" where
  "registry_str_to_type str =
     (if str = ''datalink'' then TYPE_DATALINK
      else if str = ''datahub'' then TYPE_DATAHUB
      else if str = ''messagelink'' then TYPE_MESSAGELINK
      else if str = ''messagehub'' then TYPE_MESSAGEHUB
      else if str = ''service'' then TYPE_SERVICE
      else if str = ''streamer'' then TYPE_STREAMER
      else if str = ''streamerlink'' then TYPE_STREAMERLINK
      else TYPE_NONE)"

definition registry_type_to_str :: "int \<Rightarrow> string" where
  "registry_type_to_str type =
     (if type = TYPE_DATALINK then ''datalink''
      else if type = TYPE_DATAHUB then ''datahub''
      else if type = TYPE_MESSAGELINK then ''messagelink''
      else if type = TYPE_MESSAGEHUB then ''messagehub''
      else if type = TYPE_SERVICE then ''service''
      else if type = TYPE_STREAMER then ''streamer''
      else if type = TYPE_STREAMERLINK then ''streamerlink''
      else ''unknown'')"

subsection \<open>Validation\<close>

text \<open>The loops over the characters of an id: a run of hexadecimal digits, a dash.\<close>

definition hex_digits :: string where
  "hex_digits = ''0123456789abcdef''"

fun hex_run :: "nat \<Rightarrow> string \<Rightarrow> string option" where
  "hex_run 0 p = Some p"
| "hex_run (Suc n) [] = None"
| "hex_run (Suc n) (c # p) = (if c \<in> set hex_digits then hex_run n p else None)"

fun dash :: "string \<Rightarrow> string option" where
  "dash [] = None"
| "dash (c # p) = (if c = CHR ''-'' then Some p else None)"

fun dashed_groups :: "nat \<Rightarrow> string \<Rightarrow> string option" where
  "dashed_groups 0 p = Some p"
| "dashed_groups (Suc j) p = Option.bind (Option.bind (hex_run 4 p) dash) (dashed_groups j)"

definition registry_valid_id :: "string option \<Rightarrow> bool" where
  "registry_valid_id ident =
     (case ident of
        None \<Rightarrow> False
      | Some s \<Rightarrow>
          if length s \<noteq> 36 then False
          else Option.bind (Option.bind (Option.bind (hex_run 8 s) dash) (dashed_groups 3)) (hex_run 12)
               \<noteq> None)"

definition topic_chars :: string where
  "topic_chars = ''abcdefghijklmnopqrstuvwxyz.-_''"

definition name_chars :: string where
  "name_chars = ''abcdefghijklmnopqrstuvwxyz0123456789-_''"

definition letters :: string where
  "letters = ''abcdefghijklmnopqrstuvwxyz''"

definition registry_valid_topic :: "string option \<Rightarrow> bool" where
  "registry_valid_topic topic =
     (case topic of
        None \<Rightarrow> False
      | Some s \<Rightarrow>
          if length s < 2 \<or> 256 < length s then False
          else if hd s \<notin> set letters then False
          else list_all (\<lambda>c. c \<in> set topic_chars) (tl s))"

definition registry_valid_name :: "string option \<Rightarrow> bool" where
  "registry_valid_name name =
     (case name of
        None \<Rightarrow> False
      | Some s \<Rightarrow>
          if length s < 4 \<or> 256 < length s then False
          else if hd s \<notin> set letters then False
          else list_all (\<lambda>c. c \<in> set name_chars) (tl s))"

subsection \<open>Entries\<close>

record registry_entry_t =
  e_id :: string
  e_name :: string
  e_topic :: string
  e_type :: int
  e_addr :: "addr_t option"
  e_endpoint :: "ptr option"

text \<open>The first argument is the identifier r_uuid would make, used when no id is given.\<close>

definition new_registry_entry ::
  "string \<Rightarrow> string option \<Rightarrow> string option \<Rightarrow> string option \<Rightarrow> int \<Rightarrow> addr_t option \<Rightarrow> ptr option
   \<Rightarrow> registry_entry_t option" where
  "new_registry_entry uuid ident name topic type addr endpoint =
     (case (name, topic, addr) of
        (Some n, Some t, Some a) \<Rightarrow>
          if type < 0 then None
          else Some \<lparr>e_id = (case ident of None \<Rightarrow> uuid | Some i \<Rightarrow> i), e_name = n, e_topic = t,
                     e_type = type, e_addr = addr_clone addr, e_endpoint = endpoint\<rparr>
      | _ \<Rightarrow> None)"

definition clone_entry :: "registry_entry_t \<Rightarrow> registry_entry_t option" where
  "clone_entry e =
     new_registry_entry [] (Some (e_id e)) (Some (e_name e)) (Some (e_topic e)) (e_type e)
       (e_addr e) (e_endpoint e)"

text \<open>The entry, or NULL, and the error code.\<close>

definition registry_entry_parse :: "'j json_api \<Rightarrow> 'j \<Rightarrow> (registry_entry_t option \<times> int) outcome" where
  "registry_entry_parse J obj =
     (let ident = j_getstr J obj ''id''; name = j_getstr J obj ''name'';
          topic = j_getstr J obj ''topic''; type_str = j_getstr J obj ''type'';
          addr_str = j_getstr J obj ''addr''
      in if \<not> registry_valid_id ident then Ret (None, -5)
         else if \<not> registry_valid_name name then Ret (None, -1)
         else if \<not> registry_valid_topic topic then Ret (None, -2)
         else (case type_str of
            None \<Rightarrow> Ret (None, -3)
          | Some ts \<Rightarrow>
              let type = registry_str_to_type ts
              in if type = TYPE_NONE then Ret (None, -3)
                 else (case addr_str of
                    None \<Rightarrow> Ret (None, -4)
                  | Some as \<Rightarrow>
                      bind_out (addr_parse as) (\<lambda>addr.
                        if addr = None then Ret (None, -4)
                        else (case new_registry_entry [] ident name topic type addr None of
                                None \<Rightarrow> Ret (None, -6)
                              | Some e \<Rightarrow> Ret (Some e, 0))))))"

definition registry_entry_encode :: "'j json_api \<Rightarrow> registry_entry_t \<Rightarrow> 'j" where
  "registry_entry_encode J e =
     (let obj = j_object_create J;
          obj = j_setstr J obj ''id'' (e_id e);
          obj = j_setstr J obj ''name'' (e_name e);
          obj = j_setstr J obj ''topic'' (e_topic e);
          obj = j_setstr J obj ''type'' (registry_type_to_str (e_type e));
          obj = j_setstr J obj ''addr'' (addr_string (e_addr e) 64)
      in obj)"

text \<open>Entries are prepended as they are read; the first invalid one drops the whole list.\<close>

fun parse_list_loop ::
  "'j json_api \<Rightarrow> 'j list \<Rightarrow> registry_entry_t list \<Rightarrow> registry_entry_t list outcome" where
  "parse_list_loop J [] acc = Ret acc"
| "parse_list_loop J (obj # objs) acc =
     bind_out (registry_entry_parse J obj) (\<lambda>(entry, err).
       case entry of
         Some e \<Rightarrow> if err = 0 then parse_list_loop J objs (e # acc) else Ret []
       | None \<Rightarrow> Ret [])"

definition registry_entry_parse_list :: "'j json_api \<Rightarrow> 'j \<Rightarrow> registry_entry_t list outcome" where
  "registry_entry_parse_list J a =
     (if \<not> j_isarray J a then Ret [] else parse_list_loop J (json_elems J a) [])"

text \<open>The cells of a list may hold NULL; encoding such a cell dereferences it.\<close>

fun encode_list_loop ::
  "'j json_api \<Rightarrow> registry_entry_t option list \<Rightarrow> 'j \<Rightarrow> 'j outcome" where
  "encode_list_loop J [] a = Ret a"
| "encode_list_loop J (l # ls) a =
     bind_out (deref l) (\<lambda>e. encode_list_loop J ls (j_array_push J a (registry_entry_encode J e)))"

definition registry_entry_encode_list :: "'j json_api \<Rightarrow> registry_entry_t option list \<Rightarrow> 'j outcome" where
  "registry_entry_encode_list J ls = encode_list_loop J ls (j_array_create J)"

subsection \<open>The table\<close>

record registry_t =
  entries :: "registry_entry_t list"

definition new_registry :: registry_t where
  "new_registry = \<lparr>entries = []\<rparr>"

fun find_id :: "registry_entry_t list \<Rightarrow> string \<Rightarrow> registry_entry_t option" where
  "find_id [] ident = None"
| "find_id (e # es) ident = (if e_id e = ident then Some e else find_id es ident)"

definition registry_get :: "registry_t \<Rightarrow> string \<Rightarrow> registry_entry_t option" where
  "registry_get r ident = Option.bind (find_id (entries r) ident) clone_entry"

text \<open>
  The filter of registry_select and registry_count.  The address is compared last but one, and only
  then is the address of the entry dereferenced.
\<close>

definition entry_matches ::
  "registry_entry_t \<Rightarrow> string option \<Rightarrow> string option \<Rightarrow> string option \<Rightarrow> int \<Rightarrow> addr_t option
   \<Rightarrow> ptr option \<Rightarrow> bool outcome" where
  "entry_matches e ident name topic type addr endpoint =
     (if (ident = None \<or> ident = Some (e_id e)) \<and> (type = TYPE_ANY \<or> e_type e = type)
         \<and> (name = None \<or> name = Some (e_name e)) \<and> (topic = None \<or> topic = Some (e_topic e))
      then bind_out (case addr of None \<Rightarrow> Ret True
                     | Some a \<Rightarrow> bind_out (deref (e_addr e)) (\<lambda>b. Ret (addr_eq b a)))
             (\<lambda>m. Ret (m \<and> (endpoint = None \<or> endpoint = e_endpoint e)))
      else Ret False)"

fun select_loop ::
  "(registry_entry_t \<Rightarrow> bool outcome) \<Rightarrow> registry_entry_t list \<Rightarrow> registry_entry_t option list
   \<Rightarrow> registry_entry_t option list outcome" where
  "select_loop p [] results = Ret results"
| "select_loop p (e # es) results =
     bind_out (p e) (\<lambda>m. select_loop p es (if m then clone_entry e # results else results))"

definition registry_select ::
  "registry_t \<Rightarrow> string option \<Rightarrow> string option \<Rightarrow> string option \<Rightarrow> int \<Rightarrow> addr_t option
   \<Rightarrow> ptr option \<Rightarrow> registry_entry_t option list outcome" where
  "registry_select r ident name topic type addr endpoint =
     select_loop (\<lambda>e. entry_matches e ident name topic type addr endpoint) (entries r) []"

definition registry_select_all :: "registry_t \<Rightarrow> registry_entry_t option list outcome" where
  "registry_select_all r = registry_select r None None None TYPE_ANY None None"

fun count_loop :: "(registry_entry_t \<Rightarrow> bool outcome) \<Rightarrow> registry_entry_t list \<Rightarrow> nat \<Rightarrow> nat outcome" where
  "count_loop p [] count = Ret count"
| "count_loop p (e # es) count =
     bind_out (p e) (\<lambda>m. count_loop p es (if m then count + 1 else count))"

definition registry_count ::
  "registry_t \<Rightarrow> string option \<Rightarrow> string option \<Rightarrow> string option \<Rightarrow> int \<Rightarrow> addr_t option
   \<Rightarrow> ptr option \<Rightarrow> nat outcome" where
  "registry_count r ident name topic type addr endpoint =
     count_loop (\<lambda>e. entry_matches e ident name topic type addr endpoint) (entries r) 0"

text \<open>
  What the caller's buffers hold afterwards: name, topic, type and address of the n-th entry, or what
  they held before when there is none.  A NULL address leaves 0.0.0.0:0.
\<close>

definition registry_geti ::
  "registry_t \<Rightarrow> nat \<Rightarrow> string \<times> string \<times> int \<times> addr_t \<Rightarrow> string \<times> string \<times> int \<times> addr_t" where
  "registry_geti r n old =
     (if n < length (entries r)
      then let e = entries r ! n;
               addr = snd (addr_set (snd (snd (snd old))) (Some ''0.0.0.0'') 0);
               addr = (case e_addr e of None \<Rightarrow> addr | Some a \<Rightarrow> addr_copy a addr)
           in (e_name e, e_topic e, e_type e, addr)
      else old)"

definition registry_add_entry :: "registry_t \<Rightarrow> registry_entry_t \<Rightarrow> int \<times> registry_t" where
  "registry_add_entry r entry =
     (let r = r\<lparr>entries := entries r @ [entry]\<rparr> in (if entries r = [] then -1 else 0, r))"

definition registry_insert ::
  "registry_t \<Rightarrow> string \<Rightarrow> string option \<Rightarrow> string option \<Rightarrow> string option \<Rightarrow> int \<Rightarrow> addr_t option
   \<Rightarrow> ptr option \<Rightarrow> int \<times> registry_t" where
  "registry_insert r uuid ident name topic type addr endpoint =
     (case new_registry_entry uuid ident name topic type addr endpoint of
        None \<Rightarrow> (-1, r)
      | Some entry \<Rightarrow> let (c, r') = registry_add_entry r entry in if c \<noteq> 0 then (-1, r') else (0, r'))"

definition registry_insert_entry :: "registry_t \<Rightarrow> registry_entry_t \<Rightarrow> int \<times> registry_t" where
  "registry_insert_entry r e =
     registry_insert r [] (Some (e_id e)) (Some (e_name e)) (Some (e_topic e)) (e_type e) (e_addr e)
       (e_endpoint e)"

fun delete_loop :: "registry_entry_t list \<Rightarrow> string \<Rightarrow> int \<times> registry_entry_t list" where
  "delete_loop [] ident = (-1, [])"
| "delete_loop (e # es) ident =
     (if e_id e = ident then (0, es) else let (ret, es') = delete_loop es ident in (ret, e # es'))"

definition registry_delete :: "registry_t \<Rightarrow> string \<Rightarrow> int \<times> registry_t" where
  "registry_delete r ident =
     (let (ret, es) = delete_loop (entries r) ident in (ret, r\<lparr>entries := es\<rparr>))"

fun update_addr_loop ::
  "registry_entry_t list \<Rightarrow> string \<Rightarrow> string \<Rightarrow> (int \<times> registry_entry_t list) outcome" where
  "update_addr_loop [] ident addr = Ret (0, [])"
| "update_addr_loop (e # es) ident addr =
     (if ident = e_id e
      then bind_out (addr_parse addr) (\<lambda>a. Ret (if a = None then -1 else 0, e\<lparr>e_addr := a\<rparr> # es))
      else map_out (\<lambda>(err, es'). (err, e # es')) (update_addr_loop es ident addr))"

definition registry_update_addr :: "registry_t \<Rightarrow> string \<Rightarrow> string \<Rightarrow> (int \<times> registry_t) outcome" where
  "registry_update_addr r ident addr =
     map_out (\<lambda>(err, es). (err, r\<lparr>entries := es\<rparr>)) (update_addr_loop (entries r) ident addr)"

section \<open>Lemmas\<close>

subsection \<open>Entries\<close>

text \<open>
  What registry_insert guarantees of an entry, what the parser guarantees of one, and the entries
  that travel: parsed ones never carry an end-point.
\<close>

definition entry_ok :: "registry_entry_t \<Rightarrow> bool" where
  "entry_ok e \<longleftrightarrow> e_addr e \<noteq> None \<and> 0 \<le> e_type e"

definition entry_valid :: "registry_entry_t \<Rightarrow> bool" where
  "entry_valid e \<longleftrightarrow> registry_valid_id (Some (e_id e)) \<and> registry_valid_name (Some (e_name e))
     \<and> registry_valid_topic (Some (e_topic e)) \<and> 0 \<le> e_type e \<and> e_type e \<le> 6
     \<and> (\<exists>a. e_addr e = Some a \<and> sin_family a = AF_INET) \<and> e_endpoint e = None"

lemma entry_valid_ok: "entry_valid e \<Longrightarrow> entry_ok e"
  by (auto simp: entry_valid_def entry_ok_def)

lemma addr_clone_id [simp]: "addr_clone a = a"
  by (simp add: addr_clone_def split: option.splits)

lemma new_registry_entry_Some [simp]:
  "new_registry_entry uuid (Some i) (Some n) (Some t) ty (Some a) p =
     (if ty < 0 then None
      else Some \<lparr>e_id = i, e_name = n, e_topic = t, e_type = ty, e_addr = Some a, e_endpoint = p\<rparr>)"
  by (simp add: new_registry_entry_def)

lemma new_registry_entry_ok:
  "new_registry_entry uuid i n t ty a p = Some e \<Longrightarrow> entry_ok e"
  by (auto simp: new_registry_entry_def entry_ok_def split: option.splits if_splits)

lemma clone_entry_ok: "entry_ok e \<Longrightarrow> clone_entry e = Some e"
  by (cases e) (auto simp: entry_ok_def clone_entry_def)

lemma clone_entry_poisoned: "e_addr e = None \<Longrightarrow> clone_entry e = None"
  by (simp add: clone_entry_def new_registry_entry_def)

lemma type_cases_int:
  assumes "0 \<le> ty" "ty \<le> (6::int)"
  shows "ty = 0 \<or> ty = 1 \<or> ty = 2 \<or> ty = 3 \<or> ty = 4 \<or> ty = 5 \<or> ty = 6"
  using assms by linarith

lemma registry_str_to_type_to_str:
  assumes "0 \<le> ty" "ty \<le> 6"
  shows "registry_str_to_type (registry_type_to_str ty) = ty"
  using type_cases_int [OF assms] by (auto simp: registry_type_to_str_def registry_str_to_type_def)

lemma registry_str_to_type_range:
  "registry_str_to_type s = TYPE_NONE \<or> (0 \<le> registry_str_to_type s \<and> registry_str_to_type s \<le> 6)"
  by (simp add: registry_str_to_type_def)

lemma addr_parse_family: "addr_parse s = Ret (Some a) \<Longrightarrow> sin_family a = AF_INET"
  by (auto simp: addr_parse_def new_addr0_eq addr_set_ip_def addr_set_port_def Let_def
      split: option.splits if_splits prod.splits)

lemma entry_parse_valid:
  assumes "registry_entry_parse J obj = Ret (Some e, err)"
  shows "err = 0 \<and> entry_valid e"
proof -
  obtain i n t ts as where
    f: "j_getstr J obj ''id'' = Some i" "j_getstr J obj ''name'' = Some n"
       "j_getstr J obj ''topic'' = Some t" "j_getstr J obj ''type'' = Some ts"
       "j_getstr J obj ''addr'' = Some as"
    using assms by (cases "j_getstr J obj ''id''"; cases "j_getstr J obj ''name''";
        cases "j_getstr J obj ''topic''"; cases "j_getstr J obj ''type''";
        cases "j_getstr J obj ''addr''")
      (auto simp: registry_entry_parse_def Let_def registry_valid_id_def registry_valid_name_def
        registry_valid_topic_def split: if_splits)
  have v: "registry_valid_id (Some i)" "registry_valid_name (Some n)" "registry_valid_topic (Some t)"
    "registry_str_to_type ts \<noteq> TYPE_NONE"
    using assms f by (auto simp: registry_entry_parse_def Let_def split: if_splits)
  then obtain a where "addr_parse as = Ret (Some a)"
    using assms f by (auto simp: registry_entry_parse_def Let_def outcome_simps split: if_splits)
  with assms f v show ?thesis
    using registry_str_to_type_range [of ts] addr_parse_family [of as a]
    by (auto simp: registry_entry_parse_def Let_def entry_valid_def split: if_splits)
qed

lemma json_getstr_encode:
  assumes "json_laws J"
  shows "j_getstr J (registry_entry_encode J e) ''id'' = Some (e_id e)"
    "j_getstr J (registry_entry_encode J e) ''name'' = Some (e_name e)"
    "j_getstr J (registry_entry_encode J e) ''topic'' = Some (e_topic e)"
    "j_getstr J (registry_entry_encode J e) ''type'' = Some (registry_type_to_str (e_type e))"
    "j_getstr J (registry_entry_encode J e) ''addr'' = Some (addr_string (e_addr e) 64)"
  by (simp_all add: registry_entry_encode_def Let_def json_getstr_setstr [OF assms])


lemma entry_parse_encode:
  assumes J: "json_laws J" and e: "entry_valid e"
  shows "registry_entry_parse J (registry_entry_encode J e) = Ret (Some e, 0)"
proof -
  obtain a where a: "e_addr e = Some a" "sin_family a = AF_INET"
    using e by (auto simp: entry_valid_def)
  have t: "registry_str_to_type (registry_type_to_str (e_type e)) = e_type e"
    using e by (simp add: entry_valid_def registry_str_to_type_to_str)
  have "e = \<lparr>e_id = e_id e, e_name = e_name e, e_topic = e_topic e, e_type = e_type e,
      e_addr = Some a, e_endpoint = None\<rparr>"
    using e a by (cases e) (simp add: entry_valid_def)
  with e a t show ?thesis
    by (simp add: registry_entry_parse_def json_getstr_encode [OF J] addr_parse_printed Let_def
        entry_valid_def)
qed

subsection \<open>Lists\<close>

lemma encode_list_loop_Some:
  "encode_list_loop J (map Some es) a
   = Ret (fold (\<lambda>v a. j_array_push J a v) (map (registry_entry_encode J) es) a)"
  by (induction es arbitrary: a) auto

lemma encode_list_Some:
  "registry_entry_encode_list J (map Some es) = Ret (json_array_of J (map (registry_entry_encode J) es))"
  by (simp add: registry_entry_encode_list_def encode_list_loop_Some json_array_of_def)

lemma encode_list_loop_None: "None \<in> set ls \<Longrightarrow> encode_list_loop J ls a = Undef"
proof (induction ls arbitrary: a)
  case (Cons l ls)
  then show ?case by (cases l) auto
qed simp

lemma encode_list_None: "None \<in> set ls \<Longrightarrow> registry_entry_encode_list J ls = Undef"
  by (simp add: registry_entry_encode_list_def encode_list_loop_None)

lemma parse_list_loop_encode:
  assumes "json_laws J" "list_all entry_valid es"
  shows "parse_list_loop J (map (registry_entry_encode J) es) acc = Ret (rev es @ acc)"
  using assms(2) by (induction es arbitrary: acc) (auto simp: entry_parse_encode [OF assms(1)])

lemma parse_list_loop_valid:
  "parse_list_loop J objs acc = Ret es \<Longrightarrow> list_all entry_valid acc \<Longrightarrow> list_all entry_valid es"
proof (induction objs arbitrary: acc)
  case (Cons obj objs)
  then show ?case
    by (auto simp: outcome_simps split: option.splits if_splits dest!: entry_parse_valid)
qed simp

subsection \<open>Selection\<close>

text \<open>The entries a selection asks for, as a predicate on entries that have an address.\<close>

definition wanted ::
  "string option \<Rightarrow> string option \<Rightarrow> string option \<Rightarrow> int \<Rightarrow> addr_t option \<Rightarrow> ptr option
   \<Rightarrow> registry_entry_t \<Rightarrow> bool" where
  "wanted ident name topic type addr endpoint e \<longleftrightarrow>
     (ident \<noteq> None \<longrightarrow> ident = Some (e_id e)) \<and> (type \<noteq> TYPE_ANY \<longrightarrow> type = e_type e)
   \<and> (name \<noteq> None \<longrightarrow> name = Some (e_name e)) \<and> (topic \<noteq> None \<longrightarrow> topic = Some (e_topic e))
   \<and> (case addr of None \<Rightarrow> True | Some a \<Rightarrow> addr_eq (the (e_addr e)) a)
   \<and> (endpoint \<noteq> None \<longrightarrow> endpoint = e_endpoint e)"

lemma entry_matches_wanted:
  "entry_ok e \<Longrightarrow> entry_matches e i n t ty a p = Ret (wanted i n t ty a p e)"
  by (auto simp: entry_matches_def wanted_def entry_ok_def split: option.splits)

lemma select_loop_map:
  assumes "\<forall>e \<in> set es. p e = Ret (q e) \<and> clone_entry e = Some e"
  shows "select_loop p es res = Ret (map Some (rev (filter q es)) @ res)"
  using assms by (induction es arbitrary: res) auto

lemma count_loop_length:
  assumes "\<forall>e \<in> set es. p e = Ret (q e)"
  shows "count_loop p es n = Ret (n + length (filter q es))"
  using assms by (induction es arbitrary: n) auto

definition reg_wf :: "registry_t \<Rightarrow> bool" where
  "reg_wf r \<longleftrightarrow> list_all entry_ok (entries r)"

lemma registry_select_wanted:
  "reg_wf r \<Longrightarrow>
   registry_select r i n t ty a p = Ret (map Some (rev (filter (wanted i n t ty a p) (entries r))))"
  unfolding registry_select_def
  by (subst select_loop_map [where q = "wanted i n t ty a p"])
     (auto simp: reg_wf_def list_all_iff entry_matches_wanted clone_entry_ok)

lemma registry_count_wanted:
  "reg_wf r \<Longrightarrow> registry_count r i n t ty a p = Ret (length (filter (wanted i n t ty a p) (entries r)))"
  unfolding registry_count_def
  by (subst count_loop_length [where q = "wanted i n t ty a p"])
     (auto simp: reg_wf_def list_all_iff entry_matches_wanted)

lemma wanted_all: "wanted None None None TYPE_ANY None None e"
  by (simp add: wanted_def)

lemma registry_select_all_wf: "reg_wf r \<Longrightarrow> registry_select_all r = Ret (map Some (rev (entries r)))"
  by (simp add: registry_select_all_def registry_select_wanted wanted_all filter_id_conv)


text \<open>The listing clones every entry; an entry without an address has no clone.\<close>

lemma registry_select_all_clones: "registry_select_all r = Ret (rev (map clone_entry (entries r)))"
proof -
  have "entry_matches e None None None TYPE_ANY None None = Ret True" for e
    by (simp add: entry_matches_def)
  then have "select_loop (\<lambda>e. entry_matches e None None None TYPE_ANY None None) es res
      = Ret (rev (map clone_entry es) @ res)" for es res
    by (induction es arbitrary: res) simp_all
  then show ?thesis by (simp add: registry_select_all_def registry_select_def)
qed

subsection \<open>Changes of the table\<close>

text \<open>The list without its first entry that has the id.\<close>

fun drop_id :: "string \<Rightarrow> registry_entry_t list \<Rightarrow> registry_entry_t list" where
  "drop_id i [] = []"
| "drop_id i (e # es) = (if e_id e = i then es else e # drop_id i es)"

definition has_id :: "string \<Rightarrow> registry_entry_t list \<Rightarrow> bool" where
  "has_id i es \<longleftrightarrow> i \<in> e_id ` set es"

text \<open>The list with the address of the first entry that has the id replaced.\<close>

fun set_addr :: "string \<Rightarrow> addr_t option \<Rightarrow> registry_entry_t list \<Rightarrow> registry_entry_t list" where
  "set_addr i a [] = []"
| "set_addr i a (e # es) = (if e_id e = i then e\<lparr>e_addr := a\<rparr> # es else e # set_addr i a es)"

lemma has_id_simps [simp]:
  "has_id i [] = False" "has_id i (e # es) \<longleftrightarrow> e_id e = i \<or> has_id i es"
  "has_id i (es @ fs) \<longleftrightarrow> has_id i es \<or> has_id i fs"
  by (auto simp: has_id_def)

lemma delete_loop_eq: "delete_loop es i = (if has_id i es then 0 else -1, drop_id i es)"
  by (induction es) auto

lemma registry_delete_eq:
  "registry_delete r i = (if has_id i (entries r) then 0 else -1, r\<lparr>entries := drop_id i (entries r)\<rparr>)"
  by (simp add: registry_delete_def delete_loop_eq)

lemma registry_insert_entry_eq:
  "registry_insert_entry r e =
     (if entry_ok e then (0, r\<lparr>entries := entries r @ [e]\<rparr>) else (-1, r))"
  by (cases e)
     (auto simp: registry_insert_entry_def registry_insert_def registry_add_entry_def entry_ok_def
       new_registry_entry_def split: option.splits)

lemma registry_insert_eq:
  "registry_insert r uuid i n t ty a p =
     (case new_registry_entry uuid i n t ty a p of
        None \<Rightarrow> (-1, r) | Some e \<Rightarrow> (0, r\<lparr>entries := entries r @ [e]\<rparr>))"
  by (simp add: registry_insert_def registry_add_entry_def split: option.splits)

lemma update_addr_loop_eq:
  "addr_parse s = Ret a \<Longrightarrow>
   update_addr_loop es i s
   = Ret (if has_id i es \<and> a = None then -1 else 0, set_addr i a es)"
  by (induction es) auto

lemma registry_update_addr_eq:
  "addr_parse s = Ret a \<Longrightarrow>
   registry_update_addr r i s
   = Ret (if has_id i (entries r) \<and> a = None then -1 else 0, r\<lparr>entries := set_addr i a (entries r)\<rparr>)"
  by (simp add: registry_update_addr_def update_addr_loop_eq)

lemma set_addr_absent: "\<not> has_id i es \<Longrightarrow> set_addr i a es = es"
  by (induction es) auto

lemma drop_id_absent: "\<not> has_id i es \<Longrightarrow> drop_id i es = es"
  by (induction es) auto

lemma drop_id_append: "\<not> has_id i es \<Longrightarrow> drop_id i (es @ fs) = es @ drop_id i fs"
  by (induction es) auto

lemma drop_id_ok [inv_intros]: "list_all entry_ok es \<Longrightarrow> list_all entry_ok (drop_id i es)"
  by (induction es) auto

lemma set_addr_ok [inv_intros]: "list_all entry_ok es \<Longrightarrow> list_all entry_ok (set_addr i (Some a) es)"
  by (induction es) (auto simp: entry_ok_def)

lemma set_addr_poisoned: "has_id i es \<Longrightarrow> \<exists>e \<in> set (set_addr i None es). e_addr e = None"
  by (induction es) (force, force)

section \<open>The interface of the table\<close>

text \<open>
  A client asks for three changes and for the listing.  The specification is a plain list: entries
  are appended, the first entry with an id goes, its address changes.  An update names an address
  that parses; an update with another text leaves an entry without an
  address; the theory of the registry server shows what comes of it.
\<close>

datatype table_op = TInsert registry_entry_t | TDelete string | TUpdate string string

fun op_legal :: "table_op \<Rightarrow> bool" where
  "op_legal (TUpdate i s) = (\<exists>a. addr_parse s = Ret (Some a))"
| "op_legal op = True"

fun table_spec :: "table_op \<Rightarrow> registry_entry_t list \<Rightarrow> int \<times> registry_entry_t list" where
  "table_spec (TInsert e) es = (if entry_ok e then (0, es @ [e]) else (-1, es))"
| "table_spec (TDelete i) es = (if has_id i es then 0 else -1, drop_id i es)"
| "table_spec (TUpdate i s) es =
     (0, case addr_parse s of Ret (Some a) \<Rightarrow> set_addr i (Some a) es | _ \<Rightarrow> es)"

fun spec_run :: "table_op list \<Rightarrow> registry_entry_t list \<Rightarrow> int list \<times> registry_entry_t list" where
  "spec_run [] es = ([], es)"
| "spec_run (op # ops) es =
     (let (c, es') = table_spec op es; (cs, es'') = spec_run ops es' in (c # cs, es''))"

fun table_run :: "('s \<Rightarrow> table_op \<Rightarrow> (int \<times> 's) outcome) \<Rightarrow> table_op list \<Rightarrow> 's \<Rightarrow> (int list \<times> 's) outcome" where
  "table_run f [] s = Ret ([], s)"
| "table_run f (op # ops) s =
     bind_out (f s op) (\<lambda>(c, s'). map_out (\<lambda>(cs, s''). (c # cs, s'')) (table_run f ops s'))"

lemma table_spec_ok [inv_intros]:
  "list_all entry_ok es \<Longrightarrow> list_all entry_ok (snd (table_spec op es))"
  by (cases op) (auto intro: inv_intros split: outcome.splits option.splits)

lemma spec_run_ok [inv_intros]:
  "list_all entry_ok es \<Longrightarrow> list_all entry_ok (snd (spec_run ops es))"
proof (induction ops arbitrary: es)
  case (Cons op ops)
  have "list_all entry_ok (snd (table_spec op es))" using Cons.prems by (rule table_spec_ok)
  from Cons.IH [OF this] show ?case
    by (cases "table_spec op es"; cases "spec_run ops (snd (table_spec op es))") simp
qed simp

locale endpoint_table =
  fixes view :: "'s \<Rightarrow> registry_entry_t list"
    and apply_op :: "'s \<Rightarrow> table_op \<Rightarrow> (int \<times> 's) outcome"
    and listing :: "'s \<Rightarrow> registry_entry_t option list outcome"
  assumes apply_spec: "op_legal op \<Longrightarrow>
      \<exists>s'. apply_op s op = Ret (fst (table_spec op (view s)), s') \<and> view s' = snd (table_spec op (view s))"
    and listing_spec: "list_all entry_ok (view s) \<Longrightarrow> listing s = Ret (map Some (rev (view s)))"
begin

lemma run_refines:
  assumes "list_all op_legal ops"
  shows "\<exists>s'. table_run apply_op ops s = Ret (fst (spec_run ops (view s)), s')
              \<and> view s' = snd (spec_run ops (view s))"
  using assms
proof (induction ops arbitrary: s)
  case (Cons op ops)
  obtain s1 where s1: "apply_op s op = Ret (fst (table_spec op (view s)), s1)"
    "view s1 = snd (table_spec op (view s))"
    using apply_spec [of op s] Cons.prems by auto
  obtain s2 where "table_run apply_op ops s1 = Ret (fst (spec_run ops (view s1)), s2)"
    "view s2 = snd (spec_run ops (view s1))"
    using Cons.IH [of s1] Cons.prems by auto
  with s1 show ?case by (simp split: prod.splits)
qed simp

lemma run_listing:
  assumes "list_all op_legal ops" "list_all entry_ok (view s)"
  shows "\<exists>s'. table_run apply_op ops s = Ret (fst (spec_run ops (view s)), s')
              \<and> listing s' = Ret (map Some (rev (snd (spec_run ops (view s)))))"
  using run_refines [OF assms(1), of s] listing_spec spec_run_ok [OF assms(2), of ops] by metis

lemma insert_then_delete:
  assumes "entry_ok e" "\<not> has_id (e_id e) (view s)"
  shows "\<exists>s'. table_run apply_op [TInsert e, TDelete (e_id e)] s = Ret ([0, 0], s') \<and> view s' = view s"
  using run_refines [of "[TInsert e, TDelete (e_id e)]" s] assms by (simp add: drop_id_append)

end

fun registry_apply :: "registry_t \<Rightarrow> table_op \<Rightarrow> (int \<times> registry_t) outcome" where
  "registry_apply r (TInsert e) = Ret (registry_insert_entry r e)"
| "registry_apply r (TDelete i) = Ret (registry_delete r i)"
| "registry_apply r (TUpdate i s) = registry_update_addr r i s"

lemma registry_apply_spec:
  assumes "op_legal op"
  shows "registry_apply r op
    = Ret (fst (table_spec op (entries r)), r\<lparr>entries := snd (table_spec op (entries r))\<rparr>)"
  using assms
  by (cases op) (auto simp: registry_insert_entry_eq registry_delete_eq registry_update_addr_eq)

interpretation reg: endpoint_table entries registry_apply registry_select_all
proof unfold_locales
  show "\<exists>s'. registry_apply s op = Ret (fst (table_spec op (entries s)), s')
      \<and> entries s' = snd (table_spec op (entries s))" if "op_legal op" for op s
    using registry_apply_spec [OF that] by auto
  show "registry_select_all s = Ret (map Some (rev (entries s)))" if "list_all entry_ok (entries s)" for s
    using that by (intro registry_select_all_wf) (simp add: reg_wf_def)
qed


subsection \<open>Identifiers\<close>

text \<open>
  The shape of an identifier: 36 characters, a dash at four positions, hexadecimal digits elsewhere.
\<close>

definition dash_positions :: "nat list" where
  "dash_positions = [8, 13, 18, 23]"

definition uuid_shape :: "string \<Rightarrow> bool" where
  "uuid_shape s \<longleftrightarrow> length s = 36
     \<and> (\<forall>k < 36. if k \<in> set dash_positions then s ! k = CHR ''-'' else s ! k \<in> set hex_digits)"

lemma hex_run_eq:
  "hex_run n p = (if n \<le> length p \<and> list_all (\<lambda>c. c \<in> set hex_digits) (take n p) then Some (drop n p) else None)"
  by (induction n p rule: hex_run.induct) auto

lemma dash_drop: "k < length s \<Longrightarrow> dash (drop k s) = (if s ! k = CHR ''-'' then Some (drop (Suc k) s) else None)"
  by (simp flip: Cons_nth_drop_Suc)

lemma hex_run_drop:
  "m + n \<le> length s \<Longrightarrow>
   hex_run n (drop m s) = (if \<forall>k. m \<le> k \<and> k < m + n \<longrightarrow> s ! k \<in> set hex_digits then Some (drop (m + n) s) else None)"
proof -
  assume l: "m + n \<le> length s"
  have "list_all (\<lambda>c. c \<in> set hex_digits) (take n (drop m s))
        \<longleftrightarrow> (\<forall>k. m \<le> k \<and> k < m + n \<longrightarrow> s ! k \<in> set hex_digits)"
    using l by (simp add: list_all_length) (metis add_diff_cancel_left' le_add_diff_inverse
        less_diff_conv2 nat_add_left_cancel_less le_add1)
  moreover have "n \<le> length s - m" using l by simp
  ultimately show ?thesis by (simp add: hex_run_eq add.commute [of n m])
qed

text \<open>The same, group by group.\<close>

abbreviation hex_between :: "string \<Rightarrow> nat \<Rightarrow> nat \<Rightarrow> bool" where
  "hex_between s a b \<equiv> \<forall>k. a \<le> k \<and> k < b \<longrightarrow> s ! k \<in> set hex_digits"

lemma uuid_shape_groups:
  "uuid_shape s \<longleftrightarrow> length s = 36
     \<and> hex_between s 0 8 \<and> s ! 8 = CHR ''-'' \<and> hex_between s 9 13 \<and> s ! 13 = CHR ''-''
     \<and> hex_between s 14 18 \<and> s ! 18 = CHR ''-'' \<and> hex_between s 19 23 \<and> s ! 23 = CHR ''-''
     \<and> hex_between s 24 36" (is "_ \<longleftrightarrow> ?R")
proof
  assume u: "uuid_shape s"
  then have h: "k < 36 \<Longrightarrow> k \<notin> set dash_positions \<Longrightarrow> s ! k \<in> set hex_digits" for k
    by (auto simp: uuid_shape_def)
  have d: "k \<in> set dash_positions \<Longrightarrow> s ! k = CHR ''-''" for k
    using u by (auto simp: uuid_shape_def dash_positions_def)
  have hb: "hex_between s a b" if "b \<le> 36" "\<forall>k. a \<le> k \<and> k < b \<longrightarrow> k \<notin> set dash_positions" for a b
    using that h by simp
  have l: "length s = 36" using u by (simp add: uuid_shape_def)
  have "hex_between s 0 8" by (rule hb) (auto simp: dash_positions_def)
  moreover have "hex_between s 9 13" by (rule hb) (auto simp: dash_positions_def)
  moreover have "hex_between s 14 18" by (rule hb) (auto simp: dash_positions_def)
  moreover have "hex_between s 19 23" by (rule hb) (auto simp: dash_positions_def)
  moreover have "hex_between s 24 36" by (rule hb) (auto simp: dash_positions_def)
  moreover have "s ! 8 = CHR ''-''" "s ! 13 = CHR ''-''" "s ! 18 = CHR ''-''" "s ! 23 = CHR ''-''"
    by (rule d, simp add: dash_positions_def)+
  ultimately show ?R using l by (intro conjI)
next
  assume r: ?R
  have "k < 8 \<or> k = 8 \<or> (9 \<le> k \<and> k < 13) \<or> k = 13 \<or> (14 \<le> k \<and> k < 18) \<or> k = 18
      \<or> (19 \<le> k \<and> k < 23) \<or> k = 23 \<or> (24 \<le> k \<and> k < 36)" if "k < 36" for k :: nat
    using that by linarith
  note cases = this
  have "if k \<in> set dash_positions then s ! k = CHR ''-'' else s ! k \<in> set hex_digits" if "k < 36" for k
    using cases [OF that] r by (elim disjE) (simp_all add: dash_positions_def)
  with r show "uuid_shape s" by (simp add: uuid_shape_def)
qed

lemma registry_valid_id_shape: "registry_valid_id (Some s) = uuid_shape s"
proof (cases "length s = 36")
  case True
  then show ?thesis
    using hex_run_drop [of 0 8 s]
    by (simp add: registry_valid_id_def uuid_shape_groups numeral_3_eq_3 hex_run_drop dash_drop)
next
  case False
  then show ?thesis by (simp add: registry_valid_id_def uuid_shape_def)
qed


section \<open>Properties\<close>

text \<open>An entry that travels, for the examples.\<close>

definition example_entry :: registry_entry_t where
  "example_entry = \<lparr>e_id = ''1b4e28ba-2fa1-11d2-883f-0016d3cca427'', e_name = ''camera'',
     e_topic = ''camera'', e_type = 5, e_addr = Some \<lparr>sin_family = AF_INET, sin_port = 5, sin_addr = 7\<rparr>,
     e_endpoint = None\<rparr>"

lemma entry_valid_example: "entry_valid example_entry"
  by (simp add: entry_valid_def example_entry_def registry_valid_id_def registry_valid_name_def
      registry_valid_topic_def hex_digits_def letters_def name_chars_def topic_chars_def
      numeral_eq_Suc)



text \<open>On a table whose entries have an address, a selection is defined and returns exactly the
  entries that match every given criterion, the last one first, and the count is their number.\<close>

theorem registry_select_exact:
  assumes "reg_wf r"
  shows "registry_select r ident name topic type addr endpoint
           = Ret (map Some (rev (filter (wanted ident name topic type addr endpoint) (entries r))))
       \<and> registry_count r ident name topic type addr endpoint
           = Ret (length (filter (wanted ident name topic type addr endpoint) (entries r)))"
  using registry_select_wanted [OF assms] registry_count_wanted [OF assms] by simp

theorem registry_select_exact_witness:
  "registry_select \<lparr>entries = [example_entry, example_entry\<lparr>e_topic := ''other''\<rparr>]\<rparr>
     None None (Some ''camera'') TYPE_ANY None None = Ret [Some example_entry]"
proof -
  have "reg_wf \<lparr>entries = [example_entry, example_entry\<lparr>e_topic := ''other''\<rparr>]\<rparr>"
    by (simp add: reg_wf_def entry_ok_def example_entry_def)
  from registry_select_exact [OF this, of None None "Some ''camera''" TYPE_ANY None None]
  show ?thesis by (simp add: wanted_def) (simp add: example_entry_def)
qed

text \<open>A list of valid entries encoded for the registry protocol and parsed by the receiver is the
  list in reverse order, with every field intact, for any JSON library that keeps its laws.\<close>

theorem registry_list_roundtrip:
  assumes "json_laws J" "list_all entry_valid es"
  shows "bind_out (registry_entry_encode_list J (map Some es)) (registry_entry_parse_list J) = Ret (rev es)"
  using assms by (simp add: encode_list_Some registry_entry_parse_list_def json_array_of_elems
      parse_list_loop_encode)

theorem registry_list_roundtrip_witness:
  "bind_out (registry_entry_encode_list example_json [Some example_entry]) (registry_entry_parse_list example_json)
   = Ret [example_entry]"
  using registry_list_roundtrip [OF json_laws_example, of "[example_entry]"]
  by (simp add: entry_valid_example)

text \<open>The loops that check an identifier accept exactly the strings of the shape of a UUID: 36
  characters, dashes at positions 8, 13, 18 and 23, lower-case hexadecimal digits elsewhere.\<close>

theorem registry_valid_id_uuid: "registry_valid_id ident \<longleftrightarrow> (\<exists>s. ident = Some s \<and> uuid_shape s)"
  by (cases ident) (simp_all add: registry_valid_id_shape, simp add: registry_valid_id_def)

end
