(* ===== verification/Rcregistry.thy ===== *)
theory Rcregistry
  imports Registry
begin

text \<open>
  The registry server, librcom/src/rcregistry.c.  A request is a JSON value; a handler returns the
  changed server and what it sends, in order: replies on the link of the request, and broadcasts to
  all links but the excluded one.  Text messages are the exact strings printed.  Sending does not
  change the server and its result is only logged.
\<close>

section \<open>Model\<close>

datatype 'j sending = Reply string | ReplyObj 'j | Broadcast "ptr option" string

record rcregistry_t =
  rc_registry :: registry_t
  rc_hub :: "ptr option"

text \<open>
  The identifier r_uuid makes, and the hub and its address when new_messagehub succeeds, are
  arguments.
\<close>

definition new_rcregistry :: "string \<Rightarrow> (ptr \<times> addr_t) option \<Rightarrow> rcregistry_t option" where
  "new_rcregistry uuid new_hub =
     (let registry = new_registry
      in case new_hub of
           None \<Rightarrow> None
         | Some (hub, addr) \<Rightarrow>
             let (err, registry) = registry_insert registry uuid (Some uuid) (Some ''registry'')
                                     (Some ''registry'') TYPE_MESSAGEHUB (Some addr) (Some hub)
             in if err \<noteq> 0 then None
                else Some \<lparr>rc_registry = registry, rc_hub = Some hub\<rparr>)"

definition rcregistry_fail :: "string \<Rightarrow> string \<Rightarrow> 'j sending list" where
  "rcregistry_fail req message =
     [Reply (''{\"response\":\"'' @ req @ ''\", \"success\":false, \"message\":\"'' @ message @ ''\"}'')]"

definition rcregistry_success :: "string \<Rightarrow> 'j sending list" where
  "rcregistry_success req = [Reply (''{\"response\":\"'' @ req @ ''\", \"success\":true}'')]"

definition proxy_add_text :: "registry_entry_t \<Rightarrow> string" where
  "proxy_add_text entry =
     ''{\"event\": \"proxy-add\",\"entry\": {\"id\": \"'' @ e_id entry
     @ ''\",\"name\": \"'' @ e_name entry @ ''\",\"topic\": \"'' @ e_topic entry
     @ ''\",\"type\": \"'' @ registry_type_to_str (e_type entry)
     @ ''\",\"addr\": \"'' @ addr_string (e_addr entry) 64 @ ''\"}}''"

definition proxy_remove_text :: "string \<Rightarrow> string" where
  "proxy_remove_text ident = ''{\"event\": \"proxy-remove\", \"id\": \"'' @ ident @ ''\"}''"

definition proxy_update_text :: "string \<Rightarrow> string \<Rightarrow> string" where
  "proxy_update_text ident addr =
     ''{\"event\": \"proxy-update-address\",\"id\": \"'' @ ident @ ''\", \"addr\": \"'' @ addr @ ''\"}''"

text \<open>The message for each error code of the parser.\<close>

definition register_error :: "int \<Rightarrow> string" where
  "register_error err =
     (if err = -1 then ''Invalid name'' else if err = -2 then ''Invalid topic''
      else if err = -3 then ''Invalid type'' else if err = -4 then ''Invalid address''
      else if err = -5 then ''Invalid ID'' else ''Unknown error'')"

definition rcregistry_register ::
  "'j json_api \<Rightarrow> rcregistry_t \<Rightarrow> 'j \<Rightarrow> ('j sending list \<times> rcregistry_t) outcome" where
  "rcregistry_register J rc message =
     (let obj = j_get J message ''entry''
      in if j_isnull J obj then Ret (rcregistry_fail ''register'' ''Invalid entry value'', rc)
         else bind_out (registry_entry_parse J obj) (\<lambda>(entry, err).
           if err \<noteq> 0 then Ret (rcregistry_fail ''register'' (register_error err), rc)
           else bind_out (deref entry) (\<lambda>e.
             let (err, registry) = registry_insert (rc_registry rc) [] (Some (e_id e)) (Some (e_name e))
                                     (Some (e_topic e)) (e_type e) (e_addr e) None;
                 rc = rc\<lparr>rc_registry := registry\<rparr>
             in if err \<noteq> 0 then Ret (rcregistry_fail ''register'' ''Internal error'', rc)
                else Ret (rcregistry_success ''register'' @ [Broadcast None (proxy_add_text e)], rc))))"

definition rcregistry_unregister ::
  "'j json_api \<Rightarrow> rcregistry_t \<Rightarrow> 'j \<Rightarrow> ('j sending list \<times> rcregistry_t) outcome" where
  "rcregistry_unregister J rc message =
     (case j_getstr J message ''id'' of
        None \<Rightarrow> Ret ([], rc)
      | Some ident \<Rightarrow>
          let (err, registry) = registry_delete (rc_registry rc) ident; rc = rc\<lparr>rc_registry := registry\<rparr>
          in if err \<noteq> 0 then Ret (rcregistry_fail ''unregister'' ''Internal error'', rc)
             else Ret (rcregistry_success ''unregister'' @ [Broadcast None (proxy_remove_text ident)], rc))"

definition list_response :: "'j json_api \<Rightarrow> 'j \<Rightarrow> 'j" where
  "list_response J lst =
     (let response = j_object_create J;
          response = j_setstr J response ''response'' ''list'';
          response = j_set J response ''success'' (j_true J);
          response = j_setstr J response ''message'' ''OK'';
          response = j_set J response ''list'' lst
      in response)"

definition rcregistry_send_list ::
  "'j json_api \<Rightarrow> rcregistry_t \<Rightarrow> ('j sending list \<times> rcregistry_t) outcome" where
  "rcregistry_send_list J rc =
     bind_out (registry_select_all (rc_registry rc)) (\<lambda>entries.
     bind_out (registry_entry_encode_list J entries) (\<lambda>lst.
     Ret ([ReplyObj (list_response J lst)], rc)))"

definition rcregistry_update_address ::
  "'j json_api \<Rightarrow> rcregistry_t \<Rightarrow> ptr \<Rightarrow> 'j \<Rightarrow> ('j sending list \<times> rcregistry_t) outcome" where
  "rcregistry_update_address J rc link message =
     (case j_getstr J message ''id'' of
        None \<Rightarrow> Ret ([], rc)
      | Some ident \<Rightarrow>
          (case j_getstr J message ''addr'' of
             None \<Rightarrow> Ret ([], rc)
           | Some addr \<Rightarrow>
               bind_out (registry_update_addr (rc_registry rc) ident addr) (\<lambda>(err, registry).
                 let rc = rc\<lparr>rc_registry := registry\<rparr>
                 in if err \<noteq> 0 then Ret (rcregistry_fail ''update-address'' ''Internal error'', rc)
                    else Ret (rcregistry_success ''update-address''
                              @ [Broadcast (Some link) (proxy_update_text ident addr)], rc))))"

definition rcregistry_onmessage ::
  "'j json_api \<Rightarrow> rcregistry_t \<Rightarrow> ptr \<Rightarrow> 'j \<Rightarrow> ('j sending list \<times> rcregistry_t) outcome" where
  "rcregistry_onmessage J rc link message =
     (if j_isnull J message then Ret (rcregistry_fail ''?'' ''Failed to parse the request'', rc)
      else case j_getstr J message ''request'' of
             None \<Rightarrow> Ret (rcregistry_fail ''?'' ''Invalid request'', rc)
           | Some request \<Rightarrow>
               if request = ''register'' then rcregistry_register J rc message
               else if request = ''unregister'' then rcregistry_unregister J rc message
               else if request = ''list'' then rcregistry_send_list J rc
               else if request = ''update-address'' then rcregistry_update_address J rc link message
               else Ret (rcregistry_fail request ''Unknown request'', rc))"


section \<open>Lemmas\<close>

text \<open>
  The change of the table a request asks for, and the requests the server survives: the address of a
  registration fits the parser's buffer, the address of an update parses.
\<close>

definition request_ops :: "'j json_api \<Rightarrow> 'j \<Rightarrow> table_op list" where
  "request_ops J m =
     (if j_isnull J m then []
      else if j_getstr J m ''request'' = Some ''register'' then
        (if j_isnull J (j_get J m ''entry'') then []
         else case registry_entry_parse J (j_get J m ''entry'') of
                Ret (Some e, err) \<Rightarrow> [TInsert e] | _ \<Rightarrow> [])
      else if j_getstr J m ''request'' = Some ''unregister'' then
        (case j_getstr J m ''id'' of Some i \<Rightarrow> [TDelete i] | None \<Rightarrow> [])
      else if j_getstr J m ''request'' = Some ''update-address'' then
        (case (j_getstr J m ''id'', j_getstr J m ''addr'') of
           (Some i, Some a) \<Rightarrow> [TUpdate i a] | _ \<Rightarrow> [])
      else [])"

definition request_safe :: "'j json_api \<Rightarrow> 'j \<Rightarrow> bool" where
  "request_safe J m \<longleftrightarrow>
     (j_getstr J m ''request'' = Some ''register'' \<longrightarrow>
        defined (registry_entry_parse J (j_get J m ''entry'')))
   \<and> (j_getstr J m ''request'' = Some ''update-address'' \<longrightarrow>
        (\<forall>a. j_getstr J m ''addr'' = Some a \<longrightarrow> (\<exists>x. addr_parse a = Ret (Some x))))"

abbreviation rc_view :: "rcregistry_t \<Rightarrow> registry_entry_t list" where
  "rc_view rc \<equiv> entries (rc_registry rc)"

lemma request_ops_legal: "request_safe J m \<Longrightarrow> list_all op_legal (request_ops J m)"
  by (auto simp: request_ops_def request_safe_def split: outcome.splits option.splits)

lemma entry_parse_None_err: "registry_entry_parse J obj = Ret (None, err) \<Longrightarrow> err \<noteq> 0"
  by (auto simp: registry_entry_parse_def Let_def outcome_simps split: if_splits option.splits)

lemma register_valid_entry:
  assumes "registry_entry_parse J (j_get J m ''entry'') = Ret (Some e, err)"
    "\<not> j_isnull J (j_get J m ''entry'')"
  shows "rcregistry_register J rc m
    = Ret (rcregistry_success ''register'' @ [Broadcast None (proxy_add_text e)],
           rc\<lparr>rc_registry := (rc_registry rc)\<lparr>entries := rc_view rc @ [e]\<rparr>\<rparr>)"
proof -
  have e: "err = 0" "entry_valid e" using entry_parse_valid [OF assms(1)] by auto
  then have "new_registry_entry [] (Some (e_id e)) (Some (e_name e)) (Some (e_topic e)) (e_type e)
      (e_addr e) None = Some e"
    by (cases e) (auto simp: entry_valid_def)
  with assms e show ?thesis
    by (simp add: rcregistry_register_def Let_def registry_insert_eq)
qed

lemma register_invalid_entry:
  assumes "registry_entry_parse J (j_get J m ''entry'') = Ret (None, err)"
    "\<not> j_isnull J (j_get J m ''entry'')"
  shows "rcregistry_register J rc m = Ret (rcregistry_fail ''register'' (register_error err), rc)"
  using assms entry_parse_None_err [OF assms(1)] by (simp add: rcregistry_register_def)

lemma registry_same [simp]: "rc\<lparr>rc_registry := (rc_registry rc)\<lparr>entries := rc_view rc\<rparr>\<rparr> = rc"
  by (cases rc; cases "rc_registry rc") simp

text \<open>
  What a request does to the server, given its operations on the table: the table follows them, and
  a change is confirmed and announced.
\<close>

definition serves ::
  "('j sending list \<times> rcregistry_t) outcome \<Rightarrow> rcregistry_t \<Rightarrow> table_op list \<Rightarrow> bool" where
  "serves result rc ops \<longleftrightarrow>
     (\<exists>outs rc'. result = Ret (outs, rc') \<and> rc_view rc' = snd (spec_run ops (rc_view rc))
        \<and> rc_hub rc' = rc_hub rc
        \<and> (rc' \<noteq> rc \<longrightarrow> (\<exists>req ex text. outs = rcregistry_success req @ [Broadcast ex text])))"

lemma serves_same [simp]: "serves (Ret (outs, rc)) rc []"
  by (simp add: serves_def)

lemma servesI:
  "result = Ret (rcregistry_success req @ [Broadcast ex text],
      rc\<lparr>rc_registry := (rc_registry rc)\<lparr>entries := es\<rparr>\<rparr>)
   \<Longrightarrow> es = snd (spec_run ops (rc_view rc)) \<Longrightarrow> serves result rc ops"
  unfolding serves_def by fastforce

lemma register_serves:
  assumes "defined (registry_entry_parse J (j_get J m ''entry''))"
    "\<not> j_isnull J (j_get J m ''entry'')"
  shows "serves (rcregistry_register J rc m) rc
     (case registry_entry_parse J (j_get J m ''entry'') of Ret (Some e, err) \<Rightarrow> [TInsert e] | _ \<Rightarrow> [])"
proof -
  obtain eo err where p: "registry_entry_parse J (j_get J m ''entry'') = Ret (eo, err)"
    using assms(1) by (auto simp: defined_iff)
  show ?thesis
  proof (cases eo)
    case None
    with p have "registry_entry_parse J (j_get J m ''entry'') = Ret (None, err)" by simp
    from register_invalid_entry [OF this assms(2)] this show ?thesis by simp
  next
    case (Some e)
    with p have q: "registry_entry_parse J (j_get J m ''entry'') = Ret (Some e, err)" by simp
    have "entry_ok e" by (rule entry_valid_ok [OF entry_parse_valid [OF q, THEN conjunct2]])
    then have "rc_view rc @ [e] = snd (spec_run [TInsert e] (rc_view rc))" by simp
    from servesI [OF register_valid_entry [OF q assms(2)] this] show ?thesis
      unfolding q by simp
  qed
qed

lemma unregister_serves:
  "serves (rcregistry_unregister J rc m) rc
     (case j_getstr J m ''id'' of Some i \<Rightarrow> [TDelete i] | None \<Rightarrow> [])"
proof (cases "j_getstr J m ''id''")
  case None
  then show ?thesis by (simp add: rcregistry_unregister_def)
next
  case (Some i)
  show ?thesis
  proof (cases "has_id i (rc_view rc)")
    case True
    with Some show ?thesis
      by (simp add: rcregistry_unregister_def registry_delete_eq)
         (rule servesI [OF refl], simp)
  next
    case False
    with Some show ?thesis
      by (simp add: rcregistry_unregister_def registry_delete_eq drop_id_absent serves_def)
  qed
qed

lemma update_serves:
  assumes "\<forall>a. j_getstr J m ''addr'' = Some a \<longrightarrow> (\<exists>x. addr_parse a = Ret (Some x))"
  shows "serves (rcregistry_update_address J rc link m) rc
     (case (j_getstr J m ''id'', j_getstr J m ''addr'') of
           (Some i, Some a) \<Rightarrow> [TUpdate i a] | _ \<Rightarrow> [])"
proof (cases "j_getstr J m ''id'' = None \<or> j_getstr J m ''addr'' = None")
  case True
  then show ?thesis by (auto simp: rcregistry_update_address_def split: option.split)
next
  case False
  then obtain i a where ia: "j_getstr J m ''id'' = Some i" "j_getstr J m ''addr'' = Some a" by auto
  with assms obtain x where "addr_parse a = Ret (Some x)" by auto
  with ia show ?thesis
    by (simp add: rcregistry_update_address_def registry_update_addr_eq)
       (rule servesI [OF refl], simp)
qed

lemma list_keeps: "rcregistry_send_list J rc = Ret (outs, rc') \<Longrightarrow> rc' = rc"
  by (auto simp: rcregistry_send_list_def outcome_simps)

lemma list_wf:
  assumes "reg_wf (rc_registry rc)"
  shows "rcregistry_send_list J rc
    = Ret ([ReplyObj (list_response J (json_array_of J (map (registry_entry_encode J) (rev (rc_view rc)))))], rc)"
  by (simp add: rcregistry_send_list_def registry_select_all_wf [OF assms] encode_list_Some)

lemma onmessage_serves:
  assumes "request_safe J m" "reg_wf (rc_registry rc)"
  shows "serves (rcregistry_onmessage J rc link m) rc (request_ops J m)"
proof (cases "j_isnull J m")
  case True
  then show ?thesis by (simp add: rcregistry_onmessage_def request_ops_def)
next
  case False
  show ?thesis
  proof (cases "j_getstr J m ''request''")
    case None
    with False show ?thesis by (simp add: rcregistry_onmessage_def request_ops_def)
  next
    case (Some r)
    consider "r = ''register''" | "r = ''unregister''" | "r = ''list''" | "r = ''update-address''"
      | "r \<notin> {''register'', ''unregister'', ''list'', ''update-address''}" by blast
    then show ?thesis
    proof cases
      case 1
      with False Some assms show ?thesis
        by (simp add: rcregistry_onmessage_def request_ops_def request_safe_def register_serves)
           (simp add: rcregistry_register_def)
    next
      case 2
      with False Some show ?thesis
        using unregister_serves by (simp add: rcregistry_onmessage_def request_ops_def)
    next
      case 3
      with False Some show ?thesis
        by (simp add: rcregistry_onmessage_def request_ops_def list_wf [OF assms(2)])
    next
      case 4
      with False Some assms show ?thesis
        using update_serves by (simp add: rcregistry_onmessage_def request_ops_def request_safe_def)
    next
      case 5
      with False Some show ?thesis by (simp add: rcregistry_onmessage_def request_ops_def)
    qed
  qed
qed


subsection \<open>Sequences of requests\<close>

fun rcregistry_run ::
  "'j json_api \<Rightarrow> rcregistry_t \<Rightarrow> (ptr \<times> 'j) list \<Rightarrow> ('j sending list list \<times> rcregistry_t) outcome" where
  "rcregistry_run J rc [] = Ret ([], rc)"
| "rcregistry_run J rc ((link, m) # ms) =
     bind_out (rcregistry_onmessage J rc link m) (\<lambda>(outs, rc').
       map_out (\<lambda>(os, rc''). (outs # os, rc'')) (rcregistry_run J rc' ms))"

definition ops_of :: "'j json_api \<Rightarrow> (ptr \<times> 'j) list \<Rightarrow> table_op list" where
  "ops_of J ms = concat (map (request_ops J \<circ> snd) ms)"

lemma spec_run_append:
  "snd (spec_run (ops @ ops') es) = snd (spec_run ops' (snd (spec_run ops es)))"
  by (induction ops arbitrary: es) (simp_all split: prod.splits, metis snd_conv)

lemma run_table:
  assumes "list_all (\<lambda>(link, m). request_safe J m) ms" "reg_wf (rc_registry rc)"
  shows "\<exists>outs rc'. rcregistry_run J rc ms = Ret (outs, rc') \<and> length outs = length ms
     \<and> rc_view rc' = snd (spec_run (ops_of J ms) (rc_view rc)) \<and> reg_wf (rc_registry rc')"
  using assms
proof (induction ms arbitrary: rc)
  case Nil
  then show ?case by (simp add: ops_of_def)
next
  case (Cons lm ms)
  obtain link m where lm: "lm = (link, m)" by (cases lm)
  obtain outs rc1 where s: "rcregistry_onmessage J rc link m = Ret (outs, rc1)"
    "rc_view rc1 = snd (spec_run (request_ops J m) (rc_view rc))"
    using onmessage_serves [of J m rc link] Cons.prems lm by (auto simp: serves_def)
  then have "reg_wf (rc_registry rc1)"
    using Cons.prems(2) by (auto simp: reg_wf_def intro: inv_intros)
  from Cons.IH [OF _ this] Cons.prems(1) s lm show ?case
    by (auto simp: ops_of_def spec_run_append)
qed

text \<open>What others see of an entry: everything but the pointer to a local end-point.\<close>

definition entry_public :: "registry_entry_t \<Rightarrow> registry_entry_t" where
  "entry_public e = e\<lparr>e_endpoint := None\<rparr>"

definition all_public :: "registry_entry_t list \<Rightarrow> bool" where
  "all_public es \<longleftrightarrow> list_all (entry_valid \<circ> entry_public) es"

lemma encode_public: "registry_entry_encode J (entry_public e) = registry_entry_encode J e"
  by (simp add: registry_entry_encode_def entry_public_def)

lemma entry_valid_public: "entry_valid e \<Longrightarrow> entry_valid (entry_public e)"
  by (simp add: entry_valid_def entry_public_def)

lemma all_public_wf: "all_public es \<Longrightarrow> list_all entry_ok es"
  by (auto simp: all_public_def list_all_iff entry_valid_def entry_public_def entry_ok_def)

lemma drop_id_public: "all_public es \<Longrightarrow> all_public (drop_id i es)"
  by (induction es) (auto simp: all_public_def)

lemma set_addr_public:
  "all_public es \<Longrightarrow> sin_family a = AF_INET \<Longrightarrow> all_public (set_addr i (Some a) es)"
  by (induction es) (auto simp: all_public_def entry_valid_def entry_public_def)

lemma request_ops_public: "all_public es \<Longrightarrow> all_public (snd (spec_run (request_ops J m) es))"
  by (auto simp: request_ops_def all_public_def entry_valid_public
      split: outcome.splits option.splits dest!: entry_parse_valid addr_parse_family
      intro: drop_id_public [unfolded all_public_def] set_addr_public [unfolded all_public_def])

lemma ops_of_public: "all_public es \<Longrightarrow> all_public (snd (spec_run (ops_of J ms) es))"
proof (induction ms arbitrary: es)
  case (Cons m ms)
  from Cons.IH [OF request_ops_public [OF Cons.prems]] show ?case
    by (simp add: ops_of_def spec_run_append)
qed (simp add: ops_of_def)

lemma list_response_get:
  assumes "json_laws J"
  shows "j_get J (list_response J lst) ''list'' = lst"
  by (simp add: list_response_def json_get_set [OF assms])

lemma list_parses_back:
  assumes J: "json_laws J" and p: "all_public es"
  shows "registry_entry_parse_list J (json_array_of J (map (registry_entry_encode J) (rev es)))
         = Ret (map entry_public es)"
proof -
  have eq: "map (registry_entry_encode J) (rev es) = map (registry_entry_encode J) (rev (map entry_public es))"
    by (simp add: rev_map encode_public)
  have "list_all entry_valid (rev (map entry_public es))"
    using p by (auto simp: all_public_def list_all_iff)
  from parse_list_loop_encode [OF J this, of "[]"] show ?thesis
    unfolding eq by (simp add: registry_entry_parse_list_def json_array_of_elems [OF J])
qed

text \<open>The server starts with one entry, its own hub.\<close>

lemma new_rcregistry_eq:
  "new_rcregistry uuid (Some (hub, addr))
   = Some \<lparr>rc_registry = \<lparr>entries = [\<lparr>e_id = uuid, e_name = ''registry'', e_topic = ''registry'',
        e_type = TYPE_MESSAGEHUB, e_addr = Some addr, e_endpoint = Some hub\<rparr>]\<rparr>, rc_hub = Some hub\<rparr>"
  by (simp add: new_rcregistry_def registry_insert_eq new_registry_def)

lemma new_rcregistry_public:
  assumes "new_rcregistry uuid (Some (hub, addr)) = Some rc" "uuid_shape uuid" "sin_family addr = AF_INET"
  shows "all_public (rc_view rc)"
proof -
  have "registry_valid_name (Some ''registry'')" "registry_valid_topic (Some ''registry'')"
    by (simp_all add: registry_valid_name_def registry_valid_topic_def letters_def name_chars_def
        topic_chars_def)
  with assms show ?thesis
    by (auto simp: new_rcregistry_eq all_public_def entry_valid_def entry_public_def
        registry_valid_id_shape)
qed


section \<open>Properties\<close>


definition example_request :: "string \<Rightarrow> (string \<times> json) list \<Rightarrow> json" where
  "example_request req fs = JObject ((''request'', JString req) # fs)"

abbreviation example_register :: json where
  "example_register \<equiv>
     example_request ''register'' [(''entry'', registry_entry_encode example_json example_entry)]"

abbreviation example_server :: rcregistry_t where
  "example_server \<equiv> \<lparr>rc_registry = \<lparr>entries = [example_entry\<lparr>e_name := ''registry'',
     e_topic := ''registry'', e_type := 3, e_endpoint := Some 3\<rparr>]\<rparr>, rc_hub = Some 3\<rparr>"

lemma example_server_new:
  "new_rcregistry (e_id example_entry) (Some (3, \<lparr>sin_family = AF_INET, sin_port = 5, sin_addr = 7\<rparr>))
     = Some example_server"
  "uuid_shape (e_id example_entry)"
proof -
  show "new_rcregistry (e_id example_entry) (Some (3, \<lparr>sin_family = AF_INET, sin_port = 5, sin_addr = 7\<rparr>))
     = Some example_server"
    by (simp add: new_rcregistry_eq example_entry_def)
  show "uuid_shape (e_id example_entry)"
    using entry_valid_example unfolding entry_valid_def registry_valid_id_shape by simp
qed

lemma example_entry_parses:
  "registry_entry_parse example_json (registry_entry_encode example_json example_entry) = Ret (Some example_entry, 0)"
  "registry_entry_encode example_json example_entry \<noteq> JNull"
proof -
  show e: "registry_entry_parse example_json (registry_entry_encode example_json example_entry)
      = Ret (Some example_entry, 0)"
    by (rule entry_parse_encode [OF json_laws_example entry_valid_example])
  show "registry_entry_encode example_json example_entry \<noteq> JNull"
    using e by (auto simp: registry_entry_parse_def example_json_def registry_valid_id_def)
qed

lemma example_register_fields:
  "j_get example_json example_register ''entry'' = registry_entry_encode example_json example_entry"
  "j_getstr example_json example_register ''request'' = Some ''register''"
  "\<not> j_isnull example_json example_register" "j_isnull example_json x \<longleftrightarrow> x = JNull"
  by (simp_all add: example_request_def example_json_def)

lemma example_register_ops:
  "request_safe example_json example_register" "request_ops example_json example_register = [TInsert example_entry]"
  using example_register_fields(3)
  by (simp_all add: request_safe_def request_ops_def example_register_fields(1,2)
      example_register_fields(4) [of "registry_entry_encode _ _"] example_entry_parses)




text \<open>C24. One request poisons the server: an update of a registered id with a text that is no address
  is answered with a failure, and the next request for the list, by any client, dereferences a NULL
  pointer.\<close>

theorem rcregistry_update_poisons_list:
  assumes "j_getstr J m ''id'' = Some ident" "j_getstr J m ''addr'' = Some s"
    "has_id ident (rc_view rc)" "addr_parse s = Ret None"
  shows "\<exists>rc'. rcregistry_update_address J rc link m
             = Ret (rcregistry_fail ''update-address'' ''Internal error'', rc')
           \<and> rcregistry_send_list J rc' = Undef"
proof -
  let ?es = "set_addr ident None (rc_view rc)"
  obtain e where "e \<in> set ?es" "clone_entry e = None"
    using set_addr_poisoned [OF assms(3)] clone_entry_poisoned by blast
  then have "None \<in> set (rev (map clone_entry ?es))" by force
  then have "registry_entry_encode_list J (rev (map clone_entry ?es)) = Undef" by (rule encode_list_None)
  with assms show ?thesis
    by (simp add: rcregistry_update_address_def registry_update_addr_eq rcregistry_send_list_def
        registry_select_all_clones)
qed

theorem rcregistry_update_poisons_list_witness:
  "\<exists>rc'. rcregistry_update_address example_json
       \<lparr>rc_registry = \<lparr>entries = [example_entry]\<rparr>, rc_hub = Some 3\<rparr> 7
       (example_request ''update-address''
          [(''id'', JString (e_id example_entry)), (''addr'', JString ''nowhere'')])
       = Ret (rcregistry_fail ''update-address'' ''Internal error'', rc')
     \<and> rcregistry_send_list example_json rc' = Undef"
  by (rule rcregistry_update_poisons_list [where ident = "e_id example_entry" and s = "''nowhere''"])
     (simp_all add: example_request_def example_json_def addr_parse_def strchr_def)

text \<open>An update of an id that is not registered changes nothing, yet it is confirmed and
  announced: the id and the address of the request, whatever their characters, go to every other
  client.\<close>

theorem rcregistry_update_unknown:
  assumes "j_getstr J m ''id'' = Some ident" "j_getstr J m ''addr'' = Some s"
    "\<not> has_id ident (rc_view rc)" "addr_parse s = Ret a"
  shows "rcregistry_update_address J rc link m
     = Ret (rcregistry_success ''update-address'' @ [Broadcast (Some link) (proxy_update_text ident s)], rc)"
  using assms by (simp add: rcregistry_update_address_def registry_update_addr_eq set_addr_absent)

theorem rcregistry_update_unknown_witness:
  "rcregistry_update_address example_json \<lparr>rc_registry = \<lparr>entries = []\<rparr>, rc_hub = Some 3\<rparr> 7
       (example_request ''update-address'' [(''id'', JString ''x''), (''addr'', JString ''nowhere'')])
   = Ret (rcregistry_success ''update-address''
          @ [Broadcast (Some 7) (proxy_update_text ''x'' ''nowhere'')],
          \<lparr>rc_registry = \<lparr>entries = []\<rparr>, rc_hub = Some 3\<rparr>)"
  by (rule rcregistry_update_unknown [where a = None])
     (simp_all add: example_request_def example_json_def addr_parse_def strchr_def)

end
