(* ===== verification/Proxy.thy ===== *)
theory Proxy
  imports Rcregistry
begin

text \<open>
  The proxy, librcom/src/proxy.c: the copy of the registry every node keeps, the messages that keep it up
  to date, and the connections it makes between the end-points of its own node and the others.

  An end-point is a pointer.  What the proxy does to end-points and sends to the registry is a list of
  actions in the order of the calls; what the other components answer is the record \<open>proxy_env\<close>.
\<close>

section \<open>Model\<close>

datatype proxy_status = PROXY_INITIALIZING | PROXY_READY | PROXY_ERROR

datatype proxy_action =
  DatalinkSetRemote ptr "addr_t option" | DatahubAddLink ptr "addr_t option"
  | DatahubRemoveLink ptr "addr_t option" | MessagelinkConnect ptr "addr_t option"
  | MessagelinkDisconnect ptr | StreamerlinkSetRemote ptr "addr_t option"
  | SendRegistry string | DeleteEndpoint ptr | AppSetQuit

record proxy_t =
  px_registry :: registry_t
  px_status :: proxy_status
  px_actions :: "proxy_action list"

text \<open>Whether the application runs alone, the results of sending to the registry and of connecting a
  message link, and the address of a message link once connected.\<close>

record proxy_env =
  pe_standalone :: bool
  pe_send :: "string \<Rightarrow> int"
  pe_connect :: "ptr \<Rightarrow> addr_t option \<Rightarrow> int"
  pe_link_addr :: "ptr \<Rightarrow> addr_t option"

definition act :: "proxy_action \<Rightarrow> proxy_t \<Rightarrow> proxy_t" where
  "act a px = px\<lparr>px_actions := px_actions px @ [a]\<rparr>"

definition proxy_is_local :: "registry_entry_t \<Rightarrow> bool" where
  "proxy_is_local e \<longleftrightarrow> e_endpoint e \<noteq> None"

subsection \<open>Requests\<close>

definition send_to_registry :: "proxy_env \<Rightarrow> string \<Rightarrow> proxy_t \<Rightarrow> int \<times> proxy_t" where
  "send_to_registry env text px =
     (if pe_standalone env then (0, px) else (pe_send env text, act (SendRegistry text) px))"

definition register_text :: "registry_entry_t \<Rightarrow> string" where
  "register_text e =
     ''{\"request\": \"register\",\"entry\": {\"id\": \"'' @ e_id e @ ''\", \"name\": \"'' @ e_name e
     @ ''\", \"topic\": \"'' @ e_topic e @ ''\", \"type\": \"'' @ registry_type_to_str (e_type e)
     @ ''\", \"addr\": \"'' @ addr_string (e_addr e) 64 @ ''\"}}''"

definition proxy_send_register_request :: "proxy_env \<Rightarrow> registry_entry_t \<Rightarrow> proxy_t \<Rightarrow> int \<times> proxy_t" where
  "proxy_send_register_request env e px = send_to_registry env (register_text e) px"

definition proxy_send_unregister_request :: "proxy_env \<Rightarrow> registry_entry_t \<Rightarrow> proxy_t \<Rightarrow> int \<times> proxy_t" where
  "proxy_send_unregister_request env e px =
     send_to_registry env (''{\"request\": \"unregister\", \"id\": \"'' @ e_id e @ ''\"}'') px"

definition proxy_send_update_address_request ::
  "proxy_env \<Rightarrow> string \<Rightarrow> string \<Rightarrow> proxy_t \<Rightarrow> int \<times> proxy_t" where
  "proxy_send_update_address_request env ident addr px =
     send_to_registry env
       (''{\"request\": \"update-address\", \"id\": \"'' @ ident @ ''\", \"addr\": \"'' @ addr @ ''\"}'') px"

definition proxy_send_list_request :: "proxy_env \<Rightarrow> proxy_t \<Rightarrow> int \<times> proxy_t" where
  "proxy_send_list_request env px = send_to_registry env ''{\"request\": \"list\"}'' px"

subsection \<open>Connections\<close>

text \<open>The loops over a list of cloned entries that act on the local ones.\<close>

fun each_local ::
  "(registry_entry_t \<Rightarrow> ptr \<Rightarrow> proxy_t \<Rightarrow> proxy_t outcome) \<Rightarrow> registry_entry_t option list \<Rightarrow> proxy_t
   \<Rightarrow> proxy_t outcome" where
  "each_local f [] px = Ret px"
| "each_local f (l # ls) px =
     bind_out (deref l) (\<lambda>e.
     bind_out (case e_endpoint e of None \<Rightarrow> Ret px | Some p \<Rightarrow> f e p px) (each_local f ls))"

abbreviation select_topic :: "proxy_t \<Rightarrow> string \<Rightarrow> int \<Rightarrow> registry_entry_t option list outcome" where
  "select_topic px topic type \<equiv> registry_select (px_registry px) None None (Some topic) type None None"

definition proxy_connect_datahub :: "registry_entry_t \<Rightarrow> proxy_t \<Rightarrow> proxy_t outcome" where
  "proxy_connect_datahub entry px =
     bind_out (select_topic px (e_topic entry) TYPE_DATALINK) (\<lambda>es.
       each_local (\<lambda>e p px. Ret (act (DatalinkSetRemote p (e_addr entry)) px)) es px)"

definition proxy_connect_datalink :: "registry_entry_t \<Rightarrow> proxy_t \<Rightarrow> proxy_t outcome" where
  "proxy_connect_datalink entry px =
     bind_out (select_topic px (e_topic entry) TYPE_DATAHUB) (\<lambda>es.
       case es of
         [] \<Rightarrow> Ret px
       | l # _ \<Rightarrow> each_local (\<lambda>e p px. Ret (act (DatahubAddLink p (e_addr entry)) px)) [l] px)"

definition proxy_connect_messagehub :: "proxy_env \<Rightarrow> registry_entry_t \<Rightarrow> proxy_t \<Rightarrow> proxy_t outcome" where
  "proxy_connect_messagehub env entry px =
     bind_out (select_topic px (e_topic entry) TYPE_MESSAGELINK) (\<lambda>es.
       each_local (\<lambda>e p px.
         let px = act (MessagelinkConnect p (e_addr entry)) px
         in if pe_connect env p (e_addr entry) = 0 then
              (let b = addr_string (pe_link_addr env p) 64
               in bind_out (registry_update_addr (px_registry px) (e_id e) b) (\<lambda>(err, reg).
                  Ret (snd (proxy_send_update_address_request env (e_id e) b (px\<lparr>px_registry := reg\<rparr>)))))
            else Ret px) es px)"

definition proxy_connect_streamer :: "registry_entry_t \<Rightarrow> proxy_t \<Rightarrow> proxy_t outcome" where
  "proxy_connect_streamer entry px =
     bind_out (select_topic px (e_topic entry) TYPE_STREAMERLINK) (\<lambda>es.
       each_local (\<lambda>e p px. Ret (act (StreamerlinkSetRemote p (e_addr entry)) px)) es px)"

definition proxy_add_connection :: "proxy_env \<Rightarrow> registry_entry_t \<Rightarrow> proxy_t \<Rightarrow> proxy_t outcome" where
  "proxy_add_connection env entry px =
     (if e_type entry = TYPE_DATALINK then proxy_connect_datalink entry px
      else if e_type entry = TYPE_DATAHUB then proxy_connect_datahub entry px
      else if e_type entry = TYPE_MESSAGEHUB then proxy_connect_messagehub env entry px
      else if e_type entry = TYPE_STREAMER then proxy_connect_streamer entry px
      else Ret px)"

definition proxy_remove_datahub :: "registry_entry_t \<Rightarrow> proxy_t \<Rightarrow> proxy_t outcome" where
  "proxy_remove_datahub entry px =
     bind_out (select_topic px (e_topic entry) TYPE_DATALINK) (\<lambda>es.
       each_local (\<lambda>e p px. Ret (act (DatalinkSetRemote p None) px)) es px)"

text \<open>The calls for a data link and a message hub follow a break statement and are never reached.\<close>

definition proxy_remove_connection :: "registry_entry_t \<Rightarrow> proxy_t \<Rightarrow> proxy_t outcome" where
  "proxy_remove_connection entry px =
     (if e_type entry = TYPE_DATALINK then Ret px
      else if e_type entry = TYPE_DATAHUB then proxy_remove_datahub entry px
      else Ret px)"

subsection \<open>Messages of the registry\<close>

definition proxy_handle_register_add ::
  "'j json_api \<Rightarrow> proxy_env \<Rightarrow> 'j \<Rightarrow> proxy_t \<Rightarrow> proxy_t outcome" where
  "proxy_handle_register_add J env message px =
     (let obj = j_get J message ''entry''
      in if j_isnull J obj then Ret px
         else bind_out (registry_entry_parse J obj) (\<lambda>(entry, err).
           if err \<noteq> 0 then Ret px
           else bind_out (deref entry) (\<lambda>e.
             bind_out (registry_count (px_registry px) None (Some (e_name e)) (Some (e_topic e)) (e_type e)
                         (e_addr e) None) (\<lambda>count.
               let (err, reg) = (if count = 0 then registry_insert_entry (px_registry px) e
                                 else (0, px_registry px));
                   px = px\<lparr>px_registry := reg\<rparr>
               in if err = 0 then proxy_add_connection env e px else Ret px))))"

definition proxy_handle_register_remove :: "'j json_api \<Rightarrow> 'j \<Rightarrow> proxy_t \<Rightarrow> proxy_t outcome" where
  "proxy_handle_register_remove J message px =
     (case j_getstr J message ''id'' of
        None \<Rightarrow> Ret px
      | Some ident \<Rightarrow>
          (case registry_get (px_registry px) ident of
             None \<Rightarrow> Ret px
           | Some entry \<Rightarrow>
               proxy_remove_connection entry (px\<lparr>px_registry := snd (registry_delete (px_registry px) ident)\<rparr>)))"

definition proxy_handle_update_address :: "'j json_api \<Rightarrow> 'j \<Rightarrow> proxy_t \<Rightarrow> proxy_t outcome" where
  "proxy_handle_update_address J message px =
     (case j_getstr J message ''id'' of
        None \<Rightarrow> Ret px
      | Some ident \<Rightarrow>
          (case j_getstr J message ''addr'' of
             None \<Rightarrow> Ret px
           | Some addr \<Rightarrow>
               bind_out (registry_update_addr (px_registry px) ident addr) (\<lambda>(err, reg).
                 Ret (px\<lparr>px_registry := reg\<rparr>))))"

definition entry_equals :: "registry_entry_t \<Rightarrow> registry_entry_t \<Rightarrow> bool outcome" where
  "entry_equals entry e =
     (if e_type e = e_type entry \<and> e_name e = e_name entry \<and> e_topic e = e_topic entry
      then bind_out (deref (e_addr e)) (\<lambda>a. bind_out (deref (e_addr entry)) (\<lambda>b. Ret (addr_eq a b)))
      else Ret False)"

fun list_contains :: "registry_entry_t list \<Rightarrow> registry_entry_t \<Rightarrow> registry_entry_t option outcome" where
  "list_contains [] e = Ret None"
| "list_contains (f # fs) e =
     bind_out (entry_equals e f) (\<lambda>b. if b then Ret (Some f) else list_contains fs e)"

fun add_missing :: "registry_entry_t list \<Rightarrow> registry_t \<Rightarrow> registry_t outcome" where
  "add_missing [] reg = Ret reg"
| "add_missing (e # es) reg =
     bind_out (registry_count reg None (Some (e_name e)) (Some (e_topic e)) (e_type e) (e_addr e) None) (\<lambda>count.
       add_missing es (if count = 0 then snd (registry_insert_entry reg e) else reg))"

fun remove_vanished ::
  "registry_entry_t list \<Rightarrow> registry_entry_t option list \<Rightarrow> registry_t \<Rightarrow> registry_t outcome" where
  "remove_vanished remote [] reg = Ret reg"
| "remove_vanished remote (l # ls) reg =
     bind_out (deref l) (\<lambda>e. bind_out (list_contains remote e) (\<lambda>f.
       remove_vanished remote ls
         (if f = None \<and> \<not> proxy_is_local e then snd (registry_delete reg (e_id e)) else reg)))"

fun add_connections :: "proxy_env \<Rightarrow> registry_entry_t option list \<Rightarrow> proxy_t \<Rightarrow> proxy_t outcome" where
  "add_connections env [] px = Ret px"
| "add_connections env (l # ls) px =
     bind_out (deref l) (\<lambda>e. bind_out (proxy_add_connection env e px) (add_connections env ls))"

definition proxy_handle_update_list ::
  "'j json_api \<Rightarrow> proxy_env \<Rightarrow> 'j \<Rightarrow> proxy_t \<Rightarrow> proxy_t outcome" where
  "proxy_handle_update_list J env message px =
     (let obj = j_get J message ''list''
      in if j_isnull J obj \<or> \<not> j_isarray J obj then Ret (px\<lparr>px_status := PROXY_ERROR\<rparr>)
         else if j_array_length J obj = 0 then Ret (px\<lparr>px_status := PROXY_READY\<rparr>)
         else bind_out (registry_entry_parse_list J obj) (\<lambda>remote.
           if remote = [] then Ret (px\<lparr>px_status := PROXY_ERROR\<rparr>)
           else bind_out (add_missing remote (px_registry px)) (\<lambda>reg.
                bind_out (registry_select_all reg) (\<lambda>locals.
                bind_out (remove_vanished remote locals reg) (\<lambda>reg.
                bind_out (registry_select_all reg) (\<lambda>es.
                bind_out (add_connections env es (px\<lparr>px_registry := reg\<rparr>)) (\<lambda>px.
                Ret (px\<lparr>px_status := PROXY_READY\<rparr>))))))))"

definition proxy_onevent :: "'j json_api \<Rightarrow> proxy_env \<Rightarrow> string \<Rightarrow> 'j \<Rightarrow> proxy_t \<Rightarrow> proxy_t outcome" where
  "proxy_onevent J env event message px =
     (if event = ''proxy-add'' then proxy_handle_register_add J env message px
      else if event = ''proxy-remove'' then proxy_handle_register_remove J message px
      else if event = ''proxy-update-address'' then proxy_handle_update_address J message px
      else Ret px)"

definition proxy_onresponse :: "'j json_api \<Rightarrow> proxy_env \<Rightarrow> string \<Rightarrow> 'j \<Rightarrow> proxy_t \<Rightarrow> proxy_t outcome" where
  "proxy_onresponse J env response message px =
     (if response = ''register'' then
        Ret (if \<not> j_getbool J message ''success'' then act AppSetQuit px else px)
      else if response = ''list'' then proxy_handle_update_list J env message px
      else Ret px)"

definition proxy_onmessage :: "'j json_api \<Rightarrow> proxy_env \<Rightarrow> 'j \<Rightarrow> proxy_t \<Rightarrow> proxy_t outcome" where
  "proxy_onmessage J env message px =
     (if j_isnull J message then Ret px
      else case j_getstr J message ''response'' of
        Some response \<Rightarrow> proxy_onresponse J env response message px
      | None \<Rightarrow>
          (case j_getstr J message ''event'' of
             Some event \<Rightarrow> proxy_onevent J env event message px
           | None \<Rightarrow> Ret px))"

fun proxy_messages :: "'j json_api \<Rightarrow> proxy_env \<Rightarrow> 'j list \<Rightarrow> proxy_t \<Rightarrow> proxy_t outcome" where
  "proxy_messages J env [] px = Ret px"
| "proxy_messages J env (m # ms) px = bind_out (proxy_onmessage J env m px) (proxy_messages J env ms)"

text \<open>
  A new proxy, with an address of the registry unless the application runs alone: the result of the
  connection, and the messages that arrive within the ten seconds the proxy waits, are arguments.
\<close>

definition empty_proxy :: proxy_t where
  "empty_proxy = \<lparr>px_registry = new_registry, px_status = PROXY_INITIALIZING, px_actions = []\<rparr>"

definition new_proxy ::
  "'j json_api \<Rightarrow> proxy_env \<Rightarrow> addr_t option \<Rightarrow> int \<Rightarrow> 'j list \<Rightarrow> proxy_t option outcome" where
  "new_proxy J env addr connected messages =
     (if addr = None then Ret (Some empty_proxy)
      else if connected \<noteq> 0 then Ret None
      else let (err, px) = proxy_send_list_request env empty_proxy
           in if err \<noteq> 0 then Ret None
              else bind_out (proxy_messages J env messages px) (\<lambda>px.
                Ret (if px_status px \<noteq> PROXY_READY then None else Some px)))"

subsection \<open>Opening and closing end-points\<close>

text \<open>The identifier r_uuid would make is an argument.\<close>

definition proxy_new_entry ::
  "proxy_env \<Rightarrow> string \<Rightarrow> proxy_t \<Rightarrow> string option \<Rightarrow> string option \<Rightarrow> int \<Rightarrow> addr_t option \<Rightarrow> ptr
   \<Rightarrow> registry_entry_t option \<times> proxy_t" where
  "proxy_new_entry env uuid px name topic type addr endpoint =
     (if \<not> registry_valid_name name then (None, px)
      else if \<not> registry_valid_topic topic then (None, px)
      else case new_registry_entry uuid None name topic type addr (Some endpoint) of
        None \<Rightarrow> (None, px)
      | Some entry \<Rightarrow>
          let (r, reg) = registry_insert_entry (px_registry px) entry; px = px\<lparr>px_registry := reg\<rparr>
          in if r \<noteq> 0 then (None, px)
             else let (r, px) = proxy_send_register_request env entry px
                  in if r \<noteq> 0 then (None, px\<lparr>px_registry := snd (registry_delete (px_registry px) (e_id entry))\<rparr>)
                     else (Some entry, px))"

definition proxy_delete_entry :: "proxy_env \<Rightarrow> int \<Rightarrow> ptr \<Rightarrow> proxy_t \<Rightarrow> proxy_t outcome" where
  "proxy_delete_entry env type endpoint px =
     bind_out (registry_select (px_registry px) None None None type None (Some endpoint)) (\<lambda>es.
       case es of
         [] \<Rightarrow> Ret px
       | l # _ \<Rightarrow> bind_out (deref l) (\<lambda>e.
           Ret (snd (proxy_send_unregister_request env e
                  (px\<lparr>px_registry := snd (registry_delete (px_registry px) (e_id e))\<rparr>)))))"

text \<open>
  An end-point that could be created, with its address, is registered; \<open>connect\<close> is what follows.  It
  is deleted again when it cannot be registered.
\<close>

definition open_endpoint ::
  "proxy_env \<Rightarrow> string \<Rightarrow> string option \<Rightarrow> string option \<Rightarrow> int \<Rightarrow> (ptr \<times> addr_t option) option
   \<Rightarrow> (ptr \<Rightarrow> registry_entry_t \<Rightarrow> proxy_t \<Rightarrow> proxy_t outcome) \<Rightarrow> proxy_t \<Rightarrow> (ptr option \<times> proxy_t) outcome" where
  "open_endpoint env uuid name topic type new connect px =
     (case new of
        None \<Rightarrow> Ret (None, px)
      | Some (p, addr) \<Rightarrow>
          (case proxy_new_entry env uuid px name topic type addr p of
             (None, px) \<Rightarrow> Ret (None, act (DeleteEndpoint p) px)
           | (Some entry, px) \<Rightarrow> map_out (Pair (Some p)) (connect p entry px)))"

definition with_first ::
  "int \<Rightarrow> string \<Rightarrow> (registry_entry_t \<Rightarrow> proxy_action) \<Rightarrow> proxy_t \<Rightarrow> proxy_t outcome" where
  "with_first type topic action px =
     bind_out (select_topic px topic type) (\<lambda>es.
       case es of [] \<Rightarrow> Ret px | l # _ \<Rightarrow> bind_out (deref l) (\<lambda>e. Ret (act (action e) px)))"

definition proxy_open_datalink where
  "proxy_open_datalink env uuid name topic new px =
     open_endpoint env uuid name topic TYPE_DATALINK new (\<lambda>p entry.
       with_first TYPE_DATAHUB (e_topic entry) (\<lambda>e. DatalinkSetRemote p (e_addr e))) px"

fun add_links :: "ptr \<Rightarrow> registry_entry_t option list \<Rightarrow> proxy_t \<Rightarrow> proxy_t outcome" where
  "add_links p [] px = Ret px"
| "add_links p (l # ls) px = bind_out (deref l) (\<lambda>e. add_links p ls (act (DatahubAddLink p (e_addr e)) px))"

definition proxy_open_datahub where
  "proxy_open_datahub env uuid name topic new px =
     open_endpoint env uuid name topic TYPE_DATAHUB new (\<lambda>p entry px.
       bind_out (select_topic px (e_topic entry) TYPE_DATALINK) (\<lambda>es. add_links p es px)) px"

definition proxy_open_messagelink where
  "proxy_open_messagelink env uuid name topic new px =
     open_endpoint env uuid name topic TYPE_MESSAGELINK new (\<lambda>p entry.
       with_first TYPE_MESSAGEHUB (e_topic entry) (\<lambda>e. MessagelinkConnect p (e_addr e))) px"

definition proxy_open_messagehub where
  "proxy_open_messagehub env uuid name topic new px =
     open_endpoint env uuid name topic TYPE_MESSAGEHUB new (\<lambda>p entry. Ret) px"

definition proxy_open_service where
  "proxy_open_service env uuid name topic new px =
     open_endpoint env uuid name topic TYPE_SERVICE new (\<lambda>p entry. Ret) px"

definition proxy_open_streamer where
  "proxy_open_streamer env uuid name topic new px =
     open_endpoint env uuid name topic TYPE_STREAMER new (\<lambda>p entry. Ret) px"

definition proxy_open_streamerlink where
  "proxy_open_streamerlink env uuid name topic new px =
     open_endpoint env uuid name topic TYPE_STREAMERLINK new (\<lambda>p entry.
       with_first TYPE_STREAMER (e_topic entry) (\<lambda>e. StreamerlinkSetRemote p (e_addr e))) px"

definition close_endpoint :: "proxy_env \<Rightarrow> int \<Rightarrow> ptr \<Rightarrow> proxy_t \<Rightarrow> proxy_t outcome" where
  "close_endpoint env type p px = map_out (act (DeleteEndpoint p)) (proxy_delete_entry env type p px)"

definition proxy_close_datalink where "proxy_close_datalink env p px = close_endpoint env TYPE_DATALINK p px"
definition proxy_close_datahub where "proxy_close_datahub env p px = close_endpoint env TYPE_DATAHUB p px"
definition proxy_close_messagelink where "proxy_close_messagelink env p px = close_endpoint env TYPE_MESSAGELINK p px"
definition proxy_close_messagehub where "proxy_close_messagehub env p px = close_endpoint env TYPE_MESSAGEHUB p px"
definition proxy_close_service where "proxy_close_service env p px = close_endpoint env TYPE_SERVICE p px"
definition proxy_close_streamer where "proxy_close_streamer env p px = close_endpoint env TYPE_STREAMER p px"
definition proxy_close_streamerlink where "proxy_close_streamerlink env p px = close_endpoint env TYPE_STREAMERLINK p px"

text \<open>The address of the first hub, service or streamer found for a topic.\<close>

definition first_address :: "int \<Rightarrow> proxy_t \<Rightarrow> string \<Rightarrow> addr_t option outcome" where
  "first_address type px topic =
     bind_out (select_topic px topic type) (\<lambda>es.
       case es of [] \<Rightarrow> Ret None | l # _ \<Rightarrow> bind_out (deref l) (\<lambda>e. Ret (addr_clone (e_addr e))))"

definition proxy_get_messagehub where "proxy_get_messagehub px topic = first_address TYPE_MESSAGEHUB px topic"
definition proxy_get_service where "proxy_get_service px topic = first_address TYPE_SERVICE px topic"
definition proxy_get_streamer where "proxy_get_streamer px topic = first_address TYPE_STREAMER px topic"

definition proxy_count_nodes :: "proxy_t \<Rightarrow> nat outcome" where
  "proxy_count_nodes px = registry_count (px_registry px) None None None TYPE_ANY None None"

section \<open>The copy of the registry\<close>

text \<open>Two entries the proxy takes for the same end-point, whatever their identifiers.\<close>

definition same_endpoint :: "registry_entry_t \<Rightarrow> registry_entry_t \<Rightarrow> bool" where
  "same_endpoint e f \<longleftrightarrow> wanted None (Some (e_name e)) (Some (e_topic e)) (e_type e) (e_addr e) None f"

abbreviation px_view :: "proxy_t \<Rightarrow> registry_entry_t list" where
  "px_view px \<equiv> entries (px_registry px)"

text \<open>A proxy of a node without end-points of its own.\<close>

definition remote_only :: "registry_entry_t list \<Rightarrow> bool" where
  "remote_only es \<longleftrightarrow> list_all (\<lambda>e. entry_ok e \<and> e_endpoint e = None) es"

lemma remote_only_wf: "remote_only es \<Longrightarrow> reg_wf \<lparr>entries = es\<rparr>"
  by (auto simp: remote_only_def reg_wf_def list_all_iff)

lemma registry_eta [simp]: "(r :: registry_t)\<lparr>entries := es\<rparr> = \<lparr>entries = es\<rparr>"
  by (cases r) simp

lemma each_local_remote: "\<forall>l \<in> set es. e_endpoint l = None \<Longrightarrow> each_local f (map Some es) px = Ret px"
  by (induction es) auto

lemma select_remote:
  assumes "remote_only (px_view px)"
  shows "\<exists>es. select_topic px topic ty = Ret (map Some es) \<and> (\<forall>e \<in> set es. e_endpoint e = None)"
proof -
  have "reg_wf (px_registry px)" using assms by (auto simp: remote_only_def reg_wf_def list_all_iff)
  from registry_select_wanted [OF this, of None None "Some topic" ty None None] assms show ?thesis
    by (intro exI [of _ "rev (filter (wanted None None (Some topic) ty None None) (px_view px))"])
       (auto simp: remote_only_def list_all_iff)
qed

text \<open>Without local end-points nothing is connected or disconnected.\<close>

lemma add_connection_remote:
  assumes "remote_only (px_view px)"
  shows "proxy_add_connection env e px = Ret px"
proof -
  have "bind_out (select_topic px topic ty) (\<lambda>es. each_local f es px) = Ret px" for topic ty f
    using select_remote [OF assms, of topic ty] by (auto simp: each_local_remote)
  moreover have "bind_out (select_topic px topic ty) (\<lambda>es. case es of [] \<Rightarrow> Ret px | l # _ \<Rightarrow> each_local f [l] px) = Ret px"
    for topic ty f
    using select_remote [OF assms, of topic ty] by (auto split: list.splits simp: map_eq_Cons_conv)
  ultimately show ?thesis
    by (simp add: proxy_add_connection_def proxy_connect_datalink_def proxy_connect_datahub_def
        proxy_connect_messagehub_def proxy_connect_streamer_def)
qed

lemma remove_connection_remote:
  assumes "remote_only (px_view px)"
  shows "proxy_remove_connection e px = Ret px"
  using select_remote [OF assms, of "e_topic e" TYPE_DATALINK]
  by (auto simp: proxy_remove_connection_def proxy_remove_datahub_def each_local_remote)

lemma add_connections_remote:
  "remote_only (px_view px) \<Longrightarrow> add_connections env (map Some es) px = Ret px"
  by (induction es) (simp_all add: add_connection_remote)

subsection \<open>The list\<close>

fun distinct_endpoints :: "registry_entry_t list \<Rightarrow> bool" where
  "distinct_endpoints [] = True"
| "distinct_endpoints (e # es) = ((\<forall>f \<in> set es. \<not> same_endpoint f e) \<and> distinct_endpoints es)"

lemma count_same:
  "list_all entry_ok es \<Longrightarrow>
   registry_count \<lparr>entries = es\<rparr> None (Some (e_name e)) (Some (e_topic e)) (e_type e) (e_addr e) None
   = Ret (length (filter (same_endpoint e) es))"
  using registry_count_wanted [of "\<lparr>entries = es\<rparr>"] by (simp add: reg_wf_def same_endpoint_def [abs_def])

lemma add_missing_all:
  "list_all entry_ok (acc @ es) \<Longrightarrow> distinct_endpoints es \<Longrightarrow> \<forall>e \<in> set es. \<forall>f \<in> set acc. \<not> same_endpoint e f \<Longrightarrow>
   add_missing es \<lparr>entries = acc\<rparr> = Ret \<lparr>entries = acc @ es\<rparr>"
proof (induction es arbitrary: acc)
  case (Cons e es)
  have "filter (same_endpoint e) acc = []" using Cons.prems(3) by (simp add: filter_empty_conv)
  then have "registry_count \<lparr>entries = acc\<rparr> None (Some (e_name e)) (Some (e_topic e)) (e_type e) (e_addr e) None = Ret 0"
    using count_same [of acc e] Cons.prems(1) by simp
  moreover have "registry_insert_entry \<lparr>entries = acc\<rparr> e = (0, \<lparr>entries = acc @ [e]\<rparr>)"
    using Cons.prems(1) by (simp add: registry_insert_entry_eq)
  ultimately show ?case using Cons.IH [of "acc @ [e]"] Cons.prems by auto
qed simp

lemma list_contains_member:
  "e \<in> set remote \<Longrightarrow> list_all entry_ok remote \<Longrightarrow> entry_ok e \<Longrightarrow> \<exists>f. list_contains remote e = Ret (Some f)"
proof (induction remote)
  case (Cons f fs)
  then obtain a b where "e_addr f = Some a" "e_addr e = Some b" by (auto simp: entry_ok_def)
  moreover have "addr_eq a a" for a by (simp add: addr_eq_def)
  ultimately show ?case using Cons by (auto simp: entry_equals_def)
qed simp

lemma remove_vanished_none:
  "set es \<subseteq> set remote \<Longrightarrow> list_all entry_ok remote \<Longrightarrow> remove_vanished remote (map Some es) reg = Ret reg"
proof (induction es)
  case (Cons e es)
  then have "entry_ok e" by (auto simp: list_all_iff)
  with Cons list_contains_member [of e remote] show ?case by auto
qed simp

lemma handle_list_first:
  assumes "\<not> j_isnull J (j_get J m ''list'')" "j_isarray J (j_get J m ''list'')"
    "j_array_length J (j_get J m ''list'') = length es"
    "registry_entry_parse_list J (j_get J m ''list'') = Ret es" "remote_only es" "distinct_endpoints es"
    "px_view px = []"
  shows "proxy_handle_update_list J env m px = Ret (px\<lparr>px_registry := \<lparr>entries = es\<rparr>, px_status := PROXY_READY\<rparr>)"
proof (cases "es = []")
  case True
  have "px_registry px = \<lparr>entries = []\<rparr>" using assms(7) by (cases "px_registry px") simp
  then show ?thesis using assms True by (cases px) (simp add: proxy_handle_update_list_def)
next
  case False
  have ok: "list_all entry_ok es" using assms(5) by (auto simp: remote_only_def list_all_iff)
  have r: "px_registry px = \<lparr>entries = []\<rparr>" using assms(7) by (cases "px_registry px") simp
  have sel: "registry_select_all \<lparr>entries = es\<rparr> = Ret (map Some (rev es))"
    using registry_select_all_wf [of "\<lparr>entries = es\<rparr>"] ok by (simp add: reg_wf_def)
  have rem: "remove_vanished es (map Some (rev es)) \<lparr>entries = es\<rparr> = Ret \<lparr>entries = es\<rparr>"
    by (rule remove_vanished_none) (simp_all add: ok)
  have con: "add_connections env (map Some (rev es)) (px\<lparr>px_registry := \<lparr>entries = es\<rparr>\<rparr>) = Ret (px\<lparr>px_registry := \<lparr>entries = es\<rparr>\<rparr>)"
    by (rule add_connections_remote) (simp add: assms(5))
  show ?thesis
    using assms False add_missing_all [of "[]" es] ok r sel rem con
    by (simp add: proxy_handle_update_list_def)
qed

subsection \<open>Events\<close>

text \<open>What a message must say for the proxy to take it as an operation on the table.\<close>

fun announces :: "'j json_api \<Rightarrow> 'j \<Rightarrow> table_op \<Rightarrow> bool" where
  "announces J m (TInsert e) \<longleftrightarrow> \<not> j_isnull J m \<and> j_getstr J m ''response'' = None
     \<and> j_getstr J m ''event'' = Some ''proxy-add'' \<and> \<not> j_isnull J (j_get J m ''entry'')
     \<and> registry_entry_parse J (j_get J m ''entry'') = Ret (Some e, 0)"
| "announces J m (TDelete i) \<longleftrightarrow> \<not> j_isnull J m \<and> j_getstr J m ''response'' = None
     \<and> j_getstr J m ''event'' = Some ''proxy-remove'' \<and> j_getstr J m ''id'' = Some i"
| "announces J m (TUpdate i a) \<longleftrightarrow> \<not> j_isnull J m \<and> j_getstr J m ''response'' = None
     \<and> j_getstr J m ''event'' = Some ''proxy-update-address'' \<and> j_getstr J m ''id'' = Some i
     \<and> j_getstr J m ''addr'' = Some a"

fun fresh_op :: "registry_entry_t list \<Rightarrow> table_op \<Rightarrow> bool" where
  "fresh_op es (TInsert e) \<longleftrightarrow> e_endpoint e = None \<and> entry_ok e \<and> (\<forall>f \<in> set es. \<not> same_endpoint e f)"
| "fresh_op es (TDelete i) \<longleftrightarrow> True"
| "fresh_op es (TUpdate i a) \<longleftrightarrow> (\<exists>x. addr_parse a = Ret (Some x))"

lemma remote_only_append [simp]: "remote_only (es @ fs) \<longleftrightarrow> remote_only es \<and> remote_only fs"
  by (simp add: remote_only_def)

lemma drop_id_remote: "remote_only es \<Longrightarrow> remote_only (drop_id i es)"
  by (induction es) (auto simp: remote_only_def)

lemma set_addr_remote: "remote_only es \<Longrightarrow> remote_only (set_addr i (Some a) es)"
  by (induction es) (auto simp: remote_only_def entry_ok_def)

lemma find_id_Some: "has_id i es \<Longrightarrow> \<exists>e. find_id es i = Some e \<and> e \<in> set es"
  by (induction es) auto

lemma find_id_None: "\<not> has_id i es \<Longrightarrow> find_id es i = None"
  by (induction es) auto

lemma event_applied:
  assumes "announces J m op" "fresh_op (px_view px) op" "remote_only (px_view px)"
  shows "proxy_onmessage J env m px
     = Ret (px\<lparr>px_registry := \<lparr>entries = snd (table_spec op (px_view px))\<rparr>\<rparr>)
   \<and> remote_only (snd (table_spec op (px_view px)))"
proof (cases op)
  case (TInsert e)
  have ok: "list_all entry_ok (px_view px)" using assms(3) by (auto simp: remote_only_def list_all_iff)
  have e: "e_endpoint e = None" "entry_ok e" "filter (same_endpoint e) (px_view px) = []"
    using assms(2) TInsert by (auto simp: filter_empty_conv)
  have r: "px_registry px = \<lparr>entries = px_view px\<rparr>" by (cases "px_registry px") simp
  have c: "registry_count (px_registry px) None (Some (e_name e)) (Some (e_topic e)) (e_type e) (e_addr e) None = Ret 0"
    using count_same [OF ok, of e] e(3) r by simp
  have rem: "remote_only (px_view px @ [e])" using assms(3) e by (simp add: remote_only_def)
  then have "proxy_add_connection env e (px\<lparr>px_registry := \<lparr>entries = px_view px @ [e]\<rparr>\<rparr>)
     = Ret (px\<lparr>px_registry := \<lparr>entries = px_view px @ [e]\<rparr>\<rparr>)"
    by (intro add_connection_remote) simp
  with assms(1) TInsert c e rem show ?thesis
    by (simp add: proxy_onmessage_def proxy_onevent_def proxy_handle_register_add_def registry_insert_entry_eq)
next
  case (TDelete i)
  let ?px = "px\<lparr>px_registry := \<lparr>entries = drop_id i (px_view px)\<rparr>\<rparr>"
  have ok: "list_all entry_ok (px_view px)" using assms(3) by (auto simp: remote_only_def list_all_iff)
  have rem: "remote_only (drop_id i (px_view px))" by (rule drop_id_remote [OF assms(3)])
  show ?thesis
  proof (cases "has_id i (px_view px)")
    case True
    then obtain e where e: "find_id (px_view px) i = Some e" "entry_ok e"
      using find_id_Some [OF True] ok by (auto simp: list_all_iff)
    have "proxy_remove_connection e ?px = Ret ?px" by (rule remove_connection_remote) (simp add: rem)
    with assms(1) TDelete e rem show ?thesis
      by (simp add: proxy_onmessage_def proxy_onevent_def proxy_handle_register_remove_def registry_get_def
          clone_entry_ok registry_delete_eq)
  next
    case False
    then have "registry_get (px_registry px) i = None" by (simp add: registry_get_def find_id_None)
    moreover have "px_registry px = \<lparr>entries = px_view px\<rparr>" by (cases "px_registry px") simp
    ultimately show ?thesis using assms(1) TDelete False rem
      by (cases px) (simp add: proxy_onmessage_def proxy_onevent_def proxy_handle_register_remove_def
          drop_id_absent)
  qed
next
  case (TUpdate i a)
  then obtain x where x: "addr_parse a = Ret (Some x)" using assms(2) by auto
  with assms TUpdate set_addr_remote [OF assms(3)] show ?thesis
    by (simp add: proxy_onmessage_def proxy_onevent_def proxy_handle_update_address_def
        registry_update_addr_eq)
qed

subsection \<open>The server's broadcasts\<close>

fun op_text :: "table_op \<Rightarrow> string" where
  "op_text (TInsert e) = proxy_add_text e"
| "op_text (TDelete i) = proxy_remove_text i"
| "op_text (TUpdate i a) = proxy_update_text i a"

text \<open>What reaches the link \<open>q\<close> of a proxy.\<close>

fun texts_to :: "ptr \<Rightarrow> 'j sending list \<Rightarrow> string list" where
  "texts_to q [] = []"
| "texts_to q (Broadcast ex text # outs) = (if ex = Some q then texts_to q outs else text # texts_to q outs)"
| "texts_to q (_ # outs) = texts_to q outs"

lemma texts_to_append [simp]: "texts_to q (a @ b) = texts_to q a @ texts_to q b"
  by (induction q a rule: texts_to.induct) auto

lemma texts_to_reply [simp]:
  "texts_to q (rcregistry_fail req msg) = []" "texts_to q (rcregistry_success req) = []"
  by (simp_all add: rcregistry_fail_def rcregistry_success_def)

text \<open>A request another link makes either leaves the table alone and tells this link nothing, or tells it
  the one operation on the table.\<close>

definition tells :: "ptr \<Rightarrow> ('j sending list \<times> rcregistry_t) outcome \<Rightarrow> rcregistry_t \<Rightarrow> table_op list \<Rightarrow> bool" where
  "tells q result rc ops \<longleftrightarrow>
     (\<exists>outs rc'. result = Ret (outs, rc')
        \<and> (texts_to q outs = [] \<and> rc_view rc' = rc_view rc
           \<or> (\<exists>op. ops = [op] \<and> texts_to q outs = [op_text op]
                \<and> rc_view rc' = snd (table_spec op (rc_view rc)))))"

lemma tells_nothing: "texts_to q outs = [] \<Longrightarrow> tells q (Ret (outs, rc)) rc ops"
  by (simp add: tells_def)

lemma register_tells:
  assumes "defined (registry_entry_parse J (j_get J m ''entry''))" "\<not> j_isnull J (j_get J m ''entry'')"
  shows "tells q (rcregistry_register J rc m) rc
     (case registry_entry_parse J (j_get J m ''entry'') of Ret (Some e, err) \<Rightarrow> [TInsert e] | _ \<Rightarrow> [])"
proof -
  obtain eo err where p: "registry_entry_parse J (j_get J m ''entry'') = Ret (eo, err)"
    using assms(1) by (auto simp: defined_iff)
  show ?thesis
  proof (cases eo)
    case None
    with p have "registry_entry_parse J (j_get J m ''entry'') = Ret (None, err)" by simp
    from register_invalid_entry [OF this assms(2)] show ?thesis by (simp add: tells_nothing)
  next
    case (Some e)
    with p have q: "registry_entry_parse J (j_get J m ''entry'') = Ret (Some e, err)" by simp
    have "entry_ok e" by (rule entry_valid_ok [OF entry_parse_valid [OF q, THEN conjunct2]])
    with register_valid_entry [OF q assms(2)] show ?thesis unfolding q by (simp add: tells_def)
  qed
qed

lemma unregister_tells:
  "tells q (rcregistry_unregister J rc m) rc
     (case j_getstr J m ''id'' of Some i \<Rightarrow> [TDelete i] | None \<Rightarrow> [])"
  by (auto simp: rcregistry_unregister_def registry_delete_eq tells_def drop_id_absent Let_def
      split: option.split)

lemma update_tells:
  assumes "\<forall>a. j_getstr J m ''addr'' = Some a \<longrightarrow> (\<exists>x. addr_parse a = Ret (Some x))" "link \<noteq> q"
  shows "tells q (rcregistry_update_address J rc link m) rc
     (case (j_getstr J m ''id'', j_getstr J m ''addr'') of
           (Some i, Some a) \<Rightarrow> [TUpdate i a] | _ \<Rightarrow> [])"
proof (cases "j_getstr J m ''id'' = None \<or> j_getstr J m ''addr'' = None")
  case True
  then show ?thesis by (auto simp: rcregistry_update_address_def tells_def split: option.split)
next
  case False
  then obtain i a where ia: "j_getstr J m ''id'' = Some i" "j_getstr J m ''addr'' = Some a" by auto
  with assms(1) obtain x where "addr_parse a = Ret (Some x)" by auto
  with ia assms(2) show ?thesis
    by (simp add: rcregistry_update_address_def registry_update_addr_eq tells_def)
qed

lemma onmessage_tells:
  assumes "request_safe J m" "reg_wf (rc_registry rc)" "link \<noteq> q"
  shows "tells q (rcregistry_onmessage J rc link m) rc (request_ops J m)"
proof (cases "j_isnull J m \<or> j_getstr J m ''request'' = None")
  case True
  then have "\<exists>msg. rcregistry_onmessage J rc link m = Ret (rcregistry_fail ''?'' msg, rc)"
    unfolding rcregistry_onmessage_def by (cases "j_isnull J m") auto
  then obtain msg where "rcregistry_onmessage J rc link m = Ret (rcregistry_fail ''?'' msg, rc)" by blast
  then show ?thesis by (simp add: tells_nothing)
next
  case False
  then obtain r where r: "\<not> j_isnull J m" "j_getstr J m ''request'' = Some r" by auto
  consider "r = ''register'' \<and> j_isnull J (j_get J m ''entry'')"
    | "r = ''register'' \<and> \<not> j_isnull J (j_get J m ''entry'')" | "r = ''unregister''"
    | "r = ''list''" | "r = ''update-address''"
    | "r \<notin> {''register'', ''unregister'', ''list'', ''update-address''}" by blast
  then show ?thesis
  proof cases
    case 1
    with r show ?thesis by (simp add: rcregistry_onmessage_def rcregistry_register_def tells_nothing)
  next
    case 2
    with r assms(1) register_tells [of J m q rc] show ?thesis
      by (simp add: rcregistry_onmessage_def request_ops_def request_safe_def)
  next
    case 3
    with r unregister_tells [of q J rc m] show ?thesis by (simp add: rcregistry_onmessage_def request_ops_def)
  next
    case 4
    with r show ?thesis by (simp add: rcregistry_onmessage_def list_wf [OF assms(2)] tells_nothing)
  next
    case 5
    with r assms(1) update_tells [of J m link q rc] assms(3) show ?thesis
      by (simp add: rcregistry_onmessage_def request_ops_def request_safe_def)
  next
    case 6
    with r show ?thesis by (simp add: rcregistry_onmessage_def tells_nothing)
  qed
qed

subsection \<open>The copy follows the table\<close>

lemma wanted_public [simp]: "wanted i n t ty a None (entry_public f) = wanted i n t ty a None f"
  by (simp add: wanted_def entry_public_def split: option.split)

lemma same_endpoint_public [simp]: "same_endpoint e (entry_public f) = same_endpoint e f"
  "same_endpoint (entry_public e) f = same_endpoint e f"
  by (simp_all add: same_endpoint_def) (simp add: entry_public_def)

lemma drop_id_map_public: "drop_id i (map entry_public es) = map entry_public (drop_id i es)"
  by (induction es) (auto simp: entry_public_def)

lemma set_addr_map_public: "set_addr i a (map entry_public es) = map entry_public (set_addr i a es)"
  by (induction es) (auto simp: entry_public_def)

lemma spec_map_public:
  "fresh_op es op \<Longrightarrow> snd (table_spec op (map entry_public es)) = map entry_public (snd (table_spec op es))"
  by (cases op) (auto simp: drop_id_map_public set_addr_map_public entry_public_def)

lemma remote_only_public: "list_all entry_ok es \<Longrightarrow> remote_only (map entry_public es)"
  by (auto simp: remote_only_def list_all_iff entry_public_def entry_ok_def)

lemma fresh_public: "fresh_op es op \<Longrightarrow> fresh_op (map entry_public es) op"
  by (cases op) auto

text \<open>Every registration is of an end-point not registered at that time.\<close>

fun fresh_ops :: "registry_entry_t list \<Rightarrow> table_op list \<Rightarrow> bool" where
  "fresh_ops es [] = True"
| "fresh_ops es (op # ops) = (fresh_op es op \<and> fresh_ops (snd (table_spec op es)) ops)"

lemma fresh_ops_append: "fresh_ops es (a @ b) \<Longrightarrow> fresh_ops es a \<and> fresh_ops (snd (spec_run a es)) b"
  by (induction a arbitrary: es) (auto split: prod.splits, metis snd_conv)

lemma texts_request:
  assumes "tells q (rcregistry_onmessage J rc link m) rc ops" "rcregistry_onmessage J rc link m = Ret (outs, rc')"
    "fresh_ops (rc_view rc) ops" "list_all entry_ok (rc_view rc)" "px_view px = map entry_public (rc_view rc)"
    "\<forall>op \<in> set ops. announces J (parse (op_text op)) op"
  shows "proxy_messages J env (map parse (texts_to q outs)) px
     = Ret (px\<lparr>px_registry := \<lparr>entries = map entry_public (rc_view rc')\<rparr>\<rparr>)"
proof -
  have eta: "px\<lparr>px_registry := \<lparr>entries = px_view px\<rparr>\<rparr> = px" by (cases px; cases "px_registry px") simp
  from assms(1,2) consider "texts_to q outs = []" "rc_view rc' = rc_view rc"
    | op where "ops = [op]" "texts_to q outs = [op_text op]" "rc_view rc' = snd (table_spec op (rc_view rc))"
    by (auto simp: tells_def)
  then show ?thesis
  proof cases
    case 1
    with eta assms(5) show ?thesis by simp
  next
    case 2
    have f: "fresh_op (rc_view rc) op" using assms(3) 2 by simp
    have "remote_only (px_view px)" using assms(4,5) remote_only_public by simp
    with event_applied [of J "parse (op_text op)" op px env] fresh_public [OF f] assms(5,6) 2 spec_map_public [OF f]
    show ?thesis by simp
  qed
qed

lemma messages_append:
  "proxy_messages J env (a @ b) px = bind_out (proxy_messages J env a px) (proxy_messages J env b)"
  by (induction a arbitrary: px) (auto simp: bind_out_Ret_iff split: outcome.split, metis bind_out.simps outcome.exhaust)

lemma requests_followed:
  assumes "rcregistry_run J rc ms = Ret (outss, rc')"
    "list_all (\<lambda>(link, m). request_safe J m \<and> link \<noteq> q) ms"
    "fresh_ops (rc_view rc) (ops_of J ms)" "list_all entry_ok (rc_view rc)"
    "px_view px = map entry_public (rc_view rc)"
    "\<forall>op \<in> set (ops_of J ms). announces J (parse (op_text op)) op"
  shows "\<exists>px'. proxy_messages J env (map parse (concat (map (texts_to q) outss))) px = Ret px'
     \<and> px_view px' = map entry_public (rc_view rc') \<and> px_status px' = px_status px"
  using assms
proof (induction ms arbitrary: rc px outss)
  case Nil
  then show ?case by simp
next
  case (Cons lm ms)
  obtain link m where lm: "lm = (link, m)" by (cases lm)
  obtain outs rc1 oss where o: "rcregistry_onmessage J rc link m = Ret (outs, rc1)"
    "rcregistry_run J rc1 ms = Ret (oss, rc')" "outss = outs # oss"
    using Cons.prems(1) lm by (auto simp: outcome_simps)
  have wf: "reg_wf (rc_registry rc)" using Cons.prems(4) by (simp add: reg_wf_def)
  have safe: "request_safe J m" "link \<noteq> q" using Cons.prems(2) lm by simp_all
  have fr: "fresh_ops (rc_view rc) (request_ops J m)"
    "fresh_ops (snd (spec_run (request_ops J m) (rc_view rc))) (ops_of J ms)"
    using fresh_ops_append [of "rc_view rc" "request_ops J m" "ops_of J ms"] Cons.prems(3) lm
    by (simp_all add: ops_of_def)
  have v: "rc_view rc1 = snd (spec_run (request_ops J m) (rc_view rc))"
    using onmessage_serves [OF safe(1) wf, of link] o(1) by (simp add: serves_def)
  have t: "proxy_messages J env (map parse (texts_to q outs)) px
     = Ret (px\<lparr>px_registry := \<lparr>entries = map entry_public (rc_view rc1)\<rparr>\<rparr>)"
    using texts_request [OF onmessage_tells [OF safe(1) wf safe(2)] o(1) fr(1) Cons.prems(4,5)] Cons.prems(6) lm
    by (simp add: ops_of_def)
  let ?px = "px\<lparr>px_registry := \<lparr>entries = map entry_public (rc_view rc1)\<rparr>\<rparr>"
  have ok: "list_all entry_ok (rc_view rc1)" unfolding v by (rule spec_run_ok [OF Cons.prems(4)])
  have an: "\<forall>op \<in> set (ops_of J ms). announces J (parse (op_text op)) op"
    using Cons.prems(6) by (simp add: ops_of_def)
  from Cons.IH [OF o(2) _ _ ok _ an, of ?px] Cons.prems(2) fr(2) v obtain px' where
    "proxy_messages J env (map parse (concat (map (texts_to q) oss))) ?px = Ret px'"
    "px_view px' = map entry_public (rc_view rc')" "px_status px' = px_status px" by auto
  with t o(3) show ?case by (simp add: messages_append)
qed

section \<open>Properties\<close>


definition example_env :: "int \<Rightarrow> proxy_env" where
  "example_env sent =
     \<lparr>pe_standalone = False, pe_send = (\<lambda>_. sent), pe_connect = (\<lambda>_ _. 0), pe_link_addr = (\<lambda>_. None)\<rparr>"

definition example_event :: json where
  "example_event = JObject [(''event'', JString ''proxy-add''),
     (''entry'', registry_entry_encode example_json example_entry)]"


text \<open>C13. A node that opens an end-point either has it in its copy of the registry, with a fresh identifier
  and its own pointer, or has the copy it had before: a failed registration leaves nothing behind.\<close>

theorem proxy_new_entry_all_or_nothing:
  assumes "\<not> has_id uuid (px_view px)" "proxy_new_entry env uuid px name topic type addr p = (result, px')"
  shows "(result = None \<and> px_view px' = px_view px)
     \<or> (\<exists>e. result = Some e \<and> e_id e = uuid \<and> e_endpoint e = Some p \<and> Some (e_name e) = name
          \<and> Some (e_topic e) = topic \<and> e_type e = type \<and> e_addr e = addr \<and> px_view px' = px_view px @ [e])"
proof -
  have send: "px_registry (snd (send_to_registry env t px)) = px_registry px" for t px
    by (simp add: send_to_registry_def act_def)
  show ?thesis
  proof (cases "new_registry_entry uuid None name topic type addr (Some p)")
    case None
    with assms(2) show ?thesis by (auto simp: proxy_new_entry_def split: if_splits)
  next
    case (Some e)
    then have e: "entry_ok e" "e_id e = uuid" "e_endpoint e = Some p" "Some (e_name e) = name"
      "Some (e_topic e) = topic" "e_type e = type" "e_addr e = addr"
      by (auto simp: new_registry_entry_def entry_ok_def split: option.splits if_splits)
    let ?px = "px\<lparr>px_registry := \<lparr>entries = px_view px @ [e]\<rparr>\<rparr>"
    obtain r px1 where s: "proxy_send_register_request env e ?px = (r, px1)" by fastforce
    then have v: "px_view px1 = px_view px @ [e]"
      using send [of "register_text e" ?px] by (simp add: proxy_send_register_request_def)
    have d: "drop_id uuid (px_view px @ [e]) = px_view px"
      using assms(1) e(2) by (simp add: drop_id_append)
    show ?thesis
      using assms(2) e s v d Some
      by (auto simp: proxy_new_entry_def registry_insert_entry_eq registry_delete_eq Let_def split: if_splits)
  qed
qed

theorem proxy_new_entry_all_or_nothing_witness:
  "px_view (snd (proxy_new_entry (example_env (-1)) ''id'' empty_proxy (Some ''camera'') (Some ''camera'')
     TYPE_STREAMER (Some \<lparr>sin_family = AF_INET, sin_port = 5, sin_addr = 7\<rparr>) 3)) = []"
proof -
  have n: "registry_valid_name (Some ''camera'')" "registry_valid_topic (Some ''camera'')"
    by (simp_all add: registry_valid_name_def registry_valid_topic_def letters_def name_chars_def topic_chars_def)
  obtain px' where r: "proxy_new_entry (example_env (-1)) ''id'' empty_proxy (Some ''camera'') (Some ''camera'')
     TYPE_STREAMER (Some \<lparr>sin_family = AF_INET, sin_port = 5, sin_addr = 7\<rparr>) 3 = (None, px')"
    using n by (simp add: proxy_new_entry_def new_registry_entry_def registry_insert_entry_eq entry_ok_def
        proxy_send_register_request_def send_to_registry_def example_env_def addr_clone_def Let_def)
  have "\<not> has_id ''id'' (px_view empty_proxy)" by (simp add: empty_proxy_def new_registry_def)
  from proxy_new_entry_all_or_nothing [OF this r] r show ?thesis
    by (simp add: empty_proxy_def new_registry_def)
qed

end
