(* ===== verification/Httpparser.thy ===== *)
theory Httpparser
  imports Request
begin

text \<open>
  The HTTP parser, librcom/src/http_parser.c, which requests, responses and message links feed with what
  they receive.  The parser is a state machine over the bytes of a buffer: it keeps the position, and a
  mark where a piece of the target, the status, a field or the body began; a piece goes to its callback
  when it ends, or when the buffer ends.  It is compiled in strict mode, and the settings of the library
  never contain callbacks for the start of a message or for chunks.

  An assertion that fails is \<open>Undef\<close>.
\<close>

section \<open>Types\<close>

datatype http_state =
    S_dead | S_start_req_or_res | S_res_or_resp_H | S_start_res | S_res_H | S_res_HT | S_res_HTT
  | S_res_HTTP | S_res_http_major | S_res_http_dot | S_res_http_minor | S_res_http_end
  | S_res_first_status_code | S_res_status_code | S_res_status_start | S_res_status
  | S_res_line_almost_done | S_start_req | S_req_method | S_req_spaces_before_url | S_req_schema
  | S_req_schema_slash | S_req_schema_slash_slash | S_req_server_start | S_req_server
  | S_req_server_with_at | S_req_path | S_req_query_string_start | S_req_query_string
  | S_req_fragment_start | S_req_fragment | S_req_http_start | S_req_http_H | S_req_http_HT
  | S_req_http_HTT | S_req_http_HTTP | S_req_http_major | S_req_http_dot | S_req_http_minor
  | S_req_http_end | S_req_line_almost_done | S_header_field_start | S_header_field
  | S_header_value_discard_ws | S_header_value_discard_ws_almost_done | S_header_value_discard_lws
  | S_header_value_start | S_header_value | S_header_value_lws | S_header_almost_done
  | S_chunk_size_start | S_chunk_size | S_chunk_parameters | S_chunk_size_almost_done
  | S_headers_almost_done | S_headers_done | S_chunk_data | S_chunk_data_almost_done
  | S_chunk_data_done | S_body_identity | S_body_identity_eof | S_message_done

datatype header_states =
    H_general | H_C | H_CO | H_CON | H_matching_connection | H_matching_proxy_connection
  | H_matching_content_length | H_matching_transfer_encoding | H_matching_upgrade | H_connection
  | H_content_length | H_content_length_num | H_content_length_ws | H_transfer_encoding | H_upgrade
  | H_matching_transfer_encoding_chunked | H_matching_connection_token_start
  | H_matching_connection_keep_alive | H_matching_connection_close | H_matching_connection_upgrade
  | H_matching_connection_token | H_transfer_encoding_chunked | H_connection_keep_alive
  | H_connection_close | H_connection_upgrade

datatype http_parser_type = HTTP_REQUEST | HTTP_RESPONSE | HTTP_BOTH

datatype http_errno =
    HPE_OK | HPE_CB_url | HPE_CB_header_field | HPE_CB_header_value | HPE_CB_headers_complete
  | HPE_CB_body | HPE_CB_message_complete | HPE_CB_status | HPE_INVALID_EOF_STATE
  | HPE_HEADER_OVERFLOW | HPE_CLOSED_CONNECTION | HPE_INVALID_VERSION | HPE_INVALID_STATUS
  | HPE_INVALID_METHOD | HPE_INVALID_URL | HPE_LF_EXPECTED | HPE_INVALID_HEADER_TOKEN
  | HPE_INVALID_CONTENT_LENGTH | HPE_UNEXPECTED_CONTENT_LENGTH | HPE_INVALID_CHUNK_SIZE
  | HPE_INVALID_CONSTANT | HPE_STRICT

abbreviation (input) F_CHUNKED :: u8 where "F_CHUNKED \<equiv> 0x01"
abbreviation (input) F_CONNECTION_KEEP_ALIVE :: u8 where "F_CONNECTION_KEEP_ALIVE \<equiv> 0x02"
abbreviation (input) F_CONNECTION_CLOSE :: u8 where "F_CONNECTION_CLOSE \<equiv> 0x04"
abbreviation (input) F_CONNECTION_UPGRADE :: u8 where "F_CONNECTION_UPGRADE \<equiv> 0x08"
abbreviation (input) F_TRAILING :: u8 where "F_TRAILING \<equiv> 0x10"
abbreviation (input) F_UPGRADE :: u8 where "F_UPGRADE \<equiv> 0x20"
abbreviation (input) F_SKIPBODY :: u8 where "F_SKIPBODY \<equiv> 0x40"
abbreviation (input) F_CONTENTLENGTH :: u8 where "F_CONTENTLENGTH \<equiv> 0x80"

abbreviation (input) ULLONG_MAX :: u64 where "ULLONG_MAX \<equiv> - 1"
abbreviation (input) HTTP_MAX_HEADER_SIZE :: nat where "HTTP_MAX_HEADER_SIZE \<equiv> 81920"

record http_parser =
  hp_type :: http_parser_type
  hp_flags :: u8
  hp_state :: http_state
  hp_header_state :: header_states
  hp_index :: nat
  hp_lenient :: bool
  hp_nread :: u32
  hp_content_length :: u64
  hp_major :: u16
  hp_minor :: u16
  hp_status_code :: u16
  hp_method :: nat
  hp_errno :: http_errno
  hp_upgrade :: bool

definition http_parser_init :: "http_parser_type \<Rightarrow> http_parser" where
  "http_parser_init t =
     \<lparr>hp_type = t, hp_flags = 0,
      hp_state = (if t = HTTP_REQUEST then S_start_req
                  else if t = HTTP_RESPONSE then S_start_res else S_start_req_or_res),
      hp_header_state = H_general, hp_index = 0, hp_lenient = False, hp_nread = 0,
      hp_content_length = 0, hp_major = 0, hp_minor = 0, hp_status_code = 0, hp_method = 0,
      hp_errno = HPE_OK, hp_upgrade = False\<rparr>"

section \<open>Characters\<close>

abbreviation asc :: "char \<Rightarrow> u8" where "asc c \<equiv> of_char c"
abbreviation (input) CR :: u8 where "CR \<equiv> 13"
abbreviation (input) LF :: u8 where "LF \<equiv> 10"
abbreviation (input) SP :: u8 where "SP \<equiv> 32"

definition lower8 :: "u8 \<Rightarrow> u8" where
  "lower8 c = c OR 0x20"

definition is_alpha8 :: "u8 \<Rightarrow> bool" where
  "is_alpha8 c \<longleftrightarrow> asc CHR ''a'' \<le> lower8 c \<and> lower8 c \<le> asc CHR ''z''"

definition is_num8 :: "u8 \<Rightarrow> bool" where
  "is_num8 c \<longleftrightarrow> asc CHR ''0'' \<le> c \<and> c \<le> asc CHR ''9''"

definition is_userinfo_char :: "u8 \<Rightarrow> bool" where
  "is_userinfo_char c \<longleftrightarrow> is_alpha8 c \<or> is_num8 c
     \<or> c \<in> set (map of_char (''-_.!~*'' @ [CHR 0x27] @ ''()%;:&=+$,''))"

text \<open>The lower case of a token character, zero for others.\<close>

definition token :: "u8 \<Rightarrow> u8" where
  "token c =
     (if asc CHR ''A'' \<le> c \<and> c \<le> asc CHR ''Z'' then lower8 c
      else if asc CHR ''a'' \<le> c \<and> c \<le> asc CHR ''z'' \<or> is_num8 c
        \<or> c \<in> set (map of_char (''!#$%&'' @ [CHR 0x27] @ ''*+-.^_`|~'')) then c
      else 0)"

definition is_url_char :: "u8 \<Rightarrow> bool" where
  "is_url_char c \<longleftrightarrow> 33 \<le> c \<and> c \<le> 126 \<and> c \<noteq> asc CHR ''#'' \<and> c \<noteq> asc CHR ''?''"

definition is_header_char :: "u8 \<Rightarrow> bool" where
  "is_header_char c \<longleftrightarrow> c = CR \<or> c = LF \<or> c = 9 \<or> (c > 31 \<and> c \<noteq> 127)"

text \<open>The table has no entries from 128 on, which makes them zero and not -1.\<close>

definition unhex :: "u8 \<Rightarrow> u64 option" where
  "unhex c =
     (if is_num8 c then Some (ucast (c - asc CHR ''0''))
      else if asc CHR ''A'' \<le> c \<and> c \<le> asc CHR ''F'' then Some (ucast (c - asc CHR ''A'' + 10))
      else if asc CHR ''a'' \<le> c \<and> c \<le> asc CHR ''f'' then Some (ucast (c - asc CHR ''a'' + 10))
      else if 128 \<le> c then Some 0
      else None)"

text \<open>A character of a C string, with its final zero.\<close>

definition lit_at :: "string \<Rightarrow> nat \<Rightarrow> u8" where
  "lit_at s i = (if i < length s then asc (s ! i) else 0)"

section \<open>Methods\<close>

definition method_strings :: "string list" where
  "method_strings =
     [''DELETE'', ''GET'', ''HEAD'', ''POST'', ''PUT'', ''CONNECT'', ''OPTIONS'', ''TRACE'', ''COPY'', ''LOCK'',
      ''MKCOL'', ''MOVE'', ''PROPFIND'', ''PROPPATCH'', ''SEARCH'', ''UNLOCK'', ''BIND'', ''REBIND'', ''UNBIND'',
      ''ACL'', ''REPORT'', ''MKACTIVITY'', ''CHECKOUT'', ''MERGE'', ''M-SEARCH'', ''NOTIFY'', ''SUBSCRIBE'',
      ''UNSUBSCRIBE'', ''PATCH'', ''PURGE'', ''MKCALENDAR'', ''LINK'', ''UNLINK'', ''SOURCE'']"

text \<open>The method the first letter stands for, and the branches on later letters.\<close>

definition first_method :: "u8 \<Rightarrow> nat option" where
  "first_method ch =
     map_of [(asc CHR ''A'', 19), (asc CHR ''B'', 16), (asc CHR ''C'', 5), (asc CHR ''D'', 0), (asc CHR ''G'', 1),
             (asc CHR ''H'', 2), (asc CHR ''L'', 9), (asc CHR ''M'', 10), (asc CHR ''N'', 25), (asc CHR ''O'', 6),
             (asc CHR ''P'', 3), (asc CHR ''R'', 20), (asc CHR ''S'', 26), (asc CHR ''T'', 7),
             (asc CHR ''U'', 15)] ch"

definition other_method :: "nat \<Rightarrow> nat \<Rightarrow> u8 \<Rightarrow> nat option" where
  "other_method m i ch =
     map_of [((3, 1, asc CHR ''U''), 4), ((3, 1, asc CHR ''A''), 28), ((3, 1, asc CHR ''R''), 12),
             ((4, 2, asc CHR ''R''), 29), ((5, 1, asc CHR ''H''), 22), ((5, 2, asc CHR ''P''), 8),
             ((10, 1, asc CHR ''O''), 11), ((10, 1, asc CHR ''E''), 23), ((10, 1, asc CHR ''-''), 24),
             ((10, 2, asc CHR ''A''), 21), ((10, 3, asc CHR ''A''), 30), ((26, 1, asc CHR ''E''), 14),
             ((26, 1, asc CHR ''O''), 33), ((20, 2, asc CHR ''B''), 17), ((12, 4, asc CHR ''P''), 13),
             ((9, 1, asc CHR ''I''), 31), ((15, 2, asc CHR ''S''), 27), ((15, 2, asc CHR ''B''), 18),
             ((15, 3, asc CHR ''I''), 32)] (m, i, ch)"

section \<open>Targets\<close>

definition url_path :: "u8 \<Rightarrow> http_state \<Rightarrow> http_state \<Rightarrow> http_state \<Rightarrow> http_state" where
  "url_path ch char query fragment =
     (if is_url_char ch then char
      else if ch = asc CHR ''?'' then query
      else if ch = asc CHR ''#'' then fragment else S_dead)"

definition url_server :: "u8 \<Rightarrow> http_state" where
  "url_server ch =
     (if ch = asc CHR ''/'' then S_req_path
      else if ch = asc CHR ''?'' then S_req_query_string_start
      else if ch = asc CHR ''@'' then S_req_server_with_at
      else if is_userinfo_char ch \<or> ch = asc CHR ''['' \<or> ch = asc CHR '']'' then S_req_server
      else S_dead)"

definition parse_url_char :: "http_state \<Rightarrow> u8 \<Rightarrow> http_state" where
  "parse_url_char s ch =
     (if ch = SP \<or> ch = CR \<or> ch = LF then S_dead
      else if ch = 9 \<or> ch = 12 then S_dead
      else case s of
        S_req_spaces_before_url \<Rightarrow>
          if ch = asc CHR ''/'' \<or> ch = asc CHR ''*'' then S_req_path
          else if is_alpha8 ch then S_req_schema else S_dead
      | S_req_schema \<Rightarrow>
          if is_alpha8 ch then S_req_schema
          else if ch = asc CHR '':'' then S_req_schema_slash else S_dead
      | S_req_schema_slash \<Rightarrow> if ch = asc CHR ''/'' then S_req_schema_slash_slash else S_dead
      | S_req_schema_slash_slash \<Rightarrow> if ch = asc CHR ''/'' then S_req_server_start else S_dead
      | S_req_server_with_at \<Rightarrow> if ch = asc CHR ''@'' then S_dead else url_server ch
      | S_req_server_start \<Rightarrow> url_server ch
      | S_req_server \<Rightarrow> url_server ch
      | S_req_path \<Rightarrow> url_path ch S_req_path S_req_query_string_start S_req_fragment_start
      | S_req_query_string_start \<Rightarrow> url_path ch S_req_query_string S_req_query_string S_req_fragment_start
      | S_req_query_string \<Rightarrow> url_path ch S_req_query_string S_req_query_string S_req_fragment_start
      | S_req_fragment_start \<Rightarrow> url_path ch S_req_fragment S_req_fragment S_req_fragment_start
      | S_req_fragment \<Rightarrow> url_path ch S_req_fragment S_req_fragment S_req_fragment
      | _ \<Rightarrow> S_dead)"

section \<open>The state of a run\<close>

text \<open>
  A mark is the list of bytes from where it was set to the current position.  The local copies of the
  state and of the bytes counted are those of the parser; nothing else looks at them during a run.
\<close>

datatype mark = MField | MValue | MUrl | MBody | MStatus

record 's exec =
  ep :: http_parser
  marks :: "mark \<Rightarrow> bytes option"
  pos :: nat
  eu :: 's

text \<open>How the switch ends: the loop goes on with the next byte, the switch is entered again with a
  character, or the function returns.  The list starts at the current position.\<close>

datatype 's act = Break "'s exec" bytes | Reexecute "'s exec" u8 bytes | Return nat "'s exec"

type_synonym 's callback = "'s \<Rightarrow> http_event \<Rightarrow> (int \<times> 's) outcome"

definition upd :: "(http_parser \<Rightarrow> http_parser) \<Rightarrow> 's exec \<Rightarrow> 's exec" where
  "upd f e = e\<lparr>ep := f (ep e)\<rparr>"

abbreviation update_state :: "http_state \<Rightarrow> 's exec \<Rightarrow> 's exec" where
  "update_state s \<equiv> upd (\<lambda>p. p\<lparr>hp_state := s\<rparr>)"

definition fail :: "http_errno \<Rightarrow> 's exec \<Rightarrow> 's act outcome" where
  "fail er e = Ret (Return (pos e) (upd (\<lambda>p. p\<lparr>hp_errno := er\<rparr>) e))"

definition move :: "bytes \<Rightarrow> 's exec \<Rightarrow> 's exec" where
  "move bs e = e\<lparr>marks := (\<lambda>k. map_option (\<lambda>m. m @ bs) (marks e k)), pos := pos e + length bs\<rparr>"

definition set_mark :: "mark \<Rightarrow> 's exec \<Rightarrow> 's exec" where
  "set_mark k e = (if marks e k = None then e\<lparr>marks := (marks e)(k := Some [])\<rparr> else e)"

definition count_header_size :: "nat \<Rightarrow> 's exec \<Rightarrow> ('s exec \<Rightarrow> 's act outcome) \<Rightarrow> 's act outcome" where
  "count_header_size n e k =
     (let e = upd (\<lambda>p. p\<lparr>hp_nread := hp_nread p + of_nat n\<rparr>) e
      in if unat (hp_nread (ep e)) > HTTP_MAX_HEADER_SIZE then fail HPE_HEADER_OVERFLOW e else k e)"

text \<open>A callback that reports an error ends the run; \<open>advance\<close> counts the current byte as read.\<close>

definition call :: "'s callback \<Rightarrow> http_event \<Rightarrow> http_errno \<Rightarrow> nat \<Rightarrow> 's exec \<Rightarrow> ('s exec \<Rightarrow> 's act outcome)
   \<Rightarrow> 's act outcome" where
  "call cb ev er advance e k =
     (if hp_errno (ep e) \<noteq> HPE_OK then Undef
      else bind_out (cb (eu e) ev) (\<lambda>(r, u).
        let e = e\<lparr>eu := u\<rparr>
        in if r \<noteq> 0 then Ret (Return (pos e + advance) (upd (\<lambda>p. p\<lparr>hp_errno := er\<rparr>) e)) else k e))"

text \<open>The callbacks that are never set.\<close>

definition no_callback :: "'s exec \<Rightarrow> ('s exec \<Rightarrow> 's act outcome) \<Rightarrow> 's act outcome" where
  "no_callback e k = (if hp_errno (ep e) \<noteq> HPE_OK then Undef else k e)"

definition callback_notify :: "'s callback \<Rightarrow> nat \<Rightarrow> 's exec \<Rightarrow> ('s exec \<Rightarrow> 's act outcome) \<Rightarrow> 's act outcome" where
  "callback_notify cb advance e k = call cb OnComplete HPE_CB_message_complete advance e k"

fun mark_event :: "mark \<Rightarrow> bytes \<Rightarrow> http_event" where
  "mark_event MField bs = OnField (string_of bs)"
| "mark_event MValue bs = OnValue (string_of bs)"
| "mark_event MUrl bs = OnUrl (string_of bs)"
| "mark_event MBody bs = OnBody bs"
| "mark_event MStatus bs = OnStatus (string_of bs)"

fun mark_errno :: "mark \<Rightarrow> http_errno" where
  "mark_errno MField = HPE_CB_header_field"
| "mark_errno MValue = HPE_CB_header_value"
| "mark_errno MUrl = HPE_CB_url"
| "mark_errno MBody = HPE_CB_body"
| "mark_errno MStatus = HPE_CB_status"

definition callback_data ::
  "'s callback \<Rightarrow> mark \<Rightarrow> nat \<Rightarrow> 's exec \<Rightarrow> ('s exec \<Rightarrow> 's act outcome) \<Rightarrow> 's act outcome" where
  "callback_data cb m advance e k =
     (if hp_errno (ep e) \<noteq> HPE_OK then Undef
      else case marks e m of
        None \<Rightarrow> k e
      | Some bs \<Rightarrow> call cb (mark_event m bs) (mark_errno m) advance e
                     (\<lambda>e. k (e\<lparr>marks := (marks e)(m := None)\<rparr>)))"

abbreviation go :: "http_state \<Rightarrow> bytes \<Rightarrow> 's exec \<Rightarrow> 's act outcome" where
  "go s bs e \<equiv> Ret (Break (update_state s e) bs)"

definition expect :: "u8 \<Rightarrow> char \<Rightarrow> http_state \<Rightarrow> bytes \<Rightarrow> 's exec \<Rightarrow> 's act outcome" where
  "expect ch c s bs e = (if ch \<noteq> asc c then fail HPE_STRICT e else go s bs e)"

subsection \<open>Keeping the connection\<close>

definition http_message_needs_eof :: "http_parser \<Rightarrow> bool" where
  "http_message_needs_eof p \<longleftrightarrow>
     (if hp_type p = HTTP_REQUEST then False
      else if hp_status_code p div 100 = 1 \<or> hp_status_code p = 204 \<or> hp_status_code p = 304
        \<or> hp_flags p AND F_SKIPBODY \<noteq> 0 then False
      else if hp_flags p AND F_CHUNKED \<noteq> 0 \<or> hp_content_length p \<noteq> ULLONG_MAX then False
      else True)"

definition http_should_keep_alive :: "http_parser \<Rightarrow> bool" where
  "http_should_keep_alive p \<longleftrightarrow>
     (if hp_major p > 0 \<and> hp_minor p > 0
      then hp_flags p AND F_CONNECTION_CLOSE = 0
      else hp_flags p AND F_CONNECTION_KEEP_ALIVE \<noteq> 0)
     \<and> \<not> http_message_needs_eof p"

definition start_state :: "http_parser \<Rightarrow> http_state" where
  "start_state p = (if hp_type p = HTTP_REQUEST then S_start_req else S_start_res)"

definition new_message :: "'s exec \<Rightarrow> 's exec" where
  "new_message e =
     update_state (if http_should_keep_alive (ep e) then start_state (ep e) else S_dead) e"

section \<open>The switch\<close>

subsection \<open>Start line\<close>

definition version_digit :: "(u16 \<Rightarrow> http_parser \<Rightarrow> http_parser) \<Rightarrow> http_state \<Rightarrow> u8 \<Rightarrow> bytes \<Rightarrow> 's exec
   \<Rightarrow> 's act outcome" where
  "version_digit store s ch bs e =
     (if \<not> is_num8 ch then fail HPE_INVALID_VERSION e
      else go s bs (upd (store (ucast (ch - asc CHR ''0''))) e))"

abbreviation set_major :: "u16 \<Rightarrow> http_parser \<Rightarrow> http_parser" where
  "set_major v p \<equiv> p\<lparr>hp_major := v\<rparr>"

abbreviation set_minor :: "u16 \<Rightarrow> http_parser \<Rightarrow> http_parser" where
  "set_minor v p \<equiv> p\<lparr>hp_minor := v\<rparr>"

abbreviation reset_message :: "'s exec \<Rightarrow> 's exec" where
  "reset_message e \<equiv> upd (\<lambda>p. p\<lparr>hp_flags := 0, hp_content_length := ULLONG_MAX\<rparr>) e"

definition step_status_code :: "u8 \<Rightarrow> bytes \<Rightarrow> 's exec \<Rightarrow> 's act outcome" where
  "step_status_code ch bs e =
     (if \<not> is_num8 ch then
        (if ch = SP then go S_res_status_start bs e
         else if ch = CR \<or> ch = LF then Ret (Reexecute (update_state S_res_status_start e) ch bs)
         else fail HPE_INVALID_STATUS e)
      else let e = upd (\<lambda>p. p\<lparr>hp_status_code := hp_status_code p * 10 + ucast (ch - asc CHR ''0'')\<rparr>) e
           in if hp_status_code (ep e) > 999 then fail HPE_INVALID_STATUS e else Ret (Break e bs))"

definition step_response :: "'s callback \<Rightarrow> u8 \<Rightarrow> bytes \<Rightarrow> 's exec \<Rightarrow> 's act outcome" where
  "step_response cb ch bs e =
     (case hp_state (ep e) of
        S_start_req_or_res \<Rightarrow>
          if ch = CR \<or> ch = LF then Ret (Break e bs)
          else let e = reset_message e
               in if ch = asc CHR ''H'' then no_callback (update_state S_res_or_resp_H e) (\<lambda>e. Ret (Break e bs))
                  else Ret (Reexecute (update_state S_start_req (upd (\<lambda>p. p\<lparr>hp_type := HTTP_REQUEST\<rparr>) e)) ch bs)
      | S_res_or_resp_H \<Rightarrow>
          if ch = asc CHR ''T'' then go S_res_HT bs (upd (\<lambda>p. p\<lparr>hp_type := HTTP_RESPONSE\<rparr>) e)
          else if ch \<noteq> asc CHR ''E'' then fail HPE_INVALID_CONSTANT e
          else go S_req_method bs (upd (\<lambda>p. p\<lparr>hp_type := HTTP_REQUEST, hp_method := 2, hp_index := 2\<rparr>) e)
      | S_start_res \<Rightarrow>
          if ch = CR \<or> ch = LF then Ret (Break e bs)
          else let e = reset_message e
               in if ch = asc CHR ''H'' then no_callback (update_state S_res_H e) (\<lambda>e. Ret (Break e bs)) else fail HPE_INVALID_CONSTANT e
      | S_res_H \<Rightarrow> expect ch CHR ''T'' S_res_HT bs e
      | S_res_HT \<Rightarrow> expect ch CHR ''T'' S_res_HTT bs e
      | S_res_HTT \<Rightarrow> expect ch CHR ''P'' S_res_HTTP bs e
      | S_res_HTTP \<Rightarrow> expect ch CHR ''/'' S_res_http_major bs e
      | S_res_http_major \<Rightarrow> version_digit set_major S_res_http_dot ch bs e
      | S_res_http_dot \<Rightarrow>
          if ch \<noteq> asc CHR ''.'' then fail HPE_INVALID_VERSION e else go S_res_http_minor bs e
      | S_res_http_minor \<Rightarrow> version_digit set_minor S_res_http_end ch bs e
      | S_res_http_end \<Rightarrow>
          if ch \<noteq> SP then fail HPE_INVALID_VERSION e else go S_res_first_status_code bs e
      | S_res_first_status_code \<Rightarrow>
          if \<not> is_num8 ch then (if ch = SP then Ret (Break e bs) else fail HPE_INVALID_STATUS e)
          else go S_res_status_code bs (upd (\<lambda>p. p\<lparr>hp_status_code := ucast (ch - asc CHR ''0'')\<rparr>) e)
      | S_res_status_code \<Rightarrow> step_status_code ch bs e
      | S_res_status_start \<Rightarrow>
          let e = upd (\<lambda>p. p\<lparr>hp_state := S_res_status, hp_index := 0\<rparr>) (set_mark MStatus e)
          in if ch = CR \<or> ch = LF then Ret (Reexecute e ch bs) else Ret (Break e bs)
      | S_res_status \<Rightarrow>
          if ch = CR then callback_data cb MStatus 1 (update_state S_res_line_almost_done e) (\<lambda>e. Ret (Break e bs))
          else if ch = LF then callback_data cb MStatus 1 (update_state S_header_field_start e) (\<lambda>e. Ret (Break e bs))
          else Ret (Break e bs)
      | _ \<Rightarrow> if ch \<noteq> LF then fail HPE_STRICT e else go S_header_field_start bs e)"

definition step_method :: "u8 \<Rightarrow> bytes \<Rightarrow> 's exec \<Rightarrow> 's act outcome" where
  "step_method ch bs e =
     (let p = ep e; e' = upd (\<lambda>p. p\<lparr>hp_index := hp_index p + 1\<rparr>) e
      in if ch = 0 then fail HPE_INVALID_METHOD e
         else if length method_strings \<le> hp_method p \<or> length (method_strings ! hp_method p) < hp_index p then Undef
         else
           let c = lit_at (method_strings ! hp_method p) (hp_index p)
           in if ch = SP \<and> c = 0 then go S_req_spaces_before_url bs e'
              else if ch = c then Ret (Break e' bs)
              else if asc CHR ''A'' \<le> ch \<and> ch \<le> asc CHR ''Z'' \<or> ch = asc CHR ''-'' then
                (case other_method (hp_method p) (hp_index p) ch of
                   None \<Rightarrow> fail HPE_INVALID_METHOD e
                 | Some m \<Rightarrow> Ret (Break (upd (\<lambda>p. p\<lparr>hp_method := m\<rparr>) e') bs))
              else fail HPE_INVALID_METHOD e)"

definition step_url :: "u8 \<Rightarrow> bytes \<Rightarrow> 's exec \<Rightarrow> 's act outcome" where
  "step_url ch bs e =
     (let s = parse_url_char (hp_state (ep e)) ch
      in if s = S_dead then fail HPE_INVALID_URL (update_state s e) else go s bs e)"

text \<open>A target must not end inside the scheme or before the server.\<close>

definition step_url_start :: "u8 \<Rightarrow> bytes \<Rightarrow> 's exec \<Rightarrow> 's act outcome" where
  "step_url_start ch bs e =
     (if ch = SP \<or> ch = CR \<or> ch = LF then fail HPE_INVALID_URL e else step_url ch bs e)"

definition step_url_rest :: "'s callback \<Rightarrow> u8 \<Rightarrow> bytes \<Rightarrow> 's exec \<Rightarrow> 's act outcome" where
  "step_url_rest cb ch bs e =
     (if ch = SP then callback_data cb MUrl 1 (update_state S_req_http_start e) (\<lambda>e. Ret (Break e bs))
      else if ch = CR \<or> ch = LF then
        callback_data cb MUrl 1
          (upd (\<lambda>p. p\<lparr>hp_major := 0, hp_minor := 9,
                     hp_state := (if ch = CR then S_req_line_almost_done else S_header_field_start)\<rparr>) e)
          (\<lambda>e. Ret (Break e bs))
      else step_url ch bs e)"

definition step_request :: "'s callback \<Rightarrow> u8 \<Rightarrow> bytes \<Rightarrow> 's exec \<Rightarrow> 's act outcome" where
  "step_request cb ch bs e =
     (case hp_state (ep e) of
        S_start_req \<Rightarrow>
          if ch = CR \<or> ch = LF then Ret (Break e bs)
          else let e = reset_message e
               in if \<not> is_alpha8 ch then fail HPE_INVALID_METHOD e
                  else (case first_method ch of
                          None \<Rightarrow> fail HPE_INVALID_METHOD (upd (\<lambda>p. p\<lparr>hp_method := 0, hp_index := 1\<rparr>) e)
                        | Some m \<Rightarrow> no_callback (upd (\<lambda>p. p\<lparr>hp_method := m, hp_index := 1, hp_state := S_req_method\<rparr>) e)
                                      (\<lambda>e. Ret (Break e bs)))
      | S_req_method \<Rightarrow> step_method ch bs e
      | S_req_spaces_before_url \<Rightarrow>
          if ch = SP then Ret (Break e bs)
          else let e = set_mark MUrl e
               in step_url ch bs (if hp_method (ep e) = 5 then update_state S_req_server_start e else e)
      | S_req_schema \<Rightarrow> step_url_start ch bs e
      | S_req_schema_slash \<Rightarrow> step_url_start ch bs e
      | S_req_schema_slash_slash \<Rightarrow> step_url_start ch bs e
      | S_req_server_start \<Rightarrow> step_url_start ch bs e
      | S_req_http_start \<Rightarrow>
          if ch = asc CHR ''H'' then go S_req_http_H bs e
          else if ch = SP then Ret (Break e bs)
          else fail HPE_INVALID_CONSTANT e
      | S_req_http_H \<Rightarrow> expect ch CHR ''T'' S_req_http_HT bs e
      | S_req_http_HT \<Rightarrow> expect ch CHR ''T'' S_req_http_HTT bs e
      | S_req_http_HTT \<Rightarrow> expect ch CHR ''P'' S_req_http_HTTP bs e
      | S_req_http_HTTP \<Rightarrow> expect ch CHR ''/'' S_req_http_major bs e
      | S_req_http_major \<Rightarrow> version_digit set_major S_req_http_dot ch bs e
      | S_req_http_dot \<Rightarrow>
          if ch \<noteq> asc CHR ''.'' then fail HPE_INVALID_VERSION e else go S_req_http_minor bs e
      | S_req_http_minor \<Rightarrow> version_digit set_minor S_req_http_end ch bs e
      | S_req_http_end \<Rightarrow>
          if ch = CR then go S_req_line_almost_done bs e
          else if ch = LF then go S_header_field_start bs e
          else fail HPE_INVALID_VERSION e
      | S_req_line_almost_done \<Rightarrow>
          if ch \<noteq> LF then fail HPE_LF_EXPECTED e else go S_header_field_start bs e
      | _ \<Rightarrow> step_url_rest cb ch bs e)"

subsection \<open>Header names\<close>

text \<open>One more character of a name that may be special: \<open>matched\<close> once the last one is read.\<close>

definition match_name :: "string \<Rightarrow> header_states \<Rightarrow> header_states \<Rightarrow> header_states \<Rightarrow> nat \<Rightarrow> u8 \<Rightarrow> header_states" where
  "match_name name matching other matched i c =
     (if i > length name \<or> c \<noteq> lit_at name i then other
      else if i = length name - 1 then matched else matching)"

abbreviation (input) names_CONNECTION :: string where "names_CONNECTION \<equiv> ''connection''"
abbreviation (input) names_PROXY_CONNECTION :: string where "names_PROXY_CONNECTION \<equiv> ''proxy-connection''"
abbreviation (input) names_CONTENT_LENGTH :: string where "names_CONTENT_LENGTH \<equiv> ''content-length''"
abbreviation (input) names_TRANSFER_ENCODING :: string where "names_TRANSFER_ENCODING \<equiv> ''transfer-encoding''"
abbreviation (input) names_UPGRADE :: string where "names_UPGRADE \<equiv> ''upgrade''"

text \<open>The state of the header and the index after one character \<open>ch\<close>, whose token is \<open>c\<close>.\<close>

definition field_char :: "header_states \<Rightarrow> nat \<Rightarrow> u8 \<Rightarrow> u8 \<Rightarrow> (header_states \<times> nat) outcome" where
  "field_char h i c ch =
     (case h of
        H_general \<Rightarrow> Ret (H_general, i)
      | H_C \<Rightarrow> Ret (if c = asc CHR ''o'' then H_CO else H_general, i + 1)
      | H_CO \<Rightarrow> Ret (if c = asc CHR ''n'' then H_CON else H_general, i + 1)
      | H_CON \<Rightarrow>
          Ret (if c = asc CHR ''n'' then H_matching_connection
               else if c = asc CHR ''t'' then H_matching_content_length else H_general, i + 1)
      | H_matching_connection \<Rightarrow> Ret (match_name names_CONNECTION h H_general H_connection (i + 1) c, i + 1)
      | H_matching_proxy_connection \<Rightarrow>
          Ret (match_name names_PROXY_CONNECTION h H_general H_connection (i + 1) c, i + 1)
      | H_matching_content_length \<Rightarrow>
          Ret (match_name names_CONTENT_LENGTH h H_general H_content_length (i + 1) c, i + 1)
      | H_matching_transfer_encoding \<Rightarrow>
          Ret (match_name names_TRANSFER_ENCODING h H_general H_transfer_encoding (i + 1) c, i + 1)
      | H_matching_upgrade \<Rightarrow> Ret (match_name names_UPGRADE h H_general H_upgrade (i + 1) c, i + 1)
      | H_connection \<Rightarrow> Ret (if ch \<noteq> SP then H_general else h, i)
      | H_content_length \<Rightarrow> Ret (if ch \<noteq> SP then H_general else h, i)
      | H_transfer_encoding \<Rightarrow> Ret (if ch \<noteq> SP then H_general else h, i)
      | H_upgrade \<Rightarrow> Ret (if ch \<noteq> SP then H_general else h, i)
      | _ \<Rightarrow> Undef)"

text \<open>The inner loop over the token characters, and how many there were.\<close>

fun field_loop :: "header_states \<Rightarrow> nat \<Rightarrow> bytes \<Rightarrow> (header_states \<times> nat \<times> nat) outcome" where
  "field_loop h i [] = Ret (h, i, 0)"
| "field_loop h i (ch # cs) =
     (if token ch = 0 then Ret (h, i, 0)
      else bind_out (field_char h i (token ch) ch) (\<lambda>(h, i).
           map_out (\<lambda>(h, i, n). (h, i, n + 1)) (field_loop h i cs)))"

definition step_header_field_start :: "u8 \<Rightarrow> bytes \<Rightarrow> 's exec \<Rightarrow> 's act outcome" where
  "step_header_field_start ch bs e =
     (if ch = CR then go S_headers_almost_done bs e
      else if ch = LF then Ret (Reexecute (update_state S_headers_almost_done e) ch bs)
      else
        let c = token ch
        in if c = 0 then fail HPE_INVALID_HEADER_TOKEN e
           else Ret (Break (upd (\<lambda>p. p\<lparr>hp_index := 0, hp_state := S_header_field,
                 hp_header_state := (if c = asc CHR ''c'' then H_C
                   else if c = asc CHR ''p'' then H_matching_proxy_connection
                   else if c = asc CHR ''t'' then H_matching_transfer_encoding
                   else if c = asc CHR ''u'' then H_matching_upgrade
                   else H_general)\<rparr>) (set_mark MField e)) bs))"

definition step_header_field :: "'s callback \<Rightarrow> bytes \<Rightarrow> 's exec \<Rightarrow> 's act outcome" where
  "step_header_field cb bs e =
     bind_out (field_loop (hp_header_state (ep e)) (hp_index (ep e)) bs) (\<lambda>(h, i, n).
       let e = upd (\<lambda>p. p\<lparr>hp_header_state := h, hp_index := i\<rparr>) e
       in if n = length bs then
            count_header_size (n - 1) (move (take (n - 1) bs) e) (\<lambda>e. Ret (Break e (drop (n - 1) bs)))
          else count_header_size n (move (take n bs) e) (\<lambda>e.
            if bs ! n = asc CHR '':'' then
              callback_data cb MField 1 (update_state S_header_value_discard_ws e) (\<lambda>e. Ret (Break e (drop n bs)))
            else fail HPE_INVALID_HEADER_TOKEN e))"

subsection \<open>Header values\<close>

definition step_header_value_start :: "u8 \<Rightarrow> bytes \<Rightarrow> 's exec \<Rightarrow> 's act outcome" where
  "step_header_value_start ch bs e =
     (let e = upd (\<lambda>p. p\<lparr>hp_state := S_header_value, hp_index := 0\<rparr>) (set_mark MValue e);
          c = lower8 ch; header = (\<lambda>h. Ret (Break (upd (\<lambda>p. p\<lparr>hp_header_state := h\<rparr>) e) bs))
      in case hp_header_state (ep e) of
        H_upgrade \<Rightarrow>
          Ret (Break (upd (\<lambda>p. p\<lparr>hp_flags := hp_flags p OR F_UPGRADE, hp_header_state := H_general\<rparr>) e) bs)
      | H_transfer_encoding \<Rightarrow>
          header (if c = asc CHR ''c'' then H_matching_transfer_encoding_chunked else H_general)
      | H_content_length \<Rightarrow>
          if \<not> is_num8 ch then fail HPE_INVALID_CONTENT_LENGTH e
          else if hp_flags (ep e) AND F_CONTENTLENGTH \<noteq> 0 then fail HPE_UNEXPECTED_CONTENT_LENGTH e
          else Ret (Break (upd (\<lambda>p. p\<lparr>hp_flags := hp_flags p OR F_CONTENTLENGTH,
                 hp_content_length := ucast (ch - asc CHR ''0''),
                 hp_header_state := H_content_length_num\<rparr>) e) bs)
      | H_connection \<Rightarrow>
          header (if c = asc CHR ''k'' then H_matching_connection_keep_alive
                  else if c = asc CHR ''c'' then H_matching_connection_close
                  else if c = asc CHR ''u'' then H_matching_connection_upgrade
                  else H_matching_connection_token)
      | H_matching_connection_token_start \<Rightarrow> Ret (Break e bs)
      | _ \<Rightarrow> header H_general)"

text \<open>
  The inner loop works on a local copy of the state of the header.  It ends at a line end, at the end
  of the buffer or with an error.
\<close>

datatype value_end = At_CR | At_LF | At_end | At_error http_errno

abbreviation line_end :: "u8 \<Rightarrow> bool" where
  "line_end c \<equiv> c = CR \<or> c = LF"

text \<open>A decimal digit, with the test for overflow.\<close>

definition length_digit :: "u8 \<Rightarrow> http_parser \<Rightarrow> (http_errno option \<times> header_states \<times> http_parser)" where
  "length_digit ch p =
     (if ch = SP then (None, H_content_length_ws, p)
      else if \<not> is_num8 ch then
        (Some HPE_INVALID_CONTENT_LENGTH, H_content_length_num, p\<lparr>hp_header_state := H_content_length_num\<rparr>)
      else
        let t = hp_content_length p * 10 + ucast (ch - asc CHR ''0'')
        in if (ULLONG_MAX - 10) div 10 < hp_content_length p then
             (Some HPE_INVALID_CONTENT_LENGTH, H_content_length_num, p\<lparr>hp_header_state := H_content_length_num\<rparr>)
           else (None, H_content_length_num, p\<lparr>hp_content_length := t\<rparr>))"

definition next_name :: "string \<Rightarrow> header_states \<Rightarrow> header_states \<Rightarrow> header_states \<Rightarrow> u8 \<Rightarrow> http_parser
   \<Rightarrow> (http_errno option \<times> header_states \<times> http_parser)" where
  "next_name name matching other matched c p =
     (None, match_name name matching other matched (hp_index p + 1) c, p\<lparr>hp_index := hp_index p + 1\<rparr>)"

text \<open>After one of the known connection options.\<close>

definition option_end :: "u8 \<Rightarrow> header_states \<Rightarrow> u8 \<Rightarrow> http_parser
   \<Rightarrow> (http_errno option \<times> header_states \<times> http_parser)" where
  "option_end flag h ch p =
     (if ch = asc CHR '','' then
        (None, H_matching_connection_token_start, p\<lparr>hp_flags := hp_flags p OR flag, hp_index := 0\<rparr>)
      else if ch \<noteq> SP then (None, H_matching_connection_token, p)
      else (None, h, p))"

definition value_char :: "header_states \<Rightarrow> u8 \<Rightarrow> http_parser
   \<Rightarrow> (http_errno option \<times> header_states \<times> http_parser) outcome" where
  "value_char h ch p =
     (let c = lower8 ch
      in case h of
        H_connection \<Rightarrow> Undef
      | H_transfer_encoding \<Rightarrow> Undef
      | H_content_length \<Rightarrow> if ch = SP then Ret (None, h, p) else Ret (length_digit ch p)
      | H_content_length_num \<Rightarrow> Ret (length_digit ch p)
      | H_content_length_ws \<Rightarrow>
          if ch = SP then Ret (None, h, p)
          else Ret (Some HPE_INVALID_CONTENT_LENGTH, h, p\<lparr>hp_header_state := h\<rparr>)
      | H_matching_transfer_encoding_chunked \<Rightarrow>
          Ret (next_name ''chunked'' h H_general H_transfer_encoding_chunked c p)
      | H_matching_connection_token_start \<Rightarrow>
          Ret (None, if c = asc CHR ''k'' then H_matching_connection_keep_alive
               else if c = asc CHR ''c'' then H_matching_connection_close
               else if c = asc CHR ''u'' then H_matching_connection_upgrade
               else if token c \<noteq> 0 then H_matching_connection_token
               else if c = SP \<or> c = 9 then h
               else H_general, p)
      | H_matching_connection_keep_alive \<Rightarrow>
          Ret (next_name ''keep-alive'' h H_matching_connection_token H_connection_keep_alive c p)
      | H_matching_connection_close \<Rightarrow>
          Ret (next_name ''close'' h H_matching_connection_token H_connection_close c p)
      | H_matching_connection_upgrade \<Rightarrow>
          Ret (next_name names_UPGRADE h H_matching_connection_token H_connection_upgrade c p)
      | H_matching_connection_token \<Rightarrow>
          if ch = asc CHR '','' then Ret (None, H_matching_connection_token_start, p\<lparr>hp_index := 0\<rparr>)
          else Ret (None, h, p)
      | H_transfer_encoding_chunked \<Rightarrow> Ret (None, if ch \<noteq> SP then H_general else h, p)
      | H_connection_keep_alive \<Rightarrow> Ret (option_end F_CONNECTION_KEEP_ALIVE h ch p)
      | H_connection_close \<Rightarrow> Ret (option_end F_CONNECTION_CLOSE h ch p)
      | H_connection_upgrade \<Rightarrow> Ret (option_end F_CONNECTION_UPGRADE h ch p)
      | _ \<Rightarrow> Ret (None, H_general, p))"

text \<open>
  A plain value is skipped up to the next line end, which is searched in as many bytes as a header may
  have; without one the whole buffer is skipped.
\<close>

definition skip_general :: "bytes \<Rightarrow> nat" where
  "skip_general bs =
     (let w = take HTTP_MAX_HEADER_SIZE bs
      in if list_ex line_end w then length (takeWhile (\<lambda>c. \<not> line_end c) w) else length bs)"

text \<open>Why the loop ended, the local state of the header, the parser, and the bytes passed.\<close>

function value_loop :: "header_states \<Rightarrow> http_parser \<Rightarrow> bytes
   \<Rightarrow> (value_end \<times> header_states \<times> http_parser \<times> nat) outcome" where
  "value_loop h p [] = Ret (At_end, h, p, 0)"
| "value_loop h p (ch # cs) =
     (if ch = CR then Ret (At_CR, h, p, 0)
      else if ch = LF then Ret (At_LF, h, p, 0)
      else if \<not> hp_lenient p \<and> \<not> is_header_char ch then Ret (At_error HPE_INVALID_HEADER_TOKEN, h, p, 0)
      else if h = H_general then
        (let k = skip_general (ch # cs) - 1
         in map_out (\<lambda>(r, h, p, n). (r, h, p, k + 1 + n)) (value_loop h p (drop k cs)))
      else bind_out (value_char h ch p) (\<lambda>(err, h, p).
        case err of
          Some er \<Rightarrow> Ret (At_error er, h, p, 0)
        | None \<Rightarrow> map_out (\<lambda>(r, h, p, n). (r, h, p, n + 1)) (value_loop h p cs)))"
  by pat_completeness auto
termination
  by (relation "measure (\<lambda>(h, p, bs). length bs)") auto

declare value_loop.simps(2) [simp del]

definition step_header_value :: "'s callback \<Rightarrow> bytes \<Rightarrow> 's exec \<Rightarrow> 's act outcome" where
  "step_header_value cb bs e =
     bind_out (value_loop (hp_header_state (ep e)) (ep e) bs) (\<lambda>(r, h, p, n).
       let e = e\<lparr>ep := p\<rparr>; store = upd (\<lambda>p. p\<lparr>hp_header_state := h\<rparr>)
       in case r of
            At_CR \<Rightarrow>
              callback_data cb MValue 1 (update_state S_header_almost_done (store (move (take n bs) e)))
                (\<lambda>e. count_header_size n e (\<lambda>e. Ret (Break e (drop n bs))))
          | At_LF \<Rightarrow>
              count_header_size n (update_state S_header_almost_done (move (take n bs) e)) (\<lambda>e.
                callback_data cb MValue 0 (store e) (\<lambda>e. Ret (Reexecute e LF (drop n bs))))
          | At_end \<Rightarrow>
              count_header_size (n - 1) (store (move (take (n - 1) bs) e)) (\<lambda>e. Ret (Break e (drop (n - 1) bs)))
          | At_error er \<Rightarrow> fail er (move (take n bs) e))"

text \<open>What a finished header means for the message.\<close>

definition finish_header :: "http_parser \<Rightarrow> http_parser" where
  "finish_header p =
     p\<lparr>hp_flags := hp_flags p OR
        (case hp_header_state p of
           H_connection_keep_alive \<Rightarrow> F_CONNECTION_KEEP_ALIVE
         | H_connection_close \<Rightarrow> F_CONNECTION_CLOSE
         | H_transfer_encoding_chunked \<Rightarrow> F_CHUNKED
         | H_connection_upgrade \<Rightarrow> F_CONNECTION_UPGRADE
         | _ \<Rightarrow> 0)\<rparr>"

definition step_header_lws :: "'s callback \<Rightarrow> u8 \<Rightarrow> bytes \<Rightarrow> 's exec \<Rightarrow> 's act outcome" where
  "step_header_lws cb ch bs e =
     (case hp_state (ep e) of
        S_header_value_discard_ws \<Rightarrow>
          if ch = SP \<or> ch = 9 then Ret (Break e bs)
          else if ch = CR then go S_header_value_discard_ws_almost_done bs e
          else if ch = LF then go S_header_value_discard_lws bs e
          else step_header_value_start ch bs e
      | S_header_almost_done \<Rightarrow>
          if ch \<noteq> LF then fail HPE_LF_EXPECTED e else go S_header_value_lws bs e
      | S_header_value_lws \<Rightarrow>
          if ch = SP \<or> ch = 9 then Ret (Reexecute (update_state S_header_value_start e) ch bs)
          else Ret (Reexecute (update_state S_header_field_start (upd finish_header e)) ch bs)
      | S_header_value_discard_ws_almost_done \<Rightarrow>
          if ch \<noteq> LF then fail HPE_STRICT e else go S_header_value_discard_lws bs e
      | _ \<Rightarrow>
          if ch = SP \<or> ch = 9 then go S_header_value_discard_ws bs e
          else callback_data cb MValue 0 (update_state S_header_field_start (set_mark MValue (upd finish_header e)))
                 (\<lambda>e. Ret (Reexecute e ch bs)))"

subsection \<open>The end of the header\<close>

text \<open>The callback is told the method of a request, the status of a response.\<close>

definition headers_complete_arg :: "http_parser \<Rightarrow> int" where
  "headers_complete_arg p = (if hp_type p = HTTP_REQUEST then int (hp_method p) else uint (hp_status_code p))"

definition step_headers_almost_done :: "'s callback \<Rightarrow> u8 \<Rightarrow> bytes \<Rightarrow> 's exec \<Rightarrow> 's act outcome" where
  "step_headers_almost_done cb ch bs e =
     (let p = ep e
      in if ch \<noteq> LF then fail HPE_STRICT e
         else if hp_flags p AND F_TRAILING \<noteq> 0 then
           no_callback (update_state S_message_done e) (\<lambda>e. Ret (Reexecute e ch bs))
         else if hp_flags p AND F_CHUNKED \<noteq> 0 \<and> hp_flags p AND F_CONTENTLENGTH \<noteq> 0 then
           fail HPE_UNEXPECTED_CONTENT_LENGTH e
         else
           let e = upd (\<lambda>p. p\<lparr>hp_state := S_headers_done, hp_upgrade :=
                   (if hp_flags p AND F_UPGRADE \<noteq> 0 \<and> hp_flags p AND F_CONNECTION_UPGRADE \<noteq> 0
                    then hp_type p = HTTP_REQUEST \<or> hp_status_code p = 101
                    else hp_method p = 5)\<rparr>) e
           in bind_out (cb (eu e) (OnHeadersComplete (headers_complete_arg (ep e)))) (\<lambda>(r, u).
                let e = e\<lparr>eu := u\<rparr>; skip = upd (\<lambda>p. p\<lparr>hp_flags := hp_flags p OR F_SKIPBODY\<rparr>) e
                in if r = 0 then Ret (Reexecute e ch bs)
                   else if r = 2 then Ret (Reexecute (upd (\<lambda>p. p\<lparr>hp_upgrade := True\<rparr>) skip) ch bs)
                   else if r = 1 then Ret (Reexecute skip ch bs)
                   else fail HPE_CB_headers_complete e))"

definition step_headers_done :: "'s callback \<Rightarrow> u8 \<Rightarrow> bytes \<Rightarrow> 's exec \<Rightarrow> 's act outcome" where
  "step_headers_done cb ch bs e =
     (if ch \<noteq> LF then fail HPE_STRICT e
      else
        let e = upd (\<lambda>p. p\<lparr>hp_nread := 0\<rparr>) e; p = ep e;
            complete = callback_notify cb 1 (new_message e) (\<lambda>e. Ret (Break e bs));
            has_body = hp_flags p AND F_CHUNKED \<noteq> 0
              \<or> hp_content_length p > 0 \<and> hp_content_length p \<noteq> ULLONG_MAX
        in if hp_upgrade p \<and> (hp_method p = 5 \<or> hp_flags p AND F_SKIPBODY \<noteq> 0 \<or> \<not> has_body) then
             callback_notify cb 1 (new_message e) (\<lambda>e. Ret (Return (pos e + 1) e))
           else if hp_flags p AND F_SKIPBODY \<noteq> 0 then complete
           else if hp_flags p AND F_CHUNKED \<noteq> 0 then go S_chunk_size_start bs e
           else if hp_content_length p = 0 then complete
           else if hp_content_length p \<noteq> ULLONG_MAX then go S_body_identity bs e
           else if \<not> http_message_needs_eof p then complete
           else go S_body_identity_eof bs e)"

subsection \<open>Bodies\<close>

text \<open>As many bytes of the body as the buffer holds; the position is that of the last one.\<close>

definition body_bytes :: "http_parser \<Rightarrow> bytes \<Rightarrow> nat" where
  "body_bytes p bs = min (unat (hp_content_length p)) (length bs)"

definition take_body :: "bytes \<Rightarrow> 's exec \<Rightarrow> 's exec" where
  "take_body bs e =
     (let n = body_bytes (ep e) bs
      in move (take (n - 1) bs)
           (upd (\<lambda>p. p\<lparr>hp_content_length := hp_content_length p - of_nat n\<rparr>) (set_mark MBody e)))"

text \<open>The current byte belongs to the piece handed over, although the position stays.\<close>

definition include_byte :: "u8 \<Rightarrow> 's exec \<Rightarrow> 's exec" where
  "include_byte c e = e\<lparr>marks := (marks e)(MBody := map_option (\<lambda>m. m @ [c]) (marks e MBody))\<rparr>"

definition step_body :: "'s callback \<Rightarrow> u8 \<Rightarrow> bytes \<Rightarrow> 's exec \<Rightarrow> 's act outcome" where
  "step_body cb ch bs e =
     (case hp_state (ep e) of
        S_body_identity \<Rightarrow>
          if hp_content_length (ep e) = 0 \<or> hp_content_length (ep e) = ULLONG_MAX then Undef
          else
            let rest = drop (body_bytes (ep e) bs - 1) bs; e = take_body bs e
            in if hp_content_length (ep e) = 0 then
                 callback_data cb MBody 0 (update_state S_message_done (include_byte (hd rest) e))
                   (\<lambda>e. Ret (Reexecute e ch rest))
               else Ret (Break e rest)
      | S_body_identity_eof \<Rightarrow>
          Ret (Break (move (take (length bs - 1) bs) (set_mark MBody e)) (drop (length bs - 1) bs))
      | _ \<Rightarrow>
          callback_notify cb 1 (new_message e) (\<lambda>e.
            if hp_upgrade (ep e) then Ret (Return (pos e + 1) e) else Ret (Break e bs)))"

definition step_chunk_size :: "u8 \<Rightarrow> bytes \<Rightarrow> 's exec \<Rightarrow> 's act outcome" where
  "step_chunk_size ch bs e =
     (if ch = CR then go S_chunk_size_almost_done bs e
      else case unhex ch of
        None \<Rightarrow>
          if ch = asc CHR '';'' \<or> ch = SP then go S_chunk_parameters bs e
          else fail HPE_INVALID_CHUNK_SIZE e
      | Some v \<Rightarrow>
          if (ULLONG_MAX - 16) div 16 < hp_content_length (ep e) then fail HPE_INVALID_CONTENT_LENGTH e
          else Ret (Break (upd (\<lambda>p. p\<lparr>hp_content_length := hp_content_length p * 16 + v\<rparr>) e) bs))"

definition step_chunk :: "'s callback \<Rightarrow> u8 \<Rightarrow> bytes \<Rightarrow> 's exec \<Rightarrow> 's act outcome" where
  "step_chunk cb ch bs e =
     (if hp_flags (ep e) AND F_CHUNKED = 0 then Undef
      else case hp_state (ep e) of
        S_chunk_size_start \<Rightarrow>
          if hp_nread (ep e) \<noteq> 1 then Undef
          else (case unhex ch of
                  None \<Rightarrow> fail HPE_INVALID_CHUNK_SIZE e
                | Some v \<Rightarrow> go S_chunk_size bs (upd (\<lambda>p. p\<lparr>hp_content_length := v\<rparr>) e))
      | S_chunk_size \<Rightarrow> step_chunk_size ch bs e
      | S_chunk_parameters \<Rightarrow> if ch = CR then go S_chunk_size_almost_done bs e else Ret (Break e bs)
      | S_chunk_size_almost_done \<Rightarrow>
          if ch \<noteq> LF then fail HPE_STRICT e
          else
            let e = upd (\<lambda>p. p\<lparr>hp_nread := 0\<rparr>) e
            in no_callback
                 (if hp_content_length (ep e) = 0
                  then upd (\<lambda>p. p\<lparr>hp_flags := hp_flags p OR F_TRAILING, hp_state := S_header_field_start\<rparr>) e
                  else update_state S_chunk_data e)
                 (\<lambda>e. Ret (Break e bs))
      | S_chunk_data \<Rightarrow>
          if hp_content_length (ep e) = 0 \<or> hp_content_length (ep e) = ULLONG_MAX then Undef
          else
            let rest = drop (body_bytes (ep e) bs - 1) bs; e = take_body bs e
            in Ret (Break (if hp_content_length (ep e) = 0 then update_state S_chunk_data_almost_done e else e) rest)
      | S_chunk_data_almost_done \<Rightarrow>
          if hp_content_length (ep e) \<noteq> 0 then Undef
          else if ch \<noteq> CR then fail HPE_STRICT e
          else callback_data cb MBody 1 (update_state S_chunk_data_done e) (\<lambda>e. Ret (Break e bs))
      | _ \<Rightarrow>
          if ch \<noteq> LF then fail HPE_STRICT e
          else no_callback (upd (\<lambda>p. p\<lparr>hp_nread := 0, hp_state := S_chunk_size_start\<rparr>) e) (\<lambda>e. Ret (Break e bs)))"

subsection \<open>All states\<close>

definition step :: "'s callback \<Rightarrow> u8 \<Rightarrow> bytes \<Rightarrow> 's exec \<Rightarrow> 's act outcome" where
  "step cb ch bs e =
     (let s = hp_state (ep e)
      in if s = S_dead then (if line_end ch then Ret (Break e bs) else fail HPE_CLOSED_CONNECTION e)
         else if s \<in> {S_start_req_or_res, S_res_or_resp_H, S_start_res, S_res_H, S_res_HT, S_res_HTT,
             S_res_HTTP, S_res_http_major, S_res_http_dot, S_res_http_minor, S_res_http_end,
             S_res_first_status_code, S_res_status_code, S_res_status_start, S_res_status,
             S_res_line_almost_done} then step_response cb ch bs e
         else if s = S_header_field_start then step_header_field_start ch bs e
         else if s = S_header_field then step_header_field cb bs e
         else if s = S_header_value_start then step_header_value_start ch bs e
         else if s = S_header_value then step_header_value cb bs e
         else if s \<in> {S_header_value_discard_ws, S_header_value_discard_ws_almost_done,
             S_header_value_discard_lws, S_header_value_lws, S_header_almost_done}
           then step_header_lws cb ch bs e
         else if s = S_headers_almost_done then step_headers_almost_done cb ch bs e
         else if s = S_headers_done then step_headers_done cb ch bs e
         else if s \<in> {S_body_identity, S_body_identity_eof, S_message_done} then step_body cb ch bs e
         else if s \<in> {S_chunk_size_start, S_chunk_size, S_chunk_parameters, S_chunk_size_almost_done,
             S_chunk_data, S_chunk_data_almost_done, S_chunk_data_done} then step_chunk cb ch bs e
         else step_request cb ch bs e)"

text \<open>The switch is entered again a few times at most: each time the state is one of a lower rank.\<close>

fun rank :: "http_state \<Rightarrow> nat" where
  "rank S_header_value_lws = 3"
| "rank S_header_value_discard_lws = 3"
| "rank S_header_field_start = 2"
| "rank S_res_status_code = 2"
| "rank S_header_value_start = 1"
| "rank S_headers_almost_done = 1"
| "rank S_res_status_start = 1"
| "rank S_header_value = 1"
| "rank S_body_identity = 1"
| "rank S_start_req_or_res = 1"
| "rank s = 0"

named_theorems act_simps "the pieces of the switch"

lemma upd_simps [simp]:
  "ep (upd f e) = f (ep e)" "marks (upd f e) = marks e" "pos (upd f e) = pos e" "eu (upd f e) = eu e"
  by (simp_all add: upd_def)

lemma move_simps [simp]:
  "ep (move bs e) = ep e" "pos (move bs e) = pos e + length bs" "eu (move bs e) = eu e"
  "marks (move bs e) k = map_option (\<lambda>m. m @ bs) (marks e k)"
  by (simp_all add: move_def)

lemma set_mark_simps [simp]:
  "ep (set_mark k e) = ep e" "pos (set_mark k e) = pos e" "eu (set_mark k e) = eu e"
  by (simp_all add: set_mark_def)

lemma new_message_simps [simp]:
  "marks (new_message e) = marks e" "pos (new_message e) = pos e" "eu (new_message e) = eu e"
  by (simp_all add: new_message_def)

text \<open>What comes after a callback, or a count, only sees the state it hands on.\<close>

lemma call_cases:
  assumes "call cb ev er a e k = Ret act"
  obtains n e' where "act = Return n e'"
    | u where "k (e\<lparr>eu := u\<rparr>) = Ret act"
  using assms by (auto simp: call_def outcome_simps Let_def split: if_splits)

lemma callback_data_cases:
  assumes "callback_data cb m a e k = Ret act"
  obtains n e' where "act = Return n e'"
    | e' where "k e' = Ret act" "ep e' = ep e"
proof (cases "marks e m")
  case None
  with assms have "k e = Ret act" by (simp add: callback_data_def split: if_splits)
  then show thesis using that(2) [of e] by simp
next
  case (Some bs)
  with assms have "call cb (mark_event m bs) (mark_errno m) a e (\<lambda>e. k (e\<lparr>marks := (marks e)(m := None)\<rparr>)) = Ret act"
    by (simp add: callback_data_def split: if_splits)
  then show thesis
  proof (cases rule: call_cases)
    case (2 u)
    then show thesis using that(2) by force
  qed (use that(1) in blast)
qed

lemma count_cases:
  assumes "count_header_size n e k = Ret act"
  obtains m e' where "act = Return m e'"
    | e' where "k e' = Ret act" "hp_state (ep e') = hp_state (ep e)"
  using assms by (auto simp: count_header_size_def Let_def fail_def split: if_splits)

lemma no_callback_Ret: "no_callback e k = Ret act \<longleftrightarrow> hp_errno (ep e) = HPE_OK \<and> k e = Ret act"
  by (simp add: no_callback_def)

lemma fail_act: "fail er e = Ret act \<longleftrightarrow> act = Return (pos e) (upd (\<lambda>p. p\<lparr>hp_errno := er\<rparr>) e)"
  by (auto simp: fail_def)

text \<open>What a step may answer: the position never goes back, and a switch entered again has a lower rank.\<close>

fun act_ok :: "http_state \<Rightarrow> bytes \<Rightarrow> 's act \<Rightarrow> bool" where
  "act_ok s bs (Break e bs') = (length bs' \<le> length bs)"
| "act_ok s bs (Reexecute e ch bs') = (length bs' \<le> length bs \<and> rank (hp_state (ep e)) < rank s)"
| "act_ok s bs (Return n e) = True"

lemma call_ok:
  assumes "\<And>u act. k (e\<lparr>eu := u\<rparr>) = Ret act \<Longrightarrow> act_ok s bs act" "call cb ev er a e k = Ret act"
  shows "act_ok s bs act"
  using assms(2) by (cases rule: call_cases) (auto dest: assms(1))

lemma callback_data_ok:
  assumes "\<And>e' act. ep e' = ep e \<Longrightarrow> k e' = Ret act \<Longrightarrow> act_ok s bs act" "callback_data cb m a e k = Ret act"
  shows "act_ok s bs act"
  using assms(2) by (cases rule: callback_data_cases) (auto dest: assms(1))

lemma count_ok:
  assumes "\<And>e' act. hp_state (ep e') = hp_state (ep e) \<Longrightarrow> k e' = Ret act \<Longrightarrow> act_ok s bs act"
    "count_header_size n e k = Ret act"
  shows "act_ok s bs act"
  using assms(2) by (cases rule: count_cases) (auto dest: assms(1))

lemmas act_defs = fail_act no_callback_Ret Let_def outcome_simps expect_def version_digit_def

lemma step_response_ok: "step_response cb ch bs e = Ret act \<Longrightarrow> act_ok (hp_state (ep e)) bs act"
  by (cases "hp_state (ep e)")
     (auto simp: step_response_def step_status_code_def act_defs split: if_splits elim!: callback_data_ok [rotated])

lemma step_url_ok: "step_url ch bs e = Ret act \<Longrightarrow> act_ok s bs act"
  by (auto simp: step_url_def act_defs split: if_splits)

lemma step_request_ok: "step_request cb ch bs e = Ret act \<Longrightarrow> act_ok s bs act"
  by (cases "hp_state (ep e)")
     (auto simp: step_request_def step_method_def step_url_start_def step_url_rest_def act_defs
       split: if_splits option.splits elim!: callback_data_ok [rotated] step_url_ok)

lemma step_header_field_start_ok:
  "step_header_field_start ch bs e = Ret act \<Longrightarrow> hp_state (ep e) = S_header_field_start
   \<Longrightarrow> act_ok S_header_field_start bs act"
  by (auto simp: step_header_field_start_def act_defs split: if_splits)

lemma step_header_field_ok: "step_header_field cb bs e = Ret act \<Longrightarrow> act_ok s bs act"
  by (auto simp: step_header_field_def act_defs split: if_splits
      elim!: callback_data_ok [rotated] count_ok [rotated])

lemma step_header_value_start_ok: "step_header_value_start ch bs e = Ret act \<Longrightarrow> act_ok s bs act"
  by (cases "hp_header_state (ep e)")
     (auto simp: step_header_value_start_def act_defs split: if_splits)

lemma step_header_value_ok: "step_header_value cb bs e = Ret act \<Longrightarrow> act_ok S_header_value bs act"
proof -
  assume step: "step_header_value cb bs e = Ret act"
  then obtain r h p n where v: "value_loop (hp_header_state (ep e)) (ep e) bs = Ret (r, h, p, n)"
    by (auto simp: step_header_value_def outcome_simps)
  from step show ?thesis
    by (cases r) (auto simp: step_header_value_def v act_defs elim!: callback_data_ok [rotated] count_ok [rotated])
qed

abbreviation lws_states :: "http_state set" where
  "lws_states \<equiv> {S_header_value_discard_ws, S_header_value_discard_ws_almost_done,
     S_header_value_discard_lws, S_header_value_lws, S_header_almost_done}"

lemma step_header_lws_ok:
  assumes "hp_state (ep e) \<in> lws_states" "step_header_lws cb ch bs e = Ret act"
  shows "act_ok (hp_state (ep e)) bs act"
proof -
  consider "hp_state (ep e) = S_header_value_discard_ws" | "hp_state (ep e) = S_header_almost_done"
    | "hp_state (ep e) = S_header_value_lws" | "hp_state (ep e) = S_header_value_discard_ws_almost_done"
    | "hp_state (ep e) = S_header_value_discard_lws" using assms(1) by auto
  then show ?thesis
  proof cases
    case 1
    with assms(2) show ?thesis
      by (auto simp: step_header_lws_def split: if_splits intro: step_header_value_start_ok)
  next
    case 5
    with assms(2) show ?thesis
      by (auto simp: step_header_lws_def split: if_splits elim!: callback_data_ok [rotated])
  qed (use assms(2) in \<open>auto simp: step_header_lws_def act_defs split: if_splits\<close>)
qed

lemma step_headers_almost_done_ok:
  "step_headers_almost_done cb ch bs e = Ret act \<Longrightarrow> act_ok S_headers_almost_done bs act"
  by (auto simp: step_headers_almost_done_def act_defs split: if_splits)

lemma step_headers_done_ok: "step_headers_done cb ch bs e = Ret act \<Longrightarrow> act_ok s bs act"
  by (auto simp: step_headers_done_def callback_notify_def act_defs split: if_splits elim!: call_ok [rotated])

lemma length_drop_le: "length (drop k bs) \<le> length bs"
  by simp

lemma step_body_ok: "step_body cb ch bs e = Ret act \<Longrightarrow> act_ok (hp_state (ep e)) bs act"
proof (cases "hp_state (ep e) = S_body_identity")
  case True
  assume "step_body cb ch bs e = Ret act"
  with True show ?thesis
    by (auto simp: step_body_def Let_def split: if_splits elim!: callback_data_ok [rotated])
next
  case False
  assume "step_body cb ch bs e = Ret act"
  with False show ?thesis
    by (cases "hp_state (ep e) = S_body_identity_eof")
       (auto simp: step_body_def callback_notify_def split: if_splits http_state.splits elim!: call_ok [rotated])
qed

lemma step_chunk_ok: "step_chunk cb ch bs e = Ret act \<Longrightarrow> act_ok s bs act"
  by (cases "hp_state (ep e)")
     (auto simp: step_chunk_def step_chunk_size_def act_defs split: if_splits option.splits
       elim!: callback_data_ok [rotated])

lemmas step_oks =
  step_response_ok step_header_field_ok step_header_value_start_ok step_header_lws_ok step_headers_done_ok
  step_body_ok step_chunk_ok step_request_ok

lemma step_ok:
  assumes "step cb ch bs e = Ret act"
  shows "act_ok (hp_state (ep e)) bs act"
proof -
  let ?s = "hp_state (ep e)"
  consider "?s = S_dead" | "?s = S_header_field_start" | "?s = S_header_value" | "?s = S_headers_almost_done"
    | "?s \<in> lws_states"
    | "?s \<notin> {S_dead, S_header_field_start, S_header_value, S_headers_almost_done}" "?s \<notin> lws_states" by blast
  then show ?thesis
  proof cases
    case 1
    with assms show ?thesis by (auto simp: step_def fail_act split: if_splits)
  next
    case 2
    with assms step_header_field_start_ok [of ch bs e act] show ?thesis by (simp add: step_def)
  next
    case 3
    with assms step_header_value_ok [of cb bs e act] show ?thesis by (simp add: step_def)
  next
    case 4
    with assms step_headers_almost_done_ok [of cb ch bs e act] show ?thesis by (simp add: step_def)
  next
    case 5
    with assms have "step_header_lws cb ch bs e = Ret act" by (auto simp: step_def)
    with 5 show ?thesis by (rule step_header_lws_ok)
  next
    case 6
    with assms show ?thesis unfolding step_def Let_def by (auto split: if_split_asm dest: step_oks simp del: insert_iff)
  qed
qed

section \<open>The loop\<close>

text \<open>The switch until it ends with the next byte or a return.\<close>

function run_switch :: "'s callback \<Rightarrow> u8 \<Rightarrow> bytes \<Rightarrow> 's exec \<Rightarrow> 's act outcome" where
  "run_switch cb ch bs e =
     (case step cb ch bs e of
        Ret (Reexecute e ch bs) \<Rightarrow> run_switch cb ch bs e
      | r \<Rightarrow> r)"
  by pat_completeness auto
termination
  by (relation "measure (\<lambda>(cb, ch, bs, e). rank (hp_state (ep e)))") (auto dest: step_ok)

declare run_switch.simps [simp del]

text \<open>The states in which the bytes count as header.\<close>

definition parsing_header :: "http_state \<Rightarrow> bool" where
  "parsing_header s \<longleftrightarrow>
     s \<notin> {S_chunk_data, S_chunk_data_almost_done, S_chunk_data_done, S_body_identity, S_body_identity_eof,
          S_message_done}"

text \<open>One turn of the loop, for the byte at the current position.\<close>

definition loop_turn :: "'s callback \<Rightarrow> bytes \<Rightarrow> 's exec \<Rightarrow> 's act outcome" where
  "loop_turn cb bs e =
     (if parsing_header (hp_state (ep e)) then count_header_size 1 e (run_switch cb (hd bs) bs)
      else run_switch cb (hd bs) bs e)"

text \<open>The pieces left over at the end of the buffer.\<close>

definition finish_buffer :: "'s callback \<Rightarrow> 's exec \<Rightarrow> 's act outcome" where
  "finish_buffer cb e =
     (if length (filter (\<lambda>k. marks e k \<noteq> None) [MField, MValue, MUrl, MBody, MStatus]) > 1 then Undef
      else callback_data cb MField 0 e (\<lambda>e. callback_data cb MValue 0 e (\<lambda>e. callback_data cb MUrl 0 e (\<lambda>e.
           callback_data cb MBody 0 e (\<lambda>e. callback_data cb MStatus 0 e (\<lambda>e. Ret (Return (pos e) e)))))))"

lemma run_switch_ok: "run_switch cb ch bs e = Ret act \<Longrightarrow> length bs \<le> n \<Longrightarrow>
  case act of Break e' bs' \<Rightarrow> length bs' \<le> n | Reexecute e' ch' bs' \<Rightarrow> False | Return m e' \<Rightarrow> True"
proof (induction cb ch bs e rule: run_switch.induct)
  case (1 cb ch bs e)
  obtain a where a: "step cb ch bs e = Ret a"
    using "1.prems"(1) by (cases "step cb ch bs e") (auto simp: run_switch.simps [of cb])
  show ?case
  proof (cases a)
    case (Reexecute e' ch' bs')
    with "1.prems" a "1.IH" [OF a Reexecute] step_ok [OF a] show ?thesis
      by (simp add: run_switch.simps [of cb ch])
  qed (use "1.prems" a step_ok [OF a] in \<open>auto simp: run_switch.simps [of cb ch]\<close>)
qed

lemma loop_turn_ok:
  assumes "loop_turn cb bs e = Ret act"
  shows "case act of Break e' bs' \<Rightarrow> length bs' \<le> length bs | Reexecute e' ch' bs' \<Rightarrow> False | Return m e' \<Rightarrow> True"
proof (cases "parsing_header (hp_state (ep e))")
  case True
  with assms have "count_header_size 1 e (run_switch cb (hd bs) bs) = Ret act" by (simp add: loop_turn_def)
  then show ?thesis by (cases rule: count_cases) (auto dest: run_switch_ok)
qed (use assms in \<open>auto simp: loop_turn_def dest: run_switch_ok\<close>)

function execute_loop :: "'s callback \<Rightarrow> bytes \<Rightarrow> 's exec \<Rightarrow> 's act outcome" where
  "execute_loop cb [] e = finish_buffer cb e"
| "execute_loop cb (b # bs) e =
     (case loop_turn cb (b # bs) e of
        Ret (Break e bs) \<Rightarrow> execute_loop cb (tl bs) (move (take 1 bs) e)
      | r \<Rightarrow> r)"
  by pat_completeness auto
termination
  by (relation "measure (\<lambda>(cb, bs, e). length bs)") (auto dest!: loop_turn_ok)

declare execute_loop.simps(2) [simp del]

text \<open>A piece may have begun in an earlier buffer.\<close>

definition initial_marks :: "http_state \<Rightarrow> mark \<Rightarrow> bytes option" where
  "initial_marks s =
     (if s = S_header_field then (\<lambda>_. None)(MField := Some [])
      else if s = S_header_value then (\<lambda>_. None)(MValue := Some [])
      else if s \<in> {S_req_path, S_req_schema, S_req_schema_slash, S_req_schema_slash_slash,
          S_req_server_start, S_req_server, S_req_server_with_at, S_req_query_string_start,
          S_req_query_string, S_req_fragment_start, S_req_fragment} then (\<lambda>_. None)(MUrl := Some [])
      else if s = S_res_status then (\<lambda>_. None)(MStatus := Some [])
      else (\<lambda>_. None))"

definition result :: "'s act outcome \<Rightarrow> (nat \<times> http_parser \<times> 's) outcome" where
  "result r = (case r of Ret (Return n e) \<Rightarrow> Ret (n, ep e, eu e) | _ \<Rightarrow> Undef)"

text \<open>An empty buffer stands for the end of the stream.\<close>

definition http_parser_execute :: "'s callback \<Rightarrow> http_parser \<Rightarrow> bytes \<Rightarrow> 's \<Rightarrow> (nat \<times> http_parser \<times> 's) outcome" where
  "http_parser_execute cb p bs u =
     (let e = \<lparr>ep = p, marks = initial_marks (hp_state p), pos = 0, eu = u\<rparr>
      in if hp_errno p \<noteq> HPE_OK then Ret (0, p, u)
         else if bs = [] then
           (if hp_state p = S_body_identity_eof then
              result (callback_notify cb 0 (e\<lparr>marks := (\<lambda>_. None)\<rparr>) (\<lambda>e. Ret (Return 0 e)))
            else if hp_state p \<in> {S_dead, S_start_req_or_res, S_start_res, S_start_req} then Ret (0, p, u)
            else Ret (1, p\<lparr>hp_errno := HPE_INVALID_EOF_STATE\<rparr>, u))
         else result (execute_loop cb bs e))"

end
