(* ===== verification/Parserlaws.thy ===== *)
theory Parserlaws
  imports Httpparser
begin

text \<open>
  The HTTP parser is safe: whatever bytes arrive, in whatever buffers, none of its assertions fails, it
  never reads past the end of a method name, never has two pieces open at once, and never reports more
  bytes than it was given.
\<close>

section \<open>The invariant\<close>

definition field_states :: "header_states set" where
  "field_states = {H_general, H_C, H_CO, H_CON, H_matching_connection, H_matching_proxy_connection,
     H_matching_content_length, H_matching_transfer_encoding, H_matching_upgrade, H_connection,
     H_content_length, H_transfer_encoding, H_upgrade}"

definition chunk_states :: "http_state set" where
  "chunk_states = {S_chunk_size_start, S_chunk_size, S_chunk_parameters, S_chunk_size_almost_done,
     S_chunk_data, S_chunk_data_almost_done, S_chunk_data_done}"

definition method_ok :: "nat \<Rightarrow> nat \<Rightarrow> bool" where
  "method_ok m i \<longleftrightarrow> m < length method_strings \<and> i \<le> length (method_strings ! m)"

definition parser_wf :: "http_parser \<Rightarrow> bool" where
  "parser_wf p \<longleftrightarrow>
     (hp_state p = S_req_method \<longrightarrow> method_ok (hp_method p) (hp_index p))
     \<and> (hp_state p = S_header_field \<longrightarrow> hp_header_state p \<in> field_states)
     \<and> (hp_state p = S_header_value \<longrightarrow> hp_header_state p \<notin> {H_connection, H_transfer_encoding})
     \<and> (hp_state p = S_body_identity \<or> hp_state p = S_chunk_data \<longrightarrow>
          hp_content_length p \<noteq> 0 \<and> hp_content_length p \<noteq> ULLONG_MAX)
     \<and> (hp_state p \<in> chunk_states \<longrightarrow> hp_flags p AND F_CHUNKED \<noteq> 0)
     \<and> (hp_state p \<in> {S_chunk_size, S_chunk_parameters, S_chunk_size_almost_done} \<longrightarrow>
          hp_content_length p \<noteq> ULLONG_MAX)
     \<and> (hp_state p = S_chunk_data_almost_done \<longrightarrow> hp_content_length p = 0)"

text \<open>The piece that may be open in a state.\<close>

fun mark_of :: "http_state \<Rightarrow> mark option" where
  "mark_of S_header_field = Some MField"
| "mark_of S_header_value = Some MValue"
| "mark_of S_res_status = Some MStatus"
| "mark_of S_req_schema = Some MUrl"
| "mark_of S_req_schema_slash = Some MUrl"
| "mark_of S_req_schema_slash_slash = Some MUrl"
| "mark_of S_req_server_start = Some MUrl"
| "mark_of S_req_server = Some MUrl"
| "mark_of S_req_server_with_at = Some MUrl"
| "mark_of S_req_path = Some MUrl"
| "mark_of S_req_query_string_start = Some MUrl"
| "mark_of S_req_query_string = Some MUrl"
| "mark_of S_req_fragment_start = Some MUrl"
| "mark_of S_req_fragment = Some MUrl"
| "mark_of S_body_identity = Some MBody"
| "mark_of S_body_identity_eof = Some MBody"
| "mark_of S_chunk_data = Some MBody"
| "mark_of S_chunk_data_almost_done = Some MBody"
| "mark_of _ = None"

definition marks_ok :: "'s exec \<Rightarrow> bool" where
  "marks_ok e \<longleftrightarrow> (\<forall>k. mark_of (hp_state (ep e)) \<noteq> Some k \<longrightarrow> marks e k = None)"

text \<open>The bytes counted when a chunk begins: none between two bytes, one inside the switch.\<close>

definition nread_ok :: "u32 \<Rightarrow> http_parser \<Rightarrow> bool" where
  "nread_ok n p \<longleftrightarrow> (hp_state p = S_chunk_size_start \<longrightarrow> hp_nread p = n)"

definition exec_ok :: "nat \<Rightarrow> 's exec \<Rightarrow> bytes \<Rightarrow> bool" where
  "exec_ok tot e bs \<longleftrightarrow> bs \<noteq> [] \<and> pos e + length bs = tot \<and> hp_errno (ep e) = HPE_OK
     \<and> marks_ok e \<and> parser_wf (ep e)"

fun safe_act :: "nat \<Rightarrow> 's act \<Rightarrow> bool" where
  "safe_act tot (Break e bs) = (exec_ok tot e bs \<and> nread_ok 0 (ep e))"
| "safe_act tot (Reexecute e ch bs) = (exec_ok tot e bs \<and> hp_state (ep e) \<noteq> S_chunk_size_start)"
| "safe_act tot (Return n e) =
     (n \<le> tot \<and> (hp_errno (ep e) = HPE_OK \<longrightarrow> parser_wf (ep e) \<and> nread_ok 0 (ep e)))"

definition good :: "nat \<Rightarrow> 's act outcome \<Rightarrow> bool" where
  "good tot r \<longleftrightarrow> (\<exists>a. r = Ret a \<and> safe_act tot a)"

text \<open>Callbacks that are defined on all events.\<close>

definition total_callback :: "'s callback \<Rightarrow> bool" where
  "total_callback cb \<longleftrightarrow> (\<forall>u ev. defined (cb u ev))"

lemma good_fail: "er \<noteq> HPE_OK \<Longrightarrow> pos e \<le> tot \<Longrightarrow> good tot (fail er e)"
  by (simp add: good_def fail_def)

lemma good_Ret: "good tot (Ret a) \<longleftrightarrow> safe_act tot a"
  by (simp add: good_def)

lemma good_call:
  assumes "total_callback cb" "hp_errno (ep e) = HPE_OK" "er \<noteq> HPE_OK" "pos e + a \<le> tot"
    "\<And>u. good tot (k (e\<lparr>eu := u\<rparr>))"
  shows "good tot (call cb ev er a e k)"
proof -
  obtain r u where "cb (eu e) ev = Ret (r, u)"
    using assms(1) by (fastforce simp: total_callback_def defined_iff)
  with assms(2-5) show ?thesis by (simp add: call_def good_Ret Let_def)
qed

lemma mark_errno_not_ok [simp]: "mark_errno m \<noteq> HPE_OK"
  by (cases m) simp_all

lemma good_data:
  assumes "total_callback cb" "hp_errno (ep e) = HPE_OK" "pos e + a \<le> tot"
    "\<And>u. good tot (k (e\<lparr>eu := u, marks := (marks e)(m := None)\<rparr>))"
  shows "good tot (callback_data cb m a e k)"
proof (cases "marks e m")
  case None
  then have "e\<lparr>eu := eu e, marks := (marks e)(m := None)\<rparr> = e" by (cases e) auto
  with None assms(2) assms(4) [of "eu e"] show ?thesis by (simp add: callback_data_def)
next
  case (Some bs)
  have "good tot (call cb (mark_event m bs) (mark_errno m) a e (\<lambda>e. k (e\<lparr>marks := (marks e)(m := None)\<rparr>)))"
    using assms by (intro good_call) simp_all
  with Some assms(2) show ?thesis by (simp add: callback_data_def)
qed

lemma good_count:
  assumes "pos e \<le> tot" "\<And>n'. good tot (k (upd (\<lambda>p. p\<lparr>hp_nread := n'\<rparr>) e))"
  shows "good tot (count_header_size n e k)"
proof -
  have eq: "upd (\<lambda>p. p\<lparr>hp_nread := hp_nread p + of_nat n\<rparr>) e = upd (\<lambda>p. p\<lparr>hp_nread := hp_nread (ep e) + of_nat n\<rparr>) e"
    by (simp add: upd_def)
  show ?thesis
    unfolding count_header_size_def Let_def eq using assms by (auto intro!: good_fail)
qed

lemma good_no_callback: "hp_errno (ep e) = HPE_OK \<Longrightarrow> good tot (k e) \<Longrightarrow> good tot (no_callback e k)"
  by (simp add: no_callback_def)

lemma good_if: "(c \<Longrightarrow> good tot a) \<Longrightarrow> (\<not> c \<Longrightarrow> good tot b) \<Longrightarrow> good tot (if c then a else b)"
  by simp

lemmas goods = good_if good_fail good_data good_count good_no_callback good_call

text \<open>Setting a mark of the state the step ends in.\<close>

lemma marks_set_mark [simp]: "marks (set_mark k e) k' = (if k' = k \<and> marks e k = None then Some [] else marks e k')"
  by (simp add: set_mark_def)

lemma marks_ok_none: "marks_ok e \<Longrightarrow> mark_of (hp_state (ep e)) = None \<Longrightarrow> marks e k = None"
  by (auto simp: marks_ok_def)

lemma marks_ok_other: "marks_ok e \<Longrightarrow> mark_of (hp_state (ep e)) \<noteq> Some k \<Longrightarrow> marks e k = None"
  by (auto simp: marks_ok_def)

lemmas inv_defs = exec_ok_def parser_wf_def nread_ok_def chunk_states_def good_Ret

section \<open>The steps\<close>

lemma exec_pos: "exec_ok tot e bs \<Longrightarrow> pos e \<le> tot \<and> pos e + 1 \<le> tot"
  by (cases bs) (auto simp: exec_ok_def)

lemma method_ok_first: "first_method ch = Some m \<Longrightarrow> method_ok m 1"
  by (auto simp: first_method_def method_ok_def method_strings_def split: if_splits)

lemma method_ok_head: "method_ok 2 2"
  by (simp add: method_ok_def method_strings_def)

lemma method_ok_other: "other_method m i ch = Some m' \<Longrightarrow> method_ok m' (i + 1)"
  by (auto simp: other_method_def method_ok_def method_strings_def split: if_splits)

lemma method_ok_next:
  "method_ok m i \<Longrightarrow> lit_at (method_strings ! m) i \<noteq> 0 \<Longrightarrow> method_ok m (i + 1)"
  by (auto simp: method_ok_def lit_at_def split: if_splits)

lemma safe_response:
  assumes "exec_ok tot e bs" "total_callback cb"
    "hp_state (ep e) \<in> {S_start_req_or_res, S_res_or_resp_H, S_start_res, S_res_H, S_res_HT, S_res_HTT,
             S_res_HTTP, S_res_http_major, S_res_http_dot, S_res_http_minor, S_res_http_end,
             S_res_first_status_code, S_res_status_code, S_res_status_start, S_res_status,
             S_res_line_almost_done}"
  shows "good tot (step_response cb ch bs e)"
  using assms(3) exec_pos [OF assms(1)] assms(1,2)
  by (elim insertE emptyE;
      auto simp: step_response_def step_status_code_def version_digit_def expect_def Let_def method_ok_head
        inv_defs marks_ok_def intro!: good_fail good_data good_no_callback split: if_splits)

abbreviation url_start_states :: "http_state set" where
  "url_start_states \<equiv> {S_req_schema, S_req_schema_slash, S_req_schema_slash_slash, S_req_server_start}"

abbreviation url_rest_states :: "http_state set" where
  "url_rest_states \<equiv> {S_req_server, S_req_server_with_at, S_req_path, S_req_query_string_start,
     S_req_query_string, S_req_fragment_start, S_req_fragment}"

lemma parse_url_char_state:
  "parse_url_char s ch \<noteq> S_dead \<Longrightarrow> parse_url_char s ch \<in> url_start_states \<union> url_rest_states"
  by (cases s) (auto simp: parse_url_char_def url_server_def url_path_def split: if_splits)

lemma url_state_ok:
  assumes "s \<in> url_start_states \<union> url_rest_states"
  shows "mark_of s = Some MUrl" "parser_wf (p\<lparr>hp_state := s\<rparr>)" "s \<noteq> S_chunk_size_start"
  using assms by (auto simp: parser_wf_def chunk_states_def)

lemma safe_url:
  assumes "exec_ok tot e bs \<or> bs \<noteq> [] \<and> pos e + length bs = tot \<and> hp_errno (ep e) = HPE_OK"
    "\<forall>k. k \<noteq> MUrl \<longrightarrow> marks e k = None"
  shows "good tot (step_url ch bs e)"
proof (cases "parse_url_char (hp_state (ep e)) ch = S_dead")
  case True
  with assms(1) show ?thesis by (auto simp: step_url_def intro!: good_fail simp: exec_ok_def)
next
  case False
  note url_state_ok [OF parse_url_char_state [OF False]]
  with False assms show ?thesis
    by (auto simp: step_url_def good_Ret exec_ok_def marks_ok_def nread_ok_def)
qed

lemma safe_method:
  assumes "exec_ok tot e bs" "hp_state (ep e) = S_req_method"
  shows "good tot (step_method ch bs e)"
proof -
  have m: "method_ok (hp_method (ep e)) (hp_index (ep e))" "pos e \<le> tot"
    using assms by (auto simp: exec_ok_def parser_wf_def)
  let ?c = "lit_at (method_strings ! hp_method (ep e)) (hp_index (ep e))"
  have n: "\<not> (length method_strings \<le> hp_method (ep e)
      \<or> length (method_strings ! hp_method (ep e)) < hp_index (ep e))"
    using m by (auto simp: method_ok_def)
  show ?thesis
    using assms m(2) method_ok_next [OF m(1)] method_ok_other [of "hp_method (ep e)" "hp_index (ep e)" ch]
    unfolding step_method_def Let_def if_not_P [OF n]
    by (auto simp: inv_defs marks_ok_def intro!: good_fail split: option.split)
qed

lemma safe_url_rest:
  assumes "exec_ok tot e bs" "total_callback cb" "hp_state (ep e) \<in> url_rest_states"
  shows "good tot (step_url_rest cb ch bs e)"
proof -
  have k: "\<forall>k. k \<noteq> MUrl \<longrightarrow> marks e k = None"
    using assms by (auto simp: exec_ok_def marks_ok_def)
  have e: "bs \<noteq> []" "pos e + length bs = tot" "hp_errno (ep e) = HPE_OK" "pos e + 1 \<le> tot"
    using assms(1) exec_pos [OF assms(1)] by (simp_all add: exec_ok_def)
  have url: "good tot (step_url ch bs e)" using e k by (intro safe_url) simp_all
  show ?thesis unfolding step_url_rest_def
    using e k assms(2) by (intro good_if url good_data) (simp_all add: inv_defs marks_ok_def)
qed

lemma safe_url_start:
  assumes "exec_ok tot e bs" "hp_state (ep e) \<in> url_start_states"
  shows "good tot (step_url_start ch bs e)"
proof -
  have k: "\<forall>k. k \<noteq> MUrl \<longrightarrow> marks e k = None"
    using assms by (auto simp: exec_ok_def marks_ok_def)
  with assms(1) exec_pos [OF assms(1)] show ?thesis unfolding step_url_start_def
    by (auto intro!: good_fail safe_url)
qed

lemma safe_request:
  assumes "exec_ok tot e bs" "total_callback cb"
    "hp_state (ep e) \<in> url_start_states \<union> url_rest_states \<union> {S_start_req, S_req_method,
       S_req_spaces_before_url, S_req_http_start, S_req_http_H, S_req_http_HT, S_req_http_HTT,
       S_req_http_HTTP, S_req_http_major, S_req_http_dot, S_req_http_minor, S_req_http_end,
       S_req_line_almost_done}"
  shows "good tot (step_request cb ch bs e)"
proof -
  have spaces: "good tot (step_url ch bs (if c then update_state S_req_server_start (set_mark MUrl e) else set_mark MUrl e))"
    if "hp_state (ep e) = S_req_spaces_before_url" for c
    using assms(1) that by (intro safe_url) (auto simp: exec_ok_def marks_ok_def)
  consider "hp_state (ep e) \<in> url_start_states" | "hp_state (ep e) \<in> url_rest_states"
    | "hp_state (ep e) = S_req_method" | "hp_state (ep e) = S_req_spaces_before_url"
    | "hp_state (ep e) \<in> {S_start_req, S_req_http_start, S_req_http_H, S_req_http_HT, S_req_http_HTT,
       S_req_http_HTTP, S_req_http_major, S_req_http_dot, S_req_http_minor, S_req_http_end,
       S_req_line_almost_done}" using assms(3) by auto
  then show ?thesis
  proof cases
    case 1
    then show ?thesis using safe_url_start [OF assms(1) 1, of ch] by (auto simp: step_request_def)
  next
    case 2
    then show ?thesis using safe_url_rest [OF assms(1,2) 2, of ch] by (auto simp: step_request_def)
  next
    case 3
    then show ?thesis using safe_method [OF assms(1) 3, of ch] by (simp add: step_request_def)
  next
    case 4
    then show ?thesis using spaces assms(1) by (auto simp: step_request_def Let_def inv_defs marks_ok_def)
  next
    case 5
    then show ?thesis
      using exec_pos [OF assms(1)] assms(1,2) method_ok_first [of ch]
      by (elim insertE emptyE;
          auto simp: step_request_def version_digit_def expect_def Let_def inv_defs marks_ok_def
            intro!: good_fail good_no_callback split: if_splits option.split)
  qed
qed

section \<open>Header fields\<close>

lemma field_char_defined:
  assumes "h \<in> field_states"
  shows "\<exists>h' i'. field_char h i c ch = Ret (h', i') \<and> h' \<in> field_states"
  using assms unfolding field_states_def
  by (elim insertE emptyE; simp add: field_char_def match_name_def)

lemma field_loop_defined:
  "h \<in> field_states \<Longrightarrow> \<exists>h' i' n. field_loop h i bs = Ret (h', i', n) \<and> h' \<in> field_states \<and> n \<le> length bs"
proof (induction bs arbitrary: h i)
  case (Cons ch cs)
  obtain h1 i1 where 1: "field_char h i (token ch) ch = Ret (h1, i1)" "h1 \<in> field_states"
    using field_char_defined [OF Cons.prems] by blast
  from Cons.IH [OF 1(2), of i1] obtain h2 i2 n where
    "field_loop h1 i1 cs = Ret (h2, i2, n)" "h2 \<in> field_states" "n \<le> length cs" by blast
  with 1 Cons.prems show ?case by auto
qed simp

lemma safe_header_field_start:
  assumes "exec_ok tot e bs" "hp_state (ep e) = S_header_field_start"
  shows "good tot (step_header_field_start ch bs e)"
  using assms unfolding step_header_field_start_def Let_def
  by (auto simp: inv_defs marks_ok_def field_states_def intro!: good_fail)

lemma exec_ok_move:
  assumes "exec_ok tot e bs" "n < length bs"
  shows "exec_ok tot (move (take n bs) e) (drop n bs)"
  using assms by (auto simp: exec_ok_def marks_ok_def)

lemma exec_ok_upd:
  assumes "exec_ok tot e bs" "hp_state (f (ep e)) = hp_state (ep e)" "hp_errno (f (ep e)) = hp_errno (ep e)"
    "parser_wf (f (ep e))"
  shows "exec_ok tot (upd f e) bs"
  using assms by (auto simp: exec_ok_def marks_ok_def)

lemma safe_header_field:
  assumes "exec_ok tot e bs" "total_callback cb" "hp_state (ep e) = S_header_field"
  shows "good tot (step_header_field cb bs e)"
proof -
  have "hp_header_state (ep e) \<in> field_states" using assms by (simp add: exec_ok_def parser_wf_def)
  from field_loop_defined [OF this] obtain h i n where l:
    "field_loop (hp_header_state (ep e)) (hp_index (ep e)) bs = Ret (h, i, n)" "h \<in> field_states" "n \<le> length bs"
    by blast
  let ?e = "upd (\<lambda>p. p\<lparr>hp_header_state := h, hp_index := i\<rparr>) e"
  have e: "exec_ok tot ?e bs"
    using assms(1,3) l(2) by (intro exec_ok_upd) (auto simp: parser_wf_def chunk_states_def)
  have bs: "0 < length bs" using assms(1) by (simp add: exec_ok_def)
  show ?thesis
  proof (cases "n = length bs")
    case True
    then have m: "exec_ok tot (move (take (n - 1) bs) ?e) (drop (n - 1) bs)"
      using bs by (intro exec_ok_move [OF e]) simp
    have "good tot (count_header_size (n - 1) (move (take (n - 1) bs) ?e) (\<lambda>e. Ret (Break e (drop (n - 1) bs))))"
      using m exec_pos [OF m] assms(3) unfolding inv_defs marks_ok_def
      by (intro good_count) (auto simp: inv_defs marks_ok_def)
    with True l show ?thesis by (simp add: step_header_field_def Let_def)
  next
    case False
    then have m: "exec_ok tot (move (take n bs) ?e) (drop n bs)"
      using l by (intro exec_ok_move [OF e]) simp
    have "good tot (count_header_size n (move (take n bs) ?e) (\<lambda>e.
            if bs ! n = asc CHR '':'' then
              callback_data cb MField 1 (update_state S_header_value_discard_ws e) (\<lambda>e. Ret (Break e (drop n bs)))
            else fail HPE_INVALID_HEADER_TOKEN e))"
      using exec_pos [OF m] assms(2,3) m
      by (intro good_count good_if good_data good_fail) (auto simp: inv_defs marks_ok_def)
    with False l show ?thesis by (simp add: step_header_field_def Let_def)
  qed
qed

subsection \<open>Values\<close>

lemma safe_header_value_start:
  assumes "exec_ok tot e bs" "mark_of (hp_state (ep e)) = None"
  shows "good tot (step_header_value_start ch bs e)"
proof -
  have m: "marks e k = None" for k using assms by (simp add: exec_ok_def marks_ok_def)
  have e: "bs \<noteq> []" "pos e + length bs = tot" "pos e \<le> tot" "hp_errno (ep e) = HPE_OK"
    using assms by (auto simp: exec_ok_def)
  show ?thesis
    by (cases "hp_header_state (ep e)")
       (auto simp: step_header_value_start_def Let_def inv_defs marks_ok_def m e intro!: good_fail)
qed

abbreviation value_states :: "header_states set" where
  "value_states \<equiv> - {H_connection, H_transfer_encoding}"

lemma value_char_defined:
  assumes "h \<in> value_states"
  shows "\<exists>err h' p'. value_char h ch p = Ret (err, h', p') \<and> h' \<in> value_states \<and> err \<noteq> Some HPE_OK
    \<and> hp_state p' = hp_state p \<and> hp_errno p' = hp_errno p \<and> hp_lenient p' = hp_lenient p"
  using assms
  by (cases h) (simp_all add: value_char_def Let_def length_digit_def next_name_def option_end_def match_name_def)

lemma skip_general_bounds:
  assumes "\<not> line_end ch"
  shows "0 < skip_general (ch # cs) \<and> skip_general (ch # cs) \<le> length (ch # cs)"
proof -
  let ?w = "take HTTP_MAX_HEADER_SIZE (ch # cs)"
  have w: "?w = ch # take 81919 cs" by simp
  have "length (takeWhile (\<lambda>c. \<not> line_end c) ?w) \<le> length (ch # cs)"
    by (rule order_trans [OF length_takeWhile_le]) simp
  then show ?thesis unfolding skip_general_def Let_def w using assms by simp
qed

lemma value_loop_defined:
  "h \<in> value_states \<Longrightarrow> \<exists>r h' p' n. value_loop h p bs = Ret (r, h', p', n) \<and> h' \<in> value_states
     \<and> hp_state p' = hp_state p \<and> hp_errno p' = hp_errno p \<and> n \<le> length bs
     \<and> (r = At_end \<longrightarrow> n = length bs) \<and> (r \<noteq> At_end \<longrightarrow> n < length bs) \<and> r \<noteq> At_error HPE_OK"
proof (induction h p bs rule: value_loop.induct)
  case (1 h p)
  then show ?case by simp
next
  case (2 h p ch cs)
  consider "line_end ch" | "\<not> line_end ch" "\<not> hp_lenient p \<and> \<not> is_header_char ch"
    | "\<not> line_end ch" "hp_lenient p \<or> is_header_char ch" "h = H_general"
    | "\<not> line_end ch" "hp_lenient p \<or> is_header_char ch" "h \<noteq> H_general" by blast
  then show ?case
  proof cases
    case 3
    define k where "k = skip_general (ch # cs) - 1"
    have k: "k + 1 = skip_general (ch # cs)" "k \<le> length cs"
      using skip_general_bounds [OF 3(1), of cs] by (auto simp: k_def)
    from "2.IH"(1) [OF _ _ _ 3(3) k_def "2.prems"] 3(1,2) obtain r h' p' n where
      v: "value_loop h p (drop k cs) = Ret (r, h', p', n)" "h' \<in> value_states" "hp_state p' = hp_state p"
        "hp_errno p' = hp_errno p" "n \<le> length cs - k" "r = At_end \<longrightarrow> n = length cs - k"
        "r \<noteq> At_end \<longrightarrow> n < length cs - k" "r \<noteq> At_error HPE_OK" by auto
    with 3 k show ?thesis
      unfolding value_loop.simps(2) [of h p] Let_def k_def [symmetric] by auto
  next
    case 4
    obtain err h1 p1 where c: "value_char h ch p = Ret (err, h1, p1)" "h1 \<in> value_states" "err \<noteq> Some HPE_OK"
      "hp_state p1 = hp_state p" "hp_errno p1 = hp_errno p"
      using value_char_defined [OF "2.prems", of ch p] by auto
    show ?thesis
    proof (cases err)
      case (Some er)
      with 4 c "2.prems" show ?thesis by (simp add: value_loop.simps(2))
    next
      case None
      from "2.IH"(2) [OF _ _ _ 4(3) None c(2), of p1] 4(1,2) c obtain r h' p' n where
        "value_loop h1 p1 cs = Ret (r, h', p', n)" "h' \<in> value_states" "hp_state p' = hp_state p1"
        "hp_errno p' = hp_errno p1" "n \<le> length cs" "r = At_end \<longrightarrow> n = length cs"
        "r \<noteq> At_end \<longrightarrow> n < length cs" "r \<noteq> At_error HPE_OK" by auto
      with 4 c None "2.prems" show ?thesis by (simp add: value_loop.simps(2))
    qed
  qed (use "2.prems" in \<open>auto simp: value_loop.simps(2)\<close>)
qed

lemma safe_header_value:
  assumes "exec_ok tot e bs" "total_callback cb" "hp_state (ep e) = S_header_value"
  shows "good tot (step_header_value cb bs e)"
proof -
  have "hp_header_state (ep e) \<in> value_states" using assms by (simp add: exec_ok_def parser_wf_def)
  from value_loop_defined [OF this, of "ep e" bs] obtain r h p n where l:
    "value_loop (hp_header_state (ep e)) (ep e) bs = Ret (r, h, p, n)" "h \<in> value_states"
    "hp_state p = hp_state (ep e)" "hp_errno p = hp_errno (ep e)" "n \<le> length bs" "r = At_end \<longrightarrow> n = length bs"
    "r \<noteq> At_end \<longrightarrow> n < length bs" "r \<noteq> At_error HPE_OK" by blast
  have e: "bs \<noteq> []" "pos e + length bs = tot" "hp_errno p = HPE_OK" "hp_state p = S_header_value"
    "\<forall>k. k \<noteq> MValue \<longrightarrow> marks e k = None"
    using assms l by (auto simp: exec_ok_def marks_ok_def)
  show ?thesis
  proof (cases r)
    case At_CR
    then have "n < length bs" using l by simp
    then have "good tot (callback_data cb MValue 1
         (update_state S_header_almost_done (upd (\<lambda>p. p\<lparr>hp_header_state := h\<rparr>) (move (take n bs) (e\<lparr>ep := p\<rparr>))))
                (\<lambda>e. count_header_size n e (\<lambda>e. Ret (Break e (drop n bs)))))"
      using e assms(2) by (intro good_data good_count) (auto simp: inv_defs marks_ok_def)
    with At_CR l show ?thesis by (simp add: step_header_value_def Let_def)
  next
    case At_LF
    then have "n < length bs" using l by simp
    then have "good tot (count_header_size n (update_state S_header_almost_done (move (take n bs) (e\<lparr>ep := p\<rparr>))) (\<lambda>e.
                callback_data cb MValue 0 (upd (\<lambda>p. p\<lparr>hp_header_state := h\<rparr>) e) (\<lambda>e. Ret (Reexecute e LF (drop n bs)))))"
      using e assms(2) by (intro good_count good_data) (auto simp: inv_defs marks_ok_def)
    with At_LF l show ?thesis by (simp add: step_header_value_def Let_def)
  next
    case At_end
    then have "good tot (count_header_size (n - 1) (upd (\<lambda>p. p\<lparr>hp_header_state := h\<rparr>) (move (take (n - 1) bs) (e\<lparr>ep := p\<rparr>)))
         (\<lambda>e. Ret (Break e (drop (n - 1) bs))))"
      using e l(2,6) by (cases bs) (auto intro!: good_count simp: inv_defs marks_ok_def)
    with At_end l show ?thesis by (simp add: step_header_value_def Let_def)
  next
    case (At_error er)
    then have "n < length bs" using l by simp
    then have "good tot (fail er (move (take n bs) (e\<lparr>ep := p\<rparr>)))"
      using e At_error l(8) by (intro good_fail) auto
    with At_error l show ?thesis by (simp add: step_header_value_def Let_def)
  qed
qed

lemma finish_header_simps [simp]:
  "hp_state (finish_header p) = hp_state p" "hp_errno (finish_header p) = hp_errno p"
  by (simp_all add: finish_header_def)

lemma safe_header_lws:
  assumes "exec_ok tot e bs" "total_callback cb" "hp_state (ep e) \<in> lws_states"
  shows "good tot (step_header_lws cb ch bs e)"
proof -
  have m: "mark_of (hp_state (ep e)) = None" using assms(3) by auto
  have k: "marks e k = None" for k using assms(1) m by (simp add: exec_ok_def marks_ok_def)
  have e: "bs \<noteq> []" "pos e + length bs = tot" "pos e \<le> tot" "hp_errno (ep e) = HPE_OK"
    using assms by (auto simp: exec_ok_def)
  note simps = inv_defs marks_ok_def k e
  note start = safe_header_value_start [OF assms(1) m, of ch]
  consider "hp_state (ep e) = S_header_value_discard_ws" | "hp_state (ep e) = S_header_almost_done"
    | "hp_state (ep e) = S_header_value_lws" | "hp_state (ep e) = S_header_value_discard_ws_almost_done"
    | "hp_state (ep e) = S_header_value_discard_lws" using assms(3) by auto
  then show ?thesis
  proof cases
    case 1
    with start show ?thesis by (auto simp: step_header_lws_def simps)
  next
    case 5
    then show ?thesis using assms(2)
      by (auto simp: step_header_lws_def simps intro!: good_data)
  qed (auto simp: step_header_lws_def simps intro!: good_fail)
qed

section \<open>The end of the header, and bodies\<close>

lemma safe_headers_almost_done:
  assumes "exec_ok tot e bs" "total_callback cb" "hp_state (ep e) = S_headers_almost_done"
  shows "good tot (step_headers_almost_done cb ch bs e)"
proof -
  have k: "marks e k = None" for k using assms by (simp add: exec_ok_def marks_ok_def)
  have e: "bs \<noteq> []" "pos e + length bs = tot" "pos e \<le> tot" "hp_errno (ep e) = HPE_OK"
    using assms by (auto simp: exec_ok_def)
  let ?up = "\<lambda>p. p\<lparr>hp_state := S_headers_done, hp_upgrade :=
                   (if hp_flags p AND F_UPGRADE \<noteq> 0 \<and> hp_flags p AND F_CONNECTION_UPGRADE \<noteq> 0
                    then hp_type p = HTTP_REQUEST \<or> hp_status_code p = 101
                    else hp_method p = 5)\<rparr>"
  obtain r u where "cb (eu e) (OnHeadersComplete (headers_complete_arg (?up (ep e)))) = Ret (r, u)"
    using assms(2) by (fastforce simp: total_callback_def defined_iff)
  then show ?thesis
    unfolding step_headers_almost_done_def Let_def
    by (intro good_if good_fail good_no_callback) (auto simp: inv_defs marks_ok_def k e intro!: good_fail)
qed

lemma keep_alive_state: "start_state p \<noteq> S_chunk_size_start \<and> mark_of (start_state p) = None \<and> start_state p \<in> {S_start_req, S_start_res}"
  by (simp add: start_state_def)

lemma exec_ok_new_message:
  assumes "bs \<noteq> []" "pos e + length bs = tot" "hp_errno (ep e) = HPE_OK" "\<forall>k. marks e k = None"
  shows "safe_act tot (Break (new_message e\<lparr>eu := u\<rparr>) bs) \<and> safe_act tot (Return (pos e + 1) (new_message e\<lparr>eu := u\<rparr>))"
  using assms by (cases bs) (auto simp: new_message_def start_state_def inv_defs marks_ok_def)

lemma good_complete:
  assumes "total_callback cb" "bs \<noteq> []" "pos e + length bs = tot" "hp_errno (ep e) = HPE_OK"
    "\<forall>k. marks e k = None"
  shows "good tot (callback_notify cb 1 (new_message e) (\<lambda>e. Ret (Break e bs)))"
    "good tot (callback_notify cb 1 (new_message e) (\<lambda>e. Ret (Return (pos e + 1) e)))"
proof -
  have e: "hp_errno (ep (new_message e)) = HPE_OK" "pos (new_message e) + 1 \<le> tot"
    using assms(2-4) by (cases bs; simp add: new_message_def)+
  show "good tot (callback_notify cb 1 (new_message e) (\<lambda>e. Ret (Break e bs)))"
    "good tot (callback_notify cb 1 (new_message e) (\<lambda>e. Ret (Return (pos e + 1) e)))"
    unfolding callback_notify_def using exec_ok_new_message [OF assms(2-5)]
    by (intro good_call [OF assms(1) e(1) _ e(2)]; simp add: good_Ret)+
qed

lemma safe_headers_done:
  assumes "exec_ok tot e bs" "total_callback cb" "hp_state (ep e) = S_headers_done"
  shows "good tot (step_headers_done cb ch bs e)"
proof -
  have k: "marks e k = None" for k using assms by (simp add: exec_ok_def marks_ok_def)
  have e: "bs \<noteq> []" "pos e + length bs = tot" "pos e \<le> tot" "hp_errno (ep e) = HPE_OK"
    using assms by (auto simp: exec_ok_def)
  let ?e = "upd (\<lambda>p. p\<lparr>hp_nread := 0\<rparr>) e"
  note complete = good_complete [OF assms(2), of bs ?e tot]
  show ?thesis
    unfolding step_headers_done_def Let_def
    by (intro good_if complete good_fail) (simp_all add: inv_defs marks_ok_def k e)
qed

lemma body_bytes_pos:
  "hp_content_length p \<noteq> 0 \<Longrightarrow> bs \<noteq> [] \<Longrightarrow> 0 < body_bytes p bs \<and> body_bytes p bs \<le> length bs
     \<and> body_bytes p bs \<le> unat (hp_content_length p)"
  by (simp add: body_bytes_def unat_gt_0)

lemma take_body_simps [simp]:
  "hp_state (ep (take_body bs e)) = hp_state (ep e)" "hp_errno (ep (take_body bs e)) = hp_errno (ep e)"
  "hp_flags (ep (take_body bs e)) = hp_flags (ep e)"
  "hp_content_length (ep (take_body bs e)) = hp_content_length (ep e) - of_nat (body_bytes (ep e) bs)"
  by (simp_all add: take_body_def Let_def)

lemma content_length_left:
  fixes l :: u64
  assumes "l \<noteq> 0" "l \<noteq> - 1" "n \<le> unat l"
  shows "l - of_nat n \<noteq> - 1"
proof
  assume "l - of_nat n = - 1"
  moreover have "unat (l - of_nat n) = unat l - n"
  proof -
    have "unat (of_nat n :: u64) = n" using assms(3) by (metis le_unat_uoi)
    then show ?thesis using assms(3) by (subst unat_sub) (simp_all add: word_le_nat_alt)
  qed
  ultimately have "unat l - n = unat (- 1 :: u64)" by simp
  moreover have "unat l < unat (- 1 :: u64)"
    using assms(2) word_order.extremum [of l] by (metis order.not_eq_order_implies_strict word_less_nat_alt)
  ultimately show False by simp
qed

lemma take_body_marks:
  "marks (take_body bs e) k
   = (if k = MBody \<and> marks e k = None then Some (take (body_bytes (ep e) bs - 1) bs)
      else map_option (\<lambda>m. m @ take (body_bytes (ep e) bs - 1) bs) (marks e k))"
  by (auto simp: take_body_def Let_def)

lemma take_body_pos:
  assumes "hp_content_length (ep e) \<noteq> 0" "bs \<noteq> []"
  shows "pos (take_body bs e) + length (drop (body_bytes (ep e) bs - 1) bs) = pos e + length bs"
    "drop (body_bytes (ep e) bs - 1) bs \<noteq> []"
  using body_bytes_pos [OF assms] by (auto simp: take_body_def Let_def)

lemma include_byte_simps [simp]:
  "ep (include_byte c e) = ep e" "pos (include_byte c e) = pos e"
  "marks (include_byte c e) k = (if k = MBody then map_option (\<lambda>m. m @ [c]) (marks e MBody) else marks e k)"
  by (simp_all add: include_byte_def)

lemma safe_body:
  assumes "exec_ok tot e bs" "total_callback cb"
    "hp_state (ep e) \<in> {S_body_identity, S_body_identity_eof, S_message_done}"
  shows "good tot (step_body cb ch bs e)"
proof -
  have e: "bs \<noteq> []" "pos e + length bs = tot" "hp_errno (ep e) = HPE_OK" "parser_wf (ep e)"
    using assms by (auto simp: exec_ok_def)
  consider "hp_state (ep e) = S_body_identity" | "hp_state (ep e) = S_body_identity_eof"
    | "hp_state (ep e) = S_message_done" using assms(3) by auto
  then show ?thesis
  proof cases
    case 1
    then have cl: "hp_content_length (ep e) \<noteq> 0" "hp_content_length (ep e) \<noteq> - 1"
      using e(4) by (simp_all add: parser_wf_def)
    have k: "\<forall>k. k \<noteq> MBody \<longrightarrow> marks e k = None" using assms(1) 1 by (auto simp: exec_ok_def marks_ok_def)
    let ?rest = "drop (body_bytes (ep e) bs - 1) bs"
    note p = take_body_pos [OF cl(1) e(1)] and n = body_bytes_pos [OF cl(1) e(1)]
    have "pos (take_body bs e) \<le> tot" using p e(2) by linarith
    then have "good tot (callback_data cb MBody 0 (update_state S_message_done (include_byte (hd ?rest) (take_body bs e)))
                   (\<lambda>e. Ret (Reexecute e ch ?rest)))"
      using p e k assms(2) by (intro good_data) (auto simp: inv_defs marks_ok_def take_body_marks)
    moreover have "good tot (Ret (Break (take_body bs e) ?rest))"
      if "hp_content_length (ep (take_body bs e)) \<noteq> 0"
      using that p e k 1 content_length_left [OF cl, of "body_bytes (ep e) bs"] n
      by (auto simp: inv_defs marks_ok_def take_body_marks)
    ultimately show ?thesis using 1 cl by (simp add: step_body_def Let_def)
  next
    case 2
    with assms(1) show ?thesis
      by (cases bs) (auto simp: step_body_def inv_defs marks_ok_def)
  next
    case 3
    have k: "\<forall>k. marks e k = None" using assms(1) 3 by (auto simp: exec_ok_def marks_ok_def)
    have "good tot (callback_notify cb 1 (new_message e) (\<lambda>e. if hp_upgrade (ep e) then Ret (Return (pos e + 1) e) else Ret (Break e bs)))"
      unfolding callback_notify_def using exec_ok_new_message [OF e(1-3) k] e(1-3)
      by (intro good_call [OF assms(2)] good_if)
         (cases bs; auto simp: good_Ret new_message_def)+
    with 3 show ?thesis by (simp add: step_body_def)
  qed
qed

lemma overflow_guard:
  fixes l :: u64
  assumes "\<not> (- 1 - 16) div 16 < l" "v \<le> 15"
  shows "l * 16 + v \<noteq> - 1"
proof -
  have "l \<le> 0x0ffffffffffffffe" using assms(1) by simp
  then have l: "unat l \<le> 0x0ffffffffffffffe" by (simp add: word_le_nat_alt)
  have v: "unat v \<le> 15" using assms(2) by (simp add: word_le_nat_alt)
  have "unat (l * 16 + v) = unat l * 16 + unat v"
    using l v by (simp add: unat_word_ariths)
  moreover have "unat (- 1 :: u64) = 18446744073709551615" by (simp add: unsigned_minus_1_eq_mask mask_eq_exp_minus_1)
  ultimately have "unat (l * 16 + v) \<noteq> unat (- 1 :: u64)" using l v by linarith
  then show ?thesis by metis
qed

lemma byte_offset:
  fixes c :: u8
  assumes "lo \<le> c" "c \<le> hi"
  shows "unat (c - lo) \<le> unat hi - unat lo"
proof -
  have "unat (c - lo) = unat c - unat lo" by (rule unat_sub) (rule assms)
  moreover have "unat c \<le> unat hi" using assms by (simp add: word_le_nat_alt)
  ultimately show ?thesis by simp
qed

lemma ucast_le_15:
  fixes x :: u8
  shows "unat x \<le> 15 \<Longrightarrow> (ucast x :: u64) \<le> 15"
  by (simp add: word_le_nat_alt unsigned_ucast_eq take_bit_nat_eq_self)

lemma unhex_le:
  assumes "unhex c = Some v"
  shows "v \<le> 15"
proof -
  consider "is_num8 c" "v = ucast (c - asc CHR ''0'')"
    | "asc CHR ''A'' \<le> c" "c \<le> asc CHR ''F''" "v = ucast (c - asc CHR ''A'' + 10)"
    | "asc CHR ''a'' \<le> c" "c \<le> asc CHR ''f''" "v = ucast (c - asc CHR ''a'' + 10)"
    | "v = 0" using assms unfolding unhex_def by (metis option.sel option.distinct(1))
  then show ?thesis
  proof cases
    case 1
    then have "unat (c - asc CHR ''0'') \<le> unat (asc CHR ''9'') - unat (asc CHR ''0'')"
      by (intro byte_offset) (auto simp: is_num8_def)
    with 1 show ?thesis by (auto intro!: ucast_le_15)
  next
    case 2
    then have o: "unat (c - asc CHR ''A'') \<le> unat (asc CHR ''F'') - unat (asc CHR ''A'')" by (intro byte_offset) simp_all
    then have "unat (c - asc CHR ''A'' + 10) = unat (c - asc CHR ''A'') + 10" by (subst unat_add_lem [THEN iffD1]) simp_all
    with 2 o show ?thesis by (auto intro!: ucast_le_15)
  next
    case 3
    then have o: "unat (c - asc CHR ''a'') \<le> unat (asc CHR ''f'') - unat (asc CHR ''a'')" by (intro byte_offset) simp_all
    then have "unat (c - asc CHR ''a'' + 10) = unat (c - asc CHR ''a'') + 10" by (subst unat_add_lem [THEN iffD1]) simp_all
    with 3 o show ?thesis by (auto intro!: ucast_le_15)
  qed simp
qed

lemma not_max: "(v :: u64) \<le> 15 \<Longrightarrow> v \<noteq> - 1"
proof
  assume "v \<le> 15" "v = - 1"
  moreover have "\<not> (- 1 :: u64) \<le> 15" by (simp add: word_le_nat_alt unsigned_minus_1_eq_mask mask_eq_exp_minus_1)
  ultimately show False by simp
qed

lemma safe_chunk:
  assumes "exec_ok tot e bs" "total_callback cb" "hp_state (ep e) \<in> chunk_states" "nread_ok 1 (ep e)"
  shows "good tot (step_chunk cb ch bs e)"
proof -
  have e: "bs \<noteq> []" "pos e + length bs = tot" "pos e \<le> tot" "pos e + 1 \<le> tot" "hp_errno (ep e) = HPE_OK"
    "parser_wf (ep e)" and k: "\<forall>k. k \<noteq> MBody \<longrightarrow> marks e k = None"
    using assms(1,3) exec_pos [OF assms(1)] by (auto simp: exec_ok_def marks_ok_def chunk_states_def)
  have c: "hp_flags (ep e) AND F_CHUNKED \<noteq> 0" using e(6) assms(3) by (simp add: parser_wf_def)
  consider "hp_state (ep e) = S_chunk_size_start" | "hp_state (ep e) = S_chunk_size"
    | "hp_state (ep e) = S_chunk_parameters" | "hp_state (ep e) = S_chunk_size_almost_done"
    | "hp_state (ep e) = S_chunk_data" | "hp_state (ep e) = S_chunk_data_almost_done"
    | "hp_state (ep e) = S_chunk_data_done"
    using assms(3) by (auto simp: chunk_states_def)
  then show ?thesis
  proof cases
    case 1
    with assms(1,4) e c show ?thesis
      by (auto simp: step_chunk_def inv_defs marks_ok_def dest!: unhex_le not_max intro!: good_fail split: option.split)
  next
    case 2
    with assms(1) e c overflow_guard [OF _ unhex_le, of "hp_content_length (ep e)" ch] show ?thesis
      by (auto simp: step_chunk_def step_chunk_size_def inv_defs marks_ok_def intro!: good_fail split: option.split)
  next
    case 3
    with assms(1) e c show ?thesis by (auto simp: step_chunk_def inv_defs marks_ok_def)
  next
    case 4
    with assms(1) e c show ?thesis
      by (auto simp: step_chunk_def Let_def inv_defs marks_ok_def intro!: good_fail good_no_callback)
  next
    case 5
    then have cl: "hp_content_length (ep e) \<noteq> 0" "hp_content_length (ep e) \<noteq> - 1"
      using e(6) by (simp_all add: parser_wf_def)
    let ?rest = "drop (body_bytes (ep e) bs - 1) bs"
    note p = take_body_pos [OF cl(1) e(1)] and n = body_bytes_pos [OF cl(1) e(1)]
    have "good tot (Ret (Break (if hp_content_length (ep (take_body bs e)) = 0
        then update_state S_chunk_data_almost_done (take_body bs e) else take_body bs e) ?rest))"
      using p e k 5 c content_length_left [OF cl, of "body_bytes (ep e) bs"] n
      by (auto simp: inv_defs marks_ok_def take_body_marks)
    with 5 c cl show ?thesis by (simp add: step_chunk_def Let_def)
  next
    case 6
    with assms(1,2) e c k show ?thesis
      by (auto simp: step_chunk_def inv_defs marks_ok_def intro!: good_fail good_data)
  next
    case 7
    with assms(1) e c show ?thesis
      by (auto simp: step_chunk_def Let_def inv_defs marks_ok_def intro!: good_fail good_no_callback)
  qed
qed

section \<open>The loop\<close>

lemma safe_step:
  assumes "exec_ok tot e bs" "total_callback cb" "nread_ok 1 (ep e)"
  shows "good tot (step cb ch bs e)"
proof -
  let ?s = "hp_state (ep e)"
  let ?response = "{S_start_req_or_res, S_res_or_resp_H, S_start_res, S_res_H, S_res_HT, S_res_HTT,
             S_res_HTTP, S_res_http_major, S_res_http_dot, S_res_http_minor, S_res_http_end,
             S_res_first_status_code, S_res_status_code, S_res_status_start, S_res_status,
             S_res_line_almost_done}"
  let ?request = "url_start_states \<union> url_rest_states \<union> {S_start_req, S_req_method,
       S_req_spaces_before_url, S_req_http_start, S_req_http_H, S_req_http_HT, S_req_http_HTT,
       S_req_http_HTTP, S_req_http_major, S_req_http_dot, S_req_http_minor, S_req_http_end,
       S_req_line_almost_done}"
  have start: "good tot (step_header_value_start ch bs e)" if "?s = S_header_value_start"
    using that by (intro safe_header_value_start [OF assms(1)]) simp
  consider "?s = S_dead" | "?s \<in> ?response" | "?s = S_header_field_start" | "?s = S_header_field"
    | "?s = S_header_value_start" | "?s = S_header_value" | "?s \<in> lws_states" | "?s = S_headers_almost_done"
    | "?s = S_headers_done" | "?s \<in> {S_body_identity, S_body_identity_eof, S_message_done}"
    | "?s \<in> chunk_states" | "?s \<in> ?request"
    by (cases ?s) (auto simp: chunk_states_def)
  then show ?thesis
  proof cases
    case 1
    with assms show ?thesis by (auto simp: step_def inv_defs intro!: good_fail)
  next
    case 2
    with safe_response [OF assms(1,2) 2, of ch] show ?thesis by (auto simp: step_def)
  next
    case 3
    with safe_header_field_start [OF assms(1) 3, of ch] show ?thesis by (simp add: step_def)
  next
    case 4
    with safe_header_field [OF assms(1,2) 4] show ?thesis by (simp add: step_def)
  next
    case 5
    with start show ?thesis by (simp add: step_def)
  next
    case 6
    with safe_header_value [OF assms(1,2) 6] show ?thesis by (simp add: step_def)
  next
    case 7
    with safe_header_lws [OF assms(1,2) 7, of ch] show ?thesis by (auto simp: step_def)
  next
    case 8
    with safe_headers_almost_done [OF assms(1,2) 8, of ch] show ?thesis by (simp add: step_def)
  next
    case 9
    with safe_headers_done [OF assms(1,2) 9, of ch] show ?thesis by (simp add: step_def)
  next
    case 10
    with safe_body [OF assms(1,2) 10, of ch] show ?thesis by (auto simp: step_def)
  next
    case 11
    with safe_chunk [OF assms(1,2) 11 assms(3), of ch] show ?thesis by (auto simp: step_def chunk_states_def)
  next
    case 12
    with safe_request [OF assms(1,2) 12, of ch] show ?thesis by (auto simp: step_def)
  qed
qed

lemma safe_run_switch:
  "exec_ok tot e bs \<Longrightarrow> total_callback cb \<Longrightarrow> nread_ok 1 (ep e) \<Longrightarrow> good tot (run_switch cb ch bs e)"
proof (induction cb ch bs e rule: run_switch.induct)
  case (1 cb ch bs e)
  from safe_step [OF "1.prems", of ch] obtain a where a: "step cb ch bs e = Ret a" "safe_act tot a"
    by (auto simp: good_def)
  show ?case
  proof (cases a)
    case (Reexecute e' ch' bs')
    with a(2) have "exec_ok tot e' bs'" "nread_ok 1 (ep e')" by (auto simp: nread_ok_def)
    from "1.IH" [OF a(1) Reexecute this(1) "1.prems"(2) this(2)] show ?thesis
      using a(1) Reexecute by (simp add: run_switch.simps [of cb ch])
  qed (use a in \<open>auto simp: run_switch.simps [of cb ch] good_Ret\<close>)
qed

lemma safe_loop_turn:
  assumes "exec_ok tot e bs" "total_callback cb" "nread_ok 0 (ep e)"
  shows "good tot (loop_turn cb bs e)"
proof (cases "parsing_header (hp_state (ep e))")
  case True
  let ?e = "upd (\<lambda>p. p\<lparr>hp_nread := hp_nread p + of_nat 1\<rparr>) e"
  have "exec_ok tot ?e bs" using assms(1) by (intro exec_ok_upd) (auto simp: exec_ok_def parser_wf_def)
  moreover have "nread_ok 1 (ep ?e)" using assms(3) by (simp add: nread_ok_def)
  ultimately have "good tot (run_switch cb (hd bs) bs ?e)" using assms(2) by (intro safe_run_switch)
  moreover have "good tot (fail HPE_HEADER_OVERFLOW ?e)"
    using assms(1) by (intro good_fail) (auto simp: exec_ok_def)
  ultimately show ?thesis using True by (simp add: loop_turn_def count_header_size_def Let_def)
next
  case False
  then have "nread_ok 1 (ep e)" by (auto simp: nread_ok_def parsing_header_def)
  with False assms show ?thesis by (simp add: loop_turn_def safe_run_switch)
qed

lemma safe_finish_buffer:
  assumes "total_callback cb" "marks_ok e" "hp_errno (ep e) = HPE_OK" "parser_wf (ep e)" "nread_ok 0 (ep e)"
  shows "good (pos e) (finish_buffer cb e)"
proof -
  have "length (filter (\<lambda>k. marks e k \<noteq> None) [MField, MValue, MUrl, MBody, MStatus]) \<le> 1"
  proof (cases "mark_of (hp_state (ep e))")
    case (Some a)
    with assms(2) show ?thesis by (cases a) (simp_all add: marks_ok_def)
  qed (use assms(2) in \<open>simp add: marks_ok_def\<close>)
  then show ?thesis
    using assms(1,3-5) unfolding finish_buffer_def
    by (intro good_if good_data) (simp_all add: good_Ret)
qed

lemma safe_execute_loop:
  "total_callback cb \<Longrightarrow> marks_ok e \<Longrightarrow> hp_errno (ep e) = HPE_OK \<Longrightarrow> parser_wf (ep e) \<Longrightarrow> nread_ok 0 (ep e)
   \<Longrightarrow> \<exists>n e'. execute_loop cb bs e = Ret (Return n e') \<and> safe_act (pos e + length bs) (Return n e')"
proof (induction cb bs e rule: execute_loop.induct)
  case (1 cb e)
  from safe_finish_buffer [OF "1.prems"] obtain a where a: "finish_buffer cb e = Ret a" "safe_act (pos e) a"
    by (auto simp: good_def)
  have "\<exists>n e'. a = Return n e'"
    using a(1) unfolding finish_buffer_def by (auto split: if_splits elim!: callback_data_cases)
  with a show ?case by auto
next
  case (2 cb b bs e)
  let ?tot = "pos e + length (b # bs)"
  have e: "exec_ok ?tot e (b # bs)" using "2.prems" by (simp add: exec_ok_def)
  from safe_loop_turn [OF e "2.prems"(1,5)] obtain a where a: "loop_turn cb (b # bs) e = Ret a" "safe_act ?tot a"
    by (auto simp: good_def)
  show ?case
  proof (cases a)
    case (Break e' bs')
    then obtain b' bs'' where bs: "bs' = b' # bs''" using a(2) by (cases bs') (auto simp: exec_ok_def)
    let ?m = "move (take 1 bs') e'"
    have "marks_ok ?m" "hp_errno (ep ?m) = HPE_OK" "parser_wf (ep ?m)" "nread_ok 0 (ep ?m)"
      "pos ?m + length (tl bs') = ?tot"
      using a(2) Break bs by (auto simp: exec_ok_def marks_ok_def)
    with "2.IH" [OF a(1) Break "2.prems"(1) this(1-4)] a(1) Break show ?thesis
      by (simp add: execute_loop.simps(2))
  next
    case (Reexecute e' ch' bs')
    with loop_turn_ok [OF a(1)] show ?thesis by simp
  next
    case (Return n e')
    with a show ?thesis by (simp add: execute_loop.simps(2))
  qed
qed

text \<open>The parser between two buffers.\<close>

definition between :: "http_parser \<Rightarrow> bool" where
  "between p \<longleftrightarrow> (hp_errno p = HPE_OK \<longrightarrow> parser_wf p \<and> nread_ok 0 p)"

lemma between_init: "between (http_parser_init t)"
  by (cases t) (auto simp: between_def parser_wf_def nread_ok_def http_parser_init_def chunk_states_def)

lemma initial_marks_ok: "marks_ok \<lparr>ep = p, marks = initial_marks (hp_state p), pos = 0, eu = u\<rparr>"
  by (cases "hp_state p") (auto simp: marks_ok_def initial_marks_def)

lemma execute_safe:
  assumes "total_callback cb" "between p"
  shows "\<exists>n p' u'. http_parser_execute cb p bs u = Ret (n, p', u') \<and> between p' \<and> n \<le> max 1 (length bs)"
proof -
  let ?e = "\<lparr>ep = p, marks = initial_marks (hp_state p), pos = 0, eu = u\<rparr>"
  consider "hp_errno p \<noteq> HPE_OK" | "hp_errno p = HPE_OK" "bs = []" "hp_state p = S_body_identity_eof"
    | "hp_errno p = HPE_OK" "bs = []" "hp_state p \<noteq> S_body_identity_eof" | "hp_errno p = HPE_OK" "bs \<noteq> []" by blast
  then show ?thesis
  proof cases
    case 2
    let ?e' = "?e\<lparr>marks := (\<lambda>_. None)\<rparr>"
    have "good 0 (callback_notify cb 0 ?e' (\<lambda>e. Ret (Return 0 e)))"
      unfolding callback_notify_def
      by (intro good_call [OF assms(1)]) (use 2 assms(2) in \<open>auto simp: good_Ret between_def\<close>)
    moreover obtain r u' where "cb u OnComplete = Ret (r, u')"
      using assms(1) by (fastforce simp: total_callback_def defined_iff)
    ultimately show ?thesis using 2
      by (cases "r = 0") (auto simp: http_parser_execute_def result_def callback_notify_def call_def good_Ret between_def Let_def)
  next
    case 4
    have "parser_wf p" "nread_ok 0 p" using 4 assms(2) by (simp_all add: between_def)
    with safe_execute_loop [OF assms(1) initial_marks_ok, of p u bs] 4 obtain n e' where
      "execute_loop cb bs ?e = Ret (Return n e')" "safe_act (length bs) (Return n e')" by auto
    with 4 show ?thesis by (auto simp: http_parser_execute_def result_def between_def Let_def)
  qed (use assms(2) in \<open>auto simp: http_parser_execute_def between_def Let_def\<close>)
qed

text \<open>A stream handed to the parser in buffers.\<close>

fun parse_buffers :: "'s callback \<Rightarrow> http_parser \<Rightarrow> 's \<Rightarrow> bytes list \<Rightarrow> (nat list \<times> http_parser \<times> 's) outcome" where
  "parse_buffers cb p u [] = Ret ([], p, u)"
| "parse_buffers cb p u (b # bs) =
     bind_out (http_parser_execute cb p b u) (\<lambda>(n, p, u).
     map_out (\<lambda>(ns, r). (n # ns, r)) (parse_buffers cb p u bs))"

lemma parse_buffers_safe:
  "total_callback cb \<Longrightarrow> between p \<Longrightarrow> \<exists>ns p' u'. parse_buffers cb p u bufs = Ret (ns, p', u')
     \<and> list_all2 (\<lambda>n b. n \<le> max 1 (length b)) ns bufs"
proof (induction bufs arbitrary: p u)
  case (Cons b bs)
  from execute_safe [OF Cons.prems, of b u] obtain n p1 u1 where
    1: "http_parser_execute cb p b u = Ret (n, p1, u1)" "between p1" "n \<le> max 1 (length b)" by blast
  from Cons.IH [OF Cons.prems(1) 1(2), of u1] 1 show ?case by auto
qed simp

section \<open>Properties\<close>



end
