(* ===== verification/Httplaws.thy ===== *)
theory Httplaws
  imports Httpparser
begin

text \<open>
  The two ends of an HTTP request at work together: what http_send_request (http.c) writes is what
  request_parse_html (request.c) reads with the parser of http_parser.c.  The reader feeds the parser
  byte by byte, so the laws here say for one byte in each state which events the parser reports and
  where it goes, and then for the words, lines and bodies made of such bytes.
\<close>

section \<open>Bytes and their events\<close>

text \<open>Handing events to the callbacks, none of which may report an error.\<close>

fun run_events :: "'s callback \<Rightarrow> http_event list \<Rightarrow> 's \<Rightarrow> 's outcome" where
  "run_events cb [] u = Ret u"
| "run_events cb (ev # evs) u =
     bind_out (cb u ev) (\<lambda>(r, u). if r = 0 then run_events cb evs u else Undef)"

text \<open>One byte in a buffer of its own: it is parsed and exactly these events are reported.\<close>

definition byte_emits :: "'s callback \<Rightarrow> http_parser \<Rightarrow> u8 \<Rightarrow> http_event list \<Rightarrow> http_parser \<Rightarrow> bool" where
  "byte_emits cb p b evs q \<longleftrightarrow>
     (\<forall>u u'. run_events cb evs u = Ret u' \<longrightarrow> http_parser_execute cb p [b] u = Ret (1, q, u'))"

type_synonym trace = "(u8 \<times> http_event list) list"

fun parses :: "'s callback \<Rightarrow> http_parser \<Rightarrow> trace \<Rightarrow> http_parser \<Rightarrow> bool" where
  "parses cb p [] q \<longleftrightarrow> q = p"
| "parses cb p ((b, evs) # t) q \<longleftrightarrow> (\<exists>p1. byte_emits cb p b evs p1 \<and> parses cb p1 t q)"

lemma parses_append: "parses cb p (t1 @ t2) q \<longleftrightarrow> (\<exists>p1. parses cb p t1 p1 \<and> parses cb p1 t2 q)"
  by (induction cb p t1 q rule: parses.induct) auto

lemma parses_one: "byte_emits cb p b evs q \<Longrightarrow> parses cb p [(b, evs)] q"
  by simp

lemma parses_step: "byte_emits cb p b evs p1 \<Longrightarrow> parses cb p1 t q \<Longrightarrow> parses cb p ((b, evs) # t) q"
  by auto

definition turn_then :: "'s callback \<Rightarrow> 's act outcome \<Rightarrow> 's act outcome" where
  "turn_then cb r =
     (case r of Ret (Break e bs) \<Rightarrow> execute_loop cb (tl bs) (move (take 1 bs) e) | r \<Rightarrow> r)"

lemma turn_then_simps [simp]:
  "turn_then cb (Ret (Break e [b])) = finish_buffer cb (move [b] e)"
  "turn_then cb (Ret (Return n e)) = Ret (Return n e)"
  by (simp_all add: turn_then_def)

lemma execute_one:
  assumes "hp_errno p = HPE_OK"
  shows "http_parser_execute cb p [b] u =
    result (turn_then cb (loop_turn cb [b] \<lparr>ep = p, marks = initial_marks (hp_state p), pos = 0, eu = u\<rparr>))"
  using assms by (simp add: http_parser_execute_def execute_loop.simps turn_then_def Let_def)

text \<open>A byte of the header counts as read, unless the header gets too long.\<close>

definition room :: "http_parser \<Rightarrow> nat \<Rightarrow> bool" where
  "room p n \<longleftrightarrow> hp_errno p = HPE_OK \<and> unat (hp_nread p) + n \<le> HTTP_MAX_HEADER_SIZE"

abbreviation count_one :: "http_parser \<Rightarrow> http_parser" where
  "count_one p \<equiv> p\<lparr>hp_nread := hp_nread p + 1\<rparr>"

lemma room_next:
  assumes "room p (Suc n)"
  shows "unat (hp_nread p + 1) = Suc (unat (hp_nread p))" "room (count_one p) n"
proof -
  have le: "unat (hp_nread p) + 1 \<le> 81920" using assms by (simp add: room_def)
  show eq: "unat (hp_nread p + 1) = Suc (unat (hp_nread p))"
    using le by (simp add: unat_word_ariths(1))
  show "room (count_one p) n" using assms by (simp add: room_def eq)
qed

lemma room_mono: "room p n \<Longrightarrow> m \<le> n \<Longrightarrow> room p m"
  by (simp add: room_def)

lemma execute_header:
  assumes "room p (Suc n)" "parsing_header (hp_state p)"
  shows "http_parser_execute cb p [b] u =
    result (turn_then cb (run_switch cb b [b]
      \<lparr>ep = count_one p, marks = initial_marks (hp_state p), pos = 0, eu = u\<rparr>))"
proof -
  have "unat (hp_nread p + 1) \<le> 81920" using room_next(1) [OF assms(1)] assms(1) by (simp add: room_def)
  then show ?thesis
    using assms by (simp add: room_def execute_one loop_turn_def count_header_size_def upd_def Let_def)
qed

text \<open>
  A trace leads from parsers of one kind to parsers of another, as long as the header has room for its
  cost; bytes of a body cost nothing.
\<close>

definition triple :: "'s callback \<Rightarrow> (http_parser \<Rightarrow> bool) \<Rightarrow> nat \<Rightarrow> trace \<Rightarrow> (http_parser \<Rightarrow> bool) \<Rightarrow> bool" where
  "triple cb P cost t Q \<longleftrightarrow>
     (\<forall>p n. P p \<longrightarrow> room p (cost + n) \<longrightarrow> (\<exists>q. parses cb p t q \<and> Q q \<and> room q n))"

lemma tripleD:
  assumes "triple cb P cost t Q" "P p" "room p (cost + n)"
  obtains q where "parses cb p t q" "Q q" "room q n"
  using assms unfolding triple_def by blast

lemma triple_nil [intro]: "triple cb P 0 [] P"
  by (simp add: triple_def)

lemma triple_append:
  assumes "triple cb P c1 t1 Q" "triple cb Q c2 t2 R"
  shows "triple cb P (c1 + c2) (t1 @ t2) R"
  unfolding triple_def
proof (intro allI impI)
  fix p n
  assume "P p" "room p (c1 + c2 + n)"
  then obtain q where q: "parses cb p t1 q" "Q q" "room q (c2 + n)"
    using tripleD [OF assms(1), of p "c2 + n"] by (auto simp: add.assoc)
  then obtain r where "parses cb q t2 r" "R r" "room r n" using tripleD [OF assms(2)] by blast
  with q(1) show "\<exists>q. parses cb p (t1 @ t2) q \<and> R q \<and> room q n" by (auto simp: parses_append)
qed

lemma triple_cons: "triple cb P 1 [x] Q \<Longrightarrow> triple cb Q c t R \<Longrightarrow> triple cb P (Suc c) (x # t) R"
  using triple_append [of cb P 1 "[x]" Q c t R] by simp

lemma triple_conseq:
  "triple cb P c t Q \<Longrightarrow> (\<And>p. P' p \<Longrightarrow> P p) \<Longrightarrow> (\<And>p. Q p \<Longrightarrow> Q' p) \<Longrightarrow> triple cb P' c t Q'"
  unfolding triple_def by blast

abbreviation run_byte :: "'s callback \<Rightarrow> http_parser \<Rightarrow> u8 \<Rightarrow> 's \<Rightarrow> (nat \<times> http_parser \<times> 's) outcome" where
  "run_byte cb p b u \<equiv>
     result (turn_then cb (run_switch cb b [b]
       \<lparr>ep = p, marks = initial_marks (hp_state p), pos = 0, eu = u\<rparr>))"

lemma header_byte:
  assumes run: "\<And>p u u'. P p \<Longrightarrow> hp_errno p = HPE_OK \<Longrightarrow> unat (hp_nread p) \<le> HTTP_MAX_HEADER_SIZE \<Longrightarrow>
      run_events cb evs u = Ret u' \<Longrightarrow> run_byte cb p b u = Ret (1, f p, u')"
    and "\<And>p. P p \<Longrightarrow> parsing_header (hp_state p)" "\<And>p v. P (p\<lparr>hp_nread := v\<rparr>) = P p"
    and f: "\<And>p. P p \<Longrightarrow> hp_errno p = HPE_OK \<Longrightarrow> Q (f p) \<and> hp_nread (f p) \<le> hp_nread p \<and> hp_errno (f p) = HPE_OK"
  shows "triple cb P 1 [(b, evs)] Q"
  unfolding triple_def
proof (intro allI impI)
  fix p n
  assume p: "P p" "room p (1 + n)"
  let ?p = "count_one p"
  have P: "P ?p" "hp_errno ?p = HPE_OK" "unat (hp_nread ?p) \<le> HTTP_MAX_HEADER_SIZE"
    using p assms(3) room_next [of p n] by (simp_all add: room_def)
  have "http_parser_execute cb p [b] u = run_byte cb ?p b u" for u
    using execute_header [of p n cb b u] p assms(2) by simp
  with run [OF P] have "byte_emits cb p b evs (f ?p)" by (simp add: byte_emits_def)
  moreover have "room (f ?p) n"
    using f [OF P(1,2)] room_next(2) [of p n] p(2) by (simp add: room_def word_le_nat_alt)
  ultimately show "\<exists>q. parses cb p [(b, evs)] q \<and> Q q \<and> room q n" using f [OF P(1,2)] by auto
qed

lemma run_events_Cons:
  "run_events cb (ev # evs) u = Ret u' \<longleftrightarrow> (\<exists>u1. cb u ev = Ret (0, u1) \<and> run_events cb evs u1 = Ret u')"
  by (auto simp: bind_out_Ret_iff split: if_splits)

lemma run_events_one: "run_events cb [ev] u = Ret u' \<longleftrightarrow> cb u ev = Ret (0, u')"
  by (auto simp: run_events_Cons simp del: run_events.simps(2))

lemma header_byte1:
  assumes "\<And>p u u'. P p \<Longrightarrow> hp_errno p = HPE_OK \<Longrightarrow> unat (hp_nread p) \<le> HTTP_MAX_HEADER_SIZE \<Longrightarrow>
      cb u ev = Ret (0, u') \<Longrightarrow> run_byte cb p b u = Ret (1, f p, u')"
    and "\<And>p. P p \<Longrightarrow> parsing_header (hp_state p)" "\<And>p v. P (p\<lparr>hp_nread := v\<rparr>) = P p"
    and "\<And>p. P p \<Longrightarrow> hp_errno p = HPE_OK \<Longrightarrow> Q (f p) \<and> hp_nread (f p) \<le> hp_nread p \<and> hp_errno (f p) = HPE_OK"
  shows "triple cb P 1 [(b, [ev])] Q"
  by (rule header_byte [where f = f]) (use assms in \<open>simp_all only: run_events_one\<close>)

text \<open>At the end of the buffer at most one piece is left over.\<close>

lemma finish_none:
  assumes "hp_errno (ep e) = HPE_OK" "\<And>k. marks e k = None"
  shows "result (finish_buffer cb e) = Ret (pos e, ep e, eu e)"
  using assms by (simp add: finish_buffer_def callback_data_def result_def)

lemma finish_one:
  assumes "hp_errno (ep e) = HPE_OK" "marks e k \<noteq> None" "\<And>j. j \<noteq> k \<Longrightarrow> marks e j = None"
  shows "result (finish_buffer cb e) = bind_out (cb (eu e) (mark_event k (the (marks e k))))
    (\<lambda>(r, u). Ret (pos e, if r = 0 then ep e else (ep e)\<lparr>hp_errno := mark_errno k\<rparr>, u))"
  using assms
  by (cases k; cases "cb (eu e) (mark_event k (the (marks e k)))")
     (auto simp: finish_buffer_def callback_data_def call_def result_def upd_def)

lemmas one_byte = parsing_header_def run_switch.simps step_def initial_marks_def move_def upd_def Let_def

subsection \<open>The request line\<close>

text \<open>What the header of the message says so far.\<close>

definition message :: "http_parser \<Rightarrow> http_parser_type \<times> bool \<times> nat \<times> u8 \<times> u64" where
  "message p = (hp_type p, hp_lenient p, hp_method p, hp_flags p, hp_content_length p)"

abbreviation at :: "http_state \<Rightarrow> http_parser_type \<times> bool \<times> nat \<times> u8 \<times> u64 \<Rightarrow> http_parser \<Rightarrow> bool" where
  "at s m p \<equiv> hp_state p = s \<and> message p = m"

abbreviation asked :: "nat \<Rightarrow> http_parser_type \<times> bool \<times> nat \<times> u8 \<times> u64" where
  "asked m \<equiv> (HTTP_REQUEST, False, m, 0, ULLONG_MAX)"

lemma start_byte:
  assumes "first_method b = Some m" "is_alpha8 b" "b \<noteq> CR" "b \<noteq> LF"
  shows "triple cb (\<lambda>p. hp_state p = S_start_req \<and> hp_type p = HTTP_REQUEST \<and> \<not> hp_lenient p) 1 [(b, [])]
    (\<lambda>p. at S_req_method (asked m) p \<and> hp_index p = 1)"
  by (rule header_byte [where f = "\<lambda>p. p\<lparr>hp_flags := 0, hp_content_length := ULLONG_MAX, hp_method := m, hp_index := 1,
       hp_state := S_req_method\<rparr>"])
     (use assms in \<open>auto simp: one_byte step_request_def no_callback_def message_def finish_none\<close>)

lemma method_byte:
  assumes "m < length method_strings" "i < length (method_strings ! m)" "b = lit_at (method_strings ! m) i" "b \<noteq> 0" "b \<noteq> SP"
  shows "triple cb (\<lambda>p. at S_req_method (asked m) p \<and> hp_index p = i) 1 [(b, [])]
    (\<lambda>p. at S_req_method (asked m) p \<and> hp_index p = Suc i)"
  by (rule header_byte [where f = "\<lambda>p. p\<lparr>hp_index := Suc i\<rparr>"])
     (use assms in \<open>auto simp: one_byte step_request_def step_method_def message_def finish_none\<close>)

lemma method_end:
  assumes "m < length method_strings"
  shows "triple cb (\<lambda>p. at S_req_method (asked m) p \<and> hp_index p = length (method_strings ! m)) 1 [(SP, [])]
    (at S_req_spaces_before_url (asked m))"
  by (rule header_byte [where f = "\<lambda>p. p\<lparr>hp_index := Suc (length (method_strings ! m)), hp_state := S_req_spaces_before_url\<rparr>"])
     (use assms in \<open>auto simp: one_byte step_request_def step_method_def message_def finish_none lit_at_def\<close>)

text \<open>The target: an absolute path, with a query and a fragment perhaps.\<close>

definition url_states :: "http_state set" where
  "url_states = {S_req_path, S_req_query_string_start, S_req_query_string, S_req_fragment_start, S_req_fragment}"

definition url_byte :: "u8 \<Rightarrow> bool" where
  "url_byte b \<longleftrightarrow> 33 \<le> b \<and> b \<le> 126"

abbreviation in_url :: "http_parser_type \<times> bool \<times> nat \<times> u8 \<times> u64 \<Rightarrow> http_parser \<Rightarrow> bool" where
  "in_url m p \<equiv> hp_state p \<in> url_states \<and> message p = m"

lemma slash_byte:
  assumes "m \<noteq> 5"
  shows "triple cb (at S_req_spaces_before_url (asked m)) 1 [(asc CHR ''/'', [OnUrl (string_of [asc CHR ''/''])])] (in_url (asked m))"
  by (rule header_byte1 [where f = "\<lambda>p. p\<lparr>hp_state := S_req_path\<rparr>"])
     (use assms in \<open>auto simp: one_byte step_request_def step_url_def parse_url_char_def message_def set_mark_def url_states_def
       finish_one [where k = MUrl]\<close>)

lemma url_states_simps [simp]:
  "S_req_path \<in> url_states" "S_req_query_string_start \<in> url_states" "S_req_query_string \<in> url_states"
  "S_req_fragment_start \<in> url_states" "S_req_fragment \<in> url_states" "S_dead \<notin> url_states"
  by (simp_all add: url_states_def)

lemma parse_url_char_url:
  assumes "s \<in> url_states" "url_byte b"
  shows "parse_url_char s b \<in> url_states"
proof -
  have b: "b \<noteq> 32" "b \<noteq> 13" "b \<noteq> 10" "b \<noteq> 9" "b \<noteq> 12" using assms(2) by (auto simp: url_byte_def)
  have "url_path b c q f \<in> {c, q, f}" for c q f
    using assms(2) by (auto simp: url_path_def is_url_char_def url_byte_def)
  then have in_url: "url_path b c q f \<in> url_states" if "{c, q, f} \<subseteq> url_states" for c q f using that by blast
  from assms(1) consider "s = S_req_path" | "s = S_req_query_string_start" | "s = S_req_query_string"
    | "s = S_req_fragment_start" | "s = S_req_fragment" by (auto simp: url_states_def)
  then show ?thesis
    using b by cases (simp_all add: parse_url_char_def in_url)
qed

lemma url_rest_step:
  assumes "hp_state (ep e) \<in> url_states"
  shows "step cb ch bs e = step_url_rest cb ch bs e"
  using assms by (auto simp: step_def step_request_def url_states_def)

lemma url_marks: "s \<in> url_states \<Longrightarrow> initial_marks s = (\<lambda>_. None)(MUrl := Some []) \<and> parsing_header s"
  by (auto simp: url_states_def initial_marks_def parsing_header_def)

lemma url_byte_parsed:
  assumes "url_byte b"
  shows "triple cb (in_url m) 1 [(b, [OnUrl (string_of [b])])] (in_url m)"
proof (rule header_byte1 [where f = "\<lambda>p. p\<lparr>hp_state := parse_url_char (hp_state p) b\<rparr>"])
  fix p :: http_parser and u u'
  assume p: "in_url m p" "hp_errno p = HPE_OK" "cb u (OnUrl (string_of [b])) = Ret (0, u')"
  have b: "b \<noteq> 32" "b \<noteq> 13" "b \<noteq> 10" using assms by (auto simp: url_byte_def)
  have "parse_url_char (hp_state p) b \<in> url_states" using p assms by (simp add: parse_url_char_url)
  then have "parse_url_char (hp_state p) b \<noteq> S_dead" by auto
  with p b show "run_byte cb p b u = Ret (1, p\<lparr>hp_state := parse_url_char (hp_state p) b\<rparr>, u')"
    by (simp add: run_switch.simps url_rest_step url_marks step_url_rest_def step_url_def move_def upd_def
        finish_one [where k = MUrl])
qed (use assms in \<open>auto simp: url_marks message_def parse_url_char_url\<close>)

lemma url_end:
  "triple cb (in_url m) 1 [(SP, [OnUrl (string_of [])])] (at S_req_http_start m)"
  by (rule header_byte1 [where f = "\<lambda>p. p\<lparr>hp_state := S_req_http_start\<rparr>"])
     (auto simp: run_switch.simps url_rest_step url_marks step_url_rest_def move_def upd_def message_def
       callback_data_def call_def finish_none)

text \<open>A piece of text that is handed over byte by byte.\<close>

definition pieces :: "(string \<Rightarrow> http_event) \<Rightarrow> bytes \<Rightarrow> trace" where
  "pieces ev bs = map (\<lambda>b. (b, [ev (string_of [b])])) bs"

lemma pieces_simps [simp]:
  "pieces ev [] = []" "pieces ev (b # bs) = (b, [ev (string_of [b])]) # pieces ev bs"
  by (simp_all add: pieces_def)

lemma url_parsed: "list_all url_byte bs \<Longrightarrow> triple cb (in_url m) (length bs) (pieces OnUrl bs) (in_url m)"
  by (induction bs) (auto intro: triple_cons url_byte_parsed)

text \<open>The fixed bytes after the target.\<close>

definition silent :: "bytes \<Rightarrow> trace" where
  "silent bs = map (\<lambda>b. (b, [])) bs"

lemma silent_bytes_simps [simp]:
  "silent [] = []" "silent (b # bs) = (b, []) # silent bs" "silent (as @ bs) = silent as @ silent bs"
  by (simp_all add: silent_def)

lemma go_byte:
  assumes "\<And>e :: 's exec. hp_state (ep e) = s \<Longrightarrow> step cb b [b] e = go s' [b] e"
    and "parsing_header s" "initial_marks s = (\<lambda>_. None)"
  shows "triple cb (at s m) 1 [(b, [])] (at s' m)"
  by (rule header_byte [where f = "\<lambda>p. p\<lparr>hp_state := s'\<rparr>"])
     (use assms in \<open>auto simp: run_switch.simps move_def upd_def message_def finish_none\<close>)

lemma version_byte:
  assumes "\<And>e :: 's exec. hp_state (ep e) = s \<Longrightarrow> step cb b [b] e = version_digit store s' b [b] e"
    and "parsing_header s" "initial_marks s = (\<lambda>_. None)" "is_num8 b" "store = set_major \<or> store = set_minor"
  shows "triple cb (at s m) 1 [(b, [])] (at s' m)"
  by (rule header_byte [where f = "\<lambda>p. (store (ucast (b - asc CHR ''0'')) p)\<lparr>hp_state := s'\<rparr>"])
     (use assms in \<open>auto simp: run_switch.simps version_digit_def move_def upd_def message_def finish_none\<close>)

lemmas fixed_byte = step_def step_request_def expect_def parsing_header_def initial_marks_def Let_def

lemma version_parsed:
  "triple cb (at S_req_http_start m) 10 (silent (bytes_of (''HTTP/1.1'' @ crlf))) (at S_header_field_start m)"
proof -
  have "triple cb (at S_req_http_start m) 1 [(asc CHR ''H'', [])] (at S_req_http_H m)"
    "triple cb (at S_req_http_H m) 1 [(asc CHR ''T'', [])] (at S_req_http_HT m)"
    "triple cb (at S_req_http_HT m) 1 [(asc CHR ''T'', [])] (at S_req_http_HTT m)"
    "triple cb (at S_req_http_HTT m) 1 [(asc CHR ''P'', [])] (at S_req_http_HTTP m)"
    "triple cb (at S_req_http_HTTP m) 1 [(asc CHR ''/'', [])] (at S_req_http_major m)"
    "triple cb (at S_req_http_dot m) 1 [(asc CHR ''.'', [])] (at S_req_http_minor m)"
    "triple cb (at S_req_http_end m) 1 [(CR, [])] (at S_req_line_almost_done m)"
    "triple cb (at S_req_line_almost_done m) 1 [(LF, [])] (at S_header_field_start m)"
    by (rule go_byte; simp add: fixed_byte)+
  moreover have "triple cb (at S_req_http_major m) 1 [(asc CHR ''1'', [])] (at S_req_http_dot m)"
    "triple cb (at S_req_http_minor m) 1 [(asc CHR ''1'', [])] (at S_req_http_end m)"
    by (rule version_byte [where store = set_major]; simp add: fixed_byte is_num8_def)
       (rule version_byte [where store = set_minor]; simp add: fixed_byte is_num8_def)
  ultimately have "triple cb (at S_req_http_start m)
      (Suc (Suc (Suc (Suc (Suc (Suc (Suc (Suc (Suc 1))))))))) (silent
        [asc CHR ''H'', asc CHR ''T'', asc CHR ''T'', asc CHR ''P'', asc CHR ''/'', asc CHR ''1'',
         asc CHR ''.'', asc CHR ''1'', CR, LF]) (at S_header_field_start m)"
    unfolding silent_bytes_simps by (intro triple_cons)
  moreover have "bytes_of (''HTTP/1.1'' @ crlf) = [asc CHR ''H'', asc CHR ''T'', asc CHR ''T'', asc CHR ''P'', asc CHR ''/'', asc CHR ''1'',
         asc CHR ''.'', asc CHR ''1'', CR, LF]"
    by (simp add: bytes_of_def)
  ultimately show ?thesis by (simp add: numeral_eq_Suc)
qed

text \<open>The method, letter by letter.\<close>

abbreviation fresh_request :: "http_parser \<Rightarrow> bool" where
  "fresh_request p \<equiv> hp_state p = S_start_req \<and> hp_type p = HTTP_REQUEST \<and> \<not> hp_lenient p"

lemma method_bytes:
  assumes "m < length method_strings" "method_strings ! m = w @ cs" "list_all (\<lambda>c. asc c \<noteq> 0 \<and> asc c \<noteq> SP) cs"
  shows "triple cb (\<lambda>p. at S_req_method (asked m) p \<and> hp_index p = length w) (length cs) (silent (bytes_of cs))
    (\<lambda>p. at S_req_method (asked m) p \<and> hp_index p = length (w @ cs))"
  using assms(2,3)
proof (induction cs arbitrary: w)
  case (Cons c cs)
  have "triple cb (\<lambda>p. at S_req_method (asked m) p \<and> hp_index p = length w) 1 [(asc c, [])]
    (\<lambda>p. at S_req_method (asked m) p \<and> hp_index p = Suc (length w))"
    by (rule method_byte [OF assms(1)]) (use Cons.prems in \<open>simp_all add: lit_at_def nth_append\<close>)
  with Cons.IH [of "w @ [c]"] Cons.prems show ?case
    by (auto simp: bytes_of_def intro: triple_cons)
qed (auto simp: bytes_of_def)

lemma method_parsed:
  assumes m: "m < length method_strings" "method_strings ! m = c # cs"
    and "first_method (asc c) = Some m" "is_alpha8 (asc c)" "asc c \<noteq> CR" "asc c \<noteq> LF"
    and cs: "list_all (\<lambda>c. asc c \<noteq> 0 \<and> asc c \<noteq> SP) cs" and k: "k = length cs + 2"
  shows "triple cb fresh_request k (silent (bytes_of (c # cs @ '' '')))
    (at S_req_spaces_before_url (asked m))"
proof -
  have "triple cb fresh_request 1 [(asc c, [])] (\<lambda>p. at S_req_method (asked m) p \<and> hp_index p = 1)"
    by (rule start_byte) fact+
  moreover have "triple cb (\<lambda>p. at S_req_method (asked m) p \<and> hp_index p = 1) (length cs) (silent (bytes_of cs))
    (\<lambda>p. at S_req_method (asked m) p \<and> hp_index p = length (method_strings ! m))"
    using method_bytes [OF m(1), of "[c]" cs cb] m(2) cs by simp
  note triple_append [OF this method_end [OF m(1)]]
  ultimately have "triple cb fresh_request (Suc (length cs + 1))
      ((asc c, []) # silent (bytes_of cs) @ [(SP, [])]) (at S_req_spaces_before_url (asked m))"
    by (rule triple_cons)
  then show ?thesis by (simp add: bytes_of_def k)
qed

lemma GET_parsed: "triple cb fresh_request 4 (silent (bytes_of ''GET '')) (at S_req_spaces_before_url (asked 1))"
proof -
  have "triple cb fresh_request 4 (silent (bytes_of (CHR ''G'' # ''ET'' @ '' ''))) (at S_req_spaces_before_url (asked 1))"
    by (rule method_parsed; simp add: method_strings_def first_method_def is_alpha8_def lower8_def)
  then show ?thesis by simp
qed

lemma POST_parsed: "triple cb fresh_request 5 (silent (bytes_of ''POST '')) (at S_req_spaces_before_url (asked 3))"
proof -
  have "triple cb fresh_request 5 (silent (bytes_of (CHR ''P'' # ''OST'' @ '' ''))) (at S_req_spaces_before_url (asked 3))"
    by (rule method_parsed; simp add: method_strings_def first_method_def is_alpha8_def lower8_def)
  then show ?thesis by simp
qed

text \<open>The request line after the method.\<close>

definition target_trace :: "bytes \<Rightarrow> trace" where
  "target_trace bs = pieces OnUrl (asc CHR ''/'' # bs) @ (SP, [OnUrl []]) # silent (bytes_of (''HTTP/1.1'' @ crlf))"

lemma target_parsed:
  assumes "list_all url_byte bs" "m \<noteq> 5"
  shows "triple cb (at S_req_spaces_before_url (asked m)) (length bs + 12) (target_trace bs)
    (at S_header_field_start (asked m))"
proof -
  have e: "string_of [] = []" by (simp add: string_of_def)
  have "triple cb (in_url (asked m)) 1 [(SP, [OnUrl []])] (at S_req_http_start (asked m))"
    using url_end [of cb "asked m"] by (simp only: e)
  from triple_cons [OF this version_parsed]
  have "triple cb (in_url (asked m)) 11 ((SP, [OnUrl []]) # silent (bytes_of (''HTTP/1.1'' @ crlf)))
    (at S_header_field_start (asked m))" by simp
  from triple_cons [OF slash_byte [OF assms(2)] triple_append [OF url_parsed [OF assms(1)] this]]
  show ?thesis by (simp add: target_trace_def eval_nat_numeral)
qed

subsection \<open>Header fields\<close>

text \<open>The name: the state of the header follows field_char.\<close>

fun name_state :: "header_states \<Rightarrow> nat \<Rightarrow> bytes \<Rightarrow> (header_states \<times> nat) option" where
  "name_state h i [] = Some (h, i)"
| "name_state h i (b # bs) =
     (if token b = 0 then None
      else case field_char h i (token b) b of
        Undef \<Rightarrow> None
      | Ret (h, i) \<Rightarrow> name_state h i bs)"

definition first_name_state :: "u8 \<Rightarrow> header_states" where
  "first_name_state b =
     (if token b = asc CHR ''c'' then H_C
      else if token b = asc CHR ''p'' then H_matching_proxy_connection
      else if token b = asc CHR ''t'' then H_matching_transfer_encoding
      else if token b = asc CHR ''u'' then H_matching_upgrade
      else H_general)"

abbreviation at_name :: "header_states \<Rightarrow> nat \<Rightarrow> http_parser_type \<times> bool \<times> nat \<times> u8 \<times> u64 \<Rightarrow> http_parser \<Rightarrow> bool" where
  "at_name h i m p \<equiv> at S_header_field m p \<and> hp_header_state p = h \<and> hp_index p = i"

text \<open>Between two fields, or before the first one.\<close>

definition plain_states :: "header_states set" where
  "plain_states = {H_general, H_content_length, H_content_length_num}"

abbreviation at_field :: "http_parser_type \<times> bool \<times> nat \<times> u8 \<times> u64 \<Rightarrow> http_parser \<Rightarrow> bool" where
  "at_field m p \<equiv> (hp_state p = S_header_field_start
     \<or> hp_state p = S_header_value_lws \<and> hp_header_state p \<in> plain_states) \<and> message p = m"

lemma finish_plain: "hp_header_state p \<in> plain_states \<Longrightarrow> finish_header p = p"
  by (auto simp: finish_header_def plain_states_def)

lemma between_fields:
  assumes "at_field m (ep e)" "b \<noteq> SP" "b \<noteq> 9"
  shows "run_switch cb b [b] e = run_switch cb b [b] (update_state S_header_field_start e)"
  using assms(1)
proof (elim conjE disjE)
  assume e: "hp_state (ep e) = S_header_field_start"
  then have "update_state S_header_field_start e = e" by (simp add: upd_def)
  then show ?thesis by simp
next
  assume e: "hp_state (ep e) = S_header_value_lws" "hp_header_state (ep e) \<in> plain_states"
  have "upd finish_header e = e" using finish_plain [OF e(2)] by (simp add: upd_def)
  with e assms(2,3) show ?thesis
    by (subst run_switch.simps) (simp add: step_def step_header_lws_def)
qed

lemma field_marks: "at_field m p \<Longrightarrow> initial_marks (hp_state p) = (\<lambda>_. None) \<and> parsing_header (hp_state p)"
  by (auto simp: initial_marks_def parsing_header_def)

lemma name_start:
  assumes "token b \<noteq> 0" "b \<noteq> CR" "b \<noteq> LF" "b \<noteq> SP" "b \<noteq> 9"
  shows "triple cb (at_field m) 1 [(b, [OnField (string_of [b])])] (at_name (first_name_state b) 0 m)"
proof (rule header_byte1 [where f = "\<lambda>p. p\<lparr>hp_index := 0, hp_state := S_header_field, hp_header_state := first_name_state b\<rparr>"])
  fix p :: http_parser and u u'
  let ?f = "\<lambda>p. p\<lparr>hp_index := 0, hp_state := S_header_field, hp_header_state := first_name_state b\<rparr>"
  assume p: "at_field m p" "hp_errno p = HPE_OK" "cb u (OnField (string_of [b])) = Ret (0, u')"
  let ?e = "\<lparr>ep = p, marks = initial_marks (hp_state p), pos = 0, eu = u\<rparr>"
  have "run_switch cb b [b] ?e = run_switch cb b [b] (update_state S_header_field_start ?e)"
    using p(1) assms by (intro between_fields [of _ m]) simp_all
  with p assms show "run_byte cb p b u = Ret (1, ?f p, u')"
    by (auto simp: field_marks run_switch.simps step_def move_def upd_def Let_def step_header_field_start_def set_mark_def
        first_name_state_def finish_one [where k = MField])
qed (auto simp: field_marks message_def)

lemma headers_end:
  "triple cb (at_field m) 1 [(CR, [])] (at S_headers_almost_done m)"
proof (rule header_byte [where f = "\<lambda>p. p\<lparr>hp_state := S_headers_almost_done\<rparr>"])
  fix p :: http_parser and u u'
  assume p: "at_field m p" "hp_errno p = HPE_OK" "run_events cb [] u = Ret u'"
  let ?e = "\<lparr>ep = p, marks = initial_marks (hp_state p), pos = 0, eu = u\<rparr>"
  have "run_switch cb CR [CR] ?e = run_switch cb CR [CR] (update_state S_header_field_start ?e)"
    using p(1) by (intro between_fields [of _ m]) simp_all
  with p show "run_byte cb p CR u = Ret (1, p\<lparr>hp_state := S_headers_almost_done\<rparr>, u')"
    by (auto simp: field_marks run_switch.simps step_def move_def upd_def Let_def step_header_field_start_def finish_none)
qed (auto simp: field_marks message_def)

lemma name_byte:
  assumes "token b \<noteq> 0" "field_char h i (token b) b = Ret (h', i')"
  shows "triple cb (at_name h i m) 1 [(b, [OnField (string_of [b])])] (at_name h' i' m)"
  by (rule header_byte1 [where f = "\<lambda>p. p\<lparr>hp_index := i', hp_header_state := h'\<rparr>"])
     (use assms in \<open>auto simp: one_byte step_header_field_def count_header_size_def message_def
        finish_one [where k = MField]\<close>)

lemma name_end:
  "triple cb (at_name h i m) 1 [(asc CHR '':'', [OnField (string_of [])])]
     (\<lambda>p. at S_header_value_discard_ws m p \<and> hp_header_state p = h)"
  by (rule header_byte1 [where f = "\<lambda>p. p\<lparr>hp_state := S_header_value_discard_ws\<rparr>"])
     (auto simp: one_byte step_header_field_def count_header_size_def message_def token_def is_num8_def
        callback_data_def call_def finish_none)

lemma name_bytes:
  assumes "name_state h i bs = Some (h', i')"
  shows "triple cb (at_name h i m) (length bs) (pieces OnField bs) (at_name h' i' m)"
  using assms
proof (induction h i bs rule: name_state.induct)
  case (2 h i b bs)
  then obtain h1 i1 where f: "token b \<noteq> 0" "field_char h i (token b) b = Ret (h1, i1)" "name_state h1 i1 bs = Some (h', i')"
    by (auto split: if_splits outcome.splits)
  from triple_cons [OF name_byte [OF f(1,2)] "2.IH" [OF f(1) f(2) refl f(3)]] show ?case by simp
qed auto

abbreviation at_value :: "header_states \<Rightarrow> http_parser_type \<times> bool \<times> nat \<times> u8 \<times> u64 \<Rightarrow> http_parser \<Rightarrow> bool" where
  "at_value h m p \<equiv> at S_header_value m p \<and> hp_header_state p = h"

definition text_byte :: "u8 \<Rightarrow> bool" where
  "text_byte b \<longleftrightarrow> is_header_char b \<and> b \<noteq> CR \<and> b \<noteq> LF"

lemma value_space:
  "triple cb (\<lambda>p. at S_header_value_discard_ws m p \<and> hp_header_state p = h) 1 [(SP, [])]
     (\<lambda>p. at S_header_value_discard_ws m p \<and> hp_header_state p = h)"
  by (rule header_byte [where f = "\<lambda>p. p"])
     (auto simp: one_byte step_header_lws_def message_def finish_none)

lemma value_start:
  assumes "b \<notin> {SP, 9, CR, LF}"
  shows "triple cb (\<lambda>p. at S_header_value_discard_ws m p \<and> hp_header_state p = H_general) 1
     [(b, [OnValue (string_of [b])])] (at_value H_general m)"
  by (rule header_byte1 [where f = "\<lambda>p. p\<lparr>hp_state := S_header_value, hp_index := 0, hp_header_state := H_general\<rparr>"])
     (use assms in \<open>auto simp: one_byte step_header_lws_def step_header_value_start_def set_mark_def message_def
        finish_one [where k = MValue]\<close>)

lemma value_byte:
  assumes "text_byte b"
  shows "triple cb (at_value H_general m) 1 [(b, [OnValue (string_of [b])])] (at_value H_general m)"
  by (rule header_byte1 [where f = "\<lambda>p. p"])
     (use assms in \<open>auto simp: one_byte step_header_value_def value_loop.simps skip_general_def count_header_size_def text_byte_def
        message_def finish_one [where k = MValue]\<close>)

lemma value_end:
  assumes "h \<in> plain_states"
  shows "triple cb (at_value h m) 1 [(CR, [OnValue (string_of [])])] (\<lambda>p. at S_header_almost_done m p \<and> hp_header_state p = h)"
  by (rule header_byte1 [where f = "\<lambda>p. p\<lparr>hp_state := S_header_almost_done\<rparr>"])
     (use assms in \<open>auto simp: one_byte step_header_value_def value_loop.simps count_header_size_def
        callback_data_def call_def message_def finish_none\<close>)

lemma value_line_end:
  assumes "h \<in> plain_states"
  shows "triple cb (\<lambda>p. at S_header_almost_done m p \<and> hp_header_state p = h) 1 [(LF, [])] (at_field m)"
  by (rule header_byte [where f = "\<lambda>p. p\<lparr>hp_state := S_header_value_lws\<rparr>"])
     (use assms in \<open>auto simp: one_byte step_header_lws_def message_def finish_none\<close>)

text \<open>A whole field with a plain name.\<close>

definition field_trace :: "string \<Rightarrow> string \<Rightarrow> trace" where
  "field_trace name value =
     pieces OnField (bytes_of name) @ (asc CHR '':'', [OnField []]) # (SP, [])
     # pieces OnValue (bytes_of value) @ [(CR, [OnValue []]), (LF, [])]"

definition token_string :: "string \<Rightarrow> bool" where
  "token_string s \<longleftrightarrow> list_all (\<lambda>c. token (asc c) \<noteq> 0) s"

lemma string_of_Nil [simp]: "string_of [] = []"
  by (simp add: string_of_def)

lemma token_not_space: "token b \<noteq> 0 \<Longrightarrow> b \<noteq> CR \<and> b \<noteq> LF \<and> b \<noteq> SP \<and> b \<noteq> 9"
  by (auto simp: token_def is_num8_def)

lemma name_parsed:
  assumes "token b \<noteq> 0" "name_state (first_name_state b) 0 bs = Some (h, i)"
  shows "triple cb (at_field m) (length bs + 3) (pieces OnField (b # bs) @ [(asc CHR '':'', [OnField []]), (SP, [])])
    (\<lambda>p. at S_header_value_discard_ws m p \<and> hp_header_state p = h)"
proof -
  have "triple cb (at_name h i m) 1 [(asc CHR '':'', [OnField []])]
     (\<lambda>p. at S_header_value_discard_ws m p \<and> hp_header_state p = h)"
    using name_end [where cb = cb and h = h and i = i and m = m] by (simp only: string_of_Nil)
  from triple_append [OF name_bytes [OF assms(2)] triple_cons [OF this value_space]]
  have "triple cb (at_name (first_name_state b) 0 m) (length bs + 2) (pieces OnField bs @ [(asc CHR '':'', [OnField []]), (SP, [])])
    (\<lambda>p. at S_header_value_discard_ws m p \<and> hp_header_state p = h)" by simp
  with name_start [of b cb m] assms(1) token_not_space [OF assms(1)] show ?thesis
    by (auto simp: eval_nat_numeral intro: triple_cons)
qed

lemma value_line_parsed:
  assumes "h \<in> plain_states"
  shows "triple cb (at_value h m) 2 [(CR, [OnValue []]), (LF, [])] (at_field m)"
proof -
  have "triple cb (at_value h m) 1 [(CR, [OnValue []])] (\<lambda>p. at S_header_almost_done m p \<and> hp_header_state p = h)"
    using value_end [OF assms, where cb = cb and m = m] by (simp only: string_of_Nil)
  from triple_cons [OF this value_line_end [OF assms]] show ?thesis by (simp add: eval_nat_numeral)
qed

lemma value_bytes: "list_all text_byte bs \<Longrightarrow> triple cb (at_value H_general m) (length bs) (pieces OnValue bs) (at_value H_general m)"
proof (induction bs)
  case (Cons b bs)
  then have "text_byte b" "triple cb (at_value H_general m) (length bs) (pieces OnValue bs) (at_value H_general m)" by auto
  from triple_cons [OF value_byte [OF this(1)] this(2)] show ?case by simp
qed auto

definition value_string :: "string \<Rightarrow> bool" where
  "value_string v \<longleftrightarrow> v \<noteq> [] \<and> asc (hd v) \<notin> {SP, 9} \<and> list_all (\<lambda>c. text_byte (asc c)) v"

lemma value_parsed:
  assumes "value_string v"
  shows "triple cb (\<lambda>p. at S_header_value_discard_ws m p \<and> hp_header_state p = H_general) (length v + 2)
    (pieces OnValue (bytes_of v) @ [(CR, [OnValue []]), (LF, [])]) (at_field m)"
proof -
  obtain c cs where v: "v = c # cs" using assms by (cases v) (auto simp: value_string_def)
  have "asc c \<notin> {SP, 9, CR, LF}" and cs: "list_all text_byte (bytes_of cs)"
    using assms by (auto simp: v value_string_def text_byte_def bytes_of_def list_all_iff)
  have "H_general \<in> plain_states" by (simp add: plain_states_def)
  from triple_append [OF triple_cons [OF value_start [OF \<open>asc c \<notin> _\<close>] value_bytes [OF cs]] value_line_parsed [OF this]]
  show ?thesis by (simp add: v bytes_of_def)
qed

lemma field_parsed:
  assumes "name = c # cs" "token (asc c) \<noteq> 0"
    "name_state (first_name_state (asc c)) 0 (bytes_of cs) = Some (H_general, i)" "value_string v"
  shows "triple cb (at_field m) (length name + length v + 4) (field_trace name v) (at_field m)"
proof -
  from triple_append [OF name_parsed [OF assms(2,3)] value_parsed [OF assms(4)]] assms(1) show ?thesis
    by (simp add: field_trace_def bytes_of_def ac_simps eval_nat_numeral)
qed

subsection \<open>The length of the body\<close>

abbreviation told :: "nat \<Rightarrow> u64 \<Rightarrow> http_parser_type \<times> bool \<times> nat \<times> u8 \<times> u64" where
  "told m v \<equiv> (HTTP_REQUEST, False, m, F_CONTENTLENGTH, v)"

lemma digit_byte:
  assumes "d < 10"
  shows "asc (digit_char d) = of_nat (48 + d)" "is_num8 (asc (digit_char d))"
    "ucast (asc (digit_char d) - asc CHR ''0'') = (of_nat d :: u64)"
proof -
  from assms have d: "d = 0 \<or> d = 1 \<or> d = 2 \<or> d = 3 \<or> d = 4 \<or> d = 5 \<or> d = 6 \<or> d = 7 \<or> d = 8 \<or> d = 9" by auto
  have "unat (asc (digit_char d)) = 48 + d" using assms by (simp add: unat_of_char digit_char_def)
  moreover have "of_nat (unat w) = w" for w :: u8 by simp
  ultimately show a: "asc (digit_char d) = of_nat (48 + d)" by metis
  from d show "is_num8 (asc (digit_char d))" unfolding a by (auto simp: is_num8_def)
  from d show "ucast (asc (digit_char d) - asc CHR ''0'') = (of_nat d :: u64)" unfolding a by auto
qed

lemma length_start:
  assumes "d < 10"
  shows "triple cb (\<lambda>p. at S_header_value_discard_ws (asked m) p \<and> hp_header_state p = H_content_length) 1
     [(asc (digit_char d), [OnValue (string_of [asc (digit_char d)])])] (at_value H_content_length_num (told m (of_nat d)))"
proof (rule header_byte1 [where f = "\<lambda>p. p\<lparr>hp_state := S_header_value, hp_index := 0,
    hp_header_state := H_content_length_num, hp_flags := F_CONTENTLENGTH, hp_content_length := of_nat d\<rparr>"])
  fix p :: http_parser and u u'
  let ?b = "asc (digit_char d)"
  let ?f = "p\<lparr>hp_state := S_header_value, hp_index := 0,
    hp_header_state := H_content_length_num, hp_flags := F_CONTENTLENGTH, hp_content_length := of_nat d\<rparr>"
  assume p: "at S_header_value_discard_ws (asked m) p \<and> hp_header_state p = H_content_length" "hp_errno p = HPE_OK"
    "cb u (OnValue (string_of [?b])) = Ret (0, u')"
  have "?b \<notin> {SP, 9, CR, LF}" using digit_byte(2) [OF assms] by (auto simp: is_num8_def)
  with p digit_byte(2,3) [OF assms] show "run_byte cb p ?b u = Ret (1, ?f, u')"
    by (auto simp: one_byte step_header_lws_def step_header_value_start_def set_mark_def message_def
        finish_one [where k = MValue])
qed (auto simp: message_def parsing_header_def)

lemma length_byte:
  assumes "d < 10" "k * 10 + d < 2 ^ 32"
  shows "triple cb (at_value H_content_length_num (told m (of_nat k))) 1
     [(asc (digit_char d), [OnValue (string_of [asc (digit_char d)])])]
     (at_value H_content_length_num (told m (of_nat (k * 10 + d))))"
proof (rule header_byte1 [where f = "\<lambda>p. p\<lparr>hp_content_length := of_nat (k * 10 + d)\<rparr>"])
  fix p :: http_parser and u u'
  let ?b = "asc (digit_char d)"
  assume p: "at_value H_content_length_num (told m (of_nat k)) p" "hp_errno p = HPE_OK"
    "unat (hp_nread p) \<le> HTTP_MAX_HEADER_SIZE" "cb u (OnValue (string_of [?b])) = Ret (0, u')"
  have b: "?b \<notin> {SP, 9, CR, LF}" "is_header_char ?b"
    using digit_byte(2) [OF assms(1)] less_le_trans [of "31 :: u8" 48 ?b]
    by (auto simp: is_num8_def is_header_char_def)
  have "unat (of_nat k :: u64) = k" using assms(2) by (simp add: unat_of_nat)
  then have "\<not> (ULLONG_MAX - 10) div 10 < (of_nat k :: u64)"
    using assms(2) by (simp add: word_less_nat_alt)
  with p b digit_byte(2,3) [OF assms(1)]
  show "run_byte cb p ?b u = Ret (1, p\<lparr>hp_content_length := of_nat (k * 10 + d)\<rparr>, u')"
    by (auto simp: one_byte step_header_value_def value_loop.simps value_char_def length_digit_def
        count_header_size_def message_def finish_one [where k = MValue])
qed (auto simp: message_def parsing_header_def)

lemma length_parsed:
  assumes "n < 2 ^ 32"
  shows "triple cb (\<lambda>p. at S_header_value_discard_ws (asked m) p \<and> hp_header_state p = H_content_length) (length (show_nat n))
    (pieces OnValue (bytes_of (show_nat n))) (at_value H_content_length_num (told m (of_nat n)))"
  using assms
proof (induction n rule: less_induct)
  case (less n)
  show ?case
  proof (cases "n < 10")
    case True
    with length_start [of n cb m] show ?thesis by (simp add: show_base.simps [of 10 n] bytes_of_def)
  next
    case False
    have "n div 10 * 10 + n mod 10 = n" by simp
    then have "triple cb (at_value H_content_length_num (told m (of_nat (n div 10)))) 1
       [(asc (digit_char (n mod 10)), [OnValue (string_of [asc (digit_char (n mod 10))])])]
       (at_value H_content_length_num (told m (of_nat n)))"
      using length_byte [of "n mod 10" "n div 10" cb m] less.prems by simp
    from triple_append [OF less.IH [of "n div 10"] this] False less.prems
    show ?thesis by (simp add: show_base.simps [of 10 n] bytes_of_def pieces_def)
  qed
qed

lemma length_field_parsed:
  assumes "n < 2 ^ 32"
  shows "triple cb (at_field (asked m)) (18 + length (show_nat n)) (field_trace ''Content-Length'' (show_nat n))
    (at_field (told m (of_nat n)))"
proof -
  have "name_state (first_name_state (asc CHR ''C'')) 0 (bytes_of ''ontent-Length'') = Some (H_content_length, 13)"
    by (simp add: first_name_state_def token_def lower8_def field_char_def match_name_def lit_at_def bytes_of_def is_num8_def)
  note name = name_parsed [OF _ this, where cb = cb and m = "asked m"]
  have "H_content_length_num \<in> plain_states" by (simp add: plain_states_def)
  note this = value_line_parsed [OF this, where cb = cb and m = "told m (of_nat n)"]
  from triple_append [OF name triple_append [OF length_parsed [OF assms] this]] show ?thesis
    by (simp add: field_trace_def bytes_of_def token_def lower8_def)
qed

subsection \<open>The end of the header, and the body\<close>

definition over :: "http_parser \<Rightarrow> http_parser" where
  "over p = p\<lparr>hp_state := (if http_should_keep_alive p then start_state p else S_dead)\<rparr>"

lemma new_message_over: "new_message e = upd over e"
  by (simp add: new_message_def over_def upd_def)

lemma over_simps [simp]: "hp_errno (over p) = hp_errno p" "hp_nread (over p) = hp_nread p" "hp_upgrade (over p) = hp_upgrade p"
  by (simp_all add: over_def)

lemma over_marks: "initial_marks (hp_state (over p)) = (\<lambda>_. None)"
  by (simp add: over_def start_state_def initial_marks_def)

text \<open>Without a length the request ends with its header.\<close>

lemma headers_done_GET:
  "triple cb (at S_headers_almost_done (asked 1)) 1 [(LF, [OnHeadersComplete 1, OnComplete])] (\<lambda>p. True)"
  by (rule header_byte [where f = "\<lambda>p. over (p\<lparr>hp_state := S_headers_done, hp_upgrade := False, hp_nread := 0\<rparr>)"])
     (auto simp: one_byte step_headers_almost_done_def step_headers_done_def headers_complete_arg_def message_def
        http_message_needs_eof_def callback_notify_def call_def new_message_over run_events_Cons finish_none
        simp del: run_events.simps(2))

lemma headers_done_POST:
  assumes "0 < v" "v < ULLONG_MAX"
  shows "triple cb (at S_headers_almost_done (told 3 v)) 1 [(LF, [OnHeadersComplete 3])]
     (\<lambda>p. at S_body_identity (told 3 v) p \<and> \<not> hp_upgrade p)"
  by (rule header_byte1 [where f = "\<lambda>p. p\<lparr>hp_state := S_body_identity, hp_upgrade := False, hp_nread := 0\<rparr>"])
     (use assms in \<open>auto simp: one_byte step_headers_almost_done_def step_headers_done_def headers_complete_arg_def message_def
        http_message_needs_eof_def finish_none\<close>)

text \<open>A byte of the body does not count as header.\<close>

lemma body_byte:
  assumes run: "\<And>p u u'. P p \<Longrightarrow> hp_errno p = HPE_OK \<Longrightarrow> run_events cb evs u = Ret u' \<Longrightarrow>
      run_byte cb p b u = Ret (1, f p, u')"
    and "\<And>p. P p \<Longrightarrow> \<not> parsing_header (hp_state p)"
    and f: "\<And>p. P p \<Longrightarrow> hp_errno p = HPE_OK \<Longrightarrow> Q (f p) \<and> hp_nread (f p) = hp_nread p \<and> hp_errno (f p) = HPE_OK"
  shows "triple cb P 0 [(b, evs)] Q"
  unfolding triple_def
proof (intro allI impI)
  fix p n
  assume p: "P p" "room p (0 + n)"
  then have ok: "hp_errno p = HPE_OK" by (simp add: room_def)
  then have "http_parser_execute cb p [b] u = run_byte cb p b u" for u
    using assms(2) [OF p(1)] by (simp add: execute_one loop_turn_def)
  with run [OF p(1) ok] have "byte_emits cb p b evs (f p)" by (simp add: byte_emits_def)
  with f [OF p(1) ok] p(2) show "\<exists>q. parses cb p [(b, evs)] q \<and> Q q \<and> room q n" by (auto simp: room_def)
qed

abbreviation in_body :: "nat \<Rightarrow> u64 \<Rightarrow> http_parser \<Rightarrow> bool" where
  "in_body m v p \<equiv> at S_body_identity (told m v) p \<and> \<not> hp_upgrade p"

lemma unat_pos: "(w :: u64) \<noteq> 0 \<Longrightarrow> min (unat w) (Suc 0) = Suc 0"
  using unat_gt_0 [of w] by (simp add: min_def)

lemma body_more:
  assumes "v + 1 \<noteq> 0" "v + 1 \<noteq> ULLONG_MAX" "v \<noteq> 0"
  shows "triple cb (in_body m (v + 1)) 0 [(b, [OnBody [b]])] (in_body m v)"
  by (rule body_byte [where f = "\<lambda>p. p\<lparr>hp_content_length := v\<rparr>"])
     (use assms in \<open>auto simp: one_byte step_body_def take_body_def body_bytes_def unat_pos set_mark_def message_def
        run_events_one finish_one [where k = MBody] simp del: run_events.simps(2)\<close>)

lemma body_last:
  "triple cb (in_body m 1) 0 [(b, [OnBody [b], OnComplete])] (\<lambda>p. True)"
  by (rule body_byte [where f = "\<lambda>p. over (p\<lparr>hp_content_length := 0, hp_state := S_message_done\<rparr>)"])
     (auto simp: one_byte step_body_def take_body_def body_bytes_def set_mark_def include_byte_def message_def
        run_events_Cons callback_data_def callback_notify_def call_def new_message_over finish_none
        simp del: run_events.simps(2))

definition body_trace :: "bytes \<Rightarrow> trace" where
  "body_trace bs = map (\<lambda>b. (b, [OnBody [b]])) (butlast bs) @ [(last bs, [OnBody [last bs], OnComplete])]"

lemma body_parsed:
  assumes "bs \<noteq> []" "length bs < 2 ^ 32"
  shows "triple cb (in_body m (of_nat (length bs))) 0
    (body_trace bs) (\<lambda>p. True)"
  using assms
proof (induction bs rule: list_nonempty_induct)
  case (single b)
  then show ?case using body_last [of cb m b] by (simp add: body_trace_def)
next
  case (cons b bs)
  let ?n = "length bs"
  have n: "?n < 2 ^ 32" "0 < ?n" using cons.prems cons.hyps by simp_all
  have u: "unat (of_nat ?n :: u64) = ?n" "unat (of_nat (Suc ?n) :: u64) = Suc ?n"
    using cons.prems n by (simp_all add: unat_of_nat del: of_nat_Suc)
  have "of_nat ?n + 1 = (of_nat (Suc ?n) :: u64)" by simp
  with u(2) have "unat (of_nat ?n + 1 :: u64) = Suc ?n" by (simp only:)
  moreover have "(of_nat ?n :: u64) \<noteq> 0" using u(1) n by auto
  moreover have "(of_nat ?n + 1 :: u64) \<noteq> 0" using calculation(1) by auto
  moreover have "(of_nat ?n + 1 :: u64) \<noteq> ULLONG_MAX"
  proof
    assume "(of_nat ?n + 1 :: u64) = ULLONG_MAX"
    then have "unat (of_nat ?n + 1 :: u64) = unat ULLONG_MAX" by (simp only:)
    with calculation(1) n show False by (simp add: unsigned_minus_1_eq_mask mask_eq_exp_minus_1)
  qed
  ultimately have "triple cb (in_body m (of_nat ?n + 1)) 0 [(b, [OnBody [b]])] (in_body m (of_nat ?n))"
    by (intro body_more) auto
  from triple_append [OF this cons.IH [OF n(1)]] cons.hyps show ?case by (simp add: body_trace_def ac_simps)
qed

section \<open>The text of a request\<close>

definition host_trace :: "string \<Rightarrow> trace" where
  "host_trace host = field_trace ''Host'' host"

definition get_trace :: "string \<Rightarrow> string \<Rightarrow> trace" where
  "get_trace path host =
     silent (bytes_of ''GET '') @ target_trace (bytes_of path) @ field_trace ''Host'' host
     @ [(CR, []), (LF, [OnHeadersComplete 1, OnComplete])]"

definition post_trace :: "string \<Rightarrow> string \<Rightarrow> string \<Rightarrow> bytes \<Rightarrow> trace" where
  "post_trace path host content_type body =
     silent (bytes_of ''POST '') @ target_trace (bytes_of path) @ field_trace ''Host'' host
     @ field_trace ''Content-Type'' content_type @ field_trace ''Content-Length'' (show_nat (length body))
     @ [(CR, []), (LF, [OnHeadersComplete 3])] @ body_trace body"

lemma map_fst_pieces [simp]: "map fst (pieces ev bs) = bs"
  by (simp add: pieces_def comp_def)

lemma map_fst_silent [simp]: "map fst (silent bs) = bs"
  by (simp add: silent_def comp_def)

lemma field_bytes: "map fst (field_trace n v) = bytes_of (n @ '': '' @ v @ crlf)"
  by (simp add: field_trace_def bytes_of_crlf) (simp add: bytes_of_def)

lemma target_bytes: "map fst (target_trace bs) = asc CHR ''/'' # bs @ bytes_of ('' HTTP/1.1'' @ crlf)"
  by (simp add: target_trace_def) (simp add: bytes_of_def)

lemma get_bytes:
  "map fst (get_trace path host) = bytes_of (''GET /'' @ path @ '' HTTP/1.1'' @ crlf @ ''Host: '' @ host @ crlf @ crlf)"
  unfolding get_trace_def map_append map_fst_silent target_bytes field_bytes by (simp add: bytes_of_crlf) (simp add: bytes_of_def)

lemma post_bytes:
  assumes "body \<noteq> []"
  shows "map fst (post_trace path host ct body) = bytes_of (''POST /'' @ path @ '' HTTP/1.1'' @ crlf @ ''Host: '' @ host @ crlf
     @ ''Content-Type: '' @ ct @ crlf @ ''Content-Length: '' @ show_nat (length body) @ crlf @ crlf) @ body"
proof -
  have "map fst (body_trace body) = body"
    using assms by (simp add: body_trace_def comp_def)
  then show ?thesis
    unfolding post_trace_def map_append map_fst_silent target_bytes field_bytes
    by (simp add: bytes_of_crlf) (simp add: bytes_of_def)
qed

lemma plain_name:
  "name_state (first_name_state (asc CHR ''H'')) 0 (bytes_of ''ost'') = Some (H_general, 0)"
  "\<exists>i. name_state (first_name_state (asc CHR ''C'')) 0 (bytes_of ''ontent-Type'') = Some (H_general, i)"
  by (simp_all add: first_name_state_def token_def lower8_def field_char_def match_name_def lit_at_def bytes_of_def is_num8_def)

lemma plain_token: "token (asc CHR ''H'') \<noteq> 0" "token (asc CHR ''C'') \<noteq> 0"
  by (simp_all add: token_def lower8_def)

lemma host_parsed:
  assumes "value_string host"
  shows "triple cb (at_field m) (length host + 8) (field_trace ''Host'' host) (at_field m)"
proof -
  from field_parsed [OF refl plain_token(1) plain_name(1) assms, of cb m]
  show ?thesis by (simp add: add.commute)
qed

lemma type_parsed:
  assumes "value_string v"
  shows "triple cb (at_field m) (length v + 16) (field_trace ''Content-Type'' v) (at_field m)"
proof -
  obtain i where "name_state (first_name_state (asc CHR ''C'')) 0 (bytes_of ''ontent-Type'') = Some (H_general, i)"
    using plain_name(2) by blast
  from field_parsed [OF refl plain_token(2) this assms, of cb m]
  show ?thesis by (simp add: add.commute)
qed

lemma at_field_start: "at S_header_field_start m p \<Longrightarrow> at_field m p"
  by simp

lemma get_parsed:
  assumes "list_all url_byte (bytes_of path)" "value_string host"
  shows "triple cb fresh_request (length path + length host + 26) (get_trace path host) (\<lambda>p. True)"
proof -
  have "triple cb (at S_req_spaces_before_url (asked 1)) (length (bytes_of path) + 12) (target_trace (bytes_of path)) (at_field (asked 1))"
    by (rule triple_conseq [OF target_parsed [OF assms(1)] _ at_field_start]) simp_all
  from triple_append [OF GET_parsed triple_append [OF this triple_append [OF host_parsed [OF assms(2)]
      triple_cons [OF headers_end headers_done_GET]]]]
  show ?thesis by (simp add: get_trace_def ac_simps)
qed

lemma post_parsed:
  assumes "list_all url_byte (bytes_of path)" "value_string host" "value_string ct" "body \<noteq> []" "length body < 2 ^ 32"
  shows "triple cb fresh_request (length path + length host + length ct + length (show_nat (length body)) + 61)
    (post_trace path host ct body) (\<lambda>p. True)"
proof -
  let ?v = "of_nat (length body) :: u64"
  have url: "triple cb (at S_req_spaces_before_url (asked 3)) (length (bytes_of path) + 12) (target_trace (bytes_of path)) (at_field (asked 3))"
    by (rule triple_conseq [OF target_parsed [OF assms(1)] _ at_field_start]) simp_all
  have "unat ?v = length body" using assms(5) by (simp add: unat_of_nat)
  then have "0 < ?v" "?v < ULLONG_MAX"
    using assms(4,5) by (simp_all add: word_less_nat_alt unsigned_minus_1_eq_mask mask_eq_exp_minus_1)
  note ended = headers_done_POST [OF this, where cb = cb]
  from triple_append [OF POST_parsed triple_append [OF url triple_append [OF host_parsed [OF assms(2)]
      triple_append [OF type_parsed [OF assms(3)] triple_append [OF length_field_parsed [OF assms(5)]
      triple_append [OF triple_cons [OF headers_end ended] body_parsed [OF assms(4,5)]]]]]]]
  show ?thesis by (simp add: post_trace_def ac_simps)
qed

section \<open>The reader\<close>

text \<open>The request as the events of a trace change it; it must go on until the last byte.\<close>

fun trace_run :: "trace \<Rightarrow> request_t \<Rightarrow> request_t outcome" where
  "trace_run [] r = Ret r"
| "trace_run ((b, evs) # t) r =
     (if \<not> r_continue r then Undef else bind_out (run_events request_callback evs r) (trace_run t))"

lemma trace_run_append: "trace_run (t1 @ t2) r = bind_out (trace_run t1 r) (trace_run t2)"
proof (induction t1 r rule: trace_run.induct)
  case (2 b evs t r)
  then show ?case by (cases "run_events request_callback evs r") auto
qed simp

lemma recv_one:
  assumes "is_open s" "flowing (rx s)" "stream (rx s) = b # bs"
  obtains es where "tcp_socket_recv s 1 = (1, [b], s\<lparr>rx := es\<rparr>)" "flowing es" "stream es = bs"
proof -
  obtain n got s1 where r: "tcp_socket_recv s 1 = (n, got, s1)" by (cases "tcp_socket_recv s 1")
  have "no_fail (rx s)" using assms(2) by (simp add: flowing_def)
  from tcp_recv_cases [OF assms(1) this _ r] assms(2,3) obtain es where
    "s1 = s\<lparr>rx := es\<rparr>" "flowing es" "0 < n \<and> nat n \<le> 1 \<and> got = take (nat n) (b # bs) \<and> stream es = drop (nat n) (b # bs)"
    by auto
  moreover from this(3) have "nat n = 1" "n = 1" by auto
  ultimately show thesis using that r by simp
qed

lemma reader_follows:
  assumes "parses request_callback p t q" "trace_run t r = Ret r'" "\<not> r_continue r'"
    "is_open s" "flowing (rx s)" "stream (rx s) = map fst t @ later"
  shows "\<exists>es. request_parse_loop http_parser_execute None p s r = Ret (0, s\<lparr>rx := es\<rparr>, r') \<and> flowing es \<and> stream es = later"
  using assms
proof (induction t arbitrary: p r s)
  case Nil
  moreover have "s\<lparr>rx := rx s\<rparr> = s" by simp
  ultimately show ?case by (auto simp: request_parse_loop.simps [of _ None] intro!: exI [of _ "rx s"])
next
  case (Cons x t)
  obtain b evs where x: "x = (b, evs)" by fastforce
  from Cons.prems(1) x obtain p1 where p1: "byte_emits request_callback p b evs p1" "parses request_callback p1 t q" by auto
  from Cons.prems(2) x obtain r1 where r1: "r_continue r" "run_events request_callback evs r = Ret r1" "trace_run t r1 = Ret r'"
    by (auto simp: bind_out_Ret_iff split: if_splits)
  from p1(1) r1(2) have e: "http_parser_execute request_callback p [b] r = Ret (1, p1, r1)" by (simp add: byte_emits_def)
  from Cons.prems(6) x have "stream (rx s) = b # (map fst t @ later)" by simp
  from recv_one [OF Cons.prems(4,5) this] obtain es where
    es: "tcp_socket_recv s 1 = (1, [b], s\<lparr>rx := es\<rparr>)" "flowing es" "stream es = map fst t @ later" .
  have "request_parse_loop http_parser_execute None p s r = request_parse_loop http_parser_execute None p1 (s\<lparr>rx := es\<rparr>) r1"
    using es(1) r1(1) e by (simp add: request_parse_loop.simps [of _ None p])
  with Cons.IH [OF p1(2) r1(3) Cons.prems(3), of "s\<lparr>rx := es\<rparr>"] Cons.prems(4) es(2,3) show ?case by simp
qed

text \<open>What each part of a request does to it.\<close>

lemma run_silent: "r_continue r \<Longrightarrow> trace_run (silent bs) r = Ret r"
  by (induction bs) simp_all

lemma string_of_Cons: "string_of (b # bs) = string_of [b] @ string_of bs"
  by (simp add: string_of_def)

lemma run_url:
  "r_continue r \<Longrightarrow> r_uri_buffer r = Some u \<Longrightarrow>
   trace_run (pieces OnUrl bs) r = Ret (r\<lparr>r_uri_buffer := Some (u @ string_of bs)\<rparr>)"
proof (induction bs arbitrary: r u)
  case (Cons b bs)
  then show ?case by (simp add: request_on_url_def string_of_Cons [of b bs] del: string_of_Cons)
qed simp

lemma run_target:
  assumes "r_continue r" "r_uri_buffer r = Some u"
  shows "trace_run (target_trace (bytes_of path)) r = Ret (r\<lparr>r_uri_buffer := Some (u @ CHR ''/'' # path)\<rparr>)"
proof -
  have "string_of (asc CHR ''/'' # bytes_of path) = string_of (bytes_of (CHR ''/'' # path))" by (simp add: bytes_of_def)
  then have s: "string_of (asc CHR ''/'' # bytes_of path) = CHR ''/'' # path" by (simp only: string_of_bytes_of)
  have "trace_run (pieces OnUrl (asc CHR ''/'' # bytes_of path)) r = Ret (r\<lparr>r_uri_buffer := Some (u @ CHR ''/'' # path)\<rparr>)"
    using run_url [OF assms, of "asc CHR ''/'' # bytes_of path"] unfolding s .
  then show ?thesis
    unfolding target_trace_def trace_run_append using assms by (simp add: request_on_url_def run_silent)
qed

lemma run_name:
  assumes "r_continue r" "r_hstate r = HeaderField" "r_hname r = Some n" "r_hvalue r = Some v"
  shows "trace_run (pieces OnField bs) r = Ret (r\<lparr>r_hname := Some (n @ string_of bs)\<rparr>)"
  using assms
proof (induction bs arbitrary: r n)
  case (Cons b bs)
  then show ?case by (simp add: request_on_header_field_def string_of_Cons [of b bs] del: string_of_Cons)
qed simp

lemma run_value:
  assumes "r_continue r" "r_hstate r \<noteq> HeaderNew" "r_hvalue r = Some v" "bs \<noteq> []"
  shows "trace_run (pieces OnValue bs) r = Ret (r\<lparr>r_hvalue := Some (v @ string_of bs), r_hstate := HeaderValue\<rparr>)"
  using assms
proof (induction bs arbitrary: r v)
  case (Cons b bs)
  then show ?case
    by (cases "bs = []") (simp_all add: request_on_header_value_def string_of_Cons [of b bs])
qed simp

lemma run_field:
  assumes "r_continue r" "r_hstate r \<noteq> HeaderField" "r_hname r = Some n0" "r_hvalue r = Some v0" "n \<noteq> []" "v \<noteq> []"
  shows "trace_run (field_trace n v) r = Ret (r\<lparr>r_headers := store_field (r_headers r) n0 v0, r_hname := Some n,
     r_hvalue := Some v, r_hstate := HeaderValue\<rparr>)"
proof -
  obtain c cs where n: "n = c # cs" using assms(5) by (cases n) auto
  let ?r1 = "r\<lparr>r_headers := store_field (r_headers r) n0 v0, r_hname := Some (string_of [asc c]),
     r_hvalue := Some [], r_hstate := HeaderField\<rparr>"
  have s: "r_hstate r = HeaderNew \<or> r_hstate r = HeaderValue" using assms(2) by (cases "r_hstate r") auto
  have "trace_run (pieces OnField (bytes_of n)) r = trace_run (pieces OnField (bytes_of cs)) ?r1"
    using assms s by (auto simp: n bytes_of_def request_on_header_field_def store_field_def request_set_header_eq)
  also have "\<dots> = Ret (?r1\<lparr>r_hname := Some n\<rparr>)"
    using run_name [of ?r1 "string_of [asc c]" "[]" "bytes_of cs"] assms(1) string_of_bytes_of [of n]
    by (simp add: n bytes_of_def string_of_def)
  finally have f: "trace_run (pieces OnField (bytes_of n)) r = Ret (?r1\<lparr>r_hname := Some n\<rparr>)" .
  have "bytes_of v \<noteq> []" using assms(6) by (simp add: bytes_of_def)
  with run_value [of "?r1\<lparr>r_hname := Some n\<rparr>" "[]" "bytes_of v"] assms(1)
  have "trace_run (pieces OnValue (bytes_of v)) (?r1\<lparr>r_hname := Some n\<rparr>)
    = Ret (r\<lparr>r_headers := store_field (r_headers r) n0 v0, r_hname := Some n, r_hvalue := Some v, r_hstate := HeaderValue\<rparr>)"
    by simp
  then show ?thesis
    unfolding field_trace_def trace_run_append f using assms(1)
    by (simp add: trace_run_append request_on_header_field_def request_on_header_value_def)
qed

definition http_field :: "string \<times> string \<Rightarrow> http_header_t" where
  "http_field f = new_http_header (Some (fst f)) (Some (snd f))"

lemma store_new: "n \<noteq> [] \<Longrightarrow> v \<noteq> [] \<Longrightarrow> find_header hs n = None \<Longrightarrow> store_field hs n v = http_field (n, v) # hs"
  by (simp add: store_field_def set_header_def http_field_def)

lemma find_fields: "find_header (map http_field fs) n = None \<longleftrightarrow> n \<notin> fst ` set fs"
  by (induction fs) (auto simp: http_field_def new_http_header_def)

lemma headers_complete_run:
  assumes "r_what r = PARSE_ALL" "r_hname r = Some n" "r_hvalue r = Some v" "r_uri_buffer r = Some u" "length u < 2048"
  shows "request_on_headers_complete m r = Ret (0, r\<lparr>r_headers := store_field (r_headers r) n v,
     r_uri := Some (takeWhile (\<lambda>c. c \<noteq> CHR ''?'') u),
     r_arg := (case strchr u CHR ''?'' of None \<Rightarrow> r_arg r | Some t \<Rightarrow> Some (tl t)),
     r_uri_buffer := None, r_hname := None, r_hvalue := None,
     r_method := (if m = HTTP_GET then HTTP_METHOD_GET else if m = HTTP_POST then HTTP_METHOD_POST else HTTP_METHOD_UNSUPPORTED)\<rparr>)"
proof (cases "strchr u CHR ''?''")
  case None
  then have u: "takeWhile (\<lambda>c. c \<noteq> CHR ''?'') u = u" by (auto simp: strchr_None_iff takeWhile_eq_all_conv)
  show ?thesis using assms None
    by (simp add: request_on_headers_complete_def Let_def u store_field_def request_set_header_eq)
next
  case (Some t)
  then show ?thesis using assms
    by (simp add: request_on_headers_complete_def Let_def store_field_def request_set_header_eq)
qed

text \<open>The request as it is read.\<close>

definition received :: "int \<Rightarrow> string \<Rightarrow> (string \<times> string) list \<Rightarrow> bytes option \<Rightarrow> request_t" where
  "received method target fs body =
     \<lparr>r_method = method, r_uri = Some (takeWhile (\<lambda>c. c \<noteq> CHR ''?'') target),
      r_arg = map_option tl (strchr target CHR ''?''), r_body = body, r_headers = map http_field fs,
      r_continue = False, r_what = PARSE_ALL, r_hstate = HeaderValue, r_uri_buffer = None,
      r_hname = None, r_hvalue = None\<rparr>"

abbreviation reading :: request_t where
  "reading \<equiv> new_request\<lparr>r_what := PARSE_ALL, r_continue := True\<rparr>"

abbreviation target_of :: "string \<Rightarrow> string" where
  "target_of path \<equiv> CHR ''/'' # path"

lemma run_get:
  assumes "host \<noteq> []" "length path < 2047"
  shows "trace_run (get_trace path host) reading = Ret (received HTTP_METHOD_GET (target_of path) [(''Host'', host)] None)"
proof -
  have len: "length (target_of path) < 2048" using assms(2) by simp
  let ?r1 = "reading\<lparr>r_uri_buffer := Some (target_of path)\<rparr>"
  have 1: "trace_run (target_trace (bytes_of path)) reading = Ret ?r1"
    using run_target [of reading "[]" path] by (simp add: new_request_def)
  let ?r2 = "?r1\<lparr>r_headers := [], r_hname := Some ''Host'', r_hvalue := Some host, r_hstate := HeaderValue\<rparr>"
  have 2: "trace_run (field_trace ''Host'' host) ?r1 = Ret ?r2"
    using run_field [of ?r1 "[]" "[]" "''Host''" host] assms by (simp add: new_request_def store_field_def)
  have "request_on_headers_complete 1 ?r2 = Ret (0, (received HTTP_METHOD_GET (target_of path) [(''Host'', host)] None)\<lparr>r_continue := True\<rparr>)"
    using assms len by (subst headers_complete_run [OF _ _ _ _ len])
      (auto simp: store_new received_def new_request_def split: option.split)
  then show ?thesis
    unfolding get_trace_def trace_run_append
    by (simp add: run_silent 1 2) (simp add: new_request_def request_message_complete_def received_def)
qed

lemma run_body:
  assumes "bs \<noteq> []" "r_continue r"
  shows "trace_run (body_trace bs) r
    = Ret (r\<lparr>r_body := Some ((case r_body r of None \<Rightarrow> [] | Some b \<Rightarrow> b) @ bs), r_continue := False\<rparr>)"
  using assms
proof (induction bs arbitrary: r rule: list_nonempty_induct)
  case (single b)
  then show ?case by (simp add: body_trace_def request_on_body_def request_message_complete_def)
next
  case (cons b bs)
  then show ?case by (simp add: body_trace_def request_on_body_def)
qed

lemma run_post:
  assumes "host \<noteq> []" "length path < 2047" "ct \<noteq> []" "body \<noteq> []"
  shows "trace_run (post_trace path host ct body) reading = Ret (received HTTP_METHOD_POST (target_of path)
    [(''Content-Length'', show_nat (length body)), (''Content-Type'', ct), (''Host'', host)] (Some body))"
proof -
  have len: "length (target_of path) < 2048" using assms(2) by simp
  let ?r1 = "reading\<lparr>r_uri_buffer := Some (target_of path)\<rparr>"
  have 1: "trace_run (target_trace (bytes_of path)) reading = Ret ?r1"
    using run_target [of reading "[]" path] by (simp add: new_request_def)
  let ?r2 = "?r1\<lparr>r_headers := [], r_hname := Some ''Host'', r_hvalue := Some host, r_hstate := HeaderValue\<rparr>"
  have 2: "trace_run (field_trace ''Host'' host) ?r1 = Ret ?r2"
    using run_field [of ?r1 "[]" "[]" "''Host''" host] assms by (simp add: new_request_def store_field_def)
  let ?r3 = "?r2\<lparr>r_headers := map http_field [(''Host'', host)], r_hname := Some ''Content-Type'', r_hvalue := Some ct\<rparr>"
  have 3: "trace_run (field_trace ''Content-Type'' ct) ?r2 = Ret ?r3"
    using run_field [of ?r2 "''Host''" host "''Content-Type''" ct] assms by (simp add: new_request_def store_new)
  let ?len = "show_nat (length body)"
  let ?r4 = "?r3\<lparr>r_headers := map http_field [(''Content-Type'', ct), (''Host'', host)], r_hname := Some ''Content-Length'',
    r_hvalue := Some ?len\<rparr>"
  have "store_field (map http_field [(''Host'', host)]) ''Content-Type'' ct = map http_field [(''Content-Type'', ct), (''Host'', host)]"
    using assms(3) by (subst store_new) (simp_all only: find_fields, simp_all)
  then have 4: "trace_run (field_trace ''Content-Length'' ?len) ?r3 = Ret ?r4"
    using run_field [of ?r3 "''Content-Type''" ct "''Content-Length''" ?len] assms by (simp add: new_request_def)
  let ?fs = "[(''Content-Length'', ?len), (''Content-Type'', ct), (''Host'', host)]"
  have "store_field (map http_field [(''Content-Type'', ct), (''Host'', host)]) ''Content-Length'' ?len = map http_field ?fs"
    by (subst store_new) (simp_all only: find_fields, simp_all)
  then have 5: "request_on_headers_complete 3 ?r4
    = Ret (0, (received HTTP_METHOD_POST (target_of path) ?fs None)\<lparr>r_continue := True\<rparr>)"
    using len by (subst headers_complete_run [OF _ _ _ _ len])
      (auto simp: received_def new_request_def split: option.split)
  have "trace_run (post_trace path host ct body) reading
    = trace_run (body_trace body) ((received HTTP_METHOD_POST (target_of path) ?fs None)\<lparr>r_continue := True\<rparr>)"
    unfolding post_trace_def trace_run_append using 3 4 5 by (simp add: run_silent 1 2)
  also have "\<dots> = Ret (received HTTP_METHOD_POST (target_of path) ?fs (Some body))"
    using run_body [OF assms(4)] by (simp add: received_def)
  finally show ?thesis .
qed

section \<open>The sender\<close>

text \<open>A connection whose other end takes some bytes at every call.\<close>

definition accepting :: "tcp_t \<Rightarrow> bool" where
  "accepting s \<longleftrightarrow> is_open s \<and> list_all (\<lambda>k. 0 < k) (txq s)"

lemma send_loop_accepting:
  "list_all (\<lambda>k. 0 < k) (txq s) \<Longrightarrow>
   \<exists>q. tcp_send_loop s bs = (0, s\<lparr>txq := q, tx := tx s @ bs\<rparr>) \<and> list_all (\<lambda>k. 0 < k) q"
proof (induction s bs rule: tcp_send_loop.induct)
  case (1 s data)
  consider "data = []" | "data \<noteq> []" "txq s = []" | k ks where "data \<noteq> []" "txq s = k # ks" by (cases "txq s") auto
  then show ?case
  proof cases
    case 1
    then show ?thesis using "1.prems" by (auto simp: tcp_send_loop.simps intro!: exI [of _ "txq s"])
  next
    case 2
    then show ?thesis by (auto simp: tcp_send_loop.simps intro!: exI [of _ "[]"])
  next
    case 3
    then have k: "0 < k" "list_all (\<lambda>k. 0 < k) ks" using "1.prems" by auto
    let ?s = "s\<lparr>txq := ks\<rparr>"
    have "tcp_send_loop s data = tcp_send_loop (?s\<lparr>tx := tx ?s @ take (nat k) data\<rparr>) (drop (nat k) data)"
      using 3 k by (simp add: tcp_send_loop.simps [of s])
    moreover have "\<exists>q. tcp_send_loop (?s\<lparr>tx := tx ?s @ take (nat k) data\<rparr>) (drop (nat k) data)
      = (0, (?s\<lparr>tx := tx ?s @ take (nat k) data\<rparr>)\<lparr>txq := q, tx := tx (?s\<lparr>tx := tx ?s @ take (nat k) data\<rparr>) @ drop (nat k) data\<rparr>)
        \<and> list_all (\<lambda>k. 0 < k) q"
      using "1.IH" [OF 3(1) 3(2) refl] k by auto
    ultimately show ?thesis by auto
  qed
qed

lemma send_accepting:
  assumes "accepting s"
  obtains q where "tcp_socket_send s bs = (0, s\<lparr>txq := q, tx := tx s @ bs\<rparr>)"
    "accepting (s\<lparr>txq := q, tx := tx s @ bs\<rparr>)"
  using assms send_loop_accepting [of s bs] by (auto simp: accepting_def tcp_socket_send_def)

text \<open>The path of a resource, with or without its first slash.\<close>

definition path_of :: "string \<Rightarrow> string" where
  "path_of resource = (if resource \<noteq> [] \<and> hd resource = CHR ''/'' then tl resource else resource)"

definition host_of :: "addr_t \<Rightarrow> string" where
  "host_of addr = inet_ntoa (sin_addr addr) @ '':'' @ show_nat (nat (addr_port addr))"

lemma addr_string_host: "addr_string (Some a) 52 = host_of a" "length (host_of a) \<le> 21"
proof -
  have "nat (addr_port a) < 10 ^ 5" using addr_port_bounds [of a] by simp
  then have "length (show_nat (nat (addr_port a))) \<le> 5" by (rule length_show_nat) simp
  with length_inet_ntoa [of "sin_addr a"] show l: "length (host_of a) \<le> 21" by (simp add: host_of_def)
  then show "addr_string (Some a) 52 = host_of a"
    using addr_port_bounds [of a] by (simp add: addr_string_def host_of_def snprintf_def show_int_nonneg)
qed

lemma printable:
  assumes "33 \<le> ord c" "ord c \<le> 126"
  shows "url_byte (asc c)" "text_byte (asc c)" "asc c \<notin> {SP, 9}"
proof -
  have u: "unat (asc c) = ord c" by (simp add: unat_of_char)
  with assms show "url_byte (asc c)" by (simp add: url_byte_def word_le_nat_alt)
  from u assms show "text_byte (asc c)" "asc c \<notin> {SP, 9}"
    by (auto simp: text_byte_def is_header_char_def word_less_nat_alt)
qed

lemma host_value: "value_string (host_of a)"
proof -
  have "33 \<le> ord c \<and> ord c \<le> 126" if "c \<in> set (host_of a)" for c
    using that is_digit_show_nat [of c "nat (addr_port a)"] inet_ntoa_chars [of c "sin_addr a"]
    by (auto simp: host_of_def is_digit_def) (auto simp: ord_def)
  moreover have "host_of a \<noteq> []" by (simp add: host_of_def)
  ultimately show ?thesis using printable by (auto simp: value_string_def list_all_iff)
qed

lemma send_printed_fits: "length w < k \<Longrightarrow> send_printed s k w = Ret (tcp_socket_send s (bytes_of w))"
  by (simp add: send_printed_def printed_def)

definition request_bytes :: "string \<Rightarrow> string \<Rightarrow> string \<Rightarrow> bytes \<Rightarrow> bytes" where
  "request_bytes path host content_type body =
     map fst (if body = [] then get_trace path host else post_trace path host content_type body)"

text \<open>What a request that fits into the buffer puts on the wire.\<close>

lemma request_sent:
  assumes "accepting s" "length resource + length ct \<le> 1900" "length body < 2 ^ 31"
  shows "\<exists>s'. http_send_request s addr resource ct body = Ret (0, s')
     \<and> tx s' = tx s @ request_bytes (path_of resource) (host_of addr) ct body"
proof -
  let ?path = "path_of resource" and ?host = "host_of addr"
  let ?slash = "if resource \<noteq> [] \<and> hd resource = CHR ''/'' then [] else ''/''"
  have slash: "?slash @ resource @ w = CHR ''/'' # ?path @ w" for w
    by (cases resource) (auto simp: path_of_def)
  have len: "length ?path \<le> length resource" by (simp add: path_of_def)
  note host = addr_string_host(1) [of addr] and hlen = addr_string_host(2) [of addr]
  have "length body < 10 ^ 10" using assms(3) by simp
  then have digits: "length (show_nat (length body)) \<le> 10" by (rule length_show_nat) simp
  show ?thesis
  proof (cases "body = []")
    case True
    define w where "w = ''GET /'' @ ?path @ '' HTTP/1.1'' @ crlf @ ''Host: '' @ ?host @ crlf @ crlf"
    have w: "length w < 2048" using len assms(2) hlen by (simp add: w_def)
    have hs: "http_send_request_headers s resource ?host ct (int (length body)) = send_printed s 2048 w"
      unfolding w_def using True by (simp add: http_send_request_headers_def slash Let_def del: append_assoc)
    from assms(1) obtain s1 where s1: "tcp_socket_send s (bytes_of w) = (0, s1)" "tx s1 = tx s @ bytes_of w"
      by (rule send_accepting [where bs = "bytes_of w"]) simp
    have "request_bytes ?path ?host ct body = bytes_of w"
      using True by (simp only: request_bytes_def get_bytes if_True simp_thms w_def)
    with True hs s1 show ?thesis
      by (simp only: http_send_request_def host send_printed_fits [OF w]) simp
  next
    case False
    define w where "w = ''POST /'' @ ?path @ '' HTTP/1.1'' @ crlf @ ''Host: '' @ ?host @ crlf
     @ ''Content-Type: '' @ ct @ crlf @ ''Content-Length: '' @ show_nat (length body) @ crlf @ crlf"
    have w: "length w < 2048" using len assms(2) hlen digits by (simp add: w_def)
    have hs: "http_send_request_headers s resource ?host ct (int (length body)) = send_printed s 2048 w"
      unfolding w_def using False
      by (cases resource) (simp_all add: http_send_request_headers_def Let_def show_int_nonneg path_of_def)
    from assms(1) obtain s1 where s1: "tcp_socket_send s (bytes_of w) = (0, s1)" "tx s1 = tx s @ bytes_of w" "accepting s1"
      by (rule send_accepting [where bs = "bytes_of w"]) simp
    from s1(3) obtain s2 where s2: "tcp_socket_send s1 body = (0, s2)" "tx s2 = tx s1 @ body"
      by (rule send_accepting [where bs = body]) simp
    have "request_bytes ?path ?host ct body = bytes_of w @ body"
      using False by (simp only: request_bytes_def post_bytes [OF False] if_False w_def)
    with False hs s1 s2 show ?thesis
      by (simp only: http_send_request_def host send_printed_fits [OF w]) simp
  qed
qed

text \<open>The same bytes, at the other end.\<close>

lemma request_read:
  assumes "list_all (\<lambda>c. 33 \<le> ord c \<and> ord c \<le> 126) path" "length path \<le> 1900" "value_string host" "length host \<le> 21"
    "body \<noteq> [] \<longrightarrow> value_string ct \<and> length ct \<le> 1900" "length body < 2 ^ 31"
    "is_open s" "flowing (rx s)" "stream (rx s) = request_bytes path host ct body @ later"
  shows "\<exists>es. request_parse_html http_parser_execute None (http_parser_init HTTP_REQUEST) new_request s PARSE_ALL
      = Ret (0, s\<lparr>rx := es\<rparr>, if body = [] then received HTTP_METHOD_GET (target_of path) [(''Host'', host)] None
          else received HTTP_METHOD_POST (target_of path)
            [(''Content-Length'', show_nat (length body)), (''Content-Type'', ct), (''Host'', host)] (Some body))
     \<and> stream es = later"
proof -
  let ?p = "http_parser_init HTTP_REQUEST"
  have url: "list_all url_byte (bytes_of path)"
    using assms(1) printable(1) by (auto simp: bytes_of_def list_all_iff)
  have ne: "host \<noteq> []" using assms(3) by (simp add: value_string_def)
  have fresh: "fresh_request ?p" "hp_errno ?p = HPE_OK" "hp_nread ?p = 0" by (simp_all add: http_parser_init_def)
  note start = request_parse_html_def [of http_parser_execute None ?p new_request s PARSE_ALL]
  show ?thesis
  proof (cases "body = []")
    case True
    have "room ?p (length path + length host + 26 + 0)" using fresh assms(2,4) by (simp add: room_def)
    with get_parsed [OF url assms(3)] fresh(1) obtain q where
      "parses request_callback ?p (get_trace path host) q" by (rule tripleD)
    from reader_follows [OF this run_get [OF ne] _ assms(7,8)] assms(2,9) True start show ?thesis
      by (auto simp: request_bytes_def received_def)
  next
    case False
    then have ct: "value_string ct" "length ct \<le> 1900" "ct \<noteq> []" using assms(5) by (auto simp: value_string_def)
    have "length body < 10 ^ 10" using assms(6) by simp
    then have "length (show_nat (length body)) \<le> 10" by (rule length_show_nat) simp
    then have room: "room ?p (length path + length host + length ct + length (show_nat (length body)) + 61 + 0)"
      using fresh assms(2,4) ct by (simp add: room_def)
    have "length body < 2 ^ 32" using assms(6) by simp
    from post_parsed [OF url assms(3) ct(1) False this] fresh(1) room obtain q where
      "parses request_callback ?p (post_trace path host ct body) q" by (rule tripleD)
    from reader_follows [OF this run_post [OF ne _ ct(3) False] _ assms(7,8)] assms(2,9) False start show ?thesis
      by (auto simp: request_bytes_def received_def)
  qed
qed

section \<open>Properties\<close>

text \<open>C4. A request that http_send_request writes, whole or in the portions the connection takes, is
  read at the other end by request_parse_html with the parser of http_parser.c, however the bytes are cut
  into segments: the same method, the target split at its first question mark, the header fields, every
  byte of the body, and not a byte more than that.\<close>

theorem http_request_received:
  assumes "accepting c" "length resource + length ct \<le> 1900"
    "list_all (\<lambda>x. 33 \<le> ord x \<and> ord x \<le> 126) resource" "body \<noteq> [] \<longrightarrow> value_string ct" "length body < 2 ^ 31"
  shows "\<exists>c' sent. http_send_request c addr resource ct body = Ret (0, c') \<and> tx c' = tx c @ sent
    \<and> (\<forall>s later. is_open s \<longrightarrow> flowing (rx s) \<longrightarrow> stream (rx s) = sent @ later \<longrightarrow>
        (\<exists>s' r. request_parse_html http_parser_execute None (http_parser_init HTTP_REQUEST) new_request s PARSE_ALL
            = Ret (0, s', r)
          \<and> stream (rx s') = later
          \<and> r_method r = (if body = [] then HTTP_METHOD_GET else HTTP_METHOD_POST)
          \<and> r_uri r = Some (takeWhile (\<lambda>x. x \<noteq> CHR ''?'') (CHR ''/'' # path_of resource))
          \<and> r_arg r = map_option tl (strchr (CHR ''/'' # path_of resource) CHR ''?'')
          \<and> r_body r = (if body = [] then None else Some body)
          \<and> r_headers r = map http_field
              (if body = [] then [(''Host'', addr_string (Some addr) 52)]
               else [(''Content-Length'', show_int (int (length body))), (''Content-Type'', ct),
                     (''Host'', addr_string (Some addr) 52)])))"
proof -
  from request_sent [OF assms(1,2,5), of addr] obtain c' where
    sent: "http_send_request c addr resource ct body = Ret (0, c')"
      "tx c' = tx c @ request_bytes (path_of resource) (host_of addr) ct body" by blast
  have path: "list_all (\<lambda>x. 33 \<le> ord x \<and> ord x \<le> 126) (path_of resource)" "length (path_of resource) \<le> 1900"
    using assms(2,3) by (cases resource; simp add: path_of_def)+
  have ct: "body \<noteq> [] \<longrightarrow> value_string ct \<and> length ct \<le> 1900" using assms(2,4) by auto
  note read = request_read [OF path host_value [of addr] addr_string_host(2) [of addr] ct assms(5)]
  show ?thesis
  proof (rule exI [of _ c'], rule exI [of _ "request_bytes (path_of resource) (host_of addr) ct body"],
      intro conjI allI impI)
    fix s :: tcp_t and later
    assume "is_open s" "flowing (rx s)" "stream (rx s) = request_bytes (path_of resource) (host_of addr) ct body @ later"
    from read [OF this] show "\<exists>s' r. request_parse_html http_parser_execute None (http_parser_init HTTP_REQUEST) new_request s PARSE_ALL
            = Ret (0, s', r)
          \<and> stream (rx s') = later
          \<and> r_method r = (if body = [] then HTTP_METHOD_GET else HTTP_METHOD_POST)
          \<and> r_uri r = Some (takeWhile (\<lambda>x. x \<noteq> CHR ''?'') (CHR ''/'' # path_of resource))
          \<and> r_arg r = map_option tl (strchr (CHR ''/'' # path_of resource) CHR ''?'')
          \<and> r_body r = (if body = [] then None else Some body)
          \<and> r_headers r = map http_field
              (if body = [] then [(''Host'', addr_string (Some addr) 52)]
               else [(''Content-Length'', show_int (int (length body))), (''Content-Type'', ct),
                     (''Host'', addr_string (Some addr) 52)])"
      by (cases "body = []") (auto simp: received_def addr_string_host(1) show_int_nonneg)
  qed (fact sent)+
qed

theorem http_request_received_witness:
  "\<exists>c' s' r. http_send_request \<lparr>is_open = True, rx = [], selects = [], txq = [5], tx = []\<rparr>
       \<lparr>sin_family = 2, sin_port = 20480, sin_addr = 0\<rparr> ''a?b'' ''x/y'' [1, 13, 0] = Ret (0, c')
     \<and> request_parse_html http_parser_execute None (http_parser_init HTTP_REQUEST) new_request
         \<lparr>is_open = True, rx = [Seg (take 9 (tx c')), Seg (drop 9 (tx c'))], selects = [], txq = [], tx = []\<rparr> PARSE_ALL = Ret (0, s', r)
     \<and> r_method r = HTTP_METHOD_POST \<and> r_uri r = Some ''/a'' \<and> r_arg r = Some ''b'' \<and> r_body r = Some [1, 13, 0]"
proof -
  let ?c = "\<lparr>is_open = True, rx = [], selects = [], txq = [5], tx = []\<rparr>"
  let ?a = "\<lparr>sin_family = 2, sin_port = 20480, sin_addr = 0\<rparr> :: addr_t"
  have "accepting ?c" "length ''a?b'' + length ''x/y'' \<le> 1900" "list_all (\<lambda>x. 33 \<le> ord x \<and> ord x \<le> 126) ''a?b''"
    "[1, 13, 0 :: u8] \<noteq> [] \<longrightarrow> value_string ''x/y''" "length [1, 13, 0 :: u8] < 2 ^ 31"
    by (simp_all add: accepting_def ord_def value_string_def text_byte_def is_header_char_def)
  note received = http_request_received [OF this, of ?a]
  have arg: "strchr ''/a?b'' CHR ''?'' = Some ''?b''" by (simp add: strchr_def)
  let ?s = "\<lambda>bs. \<lparr>is_open = True, rx = [Seg (take 9 bs), Seg (drop 9 bs)], selects = [], txq = [], tx = []\<rparr>"
  from received show ?thesis
    apply (elim exE conjE)
    subgoal premises p for c' sent
      using p(3) [rule_format, of "?s sent" "[]"] p(1,2) arg by (auto simp: path_of_def)
    done
qed

end
