(* ===== verification/Response.thy ===== *)
theory Response
  imports Request
begin

text \<open>
  Responses, librcom/src/response.c, the exchange of http_post in http.c, and client.c: what a server
  fills in and sends, what a client reads.  The user of a response may install two handlers, for the end
  of the header and for pieces of the body; they are functions on a state \<open>rs_user\<close> of the user's own.
  A response may be dumped to a file, whose content is \<open>rs_fp\<close>, None for a NULL pointer.
\<close>

section \<open>Model\<close>

record 'u response_t =
  rs_status :: int
  rs_headers :: "http_header_t list"
  rs_body :: bytes
  rs_continue :: bool
  rs_what :: parse_what
  rs_hstate :: header_state
  rs_status_buffer :: string
  rs_hname :: "string option"
  rs_hvalue :: "string option"
  rs_user :: 'u
  rs_onheaders :: "('u \<Rightarrow> int \<Rightarrow> http_header_t list \<Rightarrow> int \<times> 'u) option"
  rs_ondata :: "('u \<Rightarrow> bytes \<Rightarrow> int \<times> 'u) option"
  rs_dump :: bool
  rs_file :: string
  rs_fp :: "string option"

text \<open>The user's state is an argument; the code has a NULL pointer until a handler is set.\<close>

definition new_response :: "'u \<Rightarrow> int \<Rightarrow> 'u response_t" where
  "new_response userdata status =
     \<lparr>rs_status = status, rs_headers = [], rs_body = [], rs_continue = False, rs_what = PARSE_HEADERS,
      rs_hstate = HeaderNew, rs_status_buffer = [], rs_hname = Some [], rs_hvalue = Some [],
      rs_user = userdata, rs_onheaders = None, rs_ondata = None, rs_dump = False, rs_file = [],
      rs_fp = None\<rparr>"

definition response_status :: "'u response_t \<Rightarrow> int" where
  "response_status r = rs_status r"

definition response_set_status :: "'u response_t \<Rightarrow> int \<Rightarrow> 'u response_t" where
  "response_set_status r status = r\<lparr>rs_status := status\<rparr>"

definition response_body :: "'u response_t \<Rightarrow> bytes" where
  "response_body r = rs_body r"

definition response_headers :: "'u response_t \<Rightarrow> http_header_t list" where
  "response_headers r = rs_headers r"

definition response_set_onheaders ::
  "'u response_t \<Rightarrow> ('u \<Rightarrow> int \<Rightarrow> http_header_t list \<Rightarrow> int \<times> 'u) option \<Rightarrow> 'u \<Rightarrow> int \<times> 'u response_t" where
  "response_set_onheaders r onheaders userdata = (0, r\<lparr>rs_user := userdata, rs_onheaders := onheaders\<rparr>)"

definition response_set_ondata ::
  "'u response_t \<Rightarrow> ('u \<Rightarrow> bytes \<Rightarrow> int \<times> 'u) option \<Rightarrow> 'u \<Rightarrow> int \<times> 'u response_t" where
  "response_set_ondata r ondata userdata = (0, r\<lparr>rs_user := userdata, rs_ondata := ondata\<rparr>)"

definition response_add_header :: "'u response_t \<Rightarrow> string \<Rightarrow> string \<Rightarrow> int \<times> 'u response_t" where
  "response_add_header r key value =
     (0, r\<lparr>rs_headers := new_http_header (Some key) (Some value) # rs_headers r\<rparr>)"

definition response_get_header :: "'u response_t \<Rightarrow> string \<Rightarrow> http_header_t option" where
  "response_get_header r key = find_header (rs_headers r) key"

definition response_get_header_value :: "'u response_t \<Rightarrow> string \<Rightarrow> string option" where
  "response_get_header_value r key =
     (case response_get_header r key of None \<Rightarrow> None | Some h \<Rightarrow> h_value h)"

definition response_set_header :: "'u response_t \<Rightarrow> string \<Rightarrow> string \<Rightarrow> int \<times> 'u response_t" where
  "response_set_header r key value =
     (case response_get_header r key of
        None \<Rightarrow> response_add_header r key value
      | Some h \<Rightarrow> (0, r\<lparr>rs_headers := set_found (rs_headers r) key value\<rparr>))"

definition response_set_mimetype :: "'u response_t \<Rightarrow> string \<Rightarrow> int \<times> 'u response_t" where
  "response_set_mimetype r mimetype = response_set_header r ''Content-Type'' mimetype"

subsection \<open>The body\<close>

definition response_append :: "'u response_t \<Rightarrow> bytes \<Rightarrow> int \<times> 'u response_t" where
  "response_append r data = (0, r\<lparr>rs_body := rs_body r @ data\<rparr>)"

text \<open>The JSON writer is an argument; it may fail.  The text of response_printf is formatted.\<close>

definition response_json :: "('j \<Rightarrow> string option) \<Rightarrow> 'u response_t \<Rightarrow> 'j \<Rightarrow> int \<times> 'u response_t" where
  "response_json json_write r obj =
     (case json_write obj of
        None \<Rightarrow> (-1, r)
      | Some txt \<Rightarrow> (0, r\<lparr>rs_body := rs_body r @ bytes_of txt\<rparr>))"

definition response_printf :: "'u response_t \<Rightarrow> string \<Rightarrow> int \<times> 'u response_t" where
  "response_printf r txt = (0, r\<lparr>rs_body := rs_body r @ bytes_of txt\<rparr>)"

definition response_send :: "'u response_t \<Rightarrow> tcp_t \<Rightarrow> int \<times> tcp_t" where
  "response_send r s = http_send_response s (response_status r) (response_headers r) (response_body r)"

subsection \<open>Dumping\<close>

text \<open>The argument tells whether fopen succeeds.\<close>

definition response_dumpto :: "bool \<Rightarrow> 'u response_t \<Rightarrow> string \<Rightarrow> int \<times> 'u response_t" where
  "response_dumpto fopen_ok r file =
     (if \<not> fopen_ok then (-1, r\<lparr>rs_fp := None\<rparr>)
      else (0, r\<lparr>rs_dump := True, rs_file := file, rs_fp := Some []\<rparr>))"

definition response_dumpfile :: "'u response_t \<Rightarrow> string option" where
  "response_dumpfile r = rs_fp r"

text \<open>The line of a dump; the precision of the format ends it at a zero.\<close>

definition dump_text :: "string \<Rightarrow> string \<Rightarrow> string" where
  "dump_text tag d = ''#['' @ tag @ '']'' @ [chLF] @ ''[['' @ takeWhile (\<lambda>c. c \<noteq> CHR 0x00) d @ '']]'' @ [chLF]"

definition response_log :: "string \<Rightarrow> string \<Rightarrow> 'u response_t \<Rightarrow> 'u response_t outcome" where
  "response_log tag d r =
     (if rs_dump r then bind_out (deref (rs_fp r)) (\<lambda>f. Ret (r\<lparr>rs_fp := Some (f @ dump_text tag d)\<rparr>))
      else Ret r)"

subsection \<open>Reading\<close>

definition response_on_status :: "string \<Rightarrow> 'u response_t \<Rightarrow> (int \<times> 'u response_t) outcome" where
  "response_on_status d r =
     bind_out (response_log ''STAT'' d r) (\<lambda>r. Ret (0, r\<lparr>rs_status_buffer := rs_status_buffer r @ d\<rparr>))"

definition response_on_header_field :: "string \<Rightarrow> 'u response_t \<Rightarrow> 'u response_t outcome" where
  "response_on_header_field d r =
     bind_out (response_log ''HEAD'' d r) (\<lambda>r.
     bind_out (deref (rs_hname r)) (\<lambda>n. bind_out (deref (rs_hvalue r)) (\<lambda>v.
       if rs_hstate r = HeaderNew \<or> rs_hstate r = HeaderValue then
         (let r = (if length n > 0 \<and> length v > 0 then snd (response_set_header r n v) else r)
          in Ret (r\<lparr>rs_hname := Some d, rs_hvalue := Some [], rs_hstate := HeaderField\<rparr>))
       else Ret (r\<lparr>rs_hname := Some (n @ d)\<rparr>))))"

definition response_on_header_value :: "string \<Rightarrow> 'u response_t \<Rightarrow> 'u response_t outcome" where
  "response_on_header_value d r =
     bind_out (response_log ''HVAL'' d r) (\<lambda>r.
       if rs_hstate r = HeaderNew then Ret r
       else bind_out (deref (rs_hvalue r)) (\<lambda>v.
              Ret (r\<lparr>rs_hvalue := Some (v @ d), rs_hstate := HeaderValue\<rparr>)))"

definition response_on_headers_complete :: "int \<Rightarrow> 'u response_t \<Rightarrow> (int \<times> 'u response_t) outcome" where
  "response_on_headers_complete status_code r =
     bind_out (deref (rs_hname r)) (\<lambda>n. bind_out (deref (rs_hvalue r)) (\<lambda>v.
       let r = (if length n > 0 \<and> length v > 0 then snd (response_set_header r n v) else r);
           r = r\<lparr>rs_status_buffer := rs_status_buffer r @ [CHR 0x00], rs_status := status_code\<rparr>;
           r = r\<lparr>rs_hname := None, rs_hvalue := None\<rparr>;
           r = (if rs_what r = PARSE_HEADERS then r\<lparr>rs_continue := False\<rparr> else r)
       in case rs_onheaders r of
            None \<Rightarrow> Ret (0, r)
          | Some h \<Rightarrow>
              let (err, u) = h (rs_user r) (rs_status r) (rs_headers r) in Ret (err, r\<lparr>rs_user := u\<rparr>)))"

definition response_on_body :: "bytes \<Rightarrow> 'u response_t \<Rightarrow> (int \<times> 'u response_t) outcome" where
  "response_on_body d r =
     bind_out (response_log ''BODY'' (string_of d) r) (\<lambda>r.
       case rs_ondata r of
         None \<Rightarrow> Ret (0, r\<lparr>rs_body := rs_body r @ d\<rparr>)
       | Some h \<Rightarrow> let (err, u) = h (rs_user r) d in Ret (err, r\<lparr>rs_user := u\<rparr>))"

definition response_on_message_complete :: "'u response_t \<Rightarrow> (int \<times> 'u response_t) outcome" where
  "response_on_message_complete r = Ret (0, r\<lparr>rs_continue := False\<rparr>)"

text \<open>The callbacks installed for a response.\<close>

fun response_callback :: "'u response_t \<Rightarrow> http_event \<Rightarrow> (int \<times> 'u response_t) outcome" where
  "response_callback r (OnStatus d) = response_on_status d r"
| "response_callback r (OnField d) = map_out (Pair 0) (response_on_header_field d r)"
| "response_callback r (OnValue d) = map_out (Pair 0) (response_on_header_value d r)"
| "response_callback r (OnHeadersComplete n) = response_on_headers_complete n r"
| "response_callback r (OnBody d) = response_on_body d r"
| "response_callback r OnComplete = response_on_message_complete r"
| "response_callback r (OnUrl d) = Ret (0, r)"

text \<open>
  The header alone is read byte by byte, a whole response into a buffer of 80 kilobytes.  FD_SET of a
  closed descriptor, -1, is undefined.
\<close>

definition parse_len :: "parse_what \<Rightarrow> nat" where
  "parse_len what = (if what = PARSE_HEADERS then 1 else 80 * 1024)"

lemma parse_len_pos [simp]: "0 < parse_len what"
  by (simp add: parse_len_def)

lemma parse_wait:
  "(w, s') = tcp_socket_wait_data s 1 \<Longrightarrow> is_open s \<Longrightarrow> w \<noteq> 1 \<Longrightarrow>
   rx_size (rx s') + length (selects s') < rx_size (rx s) + length (selects s)"
  by (auto simp: tcp_socket_wait_data_def posix_wait_data_def posix_wait_data_positive_def
      split: if_splits list.splits)

lemma wait_keeps: "tcp_socket_wait_data s 1 = (w, s') \<Longrightarrow>
   rx s' = rx s \<and> is_open s' = is_open s \<and> length (selects s') \<le> length (selects s)"
  by (auto simp: tcp_socket_wait_data_def split: if_splits list.splits)

lemma recv_selects: "tcp_socket_recv s n = (k, bs, s') \<Longrightarrow> selects s' = selects s"
  by (auto simp: tcp_socket_recv_def split: if_splits prod.splits)

text \<open>A turn of the loop: the result code when it ends, None when it goes on.\<close>

definition response_parse_turn ::
  "('u response_t, 'p) parser_exec \<Rightarrow> parse_what \<Rightarrow> 'p \<Rightarrow> tcp_t \<Rightarrow> 'u response_t
   \<Rightarrow> (int option \<times> 'p \<times> tcp_t \<times> 'u response_t) outcome" where
  "response_parse_turn exec what p s r =
     (if \<not> is_open s then Undef
      else let (w, s) = tcp_socket_wait_data s 1
           in if w \<noteq> 1 then Ret (None, p, s, r)
              else let (received, buf, s) = tcp_socket_recv s (parse_len what)
                   in if received < 0 then Ret (Some (-1), p, s, r)
                      else bind_out (response_log ''RECV'' (string_of buf) r) (\<lambda>r.
                           bind_out (exec response_callback p buf r) (\<lambda>(parsed, p, r).
                             Ret (if received = 0 then Some 0
                                  else if int parsed \<noteq> received \<and> int parsed \<noteq> received - 1 then Some (-1)
                                  else None, p, s, r))))"

lemma parse_turn_decreases:
  assumes "response_parse_turn exec what p s r = Ret (None, p', s', r')"
  shows "rx_size (rx s') + length (selects s') < rx_size (rx s) + length (selects s)"
proof -
  obtain w s1 where w: "tcp_socket_wait_data s 1 = (w, s1)" by fastforce
  obtain n buf s2 where n: "tcp_socket_recv s1 (parse_len what) = (n, buf, s2)"
    by (cases "tcp_socket_recv s1 (parse_len what)")
  have "is_open s" using assms by (auto simp: response_parse_turn_def split: if_splits)
  with assms w n parse_wait [OF w [symmetric]] wait_keeps [OF w] recv_selects [OF n] recv_decreases [OF n]
  show ?thesis
    by (auto simp: response_parse_turn_def outcome_simps split: if_splits)
qed

function response_parse_loop ::
  "('u response_t, 'p) parser_exec \<Rightarrow> nat option \<Rightarrow> parse_what \<Rightarrow> 'p \<Rightarrow> tcp_t \<Rightarrow> 'u response_t
   \<Rightarrow> (int \<times> tcp_t \<times> 'u response_t) outcome" where
  "response_parse_loop exec q what p s r =
     (if fst (app_quit q) \<or> \<not> rs_continue r then Ret (0, s, r)
      else case response_parse_turn exec what p s r of
             Undef \<Rightarrow> Undef
           | Ret (Some err, _, s', r') \<Rightarrow> Ret (err, s', r')
           | Ret (None, p', s', r') \<Rightarrow> response_parse_loop exec (snd (app_quit q)) what p' s' r')"
  by pat_completeness auto
termination
  by (relation "measure (\<lambda>(exec, q, what, p, s, r). rx_size (rx s) + length (selects s))")
     (auto dest: parse_turn_decreases)

declare response_parse_loop.simps [simp del]

definition response_parse_html ::
  "('u response_t, 'p) parser_exec \<Rightarrow> nat option \<Rightarrow> 'p \<Rightarrow> 'u response_t \<Rightarrow> tcp_t \<Rightarrow> parse_what
   \<Rightarrow> (int \<times> tcp_t \<times> 'u response_t) outcome" where
  "response_parse_html exec q p r s what =
     response_parse_loop exec q what p s (r\<lparr>rs_continue := True, rs_what := what\<rparr>)"

subsection \<open>An exchange\<close>

text \<open>
  The connection, when open_tcp_socket succeeds, is an argument; the connection and the response of
  the handle are results.  A response the function allocated itself is deleted on an error.
\<close>

definition http_post ::
  "('u response_t, 'p) parser_exec \<Rightarrow> nat option \<Rightarrow> 'p \<Rightarrow> 'u \<Rightarrow> tcp_t option \<Rightarrow> addr_t \<Rightarrow> string \<Rightarrow> string
   \<Rightarrow> bytes \<Rightarrow> 'u response_t option \<Rightarrow> (int \<times> tcp_t option \<times> 'u response_t option) outcome" where
  "http_post exec q p userdata connection addr resource content_type data handle =
     (case connection of
        None \<Rightarrow> Ret (-1, None, handle)
      | Some s \<Rightarrow>
          bind_out (http_send_request s addr resource content_type data) (\<lambda>(err, s).
            if err \<noteq> 0 then Ret (-1, Some (close_tcp_socket s), handle)
            else
              let r = (case handle of None \<Rightarrow> new_response userdata 200 | Some r \<Rightarrow> r)
              in bind_out (response_parse_html exec q p r s PARSE_ALL) (\<lambda>(err, s, r).
                 Ret (err, Some (close_tcp_socket s), if err \<noteq> 0 \<and> handle = None then None else Some r))))"

definition http_get ::
  "('u response_t, 'p) parser_exec \<Rightarrow> nat option \<Rightarrow> 'p \<Rightarrow> 'u \<Rightarrow> tcp_t option \<Rightarrow> addr_t \<Rightarrow> string
   \<Rightarrow> 'u response_t option \<Rightarrow> (int \<times> tcp_t option \<times> 'u response_t option) outcome" where
  "http_get exec q p userdata connection addr resource handle =
     http_post exec q p userdata connection addr resource [] [] handle"

text \<open>The address the registry gives for the topic is an argument.\<close>

definition client_get_data ::
  "('u response_t, 'p) parser_exec \<Rightarrow> nat option \<Rightarrow> 'p \<Rightarrow> 'u \<Rightarrow> tcp_t option \<Rightarrow> addr_t option \<Rightarrow> string
   \<Rightarrow> 'u response_t option \<Rightarrow> (int \<times> 'u response_t option) outcome" where
  "client_get_data exec q p userdata connection service_addr resource handle =
     (case service_addr of
        None \<Rightarrow> Ret (-1, handle)
      | Some addr \<Rightarrow>
          map_out (\<lambda>(err, s, r). (err, r)) (http_get exec q p userdata connection addr resource handle))"

definition client_get ::
  "('u response_t, 'p) parser_exec \<Rightarrow> nat option \<Rightarrow> 'p \<Rightarrow> 'u \<Rightarrow> (string \<Rightarrow> 'j) \<Rightarrow> 'j \<Rightarrow> tcp_t option
   \<Rightarrow> addr_t option \<Rightarrow> string \<Rightarrow> 'j outcome" where
  "client_get exec q p userdata json_parse json_null connection service_addr resource =
     bind_out (client_get_data exec q p userdata connection service_addr resource None) (\<lambda>(err, r).
       if err \<noteq> 0 then Ret json_null
       else bind_out (deref r) (\<lambda>r.
              Ret (json_parse (string_of (takeWhile (\<lambda>b. b \<noteq> 0) (response_body r @ [0]))))))"

section \<open>Header fields\<close>

text \<open>The collector of header fields, as long as a dump has a file to go to.\<close>

definition response_view :: "'u response_t \<Rightarrow> collector option" where
  "response_view r =
     (case (rs_hname r, rs_hvalue r) of
        (Some n, Some v) \<Rightarrow>
          if rs_dump r \<and> rs_fp r = None then None
          else Some \<lparr>c_state = rs_hstate r, c_name = n, c_value = v, c_headers = rs_headers r\<rparr>
      | _ \<Rightarrow> None)"

lemma response_set_header_eq:
  "response_set_header r key value = (0, r\<lparr>rs_headers := set_header (rs_headers r) key value\<rparr>)"
  by (simp add: response_set_header_def response_get_header_def set_header_def response_add_header_def
      split: option.splits)

lemma response_view_Some:
  "response_view r = Some c \<longleftrightarrow> rs_hname r = Some (c_name c) \<and> rs_hvalue r = Some (c_value c)
     \<and> rs_hstate r = c_state c \<and> rs_headers r = c_headers c \<and> (rs_dump r \<longrightarrow> rs_fp r \<noteq> None)"
  by (cases c) (auto simp: response_view_def split: option.splits)

text \<open>Logging a line changes nothing but the dump.\<close>

lemma response_log_ok:
  "rs_dump r \<longrightarrow> rs_fp r \<noteq> None \<Longrightarrow>
   \<exists>f. response_log tag d r = Ret (r\<lparr>rs_fp := f\<rparr>) \<and> (rs_dump r \<longrightarrow> f \<noteq> None)"
proof (cases "rs_dump r")
  case True
  moreover assume "rs_dump r \<longrightarrow> rs_fp r \<noteq> None"
  ultimately show ?thesis by (auto simp: response_log_def)
next
  case False
  moreover have "r\<lparr>rs_fp := rs_fp r\<rparr> = r" by simp
  ultimately show ?thesis by (metis response_log_def)
qed

lemma response_on_header_field_spec:
  assumes "response_view r = Some c"
  shows "\<exists>r'. response_on_header_field d r = Ret r' \<and> response_view r' = Some (spec_field d c)"
proof -
  from assms response_log_ok [of r "''HEAD''" d] obtain f where
    f: "response_log ''HEAD'' d r = Ret (r\<lparr>rs_fp := f\<rparr>)" "rs_dump r \<longrightarrow> f \<noteq> None"
    by (auto simp: response_view_Some)
  with assms show ?thesis unfolding response_view_Some
    by (cases "c_state c")
       (auto simp: response_on_header_field_def spec_field_def store_field_def response_set_header_eq)
qed

lemma response_on_header_value_spec:
  assumes "response_view r = Some c"
  shows "\<exists>r'. response_on_header_value d r = Ret r' \<and> response_view r' = Some (spec_value d c)"
proof -
  from assms response_log_ok [of r "''HVAL''" d] obtain f where
    f: "response_log ''HVAL'' d r = Ret (r\<lparr>rs_fp := f\<rparr>)" "rs_dump r \<longrightarrow> f \<noteq> None"
    by (auto simp: response_view_Some)
  with assms show ?thesis unfolding response_view_Some
    by (auto simp: response_on_header_value_def spec_value_def)
qed

interpretation rsp: header_collector response_view response_on_header_field response_on_header_value
  by unfold_locales (fact response_on_header_field_spec response_on_header_value_spec)+

end
