(* ===== verification/Messagehub.thy ===== *)
theory Messagehub
  imports Linklife Response
begin

text \<open>
  Message hubs, librcom/src/messagehub.c: a server that upgrades HTTP connections to websockets and
  keeps the links, to which it broadcasts.  A link is a pointer into the heap \<open>mh_heap\<close>.  The mutex of
  the lists of links makes every access to them one step.  The server thread accepts a connection in
  an iteration; every link has a thread that reads its messages, one in a turn, and moves the link to
  the list of closed links when it ends.  The field \<open>mh_gone\<close> stands for the operating system: the
  connections the hub has let go of, in the condition it left them.

  What the handlers of the user do to a new link and to a response, and the digest SHA-1, are
  arguments.  A server link whose handler for messages was not set calls a NULL pointer when a message
  arrives.
\<close>

section \<open>Model\<close>

record 'j messagehub_t =
  mh_name :: string
  mh_topic :: string
  mh_addr :: "addr_t option"
  mh_socket :: bool
  mh_links :: "ptr list"
  mh_closed :: "ptr list"
  mh_heap :: "ptr \<Rightarrow> 'j messagelink_t option"
  mh_gone :: "tcp_t list"
  mh_mem :: "bytes option"
  mh_quit :: bool
  mh_onconnect :: bool
  mh_onrequest :: bool

text \<open>The address made of the node's own and the port, when it can be made and bound, is an argument.\<close>

definition new_messagehub :: "string \<Rightarrow> string \<Rightarrow> addr_t option \<Rightarrow> bool \<Rightarrow> 'j messagehub_t option" where
  "new_messagehub name topic addr onconnect =
     (case addr of
        None \<Rightarrow> None
      | Some a \<Rightarrow>
          Some \<lparr>mh_name = name, mh_topic = topic, mh_addr = Some a, mh_socket = True, mh_links = [],
                mh_closed = [], mh_heap = (\<lambda>_. None), mh_gone = [], mh_mem = None, mh_quit = False,
                mh_onconnect = onconnect, mh_onrequest = False\<rparr>)"

definition messagehub_addr :: "'j messagehub_t \<Rightarrow> addr_t option" where
  "messagehub_addr hub = mh_addr hub"

definition messagehub_name :: "'j messagehub_t \<Rightarrow> string" where
  "messagehub_name hub = mh_name hub"

definition messagehub_topic :: "'j messagehub_t \<Rightarrow> string" where
  "messagehub_topic hub = mh_topic hub"

definition messagehub_set_onrequest :: "'j messagehub_t \<Rightarrow> bool \<Rightarrow> int \<times> 'j messagehub_t" where
  "messagehub_set_onrequest hub onrequest = (0, hub\<lparr>mh_onrequest := onrequest\<rparr>)"

abbreviation hub_store :: "'j messagehub_t \<Rightarrow> ptr \<Rightarrow> 'j messagelink_t \<Rightarrow> 'j messagehub_t" where
  "hub_store hub p link \<equiv> hub\<lparr>mh_heap := (mh_heap hub)(p \<mapsto> link)\<rparr>"

subsection \<open>The lists of links\<close>

definition messagehub_add_link :: "'j messagehub_t \<Rightarrow> ptr \<Rightarrow> 'j messagehub_t" where
  "messagehub_add_link hub p = hub\<lparr>mh_links := mh_links hub @ [p]\<rparr>"

definition messagehub_remove_link :: "'j messagehub_t \<Rightarrow> ptr \<Rightarrow> 'j messagehub_t" where
  "messagehub_remove_link hub p =
     hub\<lparr>mh_links := list_remove (mh_links hub) p, mh_closed := p # mh_closed hub\<rparr>"

text \<open>The link is closed and its memory is gone.\<close>

definition hub_delete_link :: "'j messagehub_t \<Rightarrow> ptr \<Rightarrow> 'j messagehub_t outcome" where
  "hub_delete_link hub p =
     bind_out (deref (mh_heap hub p)) (\<lambda>link.
       let link = delete_messagelink link
       in Ret (hub\<lparr>mh_heap := (mh_heap hub)(p := None), mh_gone := mh_gone hub @ [ml_socket link]\<rparr>))"

fun delete_links :: "'j messagehub_t \<Rightarrow> ptr list \<Rightarrow> 'j messagehub_t outcome" where
  "delete_links hub [] = Ret hub"
| "delete_links hub (p # ps) = bind_out (hub_delete_link hub p) (\<lambda>hub. delete_links hub ps)"

definition messagehub_delete_closed_links :: "'j messagehub_t \<Rightarrow> 'j messagehub_t outcome" where
  "messagehub_delete_closed_links hub =
     bind_out (delete_links hub (mh_closed hub)) (\<lambda>hub. Ret (hub\<lparr>mh_closed := []\<rparr>))"

subsection \<open>Accepting\<close>

definition upgrade_response :: "string \<Rightarrow> string" where
  "upgrade_response accept =
     ''HTTP/1.1 101 Switching Protocols'' @ crlf @ ''Upgrade: websocket'' @ crlf
     @ ''Connection: Upgrade'' @ crlf @ ''Sec-WebSocket-Accept: '' @ accept @ crlf @ crlf"

definition messagehub_upgrade_connection ::
  "(bytes \<Rightarrow> bytes) \<Rightarrow> request_t \<Rightarrow> tcp_t \<Rightarrow> (int \<times> tcp_t) outcome" where
  "messagehub_upgrade_connection sha1 request s =
     bind_out (deref (request_get_header_value request ''Sec-WebSocket-Key'')) (\<lambda>key.
       Ret (tcp_socket_send s (bytes_of (upgrade_response (make_accept sha1 key)))))"

text \<open>
  The environment of a new connection: its address and what its link asks for later (when the
  application quits, the patience of a close, the masks), the pointer the allocator returns, and the
  handlers of the user.
\<close>

record 'j hub_env =
  he_addr :: "addr_t option"
  he_quit :: "nat option"
  he_patience :: nat
  he_masks :: "bytes list"
  he_ptr :: ptr
  he_onconnect :: "request_t \<Rightarrow> 'j messagelink_t \<Rightarrow> int \<times> 'j messagelink_t"
  he_onrequest :: "request_t \<Rightarrow> unit response_t \<Rightarrow> unit response_t"

definition refuse :: "tcp_t \<Rightarrow> int \<Rightarrow> tcp_t outcome" where
  "refuse s status = map_out (\<lambda>(err, s). close_tcp_socket s) (http_send_error_headers s status)"

text \<open>The result is the connection when no link took it over, and the hub.\<close>

definition messagehub_handle_websocket ::
  "(bytes \<Rightarrow> bytes) \<Rightarrow> 'j hub_env \<Rightarrow> 'j messagehub_t \<Rightarrow> request_t \<Rightarrow> tcp_t
   \<Rightarrow> (tcp_t option \<times> 'j messagehub_t) outcome" where
  "messagehub_handle_websocket sha1 env hub request s =
     (if \<not> request_is_valid_websocket request then map_out (\<lambda>s. (Some s, hub)) (refuse s 400)
      else bind_out (messagehub_upgrade_connection sha1 request s) (\<lambda>(err, s).
        if err \<noteq> 0 then map_out (\<lambda>s. (Some s, hub)) (refuse s 500)
        else
          let link = server_messagelink_connect (messagehub_name hub) (messagehub_topic hub) s (he_addr env)
                       (he_quit env) (he_patience env) (he_masks env);
              (answer, link) = (if mh_onconnect hub then he_onconnect env request link else (0, link));
              hub = hub_store hub (he_ptr env) link
          in if answer \<noteq> 0 then map_out (Pair None) (hub_delete_link hub (he_ptr env))
             else
               bind_out (messagehub_delete_closed_links (messagehub_add_link hub (he_ptr env))) (\<lambda>hub.
               bind_out (deref (mh_heap hub (he_ptr env))) (\<lambda>link.
                 Ret (None, hub_store hub (he_ptr env) (server_messagelink_read_in_background link))))))"

definition messagehub_handle_request ::
  "'j hub_env \<Rightarrow> 'j messagehub_t \<Rightarrow> request_t \<Rightarrow> tcp_t \<Rightarrow> tcp_t outcome" where
  "messagehub_handle_request env hub request s =
     (if \<not> mh_onrequest hub then refuse s 404
      else
        let response = he_onrequest env request (new_response () 200);
            (err, s) = response_send response s
        in Ret (close_tcp_socket s))"

definition messagehub_handle ::
  "(bytes \<Rightarrow> bytes) \<Rightarrow> (request_t, 'p) parser_exec \<Rightarrow> 'p \<Rightarrow> nat option \<Rightarrow> 'j hub_env \<Rightarrow> 'j messagehub_t \<Rightarrow> tcp_t
   \<Rightarrow> (tcp_t option \<times> 'j messagehub_t) outcome" where
  "messagehub_handle sha1 exec p q env hub s =
     bind_out (request_parse_html exec q p new_request s PARSE_HEADERS) (\<lambda>(err, s, request).
       if err \<noteq> 0 then map_out (\<lambda>s. (Some s, hub)) (refuse s 500)
       else if request_is_websocket request then messagehub_handle_websocket sha1 env hub request s
       else map_out (\<lambda>s. (Some s, hub)) (messagehub_handle_request env hub request s))"

definition messagehub_wait_connection ::
  "(bytes \<Rightarrow> bytes) \<Rightarrow> (request_t, 'p) parser_exec \<Rightarrow> 'p \<Rightarrow> nat option \<Rightarrow> 'j hub_env \<Rightarrow> 'j messagehub_t \<Rightarrow> accepted
   \<Rightarrow> 'j messagehub_t outcome" where
  "messagehub_wait_connection sha1 exec p q env hub a =
     (case a of
        AcceptInvalid \<Rightarrow> Ret hub
      | AcceptTimeout \<Rightarrow> Ret hub
      | Accepted s \<Rightarrow>
          map_out (\<lambda>(s, hub). case s of None \<Rightarrow> hub | Some s \<Rightarrow> hub\<lparr>mh_gone := mh_gone hub @ [s]\<rparr>)
            (messagehub_handle sha1 exec p q env hub s))"

text \<open>An iteration of the server thread; the flag is what app_quit answers.\<close>

definition messagehub_run ::
  "(bytes \<Rightarrow> bytes) \<Rightarrow> (request_t, 'p) parser_exec \<Rightarrow> 'p \<Rightarrow> nat option \<Rightarrow> 'j hub_env \<Rightarrow> bool \<Rightarrow> accepted
   \<Rightarrow> 'j messagehub_t \<Rightarrow> 'j messagehub_t outcome" where
  "messagehub_run sha1 exec p q env quit a hub =
     (if mh_quit hub \<or> quit \<or> \<not> mh_socket hub then Ret hub
      else messagehub_wait_connection sha1 exec p q env hub a)"

subsection \<open>The thread of a link\<close>

text \<open>A turn of the loop of server_messagelink_run; the flag tells whether the loop has ended.\<close>

definition server_messagelink_turn ::
  "(string \<Rightarrow> 'j option) \<Rightarrow> 'j messagelink_t \<Rightarrow> (bool \<times> 'j messagelink_t) outcome" where
  "server_messagelink_turn parse link =
     (if ml_thread_quit link \<or> ml_state link \<noteq> WS_OPEN then Ret (True, link)
      else let (quit, link) = link_quit link
           in if quit then Ret (True, link)
              else case messagelink_read_internal parse link of
                     (None, link) \<Rightarrow> Ret (False, link)
                   | (Some j, link) \<Rightarrow>
                       if ml_onmessage link then Ret (False, link\<lparr>calls := calls link @ [CallMessage j]\<rparr>)
                       else Undef)"

definition hub_link_turn :: "(string \<Rightarrow> 'j option) \<Rightarrow> 'j messagehub_t \<Rightarrow> ptr \<Rightarrow> 'j messagehub_t outcome" where
  "hub_link_turn parse hub p =
     bind_out (deref (mh_heap hub p)) (\<lambda>link.
     bind_out (server_messagelink_turn parse link) (\<lambda>(ended, link).
       let hub = hub_store hub p link
       in Ret (if ended then messagehub_remove_link hub p else hub)))"

subsection \<open>Broadcasting\<close>

text \<open>Every link but the excluded one; the result is -1 when a send failed.\<close>

fun broadcast_loop :: "ptr option \<Rightarrow> bytes \<Rightarrow> int \<Rightarrow> ptr list \<Rightarrow> 'j messagehub_t
   \<Rightarrow> (int \<times> 'j messagehub_t) outcome" where
  "broadcast_loop exclude data err [] hub = Ret (err, hub)"
| "broadcast_loop exclude data err (p # ps) hub =
     (if Some p \<noteq> exclude then
        bind_out (deref (mh_heap hub p)) (\<lambda>link.
          let (r, link) = messagelink_send_text link data
          in broadcast_loop exclude data (if r \<noteq> 0 then -1 else err) ps (hub_store hub p link))
      else broadcast_loop exclude data err ps hub)"

definition messagehub_membuf :: "'j messagehub_t \<Rightarrow> 'j messagehub_t" where
  "messagehub_membuf hub = (case mh_mem hub of None \<Rightarrow> hub\<lparr>mh_mem := Some []\<rparr> | Some m \<Rightarrow> hub)"

definition messagehub_broadcast_text ::
  "'j messagehub_t \<Rightarrow> ptr option \<Rightarrow> bytes \<Rightarrow> (int \<times> 'j messagehub_t) outcome" where
  "messagehub_broadcast_text hub exclude data =
     (let hub = messagehub_membuf hub in broadcast_loop exclude data 0 (mh_links hub) hub)"

text \<open>The text is printed into the hub's buffer.\<close>

definition hub_print :: "'j messagehub_t \<Rightarrow> ptr option \<Rightarrow> string \<Rightarrow> (int \<times> 'j messagehub_t) outcome" where
  "hub_print hub exclude txt =
     (let hub = (messagehub_membuf hub)\<lparr>mh_mem := Some (bytes_of txt)\<rparr>
      in bind_out (deref (mh_mem hub)) (\<lambda>data. messagehub_broadcast_text hub exclude data))"

definition messagehub_broadcast_num ::
  "('d \<Rightarrow> string) \<Rightarrow> 'j messagehub_t \<Rightarrow> ptr option \<Rightarrow> 'd \<Rightarrow> (int \<times> 'j messagehub_t) outcome" where
  "messagehub_broadcast_num fmt hub exclude value = hub_print hub exclude (fmt value)"

definition messagehub_broadcast_str ::
  "'j messagehub_t \<Rightarrow> ptr option \<Rightarrow> string \<Rightarrow> (int \<times> 'j messagehub_t) outcome" where
  "messagehub_broadcast_str hub exclude value =
     hub_print hub exclude ([chQUOTE] @ escape_string value @ [chQUOTE])"

definition messagehub_broadcast_obj ::
  "('j \<Rightarrow> string option) \<Rightarrow> 'j messagehub_t \<Rightarrow> ptr option \<Rightarrow> 'j \<Rightarrow> (int \<times> 'j messagehub_t) outcome" where
  "messagehub_broadcast_obj json_write hub exclude value =
     (case json_write value of
        None \<Rightarrow> Ret (-1, (messagehub_membuf hub)\<lparr>mh_mem := Some []\<rparr>)
      | Some txt \<Rightarrow> hub_print hub exclude txt)"

definition messagehub_broadcast_f ::
  "'j messagehub_t \<Rightarrow> ptr option \<Rightarrow> string \<Rightarrow> (int \<times> 'j messagehub_t) outcome" where
  "messagehub_broadcast_f hub exclude txt = hub_print hub exclude txt"

fun ping_loop :: "bytes \<Rightarrow> int \<Rightarrow> ptr list \<Rightarrow> 'j messagehub_t \<Rightarrow> (int \<times> 'j messagehub_t) outcome" where
  "ping_loop data err [] hub = Ret (err, hub)"
| "ping_loop data err (p # ps) hub =
     bind_out (deref (mh_heap hub p)) (\<lambda>link.
       let (r, link) = messagelink_send_ping link data
       in ping_loop data (if r \<noteq> 0 then -1 else err) ps (hub_store hub p link))"

definition messagehub_send_ping :: "'j messagehub_t \<Rightarrow> bytes \<Rightarrow> (int \<times> 'j messagehub_t) outcome" where
  "messagehub_send_ping hub data = ping_loop data 0 (mh_links hub) hub"

subsection \<open>The end\<close>

text \<open>
  Joining the thread of a link: it finds the flag set, ends its loop and moves the link to the closed
  ones.  A link without a thread is left where it is.
\<close>

definition hub_stop_thread :: "'j messagehub_t \<Rightarrow> ptr \<Rightarrow> 'j messagehub_t outcome" where
  "hub_stop_thread hub p =
     bind_out (deref (mh_heap hub p)) (\<lambda>link.
       let hub = hub_store hub p (messagelink_stop_thread link)
       in Ret (if ml_thread link then messagehub_remove_link hub p else hub))"

fun stop_links :: "'j messagehub_t \<Rightarrow> ptr list \<Rightarrow> 'j messagehub_t outcome" where
  "stop_links hub [] = Ret hub"
| "stop_links hub (p # ps) = bind_out (hub_stop_thread hub p) (\<lambda>hub. stop_links hub ps)"

definition delete_messagehub :: "'j messagehub_t \<Rightarrow> 'j messagehub_t outcome" where
  "delete_messagehub hub =
     (let hub = hub\<lparr>mh_quit := True\<rparr>; hub = hub\<lparr>mh_mem := None, mh_socket := False\<rparr>;
          l = mh_links hub; hub = hub\<lparr>mh_links := []\<rparr>
      in bind_out (stop_links hub l) messagehub_delete_closed_links)"

section \<open>Steps\<close>

text \<open>The user's handler for new links uses the operations of links, which keep their invariant.\<close>

definition handler_ok :: "'j hub_env \<Rightarrow> bool" where
  "handler_ok env \<longleftrightarrow> (\<forall>r l. link_inv l \<longrightarrow> link_inv (snd (he_onconnect env r l)))"

definition accepted_ok :: "accepted \<Rightarrow> bool" where
  "accepted_ok a \<longleftrightarrow> (case a of Accepted s \<Rightarrow> is_open s | _ \<Rightarrow> True)"

inductive hub_step ::
  "(bytes \<Rightarrow> bytes) \<Rightarrow> (request_t, 'p) parser_exec \<Rightarrow> (string \<Rightarrow> 'j option) \<Rightarrow> 'j messagehub_t \<Rightarrow> 'j messagehub_t
   \<Rightarrow> bool"
  for sha1 exec parse where
  step_server: "mh_heap hub (he_ptr env) = None \<Longrightarrow> handler_ok env \<Longrightarrow> accepted_ok a \<Longrightarrow>
     messagehub_run sha1 exec p q env quit a hub = Ret hub' \<Longrightarrow> hub_step sha1 exec parse hub hub'"
| step_link: "p \<in> set (mh_links hub) \<Longrightarrow> hub_link_turn parse hub p = Ret hub' \<Longrightarrow>
     hub_step sha1 exec parse hub hub'"
| step_broadcast: "messagehub_broadcast_text hub exclude data = Ret (err, hub') \<Longrightarrow>
     hub_step sha1 exec parse hub hub'"
| step_print: "hub_print hub exclude txt = Ret (err, hub') \<Longrightarrow> hub_step sha1 exec parse hub hub'"
| step_ping: "messagehub_send_ping hub data = Ret (err, hub') \<Longrightarrow> hub_step sha1 exec parse hub hub'"
| step_onrequest: "hub_step sha1 exec parse hub (snd (messagehub_set_onrequest hub b))"

inductive hub_reachable ::
  "(bytes \<Rightarrow> bytes) \<Rightarrow> (request_t, 'p) parser_exec \<Rightarrow> (string \<Rightarrow> 'j option) \<Rightarrow> 'j messagehub_t \<Rightarrow> bool"
  for sha1 exec parse where
  reach_new: "new_messagehub name topic addr onconnect = Some hub \<Longrightarrow> hub_reachable sha1 exec parse hub"
| reach_step: "hub_reachable sha1 exec parse hub \<Longrightarrow> hub_step sha1 exec parse hub hub' \<Longrightarrow>
     hub_reachable sha1 exec parse hub'"

section \<open>The invariant\<close>

text \<open>
  The links of the lists, and only they, are in memory, each in one list once; those that are not
  closed have a thread; every connection the hub has let go of is closed.
\<close>

definition hub_wf :: "'j messagehub_t \<Rightarrow> bool" where
  "hub_wf hub \<longleftrightarrow> distinct (mh_links hub @ mh_closed hub)
     \<and> (\<forall>p. mh_heap hub p \<noteq> None \<longleftrightarrow> p \<in> set (mh_links hub @ mh_closed hub))
     \<and> (\<forall>p l. mh_heap hub p = Some l \<longrightarrow> link_inv l \<and> (p \<in> set (mh_links hub) \<longrightarrow> ml_thread l))
     \<and> (\<forall>s \<in> set (mh_gone hub). \<not> is_open s)"

lemma hub_wfD:
  assumes "hub_wf hub"
  shows "distinct (mh_links hub @ mh_closed hub)"
    "mh_heap hub p \<noteq> None \<longleftrightarrow> p \<in> set (mh_links hub @ mh_closed hub)"
    "mh_heap hub p = Some l \<Longrightarrow> link_inv l"
    "mh_heap hub p = Some l \<Longrightarrow> p \<in> set (mh_links hub) \<Longrightarrow> ml_thread l"
    "s \<in> set (mh_gone hub) \<Longrightarrow> \<not> is_open s"
  using assms unfolding hub_wf_def by blast+

lemma hub_wfI:
  assumes "distinct (mh_links hub @ mh_closed hub)"
    "\<And>p. mh_heap hub p \<noteq> None \<longleftrightarrow> p \<in> set (mh_links hub @ mh_closed hub)"
    "\<And>p l. mh_heap hub p = Some l \<Longrightarrow> link_inv l"
    "\<And>p l. mh_heap hub p = Some l \<Longrightarrow> p \<in> set (mh_links hub) \<Longrightarrow> ml_thread l"
    "\<And>s. s \<in> set (mh_gone hub) \<Longrightarrow> \<not> is_open s"
  shows "hub_wf hub"
  using assms unfolding hub_wf_def by blast

lemma hub_link:
  assumes "hub_wf hub" "p \<in> set (mh_links hub)"
  obtains l where "mh_heap hub p = Some l" "link_inv l" "ml_thread l"
  using hub_wfD [OF assms(1)] assms(2) by (metis UnCI not_None_eq set_append)

lemma hub_wf_new [inv_intros]: "new_messagehub name topic addr onconnect = Some hub \<Longrightarrow> hub_wf hub"
  by (auto simp: new_messagehub_def hub_wf_def split: option.splits)

lemma hub_wf_mem [simp]:
  "hub_wf (hub\<lparr>mh_mem := m\<rparr>) = hub_wf hub" "hub_wf (hub\<lparr>mh_onrequest := b\<rparr>) = hub_wf hub"
  "hub_wf (hub\<lparr>mh_quit := b\<rparr>) = hub_wf hub" "hub_wf (hub\<lparr>mh_socket := b\<rparr>) = hub_wf hub"
  "hub_wf (messagehub_membuf hub) = hub_wf hub"
  by (simp_all add: hub_wf_def messagehub_membuf_def split: option.split)

lemma membuf_simps [simp]:
  "mh_links (messagehub_membuf hub) = mh_links hub" "mh_heap (messagehub_membuf hub) = mh_heap hub"
  "mh_closed (messagehub_membuf hub) = mh_closed hub"
  by (simp_all add: messagehub_membuf_def split: option.split)

text \<open>A link changes in place.\<close>

lemma hub_wf_store:
  assumes "hub_wf hub" "mh_heap hub p = Some l" "link_inv l'" "ml_thread l' = ml_thread l"
  shows "hub_wf (hub_store hub p l')"
proof (rule hub_wfI, goal_cases)
  case (2 q)
  with hub_wfD(2) [OF assms(1), of q] assms(2) show ?case by auto
qed (use hub_wfD [OF assms(1)] assms in \<open>auto split: if_splits\<close>)

lemma hub_wf_gone: "hub_wf hub \<Longrightarrow> \<not> is_open s \<Longrightarrow> hub_wf (hub\<lparr>mh_gone := mh_gone hub @ [s]\<rparr>)"
  unfolding hub_wf_def by auto

subsection \<open>Deleting\<close>

lemma delete_messagelink_closes: "link_inv l \<Longrightarrow> \<not> is_open (ml_socket (delete_messagelink l))"
  using owner_close_open [of "messagelink_stop_thread l" 1001]
  by (auto simp: delete_messagelink_def Let_def messagelink_stop_thread_def link_inv_def)

text \<open>What is left after a list of links is deleted.\<close>

lemma delete_links_ok:
  "distinct ps \<Longrightarrow> \<forall>p \<in> set ps. \<exists>l. mh_heap hub p = Some l \<and> link_inv l \<Longrightarrow>
   \<exists>gone. delete_links hub ps = Ret (hub\<lparr>mh_heap := (\<lambda>p. if p \<in> set ps then None else mh_heap hub p),
       mh_gone := mh_gone hub @ gone\<rparr>) \<and> length gone = length ps \<and> (\<forall>s \<in> set gone. \<not> is_open s)"
proof (induction ps arbitrary: hub)
  case (Cons p ps)
  then obtain l where l: "mh_heap hub p = Some l" "link_inv l" by auto
  let ?s = "ml_socket (delete_messagelink l)"
  let ?hub = "hub\<lparr>mh_heap := (mh_heap hub)(p := None), mh_gone := mh_gone hub @ [?s]\<rparr>"
  have "\<forall>q \<in> set ps. \<exists>l. mh_heap ?hub q = Some l \<and> link_inv l" using Cons.prems by auto
  with Cons.prems Cons.IH [of ?hub] obtain gone where
    "delete_links ?hub ps = Ret (?hub\<lparr>mh_heap := (\<lambda>p. if p \<in> set ps then None else mh_heap ?hub p),
       mh_gone := mh_gone ?hub @ gone\<rparr>)" "length gone = length ps" "\<forall>s \<in> set gone. \<not> is_open s" by auto
  with l delete_messagelink_closes [OF l(2)] Cons.prems(1) show ?case
    by (intro exI [of _ "?s # gone"]) (auto simp: hub_delete_link_def Let_def fun_eq_iff)
qed simp

lemma delete_closed_ok:
  assumes "hub_wf hub"
  shows "\<exists>gone. messagehub_delete_closed_links hub
      = Ret (hub\<lparr>mh_heap := (\<lambda>p. if p \<in> set (mh_closed hub) then None else mh_heap hub p),
          mh_gone := mh_gone hub @ gone, mh_closed := []\<rparr>) \<and> length gone = length (mh_closed hub)
    \<and> (\<forall>s \<in> set gone. \<not> is_open s)"
proof -
  have "\<forall>p \<in> set (mh_closed hub). \<exists>l. mh_heap hub p = Some l \<and> link_inv l"
    using hub_wfD(2,3) [OF assms] by fastforce
  with delete_links_ok [of "mh_closed hub" hub] hub_wfD(1) [OF assms] show ?thesis
    by (auto simp: messagehub_delete_closed_links_def)
qed

lemma hub_wf_without_closed:
  assumes "hub_wf hub" "\<forall>s \<in> set gone. \<not> is_open s"
  shows "hub_wf (hub\<lparr>mh_heap := (\<lambda>p. if p \<in> set (mh_closed hub) then None else mh_heap hub p),
      mh_gone := mh_gone hub @ gone, mh_closed := []\<rparr>)"
proof (rule hub_wfI, goal_cases)
  case (2 p)
  with hub_wfD(1) [OF assms(1)] hub_wfD(2) [OF assms(1), of p] show ?case by auto
qed (use hub_wfD [OF assms(1)] assms(2) in \<open>auto split: if_splits\<close>)

subsection \<open>Broadcasting\<close>

text \<open>A loop over links that updates each with an operation that keeps it well-formed.\<close>

lemma broadcast_wf:
  "broadcast_loop exclude data err ps hub = Ret (r, hub') \<Longrightarrow> hub_wf hub \<Longrightarrow> hub_wf hub'"
proof (induction exclude data err ps hub rule: broadcast_loop.induct)
  case (2 exclude data err p ps hub)
  show ?case
  proof (cases "Some p = exclude")
    case True
    with 2 show ?thesis by simp
  next
    case False
    with "2.prems"(1) obtain l e l' where l: "mh_heap hub p = Some l" "messagelink_send_text l data = (e, l')"
      "broadcast_loop exclude data (if e \<noteq> 0 then -1 else err) ps (hub_store hub p l') = Ret (r, hub')"
      by (auto simp: outcome_simps deref_def split: option.splits prod.splits)
    have c: "same_core l l'" using core_send_text [of l data] l(2) by simp
    have "hub_wf (hub_store hub p l')"
      using hub_wf_store [OF "2.prems"(2) l(1)] core_inv [OF c] hub_wfD(3) [OF "2.prems"(2) l(1)] c
      by (simp add: same_core_def)
    with "2.IH"(1) [OF _ l(2) [symmetric] refl l(3)] False show ?thesis by auto
  qed
qed simp

lemma ping_wf: "ping_loop data err ps hub = Ret (r, hub') \<Longrightarrow> hub_wf hub \<Longrightarrow> hub_wf hub'"
proof (induction data err ps hub rule: ping_loop.induct)
  case (2 data err p ps hub)
  then obtain l e l' where l: "mh_heap hub p = Some l" "messagelink_send_ping l data = (e, l')"
    "ping_loop data (if e \<noteq> 0 then -1 else err) ps (hub_store hub p l') = Ret (r, hub')"
    by (auto simp: outcome_simps deref_def split: option.splits prod.splits)
  have c: "same_core l l'" using l(2) by (auto simp: messagelink_send_ping_def dest: core_send_frame)
  have "hub_wf (hub_store hub p l')"
    using hub_wf_store [OF "2.prems"(2) l(1)] core_inv [OF c] hub_wfD(3) [OF "2.prems"(2) l(1)] c
    by (simp add: same_core_def)
  with "2.IH" [OF l(2) [symmetric] refl l(3)] show ?case by auto
qed simp

lemma broadcast_text_wf [inv_intros]:
  "messagehub_broadcast_text hub exclude data = Ret (r, hub') \<Longrightarrow> hub_wf hub \<Longrightarrow> hub_wf hub'"
  by (auto simp: messagehub_broadcast_text_def Let_def intro: broadcast_wf)

text \<open>What a broadcast does to every link, and that it is defined on links in memory.\<close>

lemma broadcast_loop_links:
  assumes "distinct ps" "\<forall>p \<in> set ps. mh_heap hub p \<noteq> None"
  shows "\<exists>r hub'. broadcast_loop exclude data err ps hub = Ret (r, hub')
     \<and> (\<forall>p l. mh_heap hub p = Some l \<longrightarrow> mh_heap hub' p
          = Some (if p \<in> set ps \<and> Some p \<noteq> exclude then snd (messagelink_send_text l data) else l))
     \<and> (r = 0 \<longleftrightarrow> err = 0 \<and> (\<forall>p l. p \<in> set ps \<longrightarrow> Some p \<noteq> exclude \<longrightarrow> mh_heap hub p = Some l \<longrightarrow>
          fst (messagelink_send_text l data) = 0))
     \<and> mh_links hub' = mh_links hub \<and> mh_closed hub' = mh_closed hub"
  using assms
proof (induction exclude data err ps hub rule: broadcast_loop.induct)
  case (2 exclude data err p ps hub)
  show ?case
  proof (cases "Some p = exclude")
    case True
    with "2.prems" "2.IH"(2) show ?thesis by fastforce
  next
    case False
    obtain l where l: "mh_heap hub p = Some l" using "2.prems"(2) by auto
    obtain e l' where s: "messagelink_send_text l data = (e, l')" by fastforce
    have v: "\<forall>q \<in> set ps. mh_heap (hub_store hub p l') q \<noteq> None" using "2.prems"(2) by auto
    have d: "distinct ps" "p \<notin> set ps" using "2.prems"(1) by simp_all
    from "2.IH"(1) [OF False [THEN not_sym, THEN not_sym] s [symmetric] refl d(1) v] obtain r hub' where
      b: "broadcast_loop exclude data (if e \<noteq> 0 then -1 else err) ps (hub_store hub p l') = Ret (r, hub')"
        "\<forall>q k. mh_heap (hub_store hub p l') q = Some k \<longrightarrow> mh_heap hub' q
          = Some (if q \<in> set ps \<and> Some q \<noteq> exclude then snd (messagelink_send_text k data) else k)"
        "r = 0 \<longleftrightarrow> (if e \<noteq> 0 then -1 else err) = 0 \<and> (\<forall>q k. q \<in> set ps \<longrightarrow> Some q \<noteq> exclude \<longrightarrow>
          mh_heap (hub_store hub p l') q = Some k \<longrightarrow> fst (messagelink_send_text k data) = 0)"
        "mh_links hub' = mh_links hub" "mh_closed hub' = mh_closed hub"
      by auto
    have "mh_heap hub' q = Some (if q \<in> set (p # ps) \<and> Some q \<noteq> exclude then snd (messagelink_send_text k data) else k)"
      if "mh_heap hub q = Some k" for q k
      using b(2) [rule_format, of q] that l s d(2) False by (cases "q = p") auto
    moreover have "r = 0 \<longleftrightarrow> err = 0 \<and> (\<forall>q k. q \<in> set (p # ps) \<longrightarrow> Some q \<noteq> exclude \<longrightarrow> mh_heap hub q = Some k \<longrightarrow>
          fst (messagelink_send_text k data) = 0)"
    proof (cases "e = 0")
      case True
      with b(3) l s d(2) False show ?thesis by auto
    next
      case e: False
      with b(3) have "r \<noteq> 0" by simp
      moreover have "fst (messagelink_send_text l data) \<noteq> 0" using s e by simp
      ultimately show ?thesis using l False by (metis list.set_intros(1))
    qed
    ultimately show ?thesis using b l s False by auto
  qed
qed simp

lemma broadcast_text_links:
  assumes "hub_wf hub"
  shows "\<exists>r hub'. messagehub_broadcast_text hub exclude data = Ret (r, hub')
     \<and> (\<forall>p l. p \<in> set (mh_links hub) \<longrightarrow> mh_heap hub p = Some l \<longrightarrow> mh_heap hub' p
          = Some (if Some p \<noteq> exclude then snd (messagelink_send_text l data) else l))
     \<and> (r = 0 \<longleftrightarrow> (\<forall>p l. p \<in> set (mh_links hub) \<longrightarrow> Some p \<noteq> exclude \<longrightarrow> mh_heap hub p = Some l \<longrightarrow>
          fst (messagelink_send_text l data) = 0))
     \<and> mh_links hub' = mh_links hub"
proof -
  have "distinct (mh_links hub)" "\<forall>p \<in> set (mh_links hub). mh_heap (messagehub_membuf hub) p \<noteq> None"
    using hub_wfD(1,2) [OF assms] by auto
  from broadcast_loop_links [OF this, of exclude data 0] show ?thesis
    unfolding messagehub_broadcast_text_def by (simp only: Let_def membuf_simps) fastforce
qed

lemma ping_loop_defined:
  "\<forall>p \<in> set ps. mh_heap hub p \<noteq> None \<Longrightarrow> defined (ping_loop data err ps hub)"
proof (induction data err ps hub rule: ping_loop.induct)
  case (2 data err p ps hub)
  then obtain l where l: "mh_heap hub p = Some l" by auto
  obtain e l' where s: "messagelink_send_ping l data = (e, l')" by fastforce
  have "\<forall>q \<in> set ps. mh_heap (hub_store hub p l') q \<noteq> None" using "2.prems" by auto
  from "2.IH" [OF s [symmetric] refl this] l s show ?case by simp
qed simp

subsection \<open>The thread of a link\<close>

lemma link_turn_keeps:
  assumes "server_messagelink_turn parse link = Ret (ended, link')" "link_inv link"
  shows "link_inv link' \<and> same_thread link link'"
proof -
  obtain b l1 where q: "link_quit link = (b, l1)" by fastforce
  obtain r l2 where m: "messagelink_read_internal parse l1 = (r, l2)" by fastforce
  have 1: "link_inv l1" "same_thread link l1"
    using core_quit [OF q] assms(2) by (auto intro: core_inv thread_core)
  have 2: "link_inv l2" "same_thread link l2"
    using read_internal_inv [OF m 1(1)] same_thread_trans [OF 1(2) thread_read_internal [OF m]] by simp_all
  show ?thesis
    using assms q m 1 2
    by (auto simp: server_messagelink_turn_def split: if_splits option.splits)
qed

lemma turn_defined:
  assumes "ml_onmessage link"
  shows "\<exists>ended link'. server_messagelink_turn parse link = Ret (ended, link')"
proof -
  obtain b l1 where q: "link_quit link = (b, l1)" by fastforce
  obtain r l2 where m: "messagelink_read_internal parse l1 = (r, l2)" by fastforce
  have "same_thread link l2"
    using same_thread_trans [OF thread_core [OF core_quit [OF q]] thread_read_internal [OF m]] .
  with assms have "ml_onmessage l2" by (simp add: same_thread_def)
  then show ?thesis using q m by (auto simp: server_messagelink_turn_def split: option.split)
qed

lemma hub_wf_remove:
  assumes "hub_wf hub" "p \<in> set (mh_links hub)"
  shows "hub_wf (messagehub_remove_link hub p)"
proof (rule hub_wfI, goal_cases)
  case (2 q)
  with hub_wfD(1) [OF assms(1)] hub_wfD(2) [OF assms(1), of q] assms(2) show ?case
    by (auto simp: messagehub_remove_link_def list_remove_def)
qed (use hub_wfD [OF assms(1)] assms(2) in \<open>auto simp: messagehub_remove_link_def list_remove_def\<close>)

lemma hub_wf_link_turn:
  assumes "hub_wf hub" "p \<in> set (mh_links hub)" "hub_link_turn parse hub p = Ret hub'"
  shows "hub_wf hub'"
proof -
  obtain l ended l' where l: "mh_heap hub p = Some l" "server_messagelink_turn parse l = Ret (ended, l')"
    and h: "hub' = (if ended then messagehub_remove_link (hub_store hub p l') p else hub_store hub p l')"
    using assms(3) by (auto simp: hub_link_turn_def outcome_simps deref_def Let_def split: option.splits)
  have "hub_wf (hub_store hub p l')"
    using link_turn_keeps [OF l(2) hub_wfD(3) [OF assms(1) l(1)]]
    by (intro hub_wf_store [OF assms(1) l(1)]) (simp_all add: same_thread_def)
  with hub_wf_remove [OF this, of p] assms(2) h show ?thesis by simp
qed

subsection \<open>The server thread\<close>

lemma close_not_open [simp]: "\<not> is_open (close_tcp_socket s)"
  by (simp add: close_tcp_socket_def)

lemma refuse_closed: "refuse s status = Ret s' \<Longrightarrow> \<not> is_open s'"
  by (auto simp: refuse_def outcome_simps)

lemma upgrade_open:
  assumes "messagehub_upgrade_connection sha1 request s = Ret (err, s')"
  shows "is_open s' = is_open s"
proof -
  obtain bs where "tcp_socket_send s bs = (err, s')"
    using assms by (auto simp: messagehub_upgrade_connection_def outcome_simps)
  then show ?thesis using tcp_socket_send_keeps(2) [of s bs] by simp
qed

text \<open>A new link is stored under a fresh pointer and added to the list, with its thread.\<close>

lemma hub_wf_accept:
  assumes "hub_wf hub" "mh_heap hub p = None" "link_inv l" "ml_thread l"
  shows "hub_wf (messagehub_add_link (hub_store hub p l) p)"
proof -
  have p: "p \<notin> set (mh_links hub @ mh_closed hub)" using hub_wfD(2) [OF assms(1), of p] assms(2) by auto
  show ?thesis
  proof (rule hub_wfI, goal_cases)
    case (2 q)
    with hub_wfD(2) [OF assms(1), of q] assms(2) show ?case by (auto simp: messagehub_add_link_def)
  qed (use hub_wfD [OF assms(1)] p assms in \<open>auto simp: messagehub_add_link_def split: if_splits\<close>)
qed

lemma handle_websocket_wf:
  assumes "hub_wf hub" "mh_heap hub (he_ptr env) = None" "handler_ok env" "is_open s"
    "messagehub_handle_websocket sha1 env hub request s = Ret (s', hub')"
  shows "hub_wf hub' \<and> (\<forall>c. s' = Some c \<longrightarrow> \<not> is_open c)"
proof (cases "request_is_valid_websocket request")
  case False
  with assms show ?thesis by (auto simp: messagehub_handle_websocket_def outcome_simps dest: refuse_closed)
next
  case True
  then obtain err s1 where u: "messagehub_upgrade_connection sha1 request s = Ret (err, s1)"
    using assms(5) by (auto simp: messagehub_handle_websocket_def outcome_simps)
  have o: "is_open s1" using upgrade_open [OF u] assms(4) by simp
  show ?thesis
  proof (cases "err = 0")
    case False
    with True u assms(1,5) show ?thesis
      by (auto simp: messagehub_handle_websocket_def outcome_simps dest: refuse_closed)
  next
    case e: True
    let ?p = "he_ptr env"
    let ?l0 = "server_messagelink_connect (messagehub_name hub) (messagehub_topic hub) s1 (he_addr env)
        (he_quit env) (he_patience env) (he_masks env)"
    obtain answer l where l: "(if mh_onconnect hub then he_onconnect env request ?l0 else (0, ?l0)) = (answer, l)"
      by fastforce
    have "link_inv ?l0" using o by (simp add: server_messagelink_connect_def new_messagelink_def link_inv_def)
    then have li: "link_inv l" using l assms(3) unfolding handler_ok_def
      by (auto split: if_splits) (metis snd_conv)
    show ?thesis
    proof (cases "answer = 0")
      case False
      have r: "s' = None \<and> hub_delete_link (hub_store hub ?p l) ?p = Ret hub'"
        using assms(5) True u e l False
        by (auto simp: messagehub_handle_websocket_def Let_def outcome_simps split: prod.splits)
      have "(mh_heap hub)(?p := None) = mh_heap hub" using assms(2) by auto
      with r have "hub' = hub\<lparr>mh_gone := mh_gone hub @ [ml_socket (delete_messagelink l)]\<rparr>"
        by (auto simp: hub_delete_link_def Let_def)
      with r hub_wf_gone [OF assms(1) delete_messagelink_closes [OF li]] show ?thesis by simp
    next
      case a: True
      let ?hub = "messagehub_add_link (hub_store hub ?p l) ?p"
      obtain hub1 l1 where d: "messagehub_delete_closed_links ?hub = Ret hub1" "mh_heap hub1 ?p = Some l1"
        and h: "s' = None" "hub' = hub_store hub1 ?p (server_messagelink_read_in_background l1)"
        using assms(5) True u e l a
        by (auto simp: messagehub_handle_websocket_def Let_def outcome_simps deref_def split: prod.splits option.splits)
      let ?l' = "server_messagelink_read_in_background l"
      let ?hub' = "messagehub_add_link (hub_store hub ?p ?l') ?p"
      have "link_inv ?l'" "ml_thread ?l'" using li by (simp_all add: server_messagelink_read_in_background_def)
      then have w: "hub_wf ?hub'" by (rule hub_wf_accept [OF assms(1,2)])
      have np: "?p \<notin> set (mh_closed hub)" using hub_wfD(2) [OF assms(1), of ?p] assms(2) by auto
      have "\<forall>q \<in> set (mh_closed ?hub). \<exists>l. mh_heap ?hub q = Some l \<and> link_inv l"
        using hub_wfD(2,3) [OF assms(1)] np by (fastforce simp: messagehub_add_link_def)
      with delete_links_ok [of "mh_closed ?hub" ?hub] hub_wfD(1) [OF assms(1)] obtain gone where
        g: "delete_links ?hub (mh_closed ?hub) = Ret (?hub\<lparr>mh_heap := (\<lambda>q. if q \<in> set (mh_closed ?hub) then None
            else mh_heap ?hub q), mh_gone := mh_gone ?hub @ gone\<rparr>)" "\<forall>s \<in> set gone. \<not> is_open s"
        by (auto simp: messagehub_add_link_def)
      have h1: "hub1 = ?hub\<lparr>mh_heap := (\<lambda>q. if q \<in> set (mh_closed hub) then None else mh_heap ?hub q),
          mh_gone := mh_gone ?hub @ gone, mh_closed := []\<rparr>" "l1 = l"
        using d g(1) np by (auto simp: messagehub_delete_closed_links_def messagehub_add_link_def)
      have h2: "hub' = ?hub'\<lparr>mh_heap := (\<lambda>q. if q \<in> set (mh_closed ?hub') then None else mh_heap ?hub' q),
          mh_gone := mh_gone ?hub' @ gone, mh_closed := []\<rparr>"
        using np by (auto simp: h(2) h1 messagehub_add_link_def fun_eq_iff)
      have "hub_wf hub'" unfolding h2 by (rule hub_wf_without_closed [OF w g(2)])
      with h(1) show ?thesis by simp
    qed
  qed
qed

lemma handle_wf:
  assumes "hub_wf hub" "mh_heap hub (he_ptr env) = None" "handler_ok env" "is_open s"
    "messagehub_handle sha1 exec p q env hub s = Ret (s', hub')"
  shows "hub_wf hub' \<and> (\<forall>c. s' = Some c \<longrightarrow> \<not> is_open c)"
proof -
  obtain err s1 request where r: "request_parse_html exec q p new_request s PARSE_HEADERS = Ret (err, s1, request)"
    using assms(5) by (auto simp: messagehub_handle_def outcome_simps)
  have "is_open s1" using parse_loop_open [OF r [unfolded request_parse_html_def]] assms(4) by simp
  from handle_websocket_wf [OF assms(1-3) this] r assms(1,5) show ?thesis
    by (auto simp: messagehub_handle_def messagehub_handle_request_def outcome_simps Let_def
        split: if_splits prod.splits dest: refuse_closed)
qed

lemma run_wf:
  assumes "hub_wf hub" "mh_heap hub (he_ptr env) = None" "handler_ok env" "accepted_ok a"
    "messagehub_run sha1 exec p q env quit a hub = Ret hub'"
  shows "hub_wf hub'"
proof (cases "mh_quit hub \<or> quit \<or> \<not> mh_socket hub \<or> (\<forall>s. a \<noteq> Accepted s)")
  case True
  with assms(1,5) show ?thesis
    by (auto simp: messagehub_run_def messagehub_wait_connection_def split: if_splits accepted.splits)
next
  case False
  then obtain s s' hub1 where a: "a = Accepted s" "messagehub_handle sha1 exec p q env hub s = Ret (s', hub1)"
    and h: "hub' = (case s' of None \<Rightarrow> hub1 | Some s \<Rightarrow> hub1\<lparr>mh_gone := mh_gone hub1 @ [s]\<rparr>)"
    using assms(5) by (auto simp: messagehub_run_def messagehub_wait_connection_def outcome_simps)
  from handle_wf [OF assms(1-3) _ a(2)] assms(4) a(1) h hub_wf_gone show ?thesis
    by (auto simp: accepted_ok_def split: option.splits)
qed

lemma hub_step_wf:
  assumes "hub_step sha1 exec parse hub hub'" "hub_wf hub"
  shows "hub_wf hub'"
  using assms(1)
proof (cases rule: hub_step.cases)
  case (step_server env p q quit a)
  with assms(2) show ?thesis by (blast intro: run_wf)
next
  case (step_link p)
  with assms(2) show ?thesis by (blast intro: hub_wf_link_turn)
next
  case (step_broadcast exclude data err)
  with assms(2) show ?thesis by (blast intro: broadcast_text_wf)
next
  case (step_print exclude text_sent err)
  with assms(2) show ?thesis
    by (auto simp: hub_print_def Let_def intro: broadcast_text_wf)
next
  case (step_ping data err)
  with assms(2) show ?thesis by (auto simp: messagehub_send_ping_def intro: ping_wf)
next
  case step_onrequest
  with assms(2) show ?thesis by (simp add: messagehub_set_onrequest_def)
qed

lemma hub_reachable_wf: "hub_reachable sha1 exec parse hub \<Longrightarrow> hub_wf hub"
  by (induction rule: hub_reachable.induct) (auto intro: hub_wf_new hub_step_wf)

subsection \<open>The end\<close>

lemma stop_links_ok:
  "hub_wf (hub\<lparr>mh_links := ps\<rparr>) \<Longrightarrow> mh_links hub = [] \<Longrightarrow>
   \<exists>hub'. stop_links hub ps = Ret hub' \<and> hub_wf hub' \<and> mh_links hub' = [] \<and> mh_gone hub' = mh_gone hub
     \<and> length (mh_closed hub') = length ps + length (mh_closed hub)"
proof (induction ps arbitrary: hub)
  case Nil
  moreover from Nil have "hub\<lparr>mh_links := []\<rparr> = hub" by simp
  ultimately show ?case by simp
next
  case (Cons p ps)
  let ?l = "hub\<lparr>mh_links := p # ps\<rparr>"
  obtain l where l: "mh_heap hub p = Some l" "link_inv l" "ml_thread l"
    using hub_link [OF Cons.prems(1), of p] by auto
  let ?hub = "hub\<lparr>mh_heap := (mh_heap hub)(p \<mapsto> messagelink_stop_thread l), mh_links := [],
      mh_closed := p # mh_closed hub\<rparr>"
  have s: "hub_stop_thread hub p = Ret ?hub"
    using l Cons.prems(2) by (simp add: hub_stop_thread_def Let_def messagehub_remove_link_def list_remove_def)
  have "hub_wf (?hub\<lparr>mh_links := ps\<rparr>)"
  proof (rule hub_wfI, goal_cases)
    case (2 q)
    with hub_wfD(2) [OF Cons.prems(1), of q] l show ?case by auto
  qed (use hub_wfD [OF Cons.prems(1)] l in \<open>auto simp: messagelink_stop_thread_def split: if_splits\<close>)
  with Cons.IH [of ?hub] s show ?case by auto
qed

lemma delete_hub_ok:
  assumes "hub_wf hub"
  shows "\<exists>hub'. delete_messagehub hub = Ret hub' \<and> mh_heap hub' = (\<lambda>_. None) \<and> (\<forall>s \<in> set (mh_gone hub'). \<not> is_open s)
     \<and> length (mh_gone hub') = length (mh_gone hub) + length (mh_links hub) + length (mh_closed hub)"
proof -
  let ?h = "hub\<lparr>mh_quit := True, mh_mem := None, mh_socket := False, mh_links := []\<rparr>"
  have "?h\<lparr>mh_links := mh_links hub\<rparr> = hub\<lparr>mh_quit := True, mh_mem := None, mh_socket := False\<rparr>" by simp
  with assms have "hub_wf (?h\<lparr>mh_links := mh_links hub\<rparr>)" by (simp del: messagehub_t.update_convs)
  from stop_links_ok [OF this] obtain h1 where h1: "stop_links ?h (mh_links hub) = Ret h1" "hub_wf h1"
    "mh_links h1 = []" "mh_gone h1 = mh_gone hub" "length (mh_closed h1) = length (mh_links hub) + length (mh_closed hub)"
    by auto
  obtain gone where d: "messagehub_delete_closed_links h1
      = Ret (h1\<lparr>mh_heap := (\<lambda>p. if p \<in> set (mh_closed h1) then None else mh_heap h1 p),
          mh_gone := mh_gone h1 @ gone, mh_closed := []\<rparr>)" "length gone = length (mh_closed h1)"
      "\<forall>s \<in> set gone. \<not> is_open s"
    using delete_closed_ok [OF h1(2)] by blast
  have "(\<lambda>p. if p \<in> set (mh_closed h1) then None else mh_heap h1 p) = (\<lambda>_. None)"
  proof
    fix p
    show "(if p \<in> set (mh_closed h1) then None else mh_heap h1 p) = None"
      using hub_wfD(2) [OF h1(2), of p] h1(3) by (cases "mh_heap h1 p") auto
  qed
  moreover have "\<forall>s \<in> set (mh_gone hub). \<not> is_open s" using hub_wfD(5) [OF assms] by blast
  ultimately show ?thesis using h1 d by (auto simp: delete_messagehub_def Let_def)
qed

subsection \<open>Delivery\<close>

text \<open>A sequence of texts broadcast, each with the link it excludes, until one fails.\<close>

fun hub_broadcasts :: "'j messagehub_t \<Rightarrow> (ptr option \<times> string) list \<Rightarrow> (int \<times> 'j messagehub_t) outcome" where
  "hub_broadcasts hub [] = Ret (0, hub)"
| "hub_broadcasts hub ((exclude, t) # bs) =
     bind_out (messagehub_broadcast_f hub exclude t) (\<lambda>(err, hub).
       if err \<noteq> 0 then Ret (err, hub) else hub_broadcasts hub bs)"

definition meant_for :: "ptr \<Rightarrow> (ptr option \<times> string) list \<Rightarrow> string list" where
  "meant_for p bs = map snd (filter (\<lambda>(exclude, t). exclude \<noteq> Some p) bs)"

lemma broadcasts_sent:
  "hub_wf hub \<Longrightarrow> hub_broadcasts hub bs = Ret (0, hub') \<Longrightarrow> p \<in> set (mh_links hub) \<Longrightarrow> mh_heap hub p = Some l \<Longrightarrow>
   \<exists>l'. mh_heap hub' p = Some l' \<and> send_texts l (meant_for p bs) = (0, l')"
proof (induction hub bs arbitrary: l rule: hub_broadcasts.induct)
  case (2 hub exclude t bs)
  let ?hub = "(messagehub_membuf hub)\<lparr>mh_mem := Some (bytes_of t)\<rparr>"
  have w: "hub_wf ?hub" using "2.prems"(1) by simp
  from broadcast_text_links [OF w, of exclude "bytes_of t"] obtain r hub1 where
    b: "messagehub_broadcast_text ?hub exclude (bytes_of t) = Ret (r, hub1)"
      "\<forall>p l. p \<in> set (mh_links ?hub) \<longrightarrow> mh_heap ?hub p = Some l \<longrightarrow> mh_heap hub1 p
          = Some (if Some p \<noteq> exclude then snd (messagelink_send_text l (bytes_of t)) else l)"
      "r = 0 \<longleftrightarrow> (\<forall>p l. p \<in> set (mh_links ?hub) \<longrightarrow> Some p \<noteq> exclude \<longrightarrow> mh_heap ?hub p = Some l \<longrightarrow>
          fst (messagelink_send_text l (bytes_of t)) = 0)"
      "mh_links hub1 = mh_links ?hub" by blast
  have f: "messagehub_broadcast_f hub exclude t = Ret (r, hub1)"
    using b(1) by (simp add: messagehub_broadcast_f_def hub_print_def)
  with "2.prems"(2) have r: "r = 0" and rest: "hub_broadcasts hub1 bs = Ret (0, hub')"
    by (auto split: if_splits)
  have w1: "hub_wf hub1" by (rule broadcast_text_wf [OF b(1) w])
  have p1: "p \<in> set (mh_links hub1)" using b(4) "2.prems"(3) by simp
  show ?case
  proof (cases "exclude = Some p")
    case True
    then have "mh_heap hub1 p = Some l" using b(2) "2.prems"(3,4) by auto
    from "2.IH" [OF _ w1 rest p1 this, of r] r True show ?thesis by (simp add: meant_for_def)
  next
    case False
    obtain e l1 where s: "messagelink_send_text l (bytes_of t) = (e, l1)" by fastforce
    have e: "e = 0" using b(3) r False "2.prems"(3,4) s by fastforce
    have "mh_heap hub1 p = Some l1" using b(2) "2.prems"(3,4) s False by auto
    from "2.IH" [OF _ w1 rest p1 this, of r] r False s e show ?thesis
      by (auto simp: meant_for_def messagelink_send_f_def)
  qed
qed (simp add: meant_for_def)

section \<open>Properties\<close>

text \<open>C6. A hub never touches freed memory and never leaks: in every state its threads can reach, whatever
  connects, is sent and fails, exactly the links of its two lists are in memory, each once, every
  connection it refused or let go of is closed, and cleaning up, broadcasting, pinging and the turn of
  a link that has a handler are defined.\<close>

theorem hub_keeps_its_links:
  assumes "hub_reachable sha1 exec parse hub"
  shows "distinct (mh_links hub @ mh_closed hub)
    \<and> (\<forall>p. mh_heap hub p \<noteq> None \<longleftrightarrow> p \<in> set (mh_links hub @ mh_closed hub))
    \<and> (\<forall>s \<in> set (mh_gone hub). \<not> is_open s)
    \<and> defined (messagehub_delete_closed_links hub)
    \<and> defined (messagehub_broadcast_text hub exclude data)
    \<and> defined (messagehub_send_ping hub data)
    \<and> (\<forall>l. p \<in> set (mh_links hub) \<longrightarrow> mh_heap hub p = Some l \<longrightarrow> ml_onmessage l \<longrightarrow> defined (hub_link_turn parse hub p))"
proof -
  have w: "hub_wf hub" by (rule hub_reachable_wf [OF assms])
  have "defined (hub_link_turn parse hub p)" if "mh_heap hub p = Some l" "ml_onmessage l" for l
    using that turn_defined [of l parse] by (auto simp: hub_link_turn_def Let_def)
  moreover have "defined (messagehub_send_ping hub data)"
    using hub_wfD(2) [OF w] by (auto simp: messagehub_send_ping_def intro: ping_loop_defined)
  ultimately show ?thesis
    using hub_wfD(1,2,5) [OF w] delete_closed_ok [OF w] broadcast_text_links [OF w, of exclude data]
    by (auto simp: defined_iff)
qed

text \<open>A hub can be deleted from every such state: every link is freed, and the connection of every one
  is closed.\<close>

theorem delete_messagehub_closes:
  assumes "hub_reachable sha1 exec parse hub"
  shows "\<exists>hub'. delete_messagehub hub = Ret hub' \<and> mh_heap hub' = (\<lambda>_. None)
     \<and> (\<forall>s \<in> set (mh_gone hub'). \<not> is_open s)
     \<and> length (mh_gone hub') = length (mh_gone hub) + length (mh_links hub) + length (mh_closed hub)"
  by (rule delete_hub_ok [OF hub_reachable_wf [OF assms]])


text \<open>A hub that has accepted one client; the parser is a stub that finds a valid request.\<close>

definition example_fields :: "http_header_t list" where
  "example_fields =
     [new_http_header (Some ''Sec-WebSocket-Key'') (Some ''AAAAAAAAAAAAAAAAAAAAAA==''),
      new_http_header (Some ''Sec-WebSocket-Version'') (Some ''13''),
      new_http_header (Some ''Upgrade'') (Some ''websocket''),
      new_http_header (Some ''Connection'') (Some ''Upgrade'')]"

definition example_upgrade :: "(request_t, unit) parser_exec" where
  "example_upgrade cb p bs r = Ret (1, p, r\<lparr>r_headers := example_fields, r_continue := False\<rparr>)"

definition example_hub_env :: "string hub_env" where
  "example_hub_env =
     \<lparr>he_addr = None, he_quit = None, he_patience = 0, he_masks = [], he_ptr = 7,
      he_onconnect = (\<lambda>r l. (0, messagelink_set_onmessage l True)), he_onrequest = (\<lambda>r s. s)\<rparr>"

definition example_hub0 :: "string messagehub_t" where
  "example_hub0 =
     the (new_messagehub ''camera'' ''top'' (Some \<lparr>sin_family = AF_INET, sin_port = 5, sin_addr = 7\<rparr>) True)"

lemma example_fields_valid:
  "r_headers r = example_fields \<Longrightarrow> request_is_websocket r \<and> request_is_valid_websocket r
     \<and> request_get_header_value r ''Sec-WebSocket-Key'' = Some ''AAAAAAAAAAAAAAAAAAAAAA==''"
  by (simp add: example_fields_def request_is_websocket_def request_is_valid_websocket_def new_http_header_def
      request_get_header_value_def request_get_header_def valid_websocket_key_def is_upper_def is_lower_def is_digit_def
      ord_def)

lemma example_hub:
  "\<exists>hub l. hub_reachable (\<lambda>_. [1]) example_upgrade Some (hub :: string messagehub_t) \<and> mh_links hub = [7] \<and> mh_closed hub = []
     \<and> mh_heap hub 7 = Some l \<and> \<not> ml_client l \<and> ml_state l = WS_OPEN \<and> is_open (ml_socket l)
     \<and> txq (ml_socket l) = [] \<and> ml_onmessage l"
proof -
  let ?s = "\<lparr>is_open = True, rx = [Seg [1]], selects = [], txq = [], tx = []\<rparr>"
  let ?r = "new_request\<lparr>r_what := PARSE_HEADERS, r_continue := False, r_headers := example_fields\<rparr>"
  have "request_parse_html example_upgrade None () new_request ?s PARSE_HEADERS = Ret (0, ?s\<lparr>rx := []\<rparr>, ?r)"
    by (simp add: request_parse_html_def request_parse_loop.simps tcp_socket_recv_def example_upgrade_def)
  moreover have "tcp_socket_send (?s\<lparr>rx := []\<rparr>) bs = (0, ?s\<lparr>rx := [], tx := bs\<rparr>)" for bs
    by (simp add: tcp_socket_send_idle)
  moreover note example_fields_valid [of ?r]
  ultimately obtain s where h: "messagehub_handle (\<lambda>_. [1]) example_upgrade () None example_hub_env example_hub0 ?s
      = messagehub_handle_websocket (\<lambda>_. [1]) example_hub_env example_hub0 ?r (?s\<lparr>rx := []\<rparr>)"
    "messagehub_upgrade_connection (\<lambda>_. [1]) ?r (?s\<lparr>rx := []\<rparr>) = Ret (0, s)" "is_open s" "txq s = []"
    "request_is_valid_websocket ?r"
    by (simp add: messagehub_handle_def messagehub_upgrade_connection_def)
  then obtain hub l where hub: "messagehub_run (\<lambda>_. [1]) example_upgrade () None example_hub_env False (Accepted ?s)
      example_hub0 = Ret hub"
    and facts: "mh_links hub = [7]" "mh_closed hub = []" "mh_heap hub 7 = Some l" "\<not> ml_client l"
      "ml_state l = WS_OPEN" "ml_socket l = s" "ml_onmessage l"
    by (simp add: messagehub_run_def messagehub_wait_connection_def messagehub_handle_websocket_def
        example_hub0_def new_messagehub_def example_hub_env_def messagehub_add_link_def Let_def
        messagehub_delete_closed_links_def server_messagelink_connect_def new_messagelink_def
        server_messagelink_read_in_background_def messagelink_set_onmessage_def)
  have "hub_reachable (\<lambda>_. [1]) example_upgrade Some example_hub0"
    by (rule hub_reachable.reach_new [of "''camera''" "''top''" "Some \<lparr>sin_family = AF_INET, sin_port = 5, sin_addr = 7\<rparr>" True])
       (simp add: example_hub0_def new_messagehub_def)
  moreover have "mh_heap example_hub0 (he_ptr example_hub_env) = None" "handler_ok example_hub_env"
    "accepted_ok (Accepted ?s)"
    by (simp_all add: example_hub0_def new_messagehub_def handler_ok_def example_hub_env_def
        messagelink_set_onmessage_def accepted_ok_def)
  ultimately have "hub_reachable (\<lambda>_. [1]) example_upgrade Some hub"
    using hub by (meson hub_reachable.reach_step step_server)
  with facts h(3,4) show ?thesis by auto
qed

theorem hub_keeps_its_links_witness:
  "\<exists>hub. mh_links hub = [7] \<and> defined (messagehub_broadcast_text (hub :: string messagehub_t) None [1, 2])
     \<and> defined (hub_link_turn Some hub 7)"
proof -
  obtain hub l where h: "hub_reachable (\<lambda>_. [1]) example_upgrade Some (hub :: string messagehub_t)" "mh_links hub = [7]"
    "mh_heap hub 7 = Some l" "ml_onmessage l"
    using example_hub by blast
  from hub_keeps_its_links [OF h(1), where exclude = None and data = "[1, 2]" and p = 7] h show ?thesis by auto
qed

theorem delete_messagehub_closes_witness:
  "\<exists>hub hub'. mh_links (hub :: string messagehub_t) = [7] \<and> delete_messagehub hub = Ret hub' \<and> mh_heap hub' 7 = None
     \<and> mh_gone hub' \<noteq> []"
proof -
  obtain hub where h: "hub_reachable (\<lambda>_. [1]) example_upgrade Some (hub :: string messagehub_t)" "mh_links hub = [7]"
    using example_hub by blast
  from delete_messagehub_closes [OF h(1)] h(2) show ?thesis by fastforce
qed


end
