(* ===== verification/Service.thy ===== *)
theory Service
  imports Response
begin

text \<open>
  Services, librcom/src/service.c and export.c: a web server with a table of exported resources.  A
  handler of the user is a function from the request and the empty response to the response; the index
  pages of the service itself depend on its table.

  The server thread accepts connections and every client has a thread of its own, a pair of the pointer
  to the client and the place it has reached: a client is put on the list of finished ones before its
  thread has come to its end, and may be freed by the server thread in between.
\<close>

section \<open>Model\<close>

subsection \<open>Exports\<close>

datatype handler =
  NoHandler | IndexHtml | IndexJson | UserHandler "request_t \<Rightarrow> unit response_t \<Rightarrow> unit response_t"

record export_t =
  ex_name :: string
  ex_mimetype_in :: "string option"
  ex_mimetype_out :: "string option"
  ex_onrequest :: handler

definition new_export :: "string \<Rightarrow> string option \<Rightarrow> string option \<Rightarrow> export_t" where
  "new_export name mimetype_in mimetype_out =
     \<lparr>ex_name = name, ex_mimetype_in = mimetype_in, ex_mimetype_out = mimetype_out, ex_onrequest = NoHandler\<rparr>"

definition export_set_onrequest :: "export_t \<Rightarrow> handler \<Rightarrow> export_t" where
  "export_set_onrequest e h = e\<lparr>ex_onrequest := h\<rparr>"

definition export_clone :: "export_t \<Rightarrow> export_t" where
  "export_clone e =
     (let n = new_export (ex_name e) (ex_mimetype_in e) (ex_mimetype_out e)
      in n\<lparr>ex_onrequest := ex_onrequest e\<rparr>)"

definition export_set_mimetypes :: "export_t \<Rightarrow> string option \<Rightarrow> string option \<Rightarrow> int \<times> export_t" where
  "export_set_mimetypes e mimetype_in mimetype_out =
     (0, e\<lparr>ex_mimetype_in := mimetype_in, ex_mimetype_out := mimetype_out\<rparr>)"

definition export_name :: "export_t \<Rightarrow> string" where
  "export_name e = ex_name e"

definition export_mimetype_out :: "export_t \<Rightarrow> string option" where
  "export_mimetype_out e = ex_mimetype_out e"

definition export_mimetype_in :: "export_t \<Rightarrow> string option" where
  "export_mimetype_in e = ex_mimetype_in e"

definition export_json_in :: "export_t \<Rightarrow> bool" where
  "export_json_in e \<longleftrightarrow> ex_mimetype_in e = Some ''application/json''"

definition export_json_out :: "export_t \<Rightarrow> bool" where
  "export_json_out e \<longleftrightarrow> ex_mimetype_out e = Some ''application/json''"

definition export_matches :: "export_t \<Rightarrow> string \<Rightarrow> bool" where
  "export_matches e name \<longleftrightarrow> name = ex_name e \<or> (name \<noteq> [] \<and> hd name = CHR ''/'' \<and> tl name = ex_name e)"

subsection \<open>The service\<close>

datatype client_place = Handling | Leaving

record service_client_t =
  vc_socket :: tcp_t

record service_t =
  sv_name :: string
  sv_addr :: "addr_t option"
  sv_exports :: "export_t list"
  sv_clients :: "ptr list"
  sv_finished :: "ptr list"
  sv_heap :: "ptr \<Rightarrow> service_client_t option"
  sv_threads :: "(ptr \<times> client_place) list"
  sv_cont :: bool

fun export_update :: "export_t list \<Rightarrow> string \<Rightarrow> string option \<Rightarrow> string option \<Rightarrow> handler \<Rightarrow> bool \<times> int \<times> export_t list" where
  "export_update [] name mt_in mt_out h = (False, 0, [])"
| "export_update (e # es) name mt_in mt_out h =
     (if export_matches e name then
        (let (r, e) = export_set_mimetypes e mt_in mt_out
         in if r = 0 then (True, 0, export_set_onrequest e h # es) else (True, -1, e # es))
      else let (found, err, es) = export_update es name mt_in mt_out h in (found, err, e # es))"

definition service_export ::
  "service_t \<Rightarrow> string \<Rightarrow> string option \<Rightarrow> string option \<Rightarrow> handler \<Rightarrow> int \<times> service_t" where
  "service_export sv name mt_in mt_out h =
     (let (found, err, es) = export_update (sv_exports sv) name mt_in mt_out h
      in if found then (err, sv\<lparr>sv_exports := es\<rparr>)
         else
           let e = export_set_onrequest (new_export name mt_in mt_out) h
           in (0, sv\<lparr>sv_exports := e # sv_exports sv\<rparr>))"

fun find_export :: "(export_t \<Rightarrow> bool) \<Rightarrow> export_t list \<Rightarrow> export_t option" where
  "find_export P [] = None"
| "find_export P (e # es) = (if P e then Some (export_clone e) else find_export P es)"

definition service_get_export :: "service_t \<Rightarrow> string \<Rightarrow> export_t option" where
  "service_get_export sv name =
     (case find_export (\<lambda>e. export_matches e name) (sv_exports sv) of
        Some n \<Rightarrow> Some n
      | None \<Rightarrow> find_export (\<lambda>e. export_name e = ''*'') (sv_exports sv))"

text \<open>The address, when it can be made and bound, is an argument; the index pages are exported.\<close>

definition new_service :: "string \<Rightarrow> addr_t option \<Rightarrow> service_t option" where
  "new_service name addr =
     (case addr of
        None \<Rightarrow> None
      | Some a \<Rightarrow>
          let sv = \<lparr>sv_name = name, sv_addr = Some a, sv_exports = [], sv_clients = [], sv_finished = [],
                    sv_heap = (\<lambda>_. None), sv_threads = [], sv_cont = False\<rparr>;
              (e, sv) = service_export sv ''/'' None (Some ''text/html'') IndexHtml;
              (e, sv) = service_export sv ''/index.json'' None (Some ''application/json'') IndexJson
          in Some (sv\<lparr>sv_cont := True\<rparr>))"

definition service_name :: "service_t \<Rightarrow> string" where
  "service_name sv = sv_name sv"

definition service_addr :: "service_t \<Rightarrow> addr_t option" where
  "service_addr sv = sv_addr sv"

subsection \<open>The index pages\<close>

definition index_line :: "string \<Rightarrow> string \<Rightarrow> string" where
  "index_line b name =
     (if name = ''*'' then []
      else ''    <a href='' @ [chQUOTE] @ ''http://'' @ b
        @ (if name \<noteq> [] \<and> hd name = CHR ''/'' then [] else ''/'') @ name @ [chQUOTE] @ ''>'' @ name
        @ ''</a><br>'' @ [chLF])"

definition service_index_html :: "service_t \<Rightarrow> unit response_t \<Rightarrow> unit response_t" where
  "service_index_html sv r =
     (let r = snd (response_printf r
                (''<!DOCTYPE html>'' @ [chLF] @ ''<html lang='' @ [chQUOTE] @ ''en'' @ [chQUOTE] @ ''>'' @ [chLF]
                 @ ''  <head>'' @ [chLF] @ ''    <meta charset='' @ [chQUOTE] @ ''utf-8'' @ [chQUOTE] @ ''>'' @ [chLF]
                 @ ''    <title>'' @ sv_name sv @ ''</title>'' @ [chLF] @ ''  </head>'' @ [chLF]
                 @ ''  <body>'' @ [chLF]));
          b = addr_string (sv_addr sv) 52;
          r = fold (\<lambda>e r. snd (response_printf r (index_line b (export_name e)))) (sv_exports sv) r
      in snd (response_printf r (''  </body>'' @ [chLF] @ ''</html>'' @ [chLF])))"

definition json_item :: "string \<Rightarrow> string \<Rightarrow> string" where
  "json_item b name =
     (let s = (if name \<noteq> [] \<and> hd name = CHR ''/'' then tl name else name)
      in ''{'' @ [chQUOTE] @ ''name'' @ [chQUOTE] @ '': '' @ [chQUOTE] @ name @ [chQUOTE] @ '', '' @ [chQUOTE] @ ''uri''
         @ [chQUOTE] @ '': '' @ [chQUOTE] @ ''http://'' @ b @ ''/'' @ s @ [chQUOTE] @ ''}'')"

fun json_loop :: "string \<Rightarrow> nat \<Rightarrow> export_t list \<Rightarrow> unit response_t \<Rightarrow> unit response_t" where
  "json_loop b count [] r = r"
| "json_loop b count (e # es) r =
     (if export_name e = ''*'' then json_loop b count es r
      else
        let r = (if count \<noteq> 0 then snd (response_printf r '', '') else r);
            r = snd (response_printf r (json_item b (export_name e)))
        in json_loop b (count + 1) es r)"

definition service_index_json :: "service_t \<Rightarrow> unit response_t \<Rightarrow> unit response_t" where
  "service_index_json sv r =
     (let r = snd (response_printf r (''{'' @ [chQUOTE] @ ''resources'' @ [chQUOTE] @ '': [''));
          r = json_loop (addr_string (sv_addr sv) 52) 0 (sv_exports sv) r
      in snd (response_printf r '']}''))"

definition export_callback :: "service_t \<Rightarrow> export_t \<Rightarrow> request_t \<Rightarrow> unit response_t \<Rightarrow> unit response_t" where
  "export_callback sv e request r =
     (case ex_onrequest e of
        NoHandler \<Rightarrow> response_set_status r 500
      | IndexHtml \<Rightarrow> service_index_html sv r
      | IndexJson \<Rightarrow> service_index_json sv r
      | UserHandler h \<Rightarrow> h request r)"

subsection \<open>Clients\<close>

definition service_add_client :: "service_t \<Rightarrow> ptr \<Rightarrow> service_t" where
  "service_add_client sv p = sv\<lparr>sv_clients := sv_clients sv @ [p]\<rparr>"

definition service_remove_client :: "service_t \<Rightarrow> ptr \<Rightarrow> service_t" where
  "service_remove_client sv p =
     sv\<lparr>sv_clients := list_remove (sv_clients sv) p, sv_finished := p # sv_finished sv\<rparr>"

text \<open>
  The connection is closed with the client.  The function delete_thread of the external library r comes
  after a thread_join everywhere else in librcom and is taken not to wait for the thread.
\<close>

definition delete_service_client :: "service_t \<Rightarrow> ptr \<Rightarrow> service_t outcome" where
  "delete_service_client sv p =
     bind_out (deref (sv_heap sv p)) (\<lambda>c. Ret (sv\<lparr>sv_heap := (sv_heap sv)(p := None)\<rparr>))"

fun delete_clients :: "service_t \<Rightarrow> ptr list \<Rightarrow> service_t outcome" where
  "delete_clients sv [] = Ret sv"
| "delete_clients sv (p # ps) = bind_out (delete_service_client sv p) (\<lambda>sv. delete_clients sv ps)"

definition service_delete_clients :: "service_t \<Rightarrow> service_t outcome" where
  "service_delete_clients sv =
     bind_out (delete_clients sv (sv_finished sv)) (\<lambda>sv. Ret (sv\<lparr>sv_finished := []\<rparr>))"

text \<open>A header without a value prints as (null).\<close>

definition set_mimetype_out :: "export_t \<Rightarrow> unit response_t \<Rightarrow> unit response_t" where
  "set_mimetype_out e r =
     (case export_mimetype_out e of
        Some m \<Rightarrow> snd (response_set_mimetype r m)
      | None \<Rightarrow> r\<lparr>rs_headers := new_http_header (Some ''Content-Type'') None # rs_headers r\<rparr>)"

text \<open>What is read from a client and answered, up to the label cleanup.\<close>

definition service_answer ::
  "(request_t, 'p) parser_exec \<Rightarrow> 'p \<Rightarrow> nat option \<Rightarrow> service_t \<Rightarrow> tcp_t \<Rightarrow> tcp_t outcome" where
  "service_answer exec p q sv s =
     bind_out (request_parse_html exec q p new_request s PARSE_ALL) (\<lambda>(err, s, request).
       if err \<noteq> 0 then map_out snd (http_send_error_headers s 500)
       else case r_uri request of
              None \<Rightarrow> map_out snd (http_send_error_headers s 400)
            | Some uri \<Rightarrow>
                (case service_get_export sv uri of
                   None \<Rightarrow> map_out snd (http_send_error_headers s 400)
                 | Some e \<Rightarrow>
                     let r = set_mimetype_out e (new_response () 200);
                         r = export_callback sv e request r
                     in Ret (snd (response_send r s))))"

definition set_thread :: "service_t \<Rightarrow> nat \<Rightarrow> (ptr \<times> client_place) list \<Rightarrow> service_t" where
  "set_thread sv i t = sv\<lparr>sv_threads := take i (sv_threads sv) @ t @ drop (i + 1) (sv_threads sv)\<rparr>"

text \<open>
  The thread number \<open>i\<close> runs up to service_remove_client and through it, then to its end, where it
  closes the connection of a client that is on the list of finished ones already.
\<close>

definition service_client_handle ::
  "(request_t, 'p) parser_exec \<Rightarrow> 'p \<Rightarrow> nat option \<Rightarrow> service_t \<Rightarrow> nat \<Rightarrow> service_t outcome" where
  "service_client_handle exec parser q sv i =
     (case sv_threads sv ! i of
        (p, Handling) \<Rightarrow>
          bind_out (deref (sv_heap sv p)) (\<lambda>c.
          bind_out (service_answer exec parser q sv (vc_socket c)) (\<lambda>s.
            let sv = sv\<lparr>sv_heap := (sv_heap sv)(p \<mapsto> c\<lparr>vc_socket := s\<rparr>)\<rparr>
            in Ret (set_thread (service_remove_client sv p) i [(p, Leaving)])))
      | (p, Leaving) \<Rightarrow>
          bind_out (deref (sv_heap sv p)) (\<lambda>c.
            let sv = sv\<lparr>sv_heap := (sv_heap sv)(p \<mapsto> c\<lparr>vc_socket := close_tcp_socket (vc_socket c)\<rparr>)\<rparr>
            in Ret (set_thread sv i [])))"

subsection \<open>The server thread\<close>

text \<open>An iteration; \<open>quit\<close> is what app_quit answers, \<open>p\<close> the pointer the allocator returns.\<close>

definition service_run :: "bool \<Rightarrow> service_t \<Rightarrow> ptr \<Rightarrow> accepted \<Rightarrow> service_t outcome" where
  "service_run quit sv p a =
     (if quit \<or> \<not> sv_cont sv then Ret sv
      else case a of
        AcceptTimeout \<Rightarrow> Ret sv
      | AcceptInvalid \<Rightarrow> Ret sv
      | Accepted s \<Rightarrow>
          let sv = sv\<lparr>sv_heap := (sv_heap sv)(p \<mapsto> \<lparr>vc_socket = s\<rparr>)\<rparr>;
              sv = service_add_client sv p
          in bind_out (service_delete_clients sv) (\<lambda>sv. Ret (sv\<lparr>sv_threads := sv_threads sv @ [(p, Handling)]\<rparr>)))"

subsection \<open>The end\<close>

text \<open>Joining the thread of a client that is still in the list: it runs to its end.\<close>

definition service_join ::
  "(request_t, 'p) parser_exec \<Rightarrow> 'p \<Rightarrow> nat option \<Rightarrow> service_t \<Rightarrow> ptr \<Rightarrow> service_t outcome" where
  "service_join exec parser q sv p =
     (let i = length (takeWhile (\<lambda>t. t \<noteq> (p, Handling)) (sv_threads sv))
      in if i < length (sv_threads sv)
         then bind_out (service_client_handle exec parser q sv i) (\<lambda>sv. service_client_handle exec parser q sv i)
         else Ret sv)"

fun join_clients ::
  "(request_t, 'p) parser_exec \<Rightarrow> 'p \<Rightarrow> nat option \<Rightarrow> service_t \<Rightarrow> ptr list \<Rightarrow> service_t outcome" where
  "join_clients exec parser q sv [] = Ret sv"
| "join_clients exec parser q sv (p # ps) =
     bind_out (service_join exec parser q sv p) (\<lambda>sv. join_clients exec parser q sv ps)"

definition delete_service :: "(request_t, 'p) parser_exec \<Rightarrow> 'p \<Rightarrow> nat option \<Rightarrow> service_t \<Rightarrow> service_t outcome" where
  "delete_service exec parser q sv =
     (let sv = sv\<lparr>sv_cont := False\<rparr>; sv = sv\<lparr>sv_exports := []\<rparr>; l = sv_clients sv;
          sv = sv\<lparr>sv_clients := []\<rparr>
      in bind_out (join_clients exec parser q sv l) service_delete_clients)"

section \<open>Steps\<close>

inductive service_step :: "(request_t, 'p) parser_exec \<Rightarrow> service_t \<Rightarrow> service_t \<Rightarrow> bool"
  for exec :: "(request_t, 'p) parser_exec" where
  step_accept: "sv_heap sv p = None \<Longrightarrow> service_run quit sv p a = Ret sv' \<Longrightarrow> service_step exec sv sv'"
| step_client: "i < length (sv_threads sv) \<Longrightarrow> service_client_handle exec parser q sv i = Ret sv' \<Longrightarrow>
     service_step exec sv sv'"
| step_export: "service_export sv name mt_in mt_out h = (err, sv') \<Longrightarrow> service_step exec sv sv'"

inductive service_reachable :: "(request_t, 'p) parser_exec \<Rightarrow> service_t \<Rightarrow> bool"
  for exec :: "(request_t, 'p) parser_exec" where
  reach_new: "new_service name addr = Some sv \<Longrightarrow> service_reachable exec sv"
| reach_step: "service_reachable exec sv \<Longrightarrow> service_step exec sv sv' \<Longrightarrow> service_reachable exec sv'"

section \<open>Dispatch\<close>

text \<open>What an export holds beside its name.\<close>

type_synonym export_data = "string option \<times> string option \<times> handler"

definition data_of :: "export_t \<Rightarrow> export_data" where
  "data_of e = (ex_mimetype_in e, ex_mimetype_out e, ex_onrequest e)"

type_synonym export_call = "string \<times> export_data"

fun run_exports :: "service_t \<Rightarrow> export_call list \<Rightarrow> service_t" where
  "run_exports sv [] = sv"
| "run_exports sv ((name, mt_in, mt_out, h) # cs) = run_exports (snd (service_export sv name mt_in mt_out h)) cs"

text \<open>The data of the last call for a resource, and for the wildcard.\<close>

definition last_call :: "(string \<Rightarrow> bool) \<Rightarrow> export_call list \<Rightarrow> export_data option" where
  "last_call P cs = map_option snd (find (\<lambda>c. P (fst c)) (rev cs))"

definition names_of :: "string \<Rightarrow> string \<Rightarrow> bool" where
  "names_of x name \<longleftrightarrow> name = x \<or> name = CHR ''/'' # x"

definition dispatch :: "export_call list \<Rightarrow> string \<Rightarrow> export_data option" where
  "dispatch cs x = (case last_call (names_of x) cs of None \<Rightarrow> last_call (\<lambda>n. n = ''*'') cs | Some d \<Rightarrow> Some d)"

text \<open>The first entry of the table that has one of the names.\<close>

definition first_entry :: "(string \<Rightarrow> bool) \<Rightarrow> export_t list \<Rightarrow> export_data option" where
  "first_entry P es = map_option data_of (find (\<lambda>e. P (ex_name e)) es)"

lemma find_export_first: "map_option data_of (find_export (\<lambda>e. P (ex_name e)) es) = first_entry P es"
  by (induction es) (simp_all add: first_entry_def data_of_def export_clone_def new_export_def Let_def)

lemma matches_names: "export_matches e (CHR ''/'' # x) \<longleftrightarrow> names_of x (ex_name e)"
  by (auto simp: export_matches_def names_of_def)

lemma matches_plain: "\<not> (\<exists>y. name = CHR ''/'' # y) \<Longrightarrow> export_matches e name \<longleftrightarrow> ex_name e = name"
  by (cases name) (auto simp: export_matches_def)

text \<open>Names are distinct, and a name with a slash never stands before the same name without.\<close>

definition table_ok :: "export_t list \<Rightarrow> bool" where
  "table_ok es \<longleftrightarrow> distinct (map ex_name es)
     \<and> (\<forall>a b x. map ex_name es = a @ (CHR ''/'' # x) # b \<longrightarrow> x \<notin> set b)"

lemma update_spec:
  "export_update es name mt_in mt_out h = (found, err, es') \<Longrightarrow>
   map ex_name es' = map ex_name es \<and> err = 0 \<and> (found \<longleftrightarrow> (\<exists>e \<in> set es. export_matches e name))
     \<and> (\<not> found \<longrightarrow> es' = es)"
  by (induction es name mt_in mt_out h arbitrary: found err es' rule: export_update.induct)
     (auto simp: export_set_mimetypes_def export_set_onrequest_def split: if_splits prod.splits)

lemma update_found:
  "export_update es name mt_in mt_out h = (True, err, es') \<Longrightarrow>
   \<exists>a e e' b. es = a @ e # b \<and> es' = a @ e' # b \<and> export_matches e name \<and> (\<forall>e \<in> set a. \<not> export_matches e name)
     \<and> ex_name e' = ex_name e \<and> data_of e' = (mt_in, mt_out, h)"
proof (induction es name mt_in mt_out h arbitrary: err es' rule: export_update.induct)
  case (2 e es name mt_in mt_out h)
  show ?case
  proof (cases "export_matches e name")
    case True
    with "2.prems" show ?thesis
      by (intro exI [of _ "[]"])
         (auto simp: export_set_mimetypes_def export_set_onrequest_def data_of_def)
  next
    case False
    then obtain err1 es1 where u: "export_update es name mt_in mt_out h = (True, err1, es1)" "es' = e # es1"
      using "2.prems" by (auto split: prod.splits)
    from "2.IH" [OF False u(1)] obtain a e0 e1 b where "es = a @ e0 # b" "es1 = a @ e1 # b"
      "export_matches e0 name" "\<forall>e \<in> set a. \<not> export_matches e name" "ex_name e1 = ex_name e0"
      "data_of e1 = (mt_in, mt_out, h)" by blast
    with False u(2) show ?thesis by (intro exI [of _ "e # a"]) auto
  qed
qed simp

lemma first_entry_append:
  "first_entry P (a @ b) = (case first_entry P a of None \<Rightarrow> first_entry P b | Some d \<Rightarrow> Some d)"
  by (induction a) (auto simp: first_entry_def)

lemma first_entry_Cons: "first_entry P (e # b) = (if P (ex_name e) then Some (data_of e) else first_entry P b)"
  by (simp add: first_entry_def)

lemma first_entry_None: "first_entry P es = None \<longleftrightarrow> (\<forall>e \<in> set es. \<not> P (ex_name e))"
  by (auto simp: first_entry_def find_None_iff)

lemma last_call_snoc: "last_call P (cs @ [c]) = (if P (fst c) then Some (snd c) else last_call P cs)"
  by (simp add: last_call_def)

text \<open>The names a service is used with here: no double slash in front, and the wildcard without one.\<close>

definition plain :: "string \<Rightarrow> bool" where
  "plain x \<longleftrightarrow> \<not> starts_with ''/'' x"

definition proper :: "string \<Rightarrow> bool" where
  "proper name \<longleftrightarrow> \<not> starts_with ''//'' name \<and> name \<noteq> ''/*''"

lemma plain_iff: "plain x \<longleftrightarrow> \<not> (\<exists>y. x = CHR ''/'' # y)"
  by (auto simp: plain_def starts_with_iff)

lemma proper_cases:
  assumes "proper name"
  obtains "plain name" | y where "name = CHR ''/'' # y" "plain y" "y \<noteq> ''*''"
  using assms by (cases name) (auto simp: proper_def plain_iff starts_with_iff)

text \<open>The sets of names that are looked up: with and without the slash, and the wildcard.\<close>

definition looked_up :: "(string \<Rightarrow> bool) \<Rightarrow> bool" where
  "looked_up P \<longleftrightarrow> (\<exists>x. plain x \<and> P = names_of x) \<or> P = (\<lambda>n. n = ''*'')"

lemma looked_upE:
  assumes "looked_up P"
  obtains x where "plain x" "P = names_of x" | "P = (\<lambda>n. n = ''*'')"
  using assms by (auto simp: looked_up_def)

lemma match_in_lookup:
  assumes "looked_up P" "proper name" "export_matches e name"
  shows "P (ex_name e) \<longleftrightarrow> P name"
  using assms(2)
proof (cases rule: proper_cases)
  case 1
  then have "ex_name e = name" using assms(3) matches_plain by (simp add: plain_iff)
  then show ?thesis by simp
next
  case (2 y)
  then have e: "names_of y (ex_name e)" using assms(3) matches_names by simp
  from assms(1) show ?thesis
  proof (cases rule: looked_upE)
    case (1 x)
    with e 2 show ?thesis by (auto simp: names_of_def plain_iff)
  next
    case 2
    with e \<open>name = CHR ''/'' # y\<close> \<open>y \<noteq> ''*''\<close> show ?thesis by (auto simp: names_of_def)
  qed
qed

lemma first_is_match:
  assumes "table_ok (a @ e # b)" "looked_up P" "proper name" "export_matches e name"
    "\<forall>e \<in> set a. \<not> export_matches e name" "P name"
  shows "\<forall>e \<in> set a. \<not> P (ex_name e)"
proof
  fix d
  assume d: "d \<in> set a"
  then have nm: "\<not> export_matches d name" using assms(5) by blast
  show "\<not> P (ex_name d)"
  proof
    assume P: "P (ex_name d)"
    from assms(2) show False
    proof (cases rule: looked_upE)
      case (1 x)
      with P assms(6) nm have n: "name = x" "ex_name d = CHR ''/'' # x"
        by (auto simp: names_of_def export_matches_def)
      have "ex_name e = x" using matches_plain [of name e] assms(4) n(1) 1(1) by (simp add: plain_iff)
      moreover obtain a1 a2 where "a = a1 @ d # a2" using d by (auto dest: split_list)
      ultimately have "map ex_name (a @ e # b) = map ex_name a1 @ (CHR ''/'' # x) # (map ex_name a2 @ x # map ex_name b)"
        by (simp add: n)
      with assms(1) show False unfolding table_ok_def by (metis in_set_conv_decomp)
    next
      case 2
      with P assms(6) nm show False by (simp add: export_matches_def)
    qed
  qed
qed

lemma table_ok_cong: "map ex_name es = map ex_name es' \<Longrightarrow> table_ok es = table_ok es'"
  by (simp add: table_ok_def)

text \<open>One call: the table stays in order and its first entries are the last calls.\<close>

lemma export_step:
  assumes "table_ok (sv_exports sv)" "proper name"
    "service_export sv name mt_in mt_out h = (err, sv')"
  shows "table_ok (sv_exports sv')"
    and "looked_up P \<Longrightarrow> first_entry P (sv_exports sv')
           = (if P name then Some (mt_in, mt_out, h) else first_entry P (sv_exports sv))"
proof -
  obtain found r es where u: "export_update (sv_exports sv) name mt_in mt_out h = (found, r, es)"
    by (cases "export_update (sv_exports sv) name mt_in mt_out h")
  note spec = update_spec [OF u]
  have "table_ok (sv_exports sv') \<and> (looked_up P \<longrightarrow> first_entry P (sv_exports sv')
           = (if P name then Some (mt_in, mt_out, h) else first_entry P (sv_exports sv)))"
  proof (cases found)
    case True
    then have sv': "sv_exports sv' = es" using assms(3) u by (auto simp: service_export_def)
    have "export_update (sv_exports sv) name mt_in mt_out h = (True, r, es)" using u True by simp
    from update_found [OF this] obtain a e e' b where
      s: "sv_exports sv = a @ e # b" "es = a @ e' # b" "export_matches e name"
        "\<forall>e \<in> set a. \<not> export_matches e name" "ex_name e' = ex_name e" "data_of e' = (mt_in, mt_out, h)"
      by blast
    have "first_entry P es = (if P name then Some (mt_in, mt_out, h) else first_entry P (sv_exports sv))"
      if "looked_up P"
    proof (cases "P name")
      case True
      have "first_entry P a = None"
        using first_is_match [OF assms(1) [unfolded s(1)] that assms(2) s(3,4) True] by (simp add: first_entry_None)
      with True match_in_lookup [OF that assms(2) s(3)] s show ?thesis
        by (simp add: first_entry_append first_entry_Cons)
    next
      case False
      with match_in_lookup [OF that assms(2) s(3)] s show ?thesis
        by (simp add: first_entry_append first_entry_Cons split: option.split)
    qed
    with sv' spec assms(1) table_ok_cong show ?thesis by metis
  next
    case False
    let ?e = "export_set_onrequest (new_export name mt_in mt_out) h"
    have e: "ex_name ?e = name" "data_of ?e = (mt_in, mt_out, h)"
      by (simp_all add: export_set_onrequest_def new_export_def data_of_def)
    have sv': "sv_exports sv' = ?e # sv_exports sv" using assms(3) u False by (auto simp: service_export_def)
    have nm: "\<forall>e \<in> set (sv_exports sv). \<not> export_matches e name" using spec False by auto
    then have d: "name \<notin> ex_name ` set (sv_exports sv)" by (auto simp: export_matches_def)
    have o: "x \<notin> ex_name ` set (sv_exports sv)" if "name = CHR ''/'' # x" for x
      using nm that by (auto simp: export_matches_def)
    have "table_ok (?e # sv_exports sv)"
      unfolding table_ok_def
    proof (intro conjI allI impI)
      show "distinct (map ex_name (?e # sv_exports sv))" using assms(1) d e by (simp add: table_ok_def)
      fix a b x
      assume m: "map ex_name (?e # sv_exports sv) = a @ (CHR ''/'' # x) # b"
      show "x \<notin> set b"
      proof (cases a)
        case Nil
        with m e have "name = CHR ''/'' # x" "b = map ex_name (sv_exports sv)" by auto
        with o show ?thesis by simp
      next
        case (Cons y ys)
        with m have "map ex_name (sv_exports sv) = ys @ (CHR ''/'' # x) # b" by simp
        with assms(1) show ?thesis by (auto simp: table_ok_def)
      qed
    qed
    with sv' e show ?thesis by (simp add: first_entry_Cons)
  qed
  then show "table_ok (sv_exports sv')" "looked_up P \<Longrightarrow> first_entry P (sv_exports sv')
           = (if P name then Some (mt_in, mt_out, h) else first_entry P (sv_exports sv))" by blast+
qed

lemma run_exports_first:
  "table_ok (sv_exports sv) \<Longrightarrow> looked_up P \<Longrightarrow> list_all (\<lambda>c. proper (fst c)) cs \<Longrightarrow>
   first_entry P (sv_exports sv) = last_call P cs0 \<Longrightarrow>
   first_entry P (sv_exports (run_exports sv cs)) = last_call P (cs0 @ cs)"
proof (induction sv cs arbitrary: cs0 rule: run_exports.induct)
  case (2 sv name mt_in mt_out h cs)
  obtain err sv' where e: "service_export sv name mt_in mt_out h = (err, sv')" by fastforce
  have p: "proper name" using "2.prems"(3) by simp
  have "first_entry P (sv_exports sv') = last_call P (cs0 @ [(name, mt_in, mt_out, h)])"
    using export_step(2) [OF "2.prems"(1) p e "2.prems"(2)] "2.prems"(4) by (simp add: last_call_snoc)
  from "2.IH" [of "cs0 @ [(name, mt_in, mt_out, h)]"] export_step(1) [OF "2.prems"(1) p e] this "2.prems"(2,3) e
  show ?case by simp
qed simp

text \<open>A new service has exported its index pages.\<close>

definition index_calls :: "export_call list" where
  "index_calls = [(''/'', None, Some ''text/html'', IndexHtml),
     (''/index.json'', None, Some ''application/json'', IndexJson)]"

lemma new_service_runs:
  assumes "new_service name addr = Some sv"
  shows "\<exists>sv0. sv_exports sv0 = [] \<and> sv_exports (run_exports sv cs) = sv_exports (run_exports sv0 (index_calls @ cs))"
proof -
  have ext: "sv_exports (run_exports s cs) = sv_exports (run_exports s' cs)" if "sv_exports s = sv_exports s'" for s s'
    using that
  proof (induction s cs arbitrary: s' rule: run_exports.induct)
    case (2 s name mt_in mt_out h cs)
    have "sv_exports (snd (service_export s name mt_in mt_out h)) = sv_exports (snd (service_export s' name mt_in mt_out h))"
      using "2.prems" by (simp add: service_export_def Let_def split: prod.splits)
    with "2.IH" show ?case by simp
  qed simp
  obtain a where a: "addr = Some a" using assms by (cases addr) (auto simp: new_service_def)
  let ?sv0 = "\<lparr>sv_name = name, sv_addr = Some a, sv_exports = [], sv_clients = [], sv_finished = [],
      sv_heap = (\<lambda>_. None), sv_threads = [], sv_cont = False\<rparr>"
  have "sv_exports (run_exports sv cs) = sv_exports (run_exports ?sv0 (index_calls @ cs))"
    unfolding index_calls_def append_Cons append_Nil run_exports.simps
    by (rule ext) (use assms a in \<open>auto simp: new_service_def Let_def split: prod.splits\<close>)
  then show ?thesis by (intro exI [of _ ?sv0]) simp
qed

section \<open>The life of a client\<close>

text \<open>
  The clients of the two lists, and only they, are in memory.  A thread that has not left works on a
  client of the list, each on its own.
\<close>

definition handled :: "service_t \<Rightarrow> ptr list" where
  "handled sv = map fst (filter (\<lambda>t. snd t = Handling) (sv_threads sv))"

definition service_wf :: "service_t \<Rightarrow> bool" where
  "service_wf sv \<longleftrightarrow> distinct (sv_clients sv @ sv_finished sv)
     \<and> (\<forall>p. sv_heap sv p \<noteq> None \<longleftrightarrow> p \<in> set (sv_clients sv @ sv_finished sv))
     \<and> distinct (handled sv) \<and> set (handled sv) = set (sv_clients sv)"

lemma service_wf_lists:
  "sv_clients sv' = sv_clients sv \<Longrightarrow> sv_finished sv' = sv_finished sv \<Longrightarrow> sv_heap sv' = sv_heap sv \<Longrightarrow>
   sv_threads sv' = sv_threads sv \<Longrightarrow> service_wf sv' = service_wf sv"
  by (simp add: service_wf_def handled_def)

lemma export_keeps:
  assumes "service_export sv name mt_in mt_out h = (err, sv')"
  shows "\<exists>es. sv' = sv\<lparr>sv_exports := es\<rparr>"
  using assms by (auto simp: service_export_def Let_def split: prod.splits if_splits)

lemma delete_clients_eq:
  "distinct ps \<Longrightarrow> \<forall>p \<in> set ps. sv_heap sv p \<noteq> None \<Longrightarrow>
   delete_clients sv ps = Ret (sv\<lparr>sv_heap := (\<lambda>p. if p \<in> set ps then None else sv_heap sv p)\<rparr>)"
proof (induction ps arbitrary: sv)
  case (Cons p ps)
  then obtain c where "sv_heap sv p = Some c" by auto
  moreover have "\<forall>q \<in> set ps. sv_heap (sv\<lparr>sv_heap := (sv_heap sv)(p := None)\<rparr>) q \<noteq> None"
    using Cons.prems by auto
  ultimately show ?case
    using Cons.prems Cons.IH [of "sv\<lparr>sv_heap := (sv_heap sv)(p := None)\<rparr>"]
    by (auto simp: delete_service_client_def fun_eq_iff)
qed simp

text \<open>An iteration that accepts a connection.\<close>

lemma service_accepts:
  assumes "service_wf sv" "sv_cont sv" "sv_heap sv p = None"
  shows "service_run False sv p (Accepted s) = Ret (sv\<lparr>sv_heap :=
      (\<lambda>q. if q \<in> set (sv_finished sv) then None else if q = p then Some \<lparr>vc_socket = s\<rparr> else sv_heap sv q),
      sv_clients := sv_clients sv @ [p], sv_finished := [], sv_threads := sv_threads sv @ [(p, Handling)]\<rparr>)"
proof -
  let ?sv = "service_add_client (sv\<lparr>sv_heap := (sv_heap sv)(p \<mapsto> \<lparr>vc_socket = s\<rparr>)\<rparr>) p"
  have "\<forall>q \<in> set (sv_finished ?sv). sv_heap ?sv q \<noteq> None" "distinct (sv_finished ?sv)"
    using assms(1) by (auto simp: service_add_client_def service_wf_def)
  from delete_clients_eq [OF this(2,1)] show ?thesis
    using assms(2) by (simp add: service_run_def service_delete_clients_def Let_def) (simp add: service_add_client_def fun_eq_iff)
qed

lemma wf_accept:
  assumes "service_wf sv" "sv_heap sv p = None" "service_run quit sv p a = Ret sv'"
  shows "service_wf sv'"
proof (cases "quit \<or> \<not> sv_cont sv \<or> (\<forall>s. a \<noteq> Accepted s)")
  case True
  with assms(1,3) show ?thesis by (auto simp: service_run_def split: if_splits accepted.splits)
next
  case False
  then obtain s where a: "a = Accepted s" "sv_cont sv" "\<not> quit" by auto
  have p: "p \<notin> set (sv_clients sv @ sv_finished sv)"
    using assms(1,2) unfolding service_wf_def by metis
  have heap: "\<And>q. sv_heap sv q \<noteq> None \<longleftrightarrow> q \<in> set (sv_clients sv @ sv_finished sv)"
    using assms(1) unfolding service_wf_def by blast
  have sv': "sv' = sv\<lparr>sv_heap :=
      (\<lambda>q. if q \<in> set (sv_finished sv) then None else if q = p then Some \<lparr>vc_socket = s\<rparr> else sv_heap sv q),
      sv_clients := sv_clients sv @ [p], sv_finished := [], sv_threads := sv_threads sv @ [(p, Handling)]\<rparr>"
    using service_accepts [OF assms(1) a(2) assms(2), of s] assms(3) a by simp
  have "sv_heap sv' q \<noteq> None \<longleftrightarrow> q \<in> set (sv_clients sv' @ sv_finished sv')" for q
    using heap [of q] p assms(1) by (auto simp: sv' service_wf_def)
  with p assms(1) show ?thesis by (auto simp: service_wf_def sv' handled_def)
qed

lemma handled_split: "handled (sv\<lparr>sv_threads := a @ t # b\<rparr>)
  = handled (sv\<lparr>sv_threads := a\<rparr>) @ (if snd t = Handling then [fst t] else []) @ handled (sv\<lparr>sv_threads := b\<rparr>)"
  by (simp add: handled_def)

lemma wf_client:
  assumes "service_wf sv" "i < length (sv_threads sv)" "service_client_handle exec parser q sv i = Ret sv'"
  shows "service_wf sv'"
proof -
  obtain p pl where t: "sv_threads sv ! i = (p, pl)" by fastforce
  obtain a b where ab: "sv_threads sv = a @ (p, pl) # b" "length a = i"
    using id_take_nth_drop [OF assms(2)] t assms(2) by fastforce
  obtain c where c: "sv_heap sv p = Some c"
    using assms(3) t by (cases "sv_heap sv p"; cases pl) (auto simp: service_client_handle_def)
  have heap: "\<And>q. sv_heap sv q \<noteq> None \<longleftrightarrow> q \<in> set (sv_clients sv @ sv_finished sv)"
    using assms(1) unfolding service_wf_def by blast
  show ?thesis
  proof (cases pl)
    case Handling
    then obtain s where sv': "sv' = sv\<lparr>sv_heap := (sv_heap sv)(p \<mapsto> c\<lparr>vc_socket := s\<rparr>),
        sv_clients := list_remove (sv_clients sv) p, sv_finished := p # sv_finished sv,
        sv_threads := a @ (p, Leaving) # b\<rparr>"
      using assms(3) t c ab
      by (auto simp: service_client_handle_def outcome_simps set_thread_def service_remove_client_def Let_def)
    have h: "handled sv = handled (sv\<lparr>sv_threads := a\<rparr>) @ p # handled (sv\<lparr>sv_threads := b\<rparr>)"
      using ab Handling by (simp add: handled_def)
    have h': "handled sv' = handled (sv\<lparr>sv_threads := a\<rparr>) @ handled (sv\<lparr>sv_threads := b\<rparr>)"
      by (simp add: sv' handled_def)
    have pc: "p \<in> set (sv_clients sv)" using assms(1) h by (auto simp: service_wf_def)
    have "sv_heap sv' q \<noteq> None \<longleftrightarrow> q \<in> set (sv_clients sv' @ sv_finished sv')" for q
      using heap [of q] pc assms(1) by (auto simp: sv' list_remove_def service_wf_def)
    moreover have "distinct (handled sv')" "set (handled sv') = set (sv_clients sv')"
      using assms(1) h h' by (auto simp: service_wf_def sv' list_remove_def)
    ultimately show ?thesis
      using assms(1) pc by (auto simp: service_wf_def sv' list_remove_def)
  next
    case Leaving
    then have sv': "sv' = sv\<lparr>sv_heap := (sv_heap sv)(p \<mapsto> c\<lparr>vc_socket := close_tcp_socket (vc_socket c)\<rparr>),
        sv_threads := a @ b\<rparr>"
      using assms(3) t c ab by (simp add: service_client_handle_def set_thread_def Let_def)
    have "handled sv' = handled sv" using ab Leaving by (simp add: sv' handled_def)
    moreover have "sv_heap sv' q \<noteq> None \<longleftrightarrow> q \<in> set (sv_clients sv' @ sv_finished sv')" for q
      using heap [of q] heap [of p] c by (auto simp: sv')
    ultimately show ?thesis using assms(1) by (auto simp: service_wf_def sv')
  qed
qed

lemma service_step_wf: "service_step exec sv sv' \<Longrightarrow> service_wf sv \<Longrightarrow> service_wf sv'"
proof (induction rule: service_step.induct)
  case (step_accept sv p quit a sv')
  then show ?case by (blast intro: wf_accept)
next
  case (step_client i sv parser q sv')
  then show ?case by (blast intro: wf_client)
next
  case (step_export sv name mt_in mt_out h err sv')
  from export_keeps [OF step_export(1)] obtain es where "sv' = sv\<lparr>sv_exports := es\<rparr>" ..
  with step_export(2) show ?case by (simp add: service_wf_def handled_def)
qed

lemma service_reachable_wf: "service_reachable exec sv \<Longrightarrow> service_wf sv"
proof (induction rule: service_reachable.induct)
  case (reach_new name addr sv)
  then show ?case
    by (auto simp: new_service_def Let_def service_wf_def handled_def split: option.splits prod.splits
        dest!: export_keeps)
next
  case (reach_step sv sv')
  then show ?case by (blast intro: service_step_wf)
qed

text \<open>A service for the examples, and a parser that finds a request for the first page.\<close>

definition example_service :: service_t where
  "example_service = the (new_service ''camera'' (Some \<lparr>sin_family = AF_INET, sin_port = 5, sin_addr = 7\<rparr>))"

definition example_request :: "(request_t, unit) parser_exec" where
  "example_request cb p bs r = Ret (1, p, r\<lparr>r_uri := Some ''/'', r_continue := False\<rparr>)"

lemma example_service_new:
  "new_service ''camera'' (Some \<lparr>sin_family = AF_INET, sin_port = 5, sin_addr = 7\<rparr>) = Some example_service"
  by (simp add: example_service_def new_service_def Let_def split: prod.split)

lemma example_service_fields:
  "sv_heap example_service = (\<lambda>_. None)" "sv_clients example_service = []" "sv_finished example_service = []"
  "sv_threads example_service = []" "sv_cont example_service"
  "map ex_name (sv_exports example_service) = [''/index.json'', ''/'']"
  by (simp_all add: example_service_def new_service_def Let_def service_export_def export_matches_def
      new_export_def export_set_onrequest_def)

section \<open>Properties\<close>

text \<open>C8. Requests go to the latest export: after any series of exports, a request for a resource is answered
  by the handler, and with the media types, of the last export under its name, with or without the
  slash, else of the last wildcard; the index pages count as the first exports.\<close>

theorem service_dispatch_latest:
  assumes "new_service name addr = Some sv" "list_all (\<lambda>c. proper (fst c)) calls" "plain x"
  shows "map_option data_of (service_get_export (run_exports sv calls) (CHR ''/'' # x)) = dispatch (index_calls @ calls) x"
proof -
  obtain sv0 where sv0: "sv_exports sv0 = []"
    "sv_exports (run_exports sv calls) = sv_exports (run_exports sv0 (index_calls @ calls))"
    using new_service_runs [OF assms(1)] by blast
  have p: "list_all (\<lambda>c. proper (fst c)) (index_calls @ calls)"
    using assms(2) by (simp add: index_calls_def proper_def)
  have f: "first_entry P (sv_exports (run_exports sv calls)) = last_call P (index_calls @ calls)" if "looked_up P" for P
    using run_exports_first [OF _ that p, of sv0 "[]"] sv0
    by (simp add: table_ok_def first_entry_def last_call_def)
  let ?es = "sv_exports (run_exports sv calls)"
  have n: "map_option data_of (find_export (\<lambda>e. export_matches e (CHR ''/'' # x)) ?es) = first_entry (names_of x) ?es"
    unfolding matches_names by (rule find_export_first)
  have w: "map_option data_of (find_export (\<lambda>e. export_name e = ''*'') ?es) = first_entry (\<lambda>n. n = ''*'') ?es"
    unfolding export_name_def by (rule find_export_first)
  have "looked_up (names_of x)" "looked_up (\<lambda>n. n = ''*'')" using assms(3) by (auto simp: looked_up_def)
  note f = f [OF this(1)] f [OF this(2)]
  show ?thesis
    using n w f unfolding dispatch_def service_get_export_def
    by (cases "find_export (\<lambda>e. export_matches e (CHR ''/'' # x)) ?es")
       (auto simp: n [symmetric] split: option.split)
qed

theorem service_dispatch_latest_witness:
  "map_option data_of (service_get_export (run_exports example_service
         [(''image'', None, Some ''a'', NoHandler), (''/image'', None, Some ''b'', NoHandler)]) ''/image'')
       = Some (None, Some ''b'', NoHandler)"
proof -
  let ?calls = "[(''image'', None, Some ''a'', NoHandler), (''/image'', None, Some ''b'', NoHandler)]"
  have p: "list_all (\<lambda>c. proper (fst c)) ?calls" "plain ''image''" by (simp_all add: proper_def plain_def)
  from service_dispatch_latest [OF example_service_new p] show ?thesis
    by (simp add: dispatch_def last_call_def names_of_def)
qed

text \<open>C9. A service frees clients too early: a thread that has put its client on the list of finished ones
  still has to close the connection; when the server thread accepts a connection in between, the
  client is freed and the thread goes on with freed memory.\<close>

theorem service_client_freed_early:
  assumes "service_reachable exec sv" "sv_cont sv" "i < length (sv_threads sv)" "sv_threads sv ! i = (p, Leaving)"
    "p \<in> set (sv_finished sv)" "sv_heap sv new = None"
  shows "\<exists>sv'. service_run False sv new (Accepted s) = Ret sv' \<and> service_client_handle exec parser q sv' i = Undef"
proof -
  let ?sv = "sv\<lparr>sv_heap :=
      (\<lambda>q. if q \<in> set (sv_finished sv) then None else if q = new then Some \<lparr>vc_socket = s\<rparr> else sv_heap sv q),
      sv_clients := sv_clients sv @ [new], sv_finished := [], sv_threads := sv_threads sv @ [(new, Handling)]\<rparr>"
  have "sv_threads ?sv ! i = (p, Leaving)" using assms(3,4) by (simp add: nth_append)
  then have "service_client_handle exec parser q ?sv i = Undef"
    using assms(5) by (simp add: service_client_handle_def)
  with service_accepts [OF service_reachable_wf [OF assms(1)] assms(2,6), of s] show ?thesis by blast
qed

text \<open>One client comes and is answered; the next connection frees it under its thread.\<close>

theorem service_client_freed_early_witness:
  "\<exists>sv. sv_finished sv = [4] \<and> sv_threads sv = [(4, Leaving)]
     \<and> (\<exists>sv'. service_run False sv 5 (Accepted \<lparr>is_open = True, rx = [Seg [1]], selects = [], txq = [], tx = []\<rparr>) = Ret sv'
        \<and> service_client_handle example_request () None sv' 0 = Undef)"
proof -
  let ?s = "\<lparr>is_open = True, rx = [Seg [1]], selects = [], txq = [], tx = []\<rparr>"
  note f0 = example_service_fields
  have r0: "service_reachable example_request example_service" by (rule reach_new [OF example_service_new])
  let ?sv1 = "example_service\<lparr>sv_heap := (\<lambda>q. if q = 4 then Some \<lparr>vc_socket = ?s\<rparr> else None),
      sv_clients := [4], sv_finished := [], sv_threads := [(4, Handling)]\<rparr>"
  have "service_run False example_service 4 (Accepted ?s) = Ret ?sv1"
    using service_accepts [OF service_reachable_wf [OF r0] f0(5), of 4 ?s] f0 by (simp cong: if_cong)
  then have r1: "service_reachable example_request ?sv1"
    by (intro reach_step [OF r0] step_accept) (simp_all add: f0)
  have "service_get_export ?sv1 ''/'' \<noteq> None"
    using f0(6) by (cases "sv_exports example_service") (auto simp: service_get_export_def export_matches_def)
  then obtain s where "service_answer example_request () None ?sv1 ?s = Ret s"
    by (auto simp: service_answer_def request_parse_html_def request_parse_loop.simps tcp_socket_recv_def
        example_request_def Let_def)
  then obtain sv where sv: "service_client_handle example_request () None ?sv1 0 = Ret sv" "sv_finished sv = [4]"
    "sv_threads sv = [(4, Leaving)]" "sv_cont sv" "sv_heap sv 5 = None"
    by (simp add: service_client_handle_def set_thread_def service_remove_client_def list_remove_def f0)
  have "service_reachable example_request sv"
    by (rule reach_step [OF r1 step_client [OF _ sv(1)]]) simp
  from service_client_freed_early [OF this sv(4), of 0 4 5 ?s] sv show ?thesis by fastforce
qed

end
