(* ===== verification/Datahub.thy ===== *)
theory Datahub
  imports Net Util
begin

text \<open>
  Data links and data hubs, librcom/src/datalink.c and datahub.c: packets over UDP, between two nodes
  and from one node to many.  The links of a hub are pointers to addresses in its heap: excluding a
  link and removing one compare pointers.  The operating system is a script: what the calls of recvfrom
  and select answer, and whether a call of sendto succeeds; \<open>dh_tx\<close> and \<open>dk_tx\<close> are the datagrams sent.

  A call of the user's handler by a hub is an entry of \<open>dh_calls\<close>, and what a handler of the user does to
  the hub is a later operation; the handler of a link is a function from the packet read and the empty
  reply to the reply.  The time is an argument.
\<close>

section \<open>Model\<close>

record udp_t =
  un_open :: bool
  un_rx :: "(bytes \<times> addr_t) option list"
  un_selects :: "int list"
  un_oks :: "bool list"
  un_tx :: "(addr_t \<times> bytes) list"

text \<open>The socket's operations of net.c on the script; recvfrom fails when the script has run out.\<close>

definition udp_recv :: "udp_t \<Rightarrow> data_t \<Rightarrow> addr_t \<Rightarrow> int \<times> data_t \<times> addr_t \<times> udp_t" where
  "udp_recv s d addr =
     (case un_rx s of
        [] \<Rightarrow> (let (err, d, addr) = udp_socket_read None d addr in (err, d, addr, s))
      | r # rs \<Rightarrow> (let (err, d, addr) = udp_socket_read r d addr in (err, d, addr, s\<lparr>un_rx := rs\<rparr>)))"

definition udp_send :: "udp_t \<Rightarrow> addr_t \<Rightarrow> data_t \<Rightarrow> int \<times> udp_t" where
  "udp_send s addr d =
     (let (ok, oks) = (case un_oks s of [] \<Rightarrow> (True, []) | b # bs \<Rightarrow> (b, bs));
          (err, sent) = udp_socket_send ok d
      in (err, s\<lparr>un_oks := oks,
          un_tx := un_tx s @ (case sent of None \<Rightarrow> [] | Some bs \<Rightarrow> [(addr, bs)])\<rparr>))"

definition udp_socket_wait_data :: "udp_t \<Rightarrow> int \<Rightarrow> int \<times> udp_t" where
  "udp_socket_wait_data s timeout =
     (case un_selects s of
        [] \<Rightarrow> (posix_wait_data timeout 1, s)
      | n # ns \<Rightarrow> (posix_wait_data timeout n, s\<lparr>un_selects := ns\<rparr>))"

definition close_udp_socket :: "udp_t \<Rightarrow> udp_t" where
  "close_udp_socket s = s\<lparr>un_open := False\<rparr>"

subsection \<open>Data links\<close>

record datalink_t =
  dk_socket :: udp_t
  dk_addr :: "addr_t option"
  dk_remote :: "addr_t option"
  dk_in :: data_t
  dk_out :: data_t
  dk_ondata :: bool
  dk_thread :: bool
  dk_thread_quit :: bool

text \<open>The socket and its address are arguments, None when they cannot be made.\<close>

definition datalink_start_thread :: "datalink_t \<Rightarrow> int \<times> datalink_t" where
  "datalink_start_thread link =
     (0, if dk_thread link then link else link\<lparr>dk_thread := True, dk_thread_quit := False\<rparr>)"

definition new_datalink :: "(udp_t \<times> addr_t) option \<Rightarrow> bool \<Rightarrow> datalink_t option" where
  "new_datalink socket ondata =
     (case socket of
        None \<Rightarrow> None
      | Some (s, a) \<Rightarrow>
          let link = \<lparr>dk_socket = s, dk_addr = Some a, dk_remote = None, dk_in = new_data, dk_out = new_data,
                      dk_ondata = ondata, dk_thread = False, dk_thread_quit = False\<rparr>
          in Some (if ondata then snd (datalink_start_thread link) else link))"

definition datalink_stop_thread :: "datalink_t \<Rightarrow> datalink_t" where
  "datalink_stop_thread link = link\<lparr>dk_thread := False, dk_thread_quit := True\<rparr>"

definition delete_datalink :: "datalink_t \<Rightarrow> udp_t" where
  "delete_datalink link = close_udp_socket (dk_socket (datalink_stop_thread link))"

definition datalink_addr :: "datalink_t \<Rightarrow> addr_t option" where
  "datalink_addr link = dk_addr link"

definition datalink_remote_addr :: "datalink_t \<Rightarrow> addr_t option" where
  "datalink_remote_addr link = dk_remote link"

definition datalink_get_output :: "datalink_t \<Rightarrow> data_t" where
  "datalink_get_output link = dk_out link"

definition datalink_set_remote_addr :: "datalink_t \<Rightarrow> addr_t option \<Rightarrow> datalink_t" where
  "datalink_set_remote_addr link addr =
     (case (dk_remote link, addr) of
        (Some a, Some b) \<Rightarrow> if addr_eq a b then link else link\<lparr>dk_remote := addr_clone addr\<rparr>
      | (None, None) \<Rightarrow> link
      | _ \<Rightarrow> link\<lparr>dk_remote := addr_clone addr\<rparr>)"

text \<open>The result holds the wait status and whether a packet was read.\<close>

definition datalink_read :: "datalink_t \<Rightarrow> int \<Rightarrow> bool \<times> int \<times> datalink_t" where
  "datalink_read link timeout =
     (let (wait_status, s) = udp_socket_wait_data (dk_socket link) timeout
      in if wait_status = RCOM_WAIT_OK then
           (let (err, d, addr, s) = udp_recv s (dk_in link) \<lparr>sin_family = 0, sin_port = 0, sin_addr = 0\<rparr>
            in (err = 0, wait_status, link\<lparr>dk_socket := s, dk_in := d\<rparr>))
         else (False, wait_status, link\<lparr>dk_socket := s\<rparr>))"

definition datalink_sendto :: "datalink_t \<Rightarrow> addr_t \<Rightarrow> data_t \<Rightarrow> int \<times> datalink_t" where
  "datalink_sendto link addr d = (let (err, s) = udp_send (dk_socket link) addr d in (err, link\<lparr>dk_socket := s\<rparr>))"

definition datalink_send :: "datalink_t \<Rightarrow> data_t \<Rightarrow> int \<times> datalink_t" where
  "datalink_send link d =
     (case dk_remote link of
        None \<Rightarrow> (0, link)
      | Some a \<Rightarrow> (let (err, s) = udp_send (dk_socket link) a d in (err, link\<lparr>dk_socket := s\<rparr>)))"

definition send_out :: "u64 \<Rightarrow> datalink_t \<Rightarrow> int \<times> datalink_t" where
  "send_out now link =
     (let link = link\<lparr>dk_out := data_set_timestamp (dk_out link) now\<rparr> in datalink_send link (dk_out link))"

text \<open>The text is what the format expands to, None when vsnprintf fails.\<close>

definition datalink_send_f :: "u64 \<Rightarrow> datalink_t \<Rightarrow> bytes option \<Rightarrow> int \<times> datalink_t" where
  "datalink_send_f now link txt =
     (let (err, out) = data_vprintf (dk_out link) txt; link = link\<lparr>dk_out := out\<rparr>
      in if err = 0 then send_out now link else (err, link))"

definition datalink_send_obj :: "u64 \<Rightarrow> datalink_t \<Rightarrow> bytes option \<Rightarrow> int \<times> datalink_t" where
  "datalink_send_obj now link json =
     (let (err, out) = data_serialise (dk_out link) json; link = link\<lparr>dk_out := out\<rparr>
      in if err = 0 then send_out now link else (err, link))"

definition datalink_parse :: "(string \<Rightarrow> 'j) \<Rightarrow> data_t \<Rightarrow> ('j \<times> data_t) outcome" where
  "datalink_parse parser d = data_parse parser d"

definition datalink_read_obj ::
  "(string \<Rightarrow> 'j) \<Rightarrow> 'j \<Rightarrow> datalink_t \<Rightarrow> int \<Rightarrow> ('j \<times> datalink_t) outcome" where
  "datalink_read_obj parser json_null link timeout =
     (let (got, wait_status, link) = datalink_read link timeout
      in if wait_status = RCOM_WAIT_OK \<and> got
         then bind_out (datalink_parse parser (dk_in link)) (\<lambda>(j, d). Ret (j, link\<lparr>dk_in := d\<rparr>))
         else Ret (json_null, link))"

definition datalink_rpc_obj ::
  "(string \<Rightarrow> 'j) \<Rightarrow> 'j \<Rightarrow> u64 \<Rightarrow> datalink_t \<Rightarrow> bytes option \<Rightarrow> ('j \<times> datalink_t) outcome" where
  "datalink_rpc_obj parser json_null now link json =
     (let (ret, link) = datalink_send_obj now link json
      in if ret = 0 then datalink_read_obj parser json_null link 5 else Ret (json_null, link))"

definition datalink_rpc_f ::
  "(string \<Rightarrow> 'j) \<Rightarrow> 'j \<Rightarrow> u64 \<Rightarrow> datalink_t \<Rightarrow> bytes option \<Rightarrow> ('j \<times> datalink_t) outcome" where
  "datalink_rpc_f parser json_null now link txt =
     (let (ret, link) = datalink_send_f now link txt
      in if ret = 0 then datalink_read_obj parser json_null link 5 else Ret (json_null, link))"

text \<open>A turn of the thread; the handler gets the packet read and the packet to reply with.\<close>

definition datalink_handle_input :: "(data_t \<Rightarrow> data_t \<Rightarrow> data_t) \<Rightarrow> u64 \<Rightarrow> datalink_t \<Rightarrow> datalink_t" where
  "datalink_handle_input ondata now link =
     (if dk_remote link = None then link
      else
        let (got, wait_status, link) = datalink_read link 1
        in if wait_status = RCOM_WAIT_OK \<and> got \<and> dk_ondata link then
             (let out = data_set_len (data_set_timestamp (dk_out link) now) 0;
                  link = link\<lparr>dk_out := ondata (dk_in link) out\<rparr>
              in if data_len (Some (dk_out link)) > 0 then snd (datalink_send link (dk_out link)) else link)
           else link)"

definition datalink_run :: "(data_t \<Rightarrow> data_t \<Rightarrow> data_t) \<Rightarrow> u64 \<Rightarrow> bool \<Rightarrow> datalink_t \<Rightarrow> datalink_t" where
  "datalink_run ondata now quit link =
     (if dk_thread_quit link \<or> quit then link else datalink_handle_input ondata now link)"

subsection \<open>Data hubs\<close>

record datahub_t =
  dh_socket :: udp_t
  dh_addr :: "addr_t option"
  dh_links :: "ptr list"
  dh_heap :: "ptr \<Rightarrow> addr_t option"
  dh_ondata :: bool
  dh_onbroadcast :: bool
  dh_input :: data_t
  dh_output :: data_t
  dh_calls :: "(ptr \<times> addr_t \<times> data_t) list"
  dh_quit :: bool

definition new_datahub :: "(udp_t \<times> addr_t) option \<Rightarrow> bool \<Rightarrow> bool \<Rightarrow> datahub_t option" where
  "new_datahub socket onbroadcast ondata =
     (case socket of
        None \<Rightarrow> None
      | Some (s, a) \<Rightarrow>
          Some \<lparr>dh_socket = s, dh_addr = Some a, dh_links = [], dh_heap = (\<lambda>_. None), dh_ondata = ondata,
                dh_onbroadcast = onbroadcast, dh_input = new_data, dh_output = new_data, dh_calls = [],
                dh_quit = False\<rparr>)"

definition datahub_addr :: "datahub_t \<Rightarrow> addr_t option" where
  "datahub_addr hub = dh_addr hub"

text \<open>The addresses of the list are freed; the socket stays open.\<close>

fun free_addrs :: "(ptr \<Rightarrow> addr_t option) \<Rightarrow> ptr list \<Rightarrow> (ptr \<Rightarrow> addr_t option) outcome" where
  "free_addrs heap [] = Ret heap"
| "free_addrs heap (p # ps) = bind_out (deref (heap p)) (\<lambda>a. free_addrs (heap(p := None)) ps)"

definition delete_datahub :: "datahub_t \<Rightarrow> datahub_t outcome" where
  "delete_datahub hub =
     (let hub = hub\<lparr>dh_quit := True\<rparr>
      in bind_out (free_addrs (dh_heap hub) (dh_links hub)) (\<lambda>heap.
           Ret (hub\<lparr>dh_links := [], dh_heap := heap\<rparr>)))"

fun find_link :: "(ptr \<Rightarrow> addr_t option) \<Rightarrow> ptr list \<Rightarrow> addr_t \<Rightarrow> ptr option outcome" where
  "find_link heap [] addr = Ret None"
| "find_link heap (p # ps) addr =
     bind_out (deref (heap p)) (\<lambda>a. if addr_eq addr a then Ret (Some p) else find_link heap ps addr)"

definition datahub_find :: "datahub_t \<Rightarrow> addr_t \<Rightarrow> ptr option outcome" where
  "datahub_find hub addr = find_link (dh_heap hub) (dh_links hub) addr"

text \<open>The pointer \<open>p\<close> is what the allocator returns for the copy.\<close>

definition datahub_add_link :: "datahub_t \<Rightarrow> ptr \<Rightarrow> addr_t \<Rightarrow> (int \<times> datahub_t) outcome" where
  "datahub_add_link hub p addr =
     bind_out (datahub_find hub addr) (\<lambda>a.
       case a of
         Some _ \<Rightarrow> Ret (0, hub)
       | None \<Rightarrow> Ret (0, hub\<lparr>dh_links := dh_links hub @ [p], dh_heap := (dh_heap hub)(p \<mapsto> addr)\<rparr>))"

text \<open>The address is taken off the list and not freed.\<close>

definition datahub_remove_link :: "datahub_t \<Rightarrow> addr_t \<Rightarrow> (int \<times> datahub_t) outcome" where
  "datahub_remove_link hub addr =
     bind_out (datahub_find hub addr) (\<lambda>a.
       case a of
         Some p \<Rightarrow> Ret (0, hub\<lparr>dh_links := list_remove (dh_links hub) p\<rparr>)
       | None \<Rightarrow> Ret (0, hub))"

subsection \<open>Sending\<close>

text \<open>The address a caller passes: NULL, one of the hub's own, or one of its own.\<close>

datatype addr_ref = NullAddr | LinkAddr ptr | OwnAddr addr_t

definition hub_sendto :: "datahub_t \<Rightarrow> addr_t \<Rightarrow> data_t \<Rightarrow> int \<times> datahub_t" where
  "hub_sendto hub addr d = (let (err, s) = udp_send (dh_socket hub) addr d in (err, hub\<lparr>dh_socket := s\<rparr>))"

definition send_ref :: "datahub_t \<Rightarrow> addr_ref \<Rightarrow> data_t \<Rightarrow> (int \<times> datahub_t) outcome" where
  "send_ref hub link d =
     (case link of
        NullAddr \<Rightarrow> Ret (-1, hub)
      | OwnAddr a \<Rightarrow> let (err, hub) = hub_sendto hub a d in Ret (if err \<noteq> 0 then -1 else 0, hub)
      | LinkAddr p \<Rightarrow>
          bind_out (deref (dh_heap hub p)) (\<lambda>a.
            let (err, hub) = hub_sendto hub a d
            in Ret (if err \<noteq> 0 then (-1, hub\<lparr>dh_links := list_remove (dh_links hub) p\<rparr>) else (0, hub))))"

text \<open>The hub's own packet, stamped, or a packet of the caller's, sent as it is.\<close>

definition send_output :: "u64 \<Rightarrow> datahub_t \<Rightarrow> addr_ref \<Rightarrow> (int \<times> datahub_t) outcome" where
  "send_output now hub link =
     (if link = NullAddr then Ret (-1, hub)
      else let hub = hub\<lparr>dh_output := data_set_timestamp (dh_output hub) now\<rparr> in send_ref hub link (dh_output hub))"

definition datahub_send :: "datahub_t \<Rightarrow> addr_ref \<Rightarrow> data_t option \<Rightarrow> (int \<times> datahub_t) outcome" where
  "datahub_send hub link m = (case m of None \<Rightarrow> Ret (-1, hub) | Some d \<Rightarrow> send_ref hub link d)"

text \<open>A value is sent only when it was printed; a format is sent in any case.\<close>

definition send_printed_value :: "u64 \<Rightarrow> datahub_t \<Rightarrow> addr_ref \<Rightarrow> bytes option \<Rightarrow> (int \<times> datahub_t) outcome" where
  "send_printed_value now hub link txt =
     (let (r, out) = data_printf (dh_output hub) txt; hub = hub\<lparr>dh_output := out\<rparr>
      in if r = 0 then send_output now hub link else Ret (r, hub))"

definition datahub_send_num :: "('d \<Rightarrow> string) \<Rightarrow> u64 \<Rightarrow> datahub_t \<Rightarrow> addr_ref \<Rightarrow> 'd \<Rightarrow> (int \<times> datahub_t) outcome" where
  "datahub_send_num fmt now hub link value = send_printed_value now hub link (Some (bytes_of (fmt value)))"

definition datahub_send_str :: "u64 \<Rightarrow> datahub_t \<Rightarrow> addr_ref \<Rightarrow> string \<Rightarrow> (int \<times> datahub_t) outcome" where
  "datahub_send_str now hub link value =
     send_printed_value now hub link (Some (bytes_of ([chQUOTE] @ escape_string value @ [chQUOTE])))"

definition datahub_send_obj :: "u64 \<Rightarrow> datahub_t \<Rightarrow> addr_ref \<Rightarrow> bytes option \<Rightarrow> (int \<times> datahub_t) outcome" where
  "datahub_send_obj now hub link json =
     (let (r, out) = data_serialise (dh_output hub) json; hub = hub\<lparr>dh_output := out\<rparr>
      in if r \<noteq> 0 then Ret (r, hub) else send_output now hub link)"

definition datahub_send_f :: "u64 \<Rightarrow> datahub_t \<Rightarrow> addr_ref \<Rightarrow> bytes option \<Rightarrow> (int \<times> datahub_t) outcome" where
  "datahub_send_f now hub link txt =
     send_output now (hub\<lparr>dh_output := snd (data_vprintf (dh_output hub) txt)\<rparr>) link"

definition datahub_send_v :: "u64 \<Rightarrow> datahub_t \<Rightarrow> addr_ref \<Rightarrow> bytes option \<Rightarrow> (int \<times> datahub_t) outcome" where
  "datahub_send_v now hub link txt = datahub_send_f now hub link txt"

definition datahub_send_bin :: "u64 \<Rightarrow> datahub_t \<Rightarrow> addr_ref \<Rightarrow> bytes \<Rightarrow> int \<Rightarrow> (int \<times> datahub_t) outcome" where
  "datahub_send_bin now hub link bs len =
     bind_out (data_set_data (Some (dh_output hub)) (Some bs) len) (\<lambda>out. bind_out (deref out) (\<lambda>out.
       send_output now (hub\<lparr>dh_output := out\<rparr>) link))"

subsection \<open>Broadcasting\<close>

text \<open>The links that failed are collected in front of \<open>rm\<close>.\<close>

fun broadcast_loop :: "ptr option \<Rightarrow> data_t \<Rightarrow> ptr list \<Rightarrow> ptr list \<Rightarrow> datahub_t \<Rightarrow> (ptr list \<times> datahub_t) outcome" where
  "broadcast_loop exclude d rm [] hub = Ret (rm, hub)"
| "broadcast_loop exclude d rm (p # ps) hub =
     (if Some p = exclude then broadcast_loop exclude d rm ps hub
      else bind_out (deref (dh_heap hub p)) (\<lambda>a.
        let (err, hub) = hub_sendto hub a d
        in broadcast_loop exclude d (if err \<noteq> 0 then p # rm else rm) ps hub))"

definition broadcast_packet :: "datahub_t \<Rightarrow> ptr option \<Rightarrow> data_t \<Rightarrow> (int \<times> datahub_t) outcome" where
  "broadcast_packet hub exclude d =
     bind_out (broadcast_loop exclude d [] (dh_links hub) hub) (\<lambda>(rm, hub).
       Ret (0, hub\<lparr>dh_links := fold (\<lambda>p l. list_remove l p) rm (dh_links hub)\<rparr>))"

definition broadcast_output :: "u64 \<Rightarrow> datahub_t \<Rightarrow> ptr option \<Rightarrow> (int \<times> datahub_t) outcome" where
  "broadcast_output now hub exclude =
     (let hub = hub\<lparr>dh_output := data_set_timestamp (dh_output hub) now\<rparr>
      in broadcast_packet hub exclude (dh_output hub))"

definition datahub_broadcast :: "datahub_t \<Rightarrow> ptr option \<Rightarrow> data_t \<Rightarrow> (int \<times> datahub_t) outcome" where
  "datahub_broadcast hub exclude d = broadcast_packet hub exclude d"

definition broadcast_printed :: "u64 \<Rightarrow> datahub_t \<Rightarrow> ptr option \<Rightarrow> bytes option \<Rightarrow> (int \<times> datahub_t) outcome" where
  "broadcast_printed now hub exclude txt =
     (let (r, out) = data_printf (dh_output hub) txt; hub = hub\<lparr>dh_output := out\<rparr>
      in if r = 0 then broadcast_output now hub exclude else Ret (r, hub))"

definition datahub_broadcast_num ::
  "('d \<Rightarrow> string) \<Rightarrow> u64 \<Rightarrow> datahub_t \<Rightarrow> ptr option \<Rightarrow> 'd \<Rightarrow> (int \<times> datahub_t) outcome" where
  "datahub_broadcast_num fmt now hub exclude value = broadcast_printed now hub exclude (Some (bytes_of (fmt value)))"

definition datahub_broadcast_str ::
  "u64 \<Rightarrow> datahub_t \<Rightarrow> ptr option \<Rightarrow> string \<Rightarrow> (int \<times> datahub_t) outcome" where
  "datahub_broadcast_str now hub exclude value =
     broadcast_printed now hub exclude (Some (bytes_of ([chQUOTE] @ escape_string value @ [chQUOTE])))"

definition datahub_broadcast_obj ::
  "u64 \<Rightarrow> datahub_t \<Rightarrow> ptr option \<Rightarrow> bytes option \<Rightarrow> (int \<times> datahub_t) outcome" where
  "datahub_broadcast_obj now hub exclude json =
     (let (r, out) = data_serialise (dh_output hub) json; hub = hub\<lparr>dh_output := out\<rparr>
      in if r \<noteq> 0 then Ret (r, hub) else broadcast_output now hub exclude)"

definition datahub_broadcast_f ::
  "u64 \<Rightarrow> datahub_t \<Rightarrow> ptr option \<Rightarrow> bytes option \<Rightarrow> (int \<times> datahub_t) outcome" where
  "datahub_broadcast_f now hub exclude txt =
     broadcast_output now (hub\<lparr>dh_output := snd (data_vprintf (dh_output hub) txt)\<rparr>) exclude"

definition datahub_broadcast_v ::
  "u64 \<Rightarrow> datahub_t \<Rightarrow> ptr option \<Rightarrow> bytes option \<Rightarrow> (int \<times> datahub_t) outcome" where
  "datahub_broadcast_v now hub exclude txt = datahub_broadcast_f now hub exclude txt"

definition datahub_broadcast_bin ::
  "u64 \<Rightarrow> datahub_t \<Rightarrow> ptr option \<Rightarrow> bytes \<Rightarrow> int \<Rightarrow> (int \<times> datahub_t) outcome" where
  "datahub_broadcast_bin now hub exclude bs len =
     bind_out (data_set_data (Some (dh_output hub)) (Some bs) len) (\<lambda>out. bind_out (deref out) (\<lambda>out.
       broadcast_output now (hub\<lparr>dh_output := out\<rparr>) exclude))"

subsection \<open>Reading\<close>

text \<open>
  One packet is read for every link of the list, into the input of the hub and with the sender's
  address over the link's own; a link for which that fails is removed and freed.
\<close>

definition hub_read_link :: "datahub_t \<Rightarrow> ptr \<Rightarrow> datahub_t outcome" where
  "hub_read_link hub p =
     bind_out (deref (dh_heap hub p)) (\<lambda>a.
       let (err, d, a, s) = udp_recv (dh_socket hub) (dh_input hub) a;
           hub = hub\<lparr>dh_socket := s, dh_heap := (dh_heap hub)(p \<mapsto> a), dh_input := d\<rparr>
       in Ret (if err = 0 then (if dh_ondata hub then hub\<lparr>dh_calls := dh_calls hub @ [(p, a, d)]\<rparr> else hub)
               else hub\<lparr>dh_links := list_remove (dh_links hub) p, dh_heap := (dh_heap hub)(p := None)\<rparr>))"

fun hub_read_loop :: "ptr list \<Rightarrow> datahub_t \<Rightarrow> datahub_t outcome" where
  "hub_read_loop [] hub = Ret hub"
| "hub_read_loop (p # ps) hub = bind_out (hub_read_link hub p) (hub_read_loop ps)"

definition datahub_read :: "datahub_t \<Rightarrow> datahub_t outcome" where
  "datahub_read hub = hub_read_loop (dh_links hub) hub"

text \<open>A turn of the thread; \<open>quit\<close> is what app_quit answers.\<close>

definition datahub_run_data :: "bool \<Rightarrow> datahub_t \<Rightarrow> datahub_t outcome" where
  "datahub_run_data quit hub =
     (if quit \<or> dh_quit hub then Ret hub
      else let (w, s) = udp_socket_wait_data (dh_socket hub) 1; hub = hub\<lparr>dh_socket := s\<rparr>
           in if w = 1 then datahub_read hub else Ret hub)"

section \<open>Steps\<close>

inductive datahub_step :: "datahub_t \<Rightarrow> datahub_t \<Rightarrow> bool" where
  step_add: "dh_heap hub p = None \<Longrightarrow> datahub_add_link hub p addr = Ret (r, hub') \<Longrightarrow> datahub_step hub hub'"
| step_remove: "datahub_remove_link hub addr = Ret (r, hub') \<Longrightarrow> datahub_step hub hub'"
| step_send: "send_ref hub link d = Ret (r, hub') \<Longrightarrow> datahub_step hub hub'"
| step_output: "datahub_step hub (hub\<lparr>dh_output := d\<rparr>)"
| step_broadcast: "datahub_broadcast hub exclude d = Ret (r, hub') \<Longrightarrow> datahub_step hub hub'"
| step_read: "datahub_run_data quit hub = Ret hub' \<Longrightarrow> datahub_step hub hub'"

inductive datahub_reachable :: "datahub_t \<Rightarrow> bool" where
  reach_new: "new_datahub socket onbroadcast ondata = Some hub \<Longrightarrow> datahub_reachable hub"
| reach_step: "datahub_reachable hub \<Longrightarrow> datahub_step hub hub' \<Longrightarrow> datahub_reachable hub'"

section \<open>The invariant\<close>

definition links_ok :: "datahub_t \<Rightarrow> bool" where
  "links_ok hub \<longleftrightarrow> distinct (dh_links hub) \<and> (\<forall>p \<in> set (dh_links hub). dh_heap hub p \<noteq> None)"

lemma links_ok_removed: "links_ok hub \<Longrightarrow> links_ok (hub\<lparr>dh_links := list_remove (dh_links hub) p\<rparr>)"
  by (auto simp: links_ok_def list_remove_def dest: in_set_remove1)

lemma find_link_defined:
  "\<forall>p \<in> set ps. heap p \<noteq> None \<Longrightarrow> \<exists>r. find_link heap ps addr = Ret r \<and> (\<forall>p. r = Some p \<longrightarrow> p \<in> set ps)"
  by (induction ps) auto

lemma find_defined:
  "links_ok hub \<Longrightarrow> \<exists>r. datahub_find hub addr = Ret r \<and> (\<forall>p. r = Some p \<longrightarrow> p \<in> set (dh_links hub))"
  using find_link_defined [of "dh_links hub" "dh_heap hub"] by (simp add: links_ok_def datahub_find_def)

lemma hub_sendto_keeps:
  "hub_sendto hub a d = (e, hub') \<Longrightarrow> dh_links hub' = dh_links hub \<and> dh_heap hub' = dh_heap hub \<and> dh_output hub' = dh_output hub"
  by (auto simp: hub_sendto_def split: prod.splits)

lemma send_ref_ok: "send_ref hub link d = Ret (r, hub') \<Longrightarrow> links_ok hub \<Longrightarrow> links_ok hub'"
proof (cases link)
  case NullAddr
  assume "send_ref hub link d = Ret (r, hub')" "links_ok hub"
  with NullAddr show ?thesis by (simp add: send_ref_def)
next
  case (LinkAddr p)
  assume a: "send_ref hub link d = Ret (r, hub')" "links_ok hub"
  then obtain ad e h where s: "dh_heap hub p = Some ad" "hub_sendto hub ad d = (e, h)"
    and h: "hub' = (if e \<noteq> 0 then h\<lparr>dh_links := list_remove (dh_links h) p\<rparr> else h)"
    using LinkAddr by (auto simp: send_ref_def outcome_simps deref_def split: option.splits prod.splits if_splits)
  have "links_ok h" using hub_sendto_keeps [OF s(2)] a(2) by (simp add: links_ok_def)
  with h links_ok_removed show ?thesis by simp
next
  case (OwnAddr ad)
  assume a: "send_ref hub link d = Ret (r, hub')" "links_ok hub"
  with OwnAddr obtain e where "hub_sendto hub ad d = (e, hub')"
    by (auto simp: send_ref_def split: prod.splits)
  from hub_sendto_keeps [OF this] a(2) show ?thesis by (simp add: links_ok_def)
qed

subsection \<open>Broadcasts\<close>

text \<open>What sendto answers to a number of calls.\<close>

fun answers :: "nat \<Rightarrow> bool list \<Rightarrow> bool list" where
  "answers 0 oks = []"
| "answers (Suc n) [] = True # answers n []"
| "answers (Suc n) (b # bs) = b # answers n bs"

lemma length_answers [simp]: "length (answers n oks) = n"
  by (induction n oks rule: answers.induct) simp_all

text \<open>The outcome of a broadcast for every target.\<close>

definition outcomes :: "datahub_t \<Rightarrow> ptr option \<Rightarrow> (ptr \<times> bool) list" where
  "outcomes hub exclude =
     (let targets = filter (\<lambda>p. Some p \<noteq> exclude) (dh_links hub)
      in zip targets (answers (length targets) (un_oks (dh_socket hub))))"

lemma hub_sendto_split:
  "\<exists>ok oks. hub_sendto hub a d = (if ok then 0 else -1, hub\<lparr>dh_socket := (dh_socket hub)\<lparr>un_oks := oks,
        un_tx := un_tx (dh_socket hub) @ (if ok then [(a, udp_datagram d)] else [])\<rparr>\<rparr>)
     \<and> (\<forall>n. answers (Suc n) (un_oks (dh_socket hub)) = ok # answers n oks)"
proof (cases "un_oks (dh_socket hub)")
  case Nil
  then show ?thesis
    by (intro exI [of _ True] exI [of _ "[]"]) (simp add: hub_sendto_def udp_send_def udp_socket_send_def)
next
  case (Cons b bs)
  then show ?thesis
    by (intro exI [of _ b] exI [of _ bs]) (cases b; simp add: hub_sendto_def udp_send_def udp_socket_send_def)
qed

lemma broadcast_loop_eq:
  assumes "\<forall>p \<in> set ps. dh_heap hub p \<noteq> None"
  shows "\<exists>oks. broadcast_loop exclude d rm ps hub = Ret
     (rev (map fst (filter (\<lambda>(p, ok). \<not> ok) (zip (filter (\<lambda>p. Some p \<noteq> exclude) ps)
          (answers (length (filter (\<lambda>p. Some p \<noteq> exclude) ps)) (un_oks (dh_socket hub)))))) @ rm,
      hub\<lparr>dh_socket := (dh_socket hub)\<lparr>un_oks := oks, un_tx := un_tx (dh_socket hub)
        @ map (\<lambda>(p, ok). (the (dh_heap hub p), udp_datagram d))
            (filter snd (zip (filter (\<lambda>p. Some p \<noteq> exclude) ps)
               (answers (length (filter (\<lambda>p. Some p \<noteq> exclude) ps)) (un_oks (dh_socket hub)))))\<rparr>\<rparr>)"
  using assms
proof (induction ps arbitrary: rm hub)
  case Nil
  show ?case by (intro exI [of _ "un_oks (dh_socket hub)"]) simp
next
  case (Cons p ps)
  show ?case
  proof (cases "Some p = exclude")
    case True
    with Cons show ?thesis by simp
  next
    case False
    obtain a where a: "dh_heap hub p = Some a" using Cons.prems by auto
    let ?s = "dh_socket hub"
    obtain ok oks0 where s: "hub_sendto hub a d = (if ok then 0 else -1, hub\<lparr>dh_socket := ?s\<lparr>un_oks := oks0,
        un_tx := un_tx ?s @ (if ok then [(a, udp_datagram d)] else [])\<rparr>\<rparr>)"
      and ans: "\<And>n. answers (Suc n) (un_oks ?s) = ok # answers n oks0"
      using hub_sendto_split [of hub a d] by blast
    let ?hub = "hub\<lparr>dh_socket := ?s\<lparr>un_oks := oks0, un_tx := un_tx ?s @ (if ok then [(a, udp_datagram d)] else [])\<rparr>\<rparr>"
    have "\<forall>p \<in> set ps. dh_heap ?hub p \<noteq> None" using Cons.prems by simp
    from Cons.IH [OF this, of "if ok then rm else p # rm"] obtain oks where
      "broadcast_loop exclude d (if ok then rm else p # rm) ps ?hub = Ret
       (rev (map fst (filter (\<lambda>(p, ok). \<not> ok) (zip (filter (\<lambda>p. Some p \<noteq> exclude) ps)
            (answers (length (filter (\<lambda>p. Some p \<noteq> exclude) ps)) oks0)))) @ (if ok then rm else p # rm),
        ?hub\<lparr>dh_socket := (dh_socket ?hub)\<lparr>un_oks := oks, un_tx := un_tx (dh_socket ?hub)
          @ map (\<lambda>(p, ok). (the (dh_heap hub p), udp_datagram d))
              (filter snd (zip (filter (\<lambda>p. Some p \<noteq> exclude) ps)
                 (answers (length (filter (\<lambda>p. Some p \<noteq> exclude) ps)) oks0)))\<rparr>\<rparr>)"
      by auto
    with False a show ?thesis
      by (intro exI [of _ oks]) (cases ok; simp add: s ans)
  qed
qed

lemma fold_remove:
  "distinct l \<Longrightarrow> fold (\<lambda>p l. list_remove l p) rm l = filter (\<lambda>p. p \<notin> set rm) l"
proof (induction rm arbitrary: l)
  case (Cons p rm)
  then have "fold (\<lambda>p l. list_remove l p) rm (remove1 p l) = filter (\<lambda>p. p \<notin> set rm) (remove1 p l)" by simp
  moreover have "remove1 p l = filter (\<lambda>q. q \<noteq> p) l"
    using Cons.prems by (induction l) (auto intro: filter_True [symmetric])
  ultimately show ?case by (simp add: list_remove_def)
qed simp

text \<open>A broadcast reports success, whatever happens.\<close>

lemma broadcast_packet_eq:
  assumes "links_ok hub"
  shows "\<exists>oks. broadcast_packet hub exclude d = Ret (0, hub\<lparr>
      dh_socket := (dh_socket hub)\<lparr>un_oks := oks, un_tx := un_tx (dh_socket hub)
         @ map (\<lambda>(p, ok). (the (dh_heap hub p), udp_datagram d)) (filter snd (outcomes hub exclude))\<rparr>,
      dh_links := filter (\<lambda>p. (p, False) \<notin> set (outcomes hub exclude)) (dh_links hub)\<rparr>)"
proof -
  have v: "\<forall>p \<in> set (dh_links hub). dh_heap hub p \<noteq> None" and d: "distinct (dh_links hub)"
    using assms by (simp_all add: links_ok_def)
  from broadcast_loop_eq [OF v, of exclude d "[]"] obtain oks where
    b: "broadcast_loop exclude d [] (dh_links hub) hub = Ret
     (rev (map fst (filter (\<lambda>(p, ok). \<not> ok) (outcomes hub exclude))),
      hub\<lparr>dh_socket := (dh_socket hub)\<lparr>un_oks := oks, un_tx := un_tx (dh_socket hub)
        @ map (\<lambda>(p, ok). (the (dh_heap hub p), udp_datagram d)) (filter snd (outcomes hub exclude))\<rparr>\<rparr>)"
    by (auto simp: outcomes_def Let_def)
  have "set (rev (map fst (filter (\<lambda>(p, ok). \<not> ok) (outcomes hub exclude)))) = {p. (p, False) \<in> set (outcomes hub exclude)}"
    by force
  with b show ?thesis by (intro exI [of _ oks]) (simp add: broadcast_packet_def fold_remove [OF d])
qed

lemma broadcast_ok: "datahub_broadcast hub exclude d = Ret (r, hub') \<Longrightarrow> links_ok hub \<Longrightarrow> links_ok hub'"
  using broadcast_packet_eq [of hub exclude d] by (auto simp: datahub_broadcast_def links_ok_def)

subsection \<open>Reading\<close>

text \<open>The packets and senders a hub reads: one for every link.\<close>

lemma udp_recv_Cons:
  "un_rx s = Some (bs, sender) # rs \<Longrightarrow> \<exists>d'. udp_recv s d a = (0, d', sender, s\<lparr>un_rx := rs\<rparr>)"
  by (simp add: udp_recv_def udp_socket_read_def Let_def)

lemma read_loop_senders:
  assumes "distinct ps" "\<forall>p \<in> set ps. dh_heap hub p \<noteq> None" "un_rx (dh_socket hub) = map Some msgs @ rest"
    "length msgs = length ps"
  shows "\<exists>hub'. hub_read_loop ps hub = Ret hub' \<and> dh_links hub' = dh_links hub
     \<and> (\<forall>p. p \<notin> set ps \<longrightarrow> dh_heap hub' p = dh_heap hub p)
     \<and> map (dh_heap hub') ps = map (\<lambda>(bs, sender). Some sender) msgs \<and> un_oks (dh_socket hub') = un_oks (dh_socket hub)
     \<and> un_tx (dh_socket hub') = un_tx (dh_socket hub)"
  using assms
proof (induction ps arbitrary: hub msgs)
  case (Cons p ps)
  obtain bs sender ms where m: "msgs = (bs, sender) # ms" "length ms = length ps"
    using Cons.prems(4) by (cases msgs) auto
  obtain a where a: "dh_heap hub p = Some a" using Cons.prems(2) by auto
  obtain d' where r: "udp_recv (dh_socket hub) (dh_input hub) a
      = (0, d', sender, (dh_socket hub)\<lparr>un_rx := map Some ms @ rest\<rparr>)"
    using udp_recv_Cons [of "dh_socket hub" bs sender "map Some ms @ rest"] Cons.prems(3) m(1) by fastforce
  let ?hub = "hub\<lparr>dh_socket := (dh_socket hub)\<lparr>un_rx := map Some ms @ rest\<rparr>, dh_heap := (dh_heap hub)(p \<mapsto> sender),
      dh_input := d', dh_calls := (if dh_ondata hub then dh_calls hub @ [(p, sender, d')] else dh_calls hub)\<rparr>"
  have l: "hub_read_loop (p # ps) hub = hub_read_loop ps ?hub"
    using a r by (simp add: hub_read_link_def)
  have "\<forall>q \<in> set ps. dh_heap ?hub q \<noteq> None" "distinct ps" "p \<notin> set ps" using Cons.prems(1,2) by auto
  from Cons.IH [OF this(2,1) _ m(2)] obtain hub' where h: "hub_read_loop ps ?hub = Ret hub'"
    "dh_links hub' = dh_links hub" "\<forall>q. q \<notin> set ps \<longrightarrow> dh_heap hub' q = dh_heap ?hub q"
    "map (dh_heap hub') ps = map (\<lambda>(bs, sender). Some sender) ms" "un_oks (dh_socket hub') = un_oks (dh_socket hub)"
    "un_tx (dh_socket hub') = un_tx (dh_socket hub)"
    by auto
  with l m(1) \<open>p \<notin> set ps\<close> show ?case by simp
qed simp

lemma read_link_cases:
  assumes "dh_heap hub p \<noteq> None"
  shows "\<exists>h. hub_read_link hub p = Ret h \<and> (\<forall>q. q \<noteq> p \<longrightarrow> dh_heap h q = dh_heap hub q)
     \<and> (dh_links h = dh_links hub \<and> dh_heap h p \<noteq> None \<or> dh_links h = remove1 p (dh_links hub))"
proof -
  obtain a where a: "dh_heap hub p = Some a" using assms by auto
  obtain err d a' s where "udp_recv (dh_socket hub) (dh_input hub) a = (err, d, a', s)"
    by (cases "udp_recv (dh_socket hub) (dh_input hub) a")
  with a show ?thesis by (simp add: hub_read_link_def list_remove_def Let_def)
qed

lemma read_link_ok:
  assumes "hub_read_link hub p = Ret h" "links_ok hub"
  shows "links_ok h"
proof -
  have "dh_heap hub p \<noteq> None" using assms(1) by (cases "dh_heap hub p") (auto simp: hub_read_link_def)
  from read_link_cases [OF this] assms(1) have
    c: "\<forall>q. q \<noteq> p \<longrightarrow> dh_heap h q = dh_heap hub q"
      "dh_links h = dh_links hub \<and> dh_heap h p \<noteq> None \<or> dh_links h = remove1 p (dh_links hub)" by auto
  have d: "distinct (dh_links hub)" "\<forall>q \<in> set (dh_links hub). dh_heap hub q \<noteq> None"
    using assms(2) by (simp_all add: links_ok_def)
  from c(2) show ?thesis
  proof
    assume "dh_links h = dh_links hub \<and> dh_heap h p \<noteq> None"
    with c(1) d show ?thesis by (simp add: links_ok_def) metis
  next
    assume "dh_links h = remove1 p (dh_links hub)"
    with c(1) d show ?thesis by (simp add: links_ok_def set_remove1_eq)
  qed
qed

lemma hub_read_loop_ok: "hub_read_loop ps hub = Ret hub' \<Longrightarrow> links_ok hub \<Longrightarrow> links_ok hub'"
proof (induction ps arbitrary: hub)
  case (Cons p ps)
  then obtain h where h: "hub_read_link hub p = Ret h" "hub_read_loop ps h = Ret hub'" by (auto simp: outcome_simps)
  from Cons.IH [OF h(2) read_link_ok [OF h(1) Cons.prems(2)]] show ?case .
qed simp

lemma read_loop_defined:
  "distinct ps \<Longrightarrow> \<forall>p \<in> set ps. dh_heap hub p \<noteq> None \<Longrightarrow> \<exists>hub'. hub_read_loop ps hub = Ret hub'"
proof (induction ps arbitrary: hub)
  case (Cons p ps)
  then obtain h where h: "hub_read_link hub p = Ret h" "\<forall>q. q \<noteq> p \<longrightarrow> dh_heap h q = dh_heap hub q"
    using read_link_cases [of hub p] by auto
  have "\<forall>q \<in> set ps. dh_heap h q \<noteq> None" using h(2) Cons.prems by (metis distinct.simps(2) list.set_intros(2))
  with Cons.IH [of h] Cons.prems(1) h(1) show ?case by simp
qed simp

subsection \<open>All steps\<close>

lemma add_link_ok:
  assumes "datahub_add_link hub p addr = Ret (r, hub')" "dh_heap hub p = None" "links_ok hub"
  shows "links_ok hub'"
proof -
  have "p \<notin> set (dh_links hub)" using assms(2,3) by (auto simp: links_ok_def)
  with assms show ?thesis
    by (auto simp: datahub_add_link_def outcome_simps links_ok_def split: option.splits)
qed

lemma remove_link_ok: "datahub_remove_link hub addr = Ret (r, hub') \<Longrightarrow> links_ok hub \<Longrightarrow> links_ok hub'"
  by (auto simp: datahub_remove_link_def outcome_simps intro: links_ok_removed split: option.splits)

lemma run_data_ok: "datahub_run_data quit hub = Ret hub' \<Longrightarrow> links_ok hub \<Longrightarrow> links_ok hub'"
proof -
  assume a: "datahub_run_data quit hub = Ret hub'" "links_ok hub"
  obtain w s where w: "udp_socket_wait_data (dh_socket hub) 1 = (w, s)" by fastforce
  have "links_ok (hub\<lparr>dh_socket := s\<rparr>)" using a(2) by (simp add: links_ok_def)
  with a w hub_read_loop_ok [of "dh_links hub" "hub\<lparr>dh_socket := s\<rparr>"] show ?thesis
    by (auto simp: datahub_run_data_def datahub_read_def Let_def split: if_splits)
qed

lemma datahub_step_ok: "datahub_step hub hub' \<Longrightarrow> links_ok hub \<Longrightarrow> links_ok hub'"
proof (induction rule: datahub_step.induct)
  case (step_output hub d)
  then show ?case by (simp add: links_ok_def)
qed (blast intro: add_link_ok remove_link_ok send_ref_ok broadcast_ok run_data_ok)+

lemma datahub_reachable_ok: "datahub_reachable hub \<Longrightarrow> links_ok hub"
proof (induction rule: datahub_reachable.induct)
  case (reach_new socket onbroadcast ondata hub)
  then show ?case by (auto simp: new_datahub_def links_ok_def split: option.splits)
next
  case (reach_step hub hub')
  then show ?case by (blast intro: datahub_step_ok)
qed

lemma free_addrs_defined:
  "distinct ps \<Longrightarrow> \<forall>p \<in> set ps. heap p \<noteq> None \<Longrightarrow> free_addrs heap ps = Ret (\<lambda>p. if p \<in> set ps then None else heap p)"
proof (induction ps arbitrary: heap)
  case (Cons p ps)
  then obtain a where "heap p = Some a" by auto
  moreover have "\<forall>q \<in> set ps. (heap(p := None)) q \<noteq> None" using Cons.prems by auto
  moreover have "(\<lambda>q. if q \<in> set ps then None else (heap(p := None)) q) = (\<lambda>q. if q \<in> set (p # ps) then None else heap q)"
    by auto
  ultimately show ?case using Cons.prems(1) Cons.IH [of "heap(p := None)"] by (simp del: fun_upd_apply)
qed simp

section \<open>Properties\<close>

text \<open>The list of a data hub is always sound: in every state its operations reach, whatever the network
  answers, the links of the list are distinct and in memory, and adding, removing, broadcasting,
  reading and deleting are defined.\<close>

theorem datahub_links_valid:
  assumes "datahub_reachable hub"
  shows "distinct (dh_links hub) \<and> (\<forall>p \<in> set (dh_links hub). dh_heap hub p \<noteq> None)
     \<and> defined (datahub_add_link hub p addr) \<and> defined (datahub_remove_link hub addr)
     \<and> defined (datahub_broadcast hub exclude d) \<and> defined (datahub_run_data quit hub) \<and> defined (delete_datahub hub)"
proof -
  have ok: "links_ok hub" by (rule datahub_reachable_ok [OF assms])
  obtain r where r: "datahub_find hub addr = Ret r" using find_defined [OF ok] by blast
  obtain w s where w: "udp_socket_wait_data (dh_socket hub) 1 = (w, s)" by fastforce
  have "defined (datahub_run_data quit hub)"
    using read_loop_defined [of "dh_links hub" "hub\<lparr>dh_socket := s\<rparr>"] ok w
    by (auto simp: datahub_run_data_def datahub_read_def links_ok_def defined_iff Let_def)
  moreover have "defined (delete_datahub hub)"
    using ok by (simp add: delete_datahub_def links_ok_def free_addrs_defined)
  moreover have "defined (datahub_broadcast hub exclude d)"
    using broadcast_packet_eq [OF ok, of exclude d] by (auto simp: datahub_broadcast_def)
  ultimately show ?thesis
    using r ok by (cases r) (simp_all add: datahub_add_link_def datahub_remove_link_def links_ok_def)
qed

text \<open>C10. A broadcast packet arrives: it is sent once, in the order of the list, to every link but the
  excluded one for which the system takes it, the links it fails for are dropped and only those, and
  a data link that reads it gets the length, sequence number, time stamp and data of the packet.\<close>

theorem datahub_broadcast_received:
  assumes "datahub_reachable hub" "data_wf d" "datahub_broadcast hub exclude d = Ret (r, hub')"
    "packet_wf (dk_in link)" "(addr, datagram) \<in> set (drop (length (un_tx (dh_socket hub))) (un_tx (dh_socket hub')))"
    "dk_socket link = s\<lparr>un_rx := Some (datagram, sender) # rs, un_selects := []\<rparr>" "0 \<le> timeout"
  shows "drop (length (un_tx (dh_socket hub))) (un_tx (dh_socket hub'))
       = map (\<lambda>(p, ok). (the (dh_heap hub p), udp_datagram d)) (filter snd (outcomes hub exclude))
     \<and> dh_links hub' = filter (\<lambda>p. (p, False) \<notin> set (outcomes hub exclude)) (dh_links hub)
     \<and> (\<exists>link'. datalink_read link timeout = (True, RCOM_WAIT_OK, link') \<and> dlen (dk_in link') = dlen d
          \<and> seqnum (dp (dk_in link')) = seqnum (dp d) \<and> timestamp (dp (dk_in link')) = timestamp (dp d)
          \<and> take (nat (dlen d)) (pdata (dp (dk_in link'))) = take (nat (dlen d)) (pdata (dp d)))"
proof -
  obtain oks where b: "hub' = hub\<lparr>
      dh_socket := (dh_socket hub)\<lparr>un_oks := oks, un_tx := un_tx (dh_socket hub)
         @ map (\<lambda>(p, ok). (the (dh_heap hub p), udp_datagram d)) (filter snd (outcomes hub exclude))\<rparr>,
      dh_links := filter (\<lambda>p. (p, False) \<notin> set (outcomes hub exclude)) (dh_links hub)\<rparr>"
    using broadcast_packet_eq [OF datahub_reachable_ok [OF assms(1)], of exclude d] assms(3)
    by (auto simp: datahub_broadcast_def)
  have dg: "datagram = udp_datagram d" using assms(5) by (auto simp: b)
  have "udp_socket_send True d = (0, Some datagram)" by (simp add: udp_socket_send_def dg)
  from udp_packet_core [OF assms(2,4) this, of sender "\<lparr>sin_family = 0, sin_port = 0, sin_addr = 0\<rparr>"] obtain m where
    m: "udp_socket_read (Some (datagram, sender)) (dk_in link) \<lparr>sin_family = 0, sin_port = 0, sin_addr = 0\<rparr> = (0, m, sender)"
      "dlen m = dlen d" "seqnum (dp m) = seqnum (dp d)" "timestamp (dp m) = timestamp (dp d)"
      "take (nat (dlen d)) (pdata (dp m)) = take (nat (dlen d)) (pdata (dp d))" by blast
  have w: "udp_socket_wait_data (dk_socket link) timeout = (RCOM_WAIT_OK, dk_socket link)"
    using assms(6,7) by (simp add: udp_socket_wait_data_def posix_wait_data_def posix_wait_data_positive_def)
  have "datalink_read link timeout
      = (True, RCOM_WAIT_OK, link\<lparr>dk_socket := (dk_socket link)\<lparr>un_rx := rs\<rparr>, dk_in := m\<rparr>)"
    using w m(1) assms(6) by (simp add: datalink_read_def udp_recv_def)
  with m b show ?thesis by simp
qed

text \<open>C11. Reading forgets who the links are: a data hub reads one packet for every link, and the address of
  each becomes the address of whoever sent its packet; a link of which no packet came in that round
  gets none of the broadcasts that follow.\<close>

theorem datahub_read_overwrites_links:
  assumes "datahub_reachable hub" "un_rx (dh_socket hub) = map Some msgs @ rest" "length msgs = length (dh_links hub)"
    "lost \<notin> snd ` set msgs"
  shows "\<exists>hub'. datahub_read hub = Ret hub' \<and> dh_links hub' = dh_links hub
     \<and> map (dh_heap hub') (dh_links hub') = map (\<lambda>(bs, sender). Some sender) msgs
     \<and> (\<exists>hub''. datahub_broadcast hub' None d = Ret (0, hub'')
          \<and> (\<forall>(addr, datagram) \<in> set (drop (length (un_tx (dh_socket hub'))) (un_tx (dh_socket hub''))). addr \<noteq> lost))"
proof -
  have ok: "links_ok hub" by (rule datahub_reachable_ok [OF assms(1)])
  obtain hub' where h: "hub_read_loop (dh_links hub) hub = Ret hub'" "dh_links hub' = dh_links hub"
    "map (dh_heap hub') (dh_links hub) = map (\<lambda>(bs, sender). Some sender) msgs"
    using read_loop_senders [OF _ _ assms(2,3)] ok by (auto simp: links_ok_def)
  have ok': "links_ok hub'" by (rule hub_read_loop_ok [OF h(1) ok])
  obtain oks where b: "broadcast_packet hub' None d = Ret (0, hub'\<lparr>
      dh_socket := (dh_socket hub')\<lparr>un_oks := oks, un_tx := un_tx (dh_socket hub')
         @ map (\<lambda>(p, ok). (the (dh_heap hub' p), udp_datagram d)) (filter snd (outcomes hub' None))\<rparr>,
      dh_links := filter (\<lambda>p. (p, False) \<notin> set (outcomes hub' None)) (dh_links hub')\<rparr>)"
    using broadcast_packet_eq [OF ok', of None d] by blast
  have "the (dh_heap hub' p) \<noteq> lost" if "p \<in> set (dh_links hub)" for p
  proof -
    have "dh_heap hub' p \<in> set (map (dh_heap hub') (dh_links hub))" using that by simp
    then have "dh_heap hub' p \<in> (\<lambda>(bs, sender). Some sender) ` set msgs" unfolding h(3) by simp
    with assms(4) show ?thesis by force
  qed
  moreover have "p \<in> set (dh_links hub)" if "(p, k) \<in> set (outcomes hub' None)" for p k
    using that h(2) by (auto simp: outcomes_def Let_def dest: set_zip_leftD)
  ultimately have "\<forall>(addr, datagram) \<in> set (map (\<lambda>(p, ok). (the (dh_heap hub' p), udp_datagram d))
      (filter snd (outcomes hub' None))). addr \<noteq> lost" by auto
  with h b show ?thesis by (simp add: datahub_read_def datahub_broadcast_def)
qed

text \<open>Two links, and a packet that goes out to both.\<close>

definition example_addr :: "u32 \<Rightarrow> addr_t" where
  "example_addr ip = \<lparr>sin_family = AF_INET, sin_port = 5, sin_addr = ip\<rparr>"

definition example_socket :: "(bytes \<times> addr_t) list \<Rightarrow> udp_t" where
  "example_socket msgs = \<lparr>un_open = True, un_rx = map Some msgs, un_selects = [], un_oks = [], un_tx = []\<rparr>"

definition example_datahub :: "(bytes \<times> addr_t) list \<Rightarrow> datahub_t" where
  "example_datahub msgs =
     (the (new_datahub (Some (example_socket msgs, example_addr 1)) False False))
       \<lparr>dh_links := [1, 2], dh_heap := (\<lambda>_. None)(1 \<mapsto> example_addr 7, 2 \<mapsto> example_addr 8)\<rparr>"

lemma example_addrs_differ: "\<not> addr_eq (example_addr 8) (example_addr 7)"
  by (simp add: addr_eq_iff example_addr_def)

lemma example_datahub_reachable: "datahub_reachable (example_datahub msgs)"
proof -
  let ?h0 = "the (new_datahub (Some (example_socket msgs, example_addr 1)) False False)"
  let ?h1 = "?h0\<lparr>dh_links := [1], dh_heap := (\<lambda>_. None)(1 \<mapsto> example_addr 7)\<rparr>"
  have "datahub_reachable ?h0"
    by (rule datahub_reachable.reach_new [of "Some (example_socket msgs, example_addr 1)" False False]) (simp add: new_datahub_def)
  moreover have "datahub_add_link ?h0 1 (example_addr 7) = Ret (0, ?h1)"
    by (simp add: datahub_add_link_def datahub_find_def new_datahub_def)
  ultimately have "datahub_reachable ?h1"
    by (rule datahub_reachable.reach_step [OF _ step_add [rotated]]) (simp add: new_datahub_def)
  moreover have "datahub_add_link ?h1 2 (example_addr 8) = Ret (0, example_datahub msgs)"
    by (simp add: datahub_add_link_def datahub_find_def example_addrs_differ example_datahub_def)
  ultimately show ?thesis
    by (rule datahub_reachable.reach_step [OF _ step_add [rotated]]) (simp add: new_datahub_def)
qed

theorem datahub_links_valid_witness:
  "dh_links (example_datahub []) = [1, 2] \<and> defined (datahub_run_data False (example_datahub []))
     \<and> defined (delete_datahub (example_datahub []))"
  using datahub_links_valid [OF example_datahub_reachable [of "[]"], where quit = False]
  by (simp add: example_datahub_def)

theorem datahub_broadcast_received_witness:
  "\<exists>hub' link link'. datahub_broadcast (example_datahub []) (Some 2) new_data = Ret (0, hub')
     \<and> un_tx (dh_socket hub') = [(example_addr 7, udp_datagram new_data)]
     \<and> datalink_read link 1 = (True, RCOM_WAIT_OK, link') \<and> dlen (dk_in link') = 0"
proof -
  let ?link = "the (new_datalink (Some (example_socket [(udp_datagram new_data, example_addr 1)], example_addr 7)) False)"
  let ?s = "example_socket []"
  obtain oks where b: "broadcast_packet (example_datahub []) (Some 2) new_data = Ret (0, (example_datahub [])\<lparr>
      dh_socket := (dh_socket (example_datahub []))\<lparr>un_oks := oks, un_tx := un_tx (dh_socket (example_datahub []))
         @ map (\<lambda>(p, ok). (the (dh_heap (example_datahub []) p), udp_datagram new_data))
             (filter snd (outcomes (example_datahub []) (Some 2)))\<rparr>,
      dh_links := filter (\<lambda>p. (p, False) \<notin> set (outcomes (example_datahub []) (Some 2))) (dh_links (example_datahub []))\<rparr>)"
    using broadcast_packet_eq [OF datahub_reachable_ok [OF example_datahub_reachable [of "[]"]], of "Some 2" new_data] by blast
  have o: "outcomes (example_datahub []) (Some 2) = [(1, True)]"
    by (simp add: outcomes_def example_datahub_def new_datahub_def example_socket_def)
  obtain hub' where h: "datahub_broadcast (example_datahub []) (Some 2) new_data = Ret (0, hub')"
    "un_tx (dh_socket hub') = [(example_addr 7, udp_datagram new_data)]"
    using b o by (simp add: datahub_broadcast_def example_datahub_def new_datahub_def example_socket_def)
  have l: "packet_wf (dk_in ?link)" "dk_socket ?link
      = ?s\<lparr>un_rx := Some (udp_datagram new_data, example_addr 1) # [], un_selects := []\<rparr>"
    using data_wf_new by (simp_all add: new_datalink_def data_wf_def example_socket_def)
  have m: "(example_addr 7, udp_datagram new_data)
      \<in> set (drop (length (un_tx (dh_socket (example_datahub [])))) (un_tx (dh_socket hub')))"
    by (simp add: h(2)) (simp add: example_datahub_def new_datahub_def example_socket_def)
  have "dlen new_data = 0" by (simp add: new_data_def)
  with datahub_broadcast_received [OF example_datahub_reachable data_wf_new h(1) l(1) m l(2), of 1] h show ?thesis
    by auto
qed

text \<open>The second link has sent nothing when two packets of the first arrive.\<close>

theorem datahub_read_overwrites_links_witness:
  "\<exists>hub'. datahub_read (example_datahub [([1], example_addr 7), ([2], example_addr 7)]) = Ret hub'
     \<and> map (dh_heap hub') (dh_links hub') = [Some (example_addr 7), Some (example_addr 7)]"
proof -
  let ?hub = "example_datahub [([1], example_addr 7), ([2], example_addr 7)]"
  have r: "un_rx (dh_socket ?hub) = map Some [([1], example_addr 7), ([2], example_addr 7)] @ []"
    "length [([1 :: u8], example_addr 7), ([2], example_addr 7)] = length (dh_links ?hub)"
    by (simp_all add: example_datahub_def new_datahub_def example_socket_def)
  have n: "example_addr 8 \<notin> snd ` set [([1 :: u8], example_addr 7), ([2], example_addr 7)]"
    by (simp add: example_addr_def)
  from datahub_read_overwrites_links [OF example_datahub_reachable r n, of new_data] show ?thesis
    by (elim exE conjE) (intro exI conjI, assumption, simp)
qed

end
