(* ===== verification/Dump.thy ===== *)
theory Dump
  imports Net Registry
begin

text \<open>
  Recorded data, dump.c: packets and raw buffers are written to a file with a header of four lines,
  and read back for a replay.  A stream of the C library is a record of the bytes of the file, of the
  position of the next read and of the number of bytes that still fit on the device; fwrite, fread and
  fgets are defined on it as the C standard documents them.  Opening a file is an argument: the stream
  fopen returns, or nothing.  Using a stream that is NULL is undefined.
\<close>

section \<open>Streams\<close>

record file_t =
  f_bytes :: bytes
  f_pos :: nat
  f_room :: nat

definition f_rest :: "file_t \<Rightarrow> bytes" where
  "f_rest f = drop (f_pos f) (f_bytes f)"

definition fwrite :: "bytes \<Rightarrow> file_t \<Rightarrow> nat \<times> file_t" where
  "fwrite bs f =
     (let k = min (length bs) (f_room f)
      in (k, f\<lparr>f_bytes := f_bytes f @ take k bs, f_room := f_room f - k\<rparr>))"

definition fread :: "nat \<Rightarrow> file_t \<Rightarrow> bytes \<times> file_t" where
  "fread n f = (take n (f_rest f), f\<lparr>f_pos := f_pos f + min n (length (f_rest f))\<rparr>)"

text \<open>fgets stops after a newline or after one byte less than the size of the buffer.\<close>

definition line_length :: "nat \<Rightarrow> bytes \<Rightarrow> nat" where
  "line_length cap bs = min (cap - 1) (length (takeWhile (\<lambda>b. b \<noteq> 10) bs) + 1)"

definition fgets :: "nat \<Rightarrow> file_t \<Rightarrow> bytes option \<times> file_t" where
  "fgets cap f =
     (if f_rest f = [] then (None, f)
      else case fread (line_length cap (f_rest f)) f of (bs, f) \<Rightarrow> (Some bs, f))"

section \<open>The configuration\<close>

record dump_config_t =
  dc_dumping :: int
  dc_dumping_dir :: "string option"
  dc_replay_id :: "string option"

definition set_dumping :: "int \<Rightarrow> dump_config_t \<Rightarrow> dump_config_t" where
  "set_dumping value c = c\<lparr>dc_dumping := value\<rparr>"

definition get_dumping :: "dump_config_t \<Rightarrow> int" where
  "get_dumping c = dc_dumping c"

definition set_dumping_dir :: "string option \<Rightarrow> dump_config_t \<Rightarrow> dump_config_t" where
  "set_dumping_dir path c =
     (let c = (if dc_dumping_dir c \<noteq> None then c\<lparr>dc_dumping_dir := None\<rparr> else c)
      in if path = None then c else c\<lparr>dc_dumping_dir := path\<rparr>)"

definition get_dumping_dir :: "dump_config_t \<Rightarrow> string option" where
  "get_dumping_dir c = dc_dumping_dir c"

definition set_replay_id :: "string option \<Rightarrow> dump_config_t \<Rightarrow> dump_config_t" where
  "set_replay_id ident c =
     (let c = (if dc_replay_id c \<noteq> None then c\<lparr>dc_replay_id := None\<rparr> else c)
      in if ident = None then c else c\<lparr>dc_replay_id := ident\<rparr>)"

definition get_replay_id :: "dump_config_t \<Rightarrow> string option" where
  "get_replay_id c = dc_replay_id c"

definition do_replay :: "dump_config_t \<Rightarrow> bool" where
  "do_replay c \<longleftrightarrow> dc_replay_id c \<noteq> None"

section \<open>Dumps\<close>

record dump_t =
  du_fp :: "file_t option"
  du_name :: "string option"
  du_type :: int
  du_topic :: "string option"
  du_mimetype :: "string option"
  du_offset :: u32

definition new_dump :: dump_t where
  "new_dump = \<lparr>du_fp = None, du_name = None, du_type = 0, du_topic = None, du_mimetype = None,
               du_offset = 0\<rparr>"

text \<open>The stream that delete_dump closes, if any.\<close>

definition delete_dump :: "dump_t option \<Rightarrow> file_t option" where
  "delete_dump dump = (case dump of None \<Rightarrow> None | Some d \<Rightarrow> du_fp d)"

definition dump_type :: "dump_t \<Rightarrow> int" where
  "dump_type dump = du_type dump"

definition dump_path :: "dump_config_t \<Rightarrow> string \<Rightarrow> int \<Rightarrow> string \<Rightarrow> string \<Rightarrow> string" where
  "dump_path c name type topic now =
     (let stype = registry_type_to_str type;
          file = name @ ''-'' @ stype @ ''-'' @ topic @ ''-'' @ now @ ''.dump''
      in case dc_dumping_dir c of
           None \<Rightarrow> snprintf 1024 file
         | Some dir \<Rightarrow> snprintf 1024 (dir @ ''/'' @ file))"

definition dump_header :: "string \<Rightarrow> int \<Rightarrow> string \<Rightarrow> string \<Rightarrow> string" where
  "dump_header name type topic mimetype =
     name @ [chLF] @ registry_type_to_str type @ [chLF] @ topic @ [chLF] @ mimetype @ [chLF]"

definition dump_create ::
    "dump_config_t \<Rightarrow> (string \<Rightarrow> file_t option) \<Rightarrow> string \<Rightarrow> string \<Rightarrow> int \<Rightarrow> string \<Rightarrow> string
     \<Rightarrow> dump_t option" where
  "dump_create c fopen now name type topic mimetype =
     (let dump = new_dump\<lparr>du_name := Some name, du_type := type, du_topic := Some topic,
                          du_mimetype := Some mimetype\<rparr>
      in case fopen (dump_path c name type topic now) of
           None \<Rightarrow> None
         | Some f \<Rightarrow>
             Some (dump\<lparr>du_fp := Some (snd (fwrite (bytes_of (dump_header name type topic mimetype)) f))\<rparr>))"

text \<open>A line of the header, up to the newline, as a C string.\<close>

definition header_line :: "bytes \<Rightarrow> string" where
  "header_line bs = takeWhile (\<lambda>ch. ch \<noteq> chLF) (string_of (takeWhile (\<lambda>b. b \<noteq> 0) bs))"

text \<open>The stream that was opened is not stored in the dump.\<close>

definition dump_open :: "(string \<Rightarrow> file_t option) \<Rightarrow> string \<Rightarrow> dump_t option" where
  "dump_open fopen path =
     (case fopen path of
        None \<Rightarrow> None
      | Some f \<Rightarrow>
          case fgets 128 f of
            (None, f) \<Rightarrow> None
          | (Some name, f) \<Rightarrow>
              case fgets 128 f of
                (None, f) \<Rightarrow> None
              | (Some stype, f) \<Rightarrow>
                  case fgets 128 f of
                    (None, f) \<Rightarrow> None
                  | (Some topic, f) \<Rightarrow>
                      case fgets 128 f of
                        (None, f) \<Rightarrow> None
                      | (Some mimetype, f) \<Rightarrow>
                          Some (new_dump\<lparr>du_name := Some (header_line name),
                                         du_type := registry_str_to_type (header_line stype),
                                         du_topic := Some (header_line topic),
                                         du_mimetype := Some (header_line mimetype)\<rparr>))"

definition dump_write :: "dump_t \<Rightarrow> bytes \<Rightarrow> (int \<times> dump_t) outcome" where
  "dump_write dump bs =
     bind_out (deref (du_fp dump)) (\<lambda>f.
       case fwrite bs f of
         (s, f) \<Rightarrow> Ret (if s \<noteq> length bs then -1 else 0, dump\<lparr>du_fp := Some f\<rparr>))"

text \<open>The bytes that were read are stored also when there are too few of them.\<close>

definition dump_read :: "dump_t \<Rightarrow> nat \<Rightarrow> (int \<times> bytes \<times> dump_t) outcome" where
  "dump_read dump n =
     bind_out (deref (du_fp dump)) (\<lambda>f.
       case fread n f of
         (bs, f) \<Rightarrow> Ret (if length bs \<noteq> n then -1 else 0, bs, dump\<lparr>du_fp := Some f\<rparr>))"

definition dump_write_buffer :: "dump_t \<Rightarrow> bytes \<Rightarrow> (int \<times> dump_t) outcome" where
  "dump_write_buffer dump buffer = dump_write dump buffer"

definition dump_read_buffer :: "dump_t \<Rightarrow> nat \<Rightarrow> (int \<times> bytes \<times> dump_t) outcome" where
  "dump_read_buffer dump n = dump_read dump n"

definition dump_write_data :: "dump_t \<Rightarrow> data_t \<Rightarrow> (int \<times> dump_t) outcome" where
  "dump_write_data dump d =
     (let n = word_of_int (PACKET_HEADER + data_len (Some d)) :: u32;
          b = [ucast (drop_bit 24 (n AND 0xff000000)), ucast (drop_bit 16 (n AND 0x00ff0000)),
               ucast (drop_bit 8 (n AND 0x0000ff00)), ucast (n AND 0x000000ff)]
      in bind_out (dump_write dump b) (\<lambda>(err, dump).
           if err \<noteq> 0 then Ret (err, dump)
           else if unat n > length (data_packet d) then Undef
           else dump_write dump (take (unat n) (data_packet d))))"

definition read_length :: "bytes \<Rightarrow> u32" where
  "read_length b = push_bit 24 (ucast (b ! 0)) OR push_bit 16 (ucast (b ! 1))
                   OR push_bit 8 (ucast (b ! 2)) OR ucast (b ! 3)"

definition dump_read_data :: "dump_t \<Rightarrow> data_t \<Rightarrow> (int \<times> data_t \<times> dump_t) outcome" where
  "dump_read_data dump d =
     bind_out (dump_read dump 4) (\<lambda>(err, b, dump).
       if err \<noteq> 0 then Ret (err, d, dump)
       else let n = read_length b
            in if DATA_MAXLEN < uint n then Ret (-1, d, dump)
               else bind_out (dump_read_buffer dump (unat n)) (\<lambda>(err, bs, dump).
                 let d = d\<lparr>dp := unpack (blit (data_packet d) 0 bs)\<rparr>
                 in if err \<noteq> 0 then Ret (err, d, dump)
                    else Ret (0, data_set_len d (sint (n - 12)), dump)))"

section \<open>Reading back what was written\<close>

lemma fwrite_all:
  "length bs \<le> f_room f \<Longrightarrow>
   fwrite bs f = (length bs, f\<lparr>f_bytes := f_bytes f @ bs, f_room := f_room f - length bs\<rparr>)"
  by (simp add: fwrite_def Let_def)

lemma fread_prefix:
  "f_rest f = bs @ rest \<Longrightarrow> length bs = n \<Longrightarrow>
   fread n f = (bs, f\<lparr>f_pos := f_pos f + n\<rparr>) \<and> f_rest (f\<lparr>f_pos := f_pos f + n\<rparr>) = rest"
  by (simp add: fread_def f_rest_def add.commute [of "f_pos f"] flip: drop_drop)

lemma dump_write_zero:
  "dump_write w bs = Ret (0, w') \<longleftrightarrow>
   (\<exists>f. du_fp w = Some f \<and> length bs \<le> f_room f
     \<and> w' = w\<lparr>du_fp := Some (f\<lparr>f_bytes := f_bytes f @ bs, f_room := f_room f - length bs\<rparr>)\<rparr>)"
  by (cases "du_fp w") (auto simp: dump_write_def fwrite_def Let_def min_def)

lemma dump_read_prefix:
  "du_fp r = Some f \<Longrightarrow> f_rest f = bs @ rest \<Longrightarrow> length bs = n \<Longrightarrow>
   \<exists>f'. dump_read r n = Ret (0, bs, r\<lparr>du_fp := Some f'\<rparr>) \<and> f_rest f' = rest"
  using fread_prefix [of f bs rest n] by (auto simp: dump_read_def)

definition length_bytes :: "u32 \<Rightarrow> bytes" where
  "length_bytes n = [ucast (drop_bit 24 n), ucast (drop_bit 16 n), ucast (drop_bit 8 n), ucast n]"

lemma length_length_bytes [simp]: "length (length_bytes n) = 4"
  by (simp add: length_bytes_def)

lemma read_length_bytes [simp]: "read_length (length_bytes n) = n"
  by (simp add: read_length_def length_bytes_def ucast_byte byte_joins64 or.assoc take_bit_word_eq_self)

lemma uint_u32: "0 \<le> i \<Longrightarrow> i < 2 ^ 32 \<Longrightarrow> uint (word_of_int i :: u32) = i"
  by (simp add: unsigned_of_int take_bit_int_eq_self)

text \<open>The bytes of a recorded packet.\<close>

definition recorded :: "data_t \<Rightarrow> bytes" where
  "recorded d = length_bytes (word_of_int (12 + dlen d)) @ take (nat (12 + dlen d)) (data_packet d)"

lemma dump_write_data_zero:
  assumes "data_wf d"
  shows "dump_write_data w d = Ret (0, w') \<longleftrightarrow>
   (\<exists>f. du_fp w = Some f \<and> length (recorded d) \<le> f_room f
     \<and> w' = w\<lparr>du_fp := Some (f\<lparr>f_bytes := f_bytes f @ recorded d, f_room := f_room f - length (recorded d)\<rparr>)\<rparr>)"
    (is "?l = ?r")
proof -
  let ?n = "word_of_int (12 + dlen d) :: u32"
  have n: "unat ?n = nat (12 + dlen d)" "nat (12 + dlen d) \<le> 1432"
    using assms uint_u32 [of "12 + dlen d"] by (auto simp: data_wf_def unat_eq_nat_uint simp del: of_int_add)
  have len: "length (data_packet d) = 1432" using assms by (simp add: data_wf_def length_data_packet)
  let ?p = "take (nat (12 + dlen d)) (data_packet d)"
  have nl: "(1432 < nat (12 + dlen d)) = False" using n(2) by simp
  have "dump_write_data w d = bind_out (dump_write w (length_bytes ?n)) (\<lambda>(err, w).
          if err \<noteq> 0 then Ret (err, w) else dump_write w ?p)"
    unfolding dump_write_data_def Let_def data_len_def byte_drops32 length_bytes_def option.case
    by (simp add: n(1) nl len del: of_int_add cong: if_cong)
  then have "?l \<longleftrightarrow> (\<exists>w1. dump_write w (length_bytes ?n) = Ret (0, w1) \<and> dump_write w1 ?p = Ret (0, w'))"
    by (auto simp: outcome_simps split: if_splits)
  also have "\<dots> \<longleftrightarrow> ?r"
    by (auto simp: dump_write_zero recorded_def algebra_simps)
  finally show ?thesis .
qed

lemma dump_read_recorded:
  assumes r: "du_fp r = Some f" "f_rest f = recorded d @ rest" and d: "data_wf d" and m: "packet_wf m"
  shows "dlen d \<le> 1408 \<Longrightarrow> \<exists>m' f'. dump_read_data r m = Ret (0, m', r\<lparr>du_fp := Some f'\<rparr>)
           \<and> f_rest f' = rest \<and> packet_wf m' \<and> dlen m' = dlen d \<and> seqnum (dp m') = seqnum (dp d)
           \<and> timestamp (dp m') = timestamp (dp d)
           \<and> take (nat (dlen d)) (pdata (dp m')) = take (nat (dlen d)) (pdata (dp d))"
    and "1408 < dlen d \<Longrightarrow> \<exists>f'. dump_read_data r m = Ret (-1, m, r\<lparr>du_fp := Some f'\<rparr>)"
proof -
  let ?n = "word_of_int (12 + dlen d) :: u32"
  let ?p = "take (nat (12 + dlen d)) (data_packet d)"
  have b: "0 \<le> dlen d" "dlen d \<le> 1420" "packet_wf d" using d by (auto simp: data_wf_def)
  have n: "uint ?n = 12 + dlen d" "unat ?n = nat (12 + dlen d)"
    using b uint_u32 [of "12 + dlen d"] by (auto simp: unat_eq_nat_uint simp del: of_int_add)
  have s: "sint (?n - 12) = dlen d"
  proof -
    have "?n - 12 = word_of_int (dlen d)" by simp
    then show ?thesis using b by (simp add: signed_of_int signed_take_bit_int_eq_self)
  qed
  have len: "length (data_packet d) = 1432" "length (data_packet m) = 1432"
    using b m by (auto simp: length_data_packet)
  obtain f1 where f1: "dump_read r 4 = Ret (0, length_bytes ?n, r\<lparr>du_fp := Some f1\<rparr>)" "f_rest f1 = ?p @ rest"
    using dump_read_prefix [OF r(1), of "length_bytes ?n" "?p @ rest" 4] r(2) by (auto simp: recorded_def)
  show "\<exists>f'. dump_read_data r m = Ret (-1, m, r\<lparr>du_fp := Some f'\<rparr>)" if "1408 < dlen d"
    using that by (auto simp: dump_read_data_def f1(1) n simp del: of_int_add)
  assume le: "dlen d \<le> 1408"
  let ?m = "data_set_len (m\<lparr>dp := unpack (blit (data_packet m) 0 ?p)\<rparr>) (dlen d)"
  obtain f2 where f2: "dump_read (r\<lparr>du_fp := Some f1\<rparr>) (nat (12 + dlen d)) = Ret (0, ?p, r\<lparr>du_fp := Some f2\<rparr>)"
    "f_rest f2 = rest"
    using dump_read_prefix [of "r\<lparr>du_fp := Some f1\<rparr>" f1 ?p rest "nat (12 + dlen d)"] f1(2) len b by auto
  have "dump_read_data r m = Ret (0, ?m, r\<lparr>du_fp := Some f2\<rparr>)"
    using le by (simp add: dump_read_data_def f1(1) n dump_read_buffer_def f2(1) s not_less del: of_int_add)
  moreover have "packet_wf ?m \<and> dlen ?m = dlen d"
    using b len by (simp add: data_set_len_def Let_def packet_wf_def unpack_def)
  moreover have "seqnum (dp ?m) = seqnum (dp d) \<and> timestamp (dp ?m) = timestamp (dp d)
      \<and> take (nat (dlen d)) (pdata (dp ?m)) = take (nat (dlen d)) (pdata (dp d))"
  proof -
    have p: "?p = seqnum (dp d) @ timestamp (dp d) @ take (nat (dlen d)) (pdata (dp d))"
      using b by (simp add: data_packet_def packet_wf_def nat_add_distrib)
    have "length (seqnum (dp d)) = 4" "length (timestamp (dp d)) = 8" "length (pdata (dp d)) = 1420"
      using b by (auto simp: packet_wf_def)
    then show ?thesis unfolding p using b by (simp add: data_set_len_def Let_def unpack_def blit_def)
  qed
  ultimately show "\<exists>m' f'. dump_read_data r m = Ret (0, m', r\<lparr>du_fp := Some f'\<rparr>)
           \<and> f_rest f' = rest \<and> packet_wf m' \<and> dlen m' = dlen d \<and> seqnum (dp m') = seqnum (dp d)
           \<and> timestamp (dp m') = timestamp (dp d)
           \<and> take (nat (dlen d)) (pdata (dp m')) = take (nat (dlen d)) (pdata (dp d))"
    using f2(2) by blast
qed

section \<open>Recordings\<close>

fun record_all :: "dump_t \<Rightarrow> data_t list \<Rightarrow> (int \<times> dump_t) outcome" where
  "record_all w [] = Ret (0, w)"
| "record_all w (d # ds) =
     bind_out (dump_write_data w d) (\<lambda>(err, w). if err \<noteq> 0 then Ret (err, w) else record_all w ds)"

fun replay_all :: "dump_t \<Rightarrow> data_t \<Rightarrow> nat \<Rightarrow> (int \<times> data_t list) outcome" where
  "replay_all r m 0 = Ret (0, [])"
| "replay_all r m (Suc n) =
     bind_out (dump_read_data r m) (\<lambda>(err, m, r).
       if err \<noteq> 0 then Ret (err, [])
       else bind_out (replay_all r m n) (\<lambda>(err, ms). Ret (err, m # ms)))"

text \<open>The part of a packet that is transmitted.\<close>

definition same_packet :: "data_t \<Rightarrow> data_t \<Rightarrow> bool" where
  "same_packet d m \<longleftrightarrow> dlen m = dlen d \<and> seqnum (dp m) = seqnum (dp d)
     \<and> timestamp (dp m) = timestamp (dp d)
     \<and> take (nat (dlen d)) (pdata (dp m)) = take (nat (dlen d)) (pdata (dp d))"

lemma record_all_file:
  assumes "record_all w ds = Ret (0, w')" "\<forall>d\<in>set ds. data_wf d" "du_fp w = Some f"
  shows "\<exists>f'. du_fp w' = Some f' \<and> f_bytes f' = f_bytes f @ concat (map recorded ds)"
  using assms
proof (induction ds arbitrary: w f)
  case Nil
  then show ?case by simp
next
  case (Cons d ds)
  obtain w1 where w1: "dump_write_data w d = Ret (0, w1)" "record_all w1 ds = Ret (0, w')"
    using Cons.prems(1) by (auto simp: outcome_simps split: if_splits)
  let ?f = "f\<lparr>f_bytes := f_bytes f @ recorded d, f_room := f_room f - length (recorded d)\<rparr>"
  have "du_fp w1 = Some ?f"
    using w1(1) Cons.prems dump_write_data_zero [of d w w1] by auto
  then show ?case using Cons.IH [OF w1(2), of ?f] Cons.prems by auto
qed

lemma replay_all_file:
  assumes "du_fp r = Some f" "f_rest f = concat (map recorded ds) @ rest"
    "\<forall>d\<in>set ds. data_wf d \<and> dlen d \<le> 1408" "packet_wf m"
  shows "\<exists>ms. replay_all r m (length ds) = Ret (0, ms) \<and> list_all2 same_packet ds ms"
  using assms
proof (induction ds arbitrary: r f m)
  case Nil
  then show ?case by simp
next
  case (Cons d ds)
  obtain m1 f1 where 1: "dump_read_data r m = Ret (0, m1, r\<lparr>du_fp := Some f1\<rparr>)"
    "f_rest f1 = concat (map recorded ds) @ rest" "packet_wf m1" "same_packet d m1"
    using dump_read_recorded(1) [OF Cons.prems(1), of d "concat (map recorded ds) @ rest" m] Cons.prems(2-4)
    unfolding same_packet_def by auto
  obtain ms where ms: "replay_all (r\<lparr>du_fp := Some f1\<rparr>) m1 (length ds) = Ret (0, ms)"
    "list_all2 same_packet ds ms"
    using Cons.IH [of "r\<lparr>du_fp := Some f1\<rparr>" f1 m1] 1 Cons.prems(3) by auto
  show ?case using 1(4) ms(2) by (simp add: 1(1) ms(1))
qed

section \<open>The header\<close>

lemma header_line_bytes:
  assumes "chLF \<notin> set t" "CHR 0x00 \<notin> set t"
  shows "header_line (bytes_of (t @ [chLF])) = t"
proof -
  have "takeWhile (\<lambda>b. b \<noteq> 0) (bytes_of (t @ [chLF])) = bytes_of (t @ [chLF])"
    using assms(2) by (intro takeWhile_bytes_of) simp
  then show ?thesis
    using assms(1) takeWhile_neq_append [of chLF t "[]"]
    by (simp only: header_line_def string_of_bytes_of) simp
qed

lemma lf_bytes_of: "10 \<in> set (bytes_of s) \<longleftrightarrow> chLF \<in> set s"
proof -
  have "(10 :: u8) = of_char chLF" by simp
  then show ?thesis unfolding bytes_of_def by (auto simp del: of_char_Char)
qed

lemma fgets_line:
  assumes "f_rest f = bytes_of (t @ [chLF]) @ rest" "chLF \<notin> set t" "length t < 127"
  shows "\<exists>f'. fgets 128 f = (Some (bytes_of (t @ [chLF])), f') \<and> f_rest f' = rest"
proof -
  have r: "f_rest f = bytes_of t @ 10 # rest" using assms(1) by (simp add: bytes_of_def)
  have "takeWhile (\<lambda>b. b \<noteq> 10) (f_rest f) = bytes_of t"
    unfolding r using assms(2) lf_bytes_of [of t] by (auto simp: takeWhile_append)
  then have "line_length 128 (f_rest f) = length (bytes_of (t @ [chLF]))"
    using assms(3) by (simp add: line_length_def)
  then show ?thesis
    using fread_prefix [OF assms(1) refl] r by (auto simp: fgets_def)
qed

definition line_ok :: "string \<Rightarrow> bool" where
  "line_ok t \<longleftrightarrow> chLF \<notin> set t \<and> CHR 0x00 \<notin> set t \<and> length t < 127"

lemma line_ok_type: "0 \<le> ty \<Longrightarrow> ty \<le> 6 \<Longrightarrow> line_ok (registry_type_to_str ty)"
  using type_cases_int [of ty] by (auto simp: registry_type_to_str_def line_ok_def)

lemma dump_open_header:
  assumes f: "fopen path = Some f" "f_rest f = bytes_of (dump_header name ty topic mimetype) @ rest"
    and ok: "line_ok name" "line_ok topic" "line_ok mimetype" "0 \<le> ty" "ty \<le> 6"
  shows "dump_open fopen path = Some \<lparr>du_fp = None, du_name = Some name, du_type = ty,
           du_topic = Some topic, du_mimetype = Some mimetype, du_offset = 0\<rparr>"
proof -
  let ?l = "\<lambda>t. bytes_of (t @ [chLF])"
  note ty = line_ok_type [OF ok(4,5)]
  have split: "f_rest f = ?l name @ ?l (registry_type_to_str ty) @ ?l topic @ ?l mimetype @ rest"
    using f(2) by (simp add: dump_header_def flip: bytes_of_append)
  obtain f1 where 1: "fgets 128 f = (Some (?l name), f1)"
      "f_rest f1 = ?l (registry_type_to_str ty) @ ?l topic @ ?l mimetype @ rest"
    using fgets_line [OF split] ok(1) by (auto simp: line_ok_def)
  obtain f2 where 2: "fgets 128 f1 = (Some (?l (registry_type_to_str ty)), f2)"
      "f_rest f2 = ?l topic @ ?l mimetype @ rest"
    using fgets_line [OF 1(2)] ty by (auto simp: line_ok_def)
  obtain f3 where 3: "fgets 128 f2 = (Some (?l topic), f3)" "f_rest f3 = ?l mimetype @ rest"
    using fgets_line [OF 2(2)] ok(2) by (auto simp: line_ok_def)
  obtain f4 where 4: "fgets 128 f3 = (Some (?l mimetype), f4)"
    using fgets_line [OF 3(2)] ok(3) by (auto simp: line_ok_def)
  have h: "header_line (?l t) = t" if "line_ok t" for t
    using that by (intro header_line_bytes) (auto simp: line_ok_def)
  show ?thesis
    unfolding dump_open_def f(1) option.case 1(1) 2(1) 3(1) 4 prod.case h [OF ok(1)] h [OF ok(2)]
      h [OF ok(3)] h [OF ty]
    using ok(4,5) by (simp add: new_dump_def registry_str_to_type_to_str)
qed

section \<open>Properties\<close>


definition example_file :: file_t where
  "example_file = \<lparr>f_bytes = [], f_pos = 0, f_room = 100\<rparr>"

definition example_recorder :: dump_t where
  "example_recorder = new_dump\<lparr>du_fp := Some example_file\<rparr>"

definition example_recorded :: data_t where
  "example_recorded = data_set_len new_data 7"

lemma example_recorded_wf: "data_wf example_recorded" "dlen example_recorded = 7"
  by (auto simp: example_recorded_def intro: inv_intros) (simp add: data_set_len_def)


text \<open>C36. A dump that is opened has the name, the type, the topic and the media type it was created
  with, but no stream: every attempt to read a packet from it is undefined.\<close>

theorem dump_open_cannot_read:
  assumes "dump_create c fopen now name ty topic mimetype = Some w" "du_fp w = Some f"
    "fopen (dump_path c name ty topic now) = Some \<lparr>f_bytes = [], f_pos = 0, f_room = room\<rparr>"
    "length (dump_header name ty topic mimetype) \<le> room"
    "line_ok name" "line_ok topic" "line_ok mimetype" "0 \<le> ty" "ty \<le> 6"
    "reopen path = Some (f\<lparr>f_pos := 0\<rparr>)"
  shows "\<exists>r. dump_open reopen path = Some r \<and> du_name r = du_name w \<and> du_type r = du_type w
           \<and> du_topic r = du_topic w \<and> du_mimetype r = du_mimetype w \<and> dump_read_data r m = Undef"
proof -
  let ?h = "bytes_of (dump_header name ty topic mimetype)"
  have w: "w = new_dump\<lparr>du_fp := Some f, du_name := Some name, du_type := ty, du_topic := Some topic,
      du_mimetype := Some mimetype\<rparr>" "f_bytes f = ?h"
    using assms(1-4) by (auto simp: dump_create_def fwrite_all)
  have "f_rest (f\<lparr>f_pos := 0\<rparr>) = ?h @ []" using w(2) by (simp add: f_rest_def)
  from dump_open_header [where fopen = reopen and path = path, OF assms(10) this assms(5-9)] show ?thesis
    using w(1) by (simp add: dump_read_data_def dump_read_def)
qed

theorem dump_open_cannot_read_witness:
  "\<exists>w f r. dump_create \<lparr>dc_dumping = 1, dc_dumping_dir = None, dc_replay_id = None\<rparr>
       (\<lambda>path. Some \<lparr>f_bytes = [], f_pos = 0, f_room = 100\<rparr>) ''t'' ''n'' TYPE_DATALINK ''gps'' ''nmea'' = Some w
     \<and> du_fp w = Some f
     \<and> dump_open (\<lambda>path. Some (f\<lparr>f_pos := 0\<rparr>)) ''file'' = Some r
     \<and> du_name r = Some ''n'' \<and> dump_read_data r new_data = Undef"
proof -
  let ?c = "\<lparr>dc_dumping = 1, dc_dumping_dir = None, dc_replay_id = None\<rparr>"
  let ?o = "\<lambda>path::string. Some \<lparr>f_bytes = [], f_pos = 0, f_room = 100\<rparr>"
  obtain w f where w: "dump_create ?c ?o ''t'' ''n'' TYPE_DATALINK ''gps'' ''nmea'' = Some w"
      "du_fp w = Some f" "du_name w = Some ''n''"
    by (simp add: dump_create_def Let_def new_dump_def)
  have "length (dump_header ''n'' TYPE_DATALINK ''gps'' ''nmea'') \<le> 100"
    by (simp add: dump_header_def registry_type_to_str_def)
  from dump_open_cannot_read
    [where reopen = "\<lambda>path. Some (f\<lparr>f_pos := 0\<rparr>)" and path = "''file''" and m = new_data, OF w(1,2) refl this]
  show ?thesis using w by (auto simp: line_ok_def)
qed

end
