(* ===== verification/Sha1.thy ===== *)
theory Sha1
  imports Data
begin

text \<open>
  The digest SHA-1, sha1.c and SHA1 of util.c, and the standard FIPS 180-1 it implements.  The code
  expands the schedule of 80 words in place in a block of 16, leaves the five working variables where
  they are and changes their roles from round to round, and hashes the data in whatever pieces the
  caller hands over.  The last section shows that the digest is that of the standard.
\<close>

unbundle bit_operations_syntax

section \<open>One block\<close>

definition rol :: "u32 \<Rightarrow> nat \<Rightarrow> u32" where
  "rol v k = push_bit k v OR drop_bit (32 - k) v"

text \<open>The block as the union of 64 bytes and 16 words shows it on a little-endian host.\<close>

fun load_words :: "bytes \<Rightarrow> u32 list" where
  "load_words (b0 # b1 # b2 # b3 # bs) =
     (ucast b0 OR push_bit 8 (ucast b1) OR push_bit 16 (ucast b2) OR push_bit 24 (ucast b3))
     # load_words bs"
| "load_words bs = []"

definition blk0 :: "u32 list \<Rightarrow> nat \<Rightarrow> u32 \<times> u32 list" where
  "blk0 block i =
     (let v = (rol (block ! i) 24 AND 0xFF00FF00) OR (rol (block ! i) 8 AND 0x00FF00FF)
      in (v, block[i := v]))"

definition blk :: "u32 list \<Rightarrow> nat \<Rightarrow> u32 \<times> u32 list" where
  "blk block i =
     (let v = rol (block ! ((i + 13) mod 16) XOR block ! ((i + 8) mod 16) XOR block ! ((i + 2) mod 16)
                   XOR block ! (i mod 16)) 1
      in (v, block[i mod 16 := v]))"

text \<open>
  The functions and constants of R0 to R4.  The variables a to e are the entries 0 to 4 of a list;
  \<open>role i k\<close> is the variable that stands at argument k of the macro in round i of the unrolled loop,
  whose arguments move one place to the right from each round to the next.
\<close>

definition mix :: "nat \<Rightarrow> u32 \<Rightarrow> u32 \<Rightarrow> u32 \<Rightarrow> u32" where
  "mix i w x y =
     (if i < 20 then (w AND (x XOR y)) XOR y
      else if i < 40 then w XOR x XOR y
      else if i < 60 then ((w OR x) AND y) OR (w AND x)
      else w XOR x XOR y)"

definition round_constant :: "nat \<Rightarrow> u32" where
  "round_constant i =
     (if i < 20 then 0x5A827999 else if i < 40 then 0x6ED9EBA1
      else if i < 60 then 0x8F1BBCDC else 0xCA62C1D6)"

definition role :: "nat \<Rightarrow> nat \<Rightarrow> nat" where
  "role i k = (k + 4 * i) mod 5"

definition R :: "nat \<Rightarrow> u32 list \<times> u32 list \<Rightarrow> u32 list \<times> u32 list" where
  "R i = (\<lambda>(vars, block).
     let v = vars ! role i 0; w = vars ! role i 1; x = vars ! role i 2;
         y = vars ! role i 3; z = vars ! role i 4;
         (t, block) = (if i < 16 then blk0 block i else blk block i);
         z = z + (mix i w x y + t + round_constant i + rol v 5)
     in (vars[role i 4 := z, role i 1 := rol w 30], block))"

definition SHA1Transform :: "u32 list \<Rightarrow> bytes \<Rightarrow> u32 list" where
  "SHA1Transform state buffer =
     map2 (+) state (fst (fold R [0..<80] (state, load_words (take 64 buffer))))"

section \<open>The context\<close>

record SHA1_CTX =
  sc_state :: "u32 list"
  sc_count0 :: u32
  sc_count1 :: u32
  sc_buffer :: bytes

definition SHA1Init :: "SHA1_CTX \<Rightarrow> SHA1_CTX" where
  "SHA1Init context =
     context\<lparr>sc_state := [0x67452301, 0xEFCDAB89, 0x98BADCFE, 0x10325476, 0xC3D2E1F0],
             sc_count0 := 0, sc_count1 := 0\<rparr>"

lemma unat_plus_u32: "unat i + k < 2 ^ 32 \<Longrightarrow> unat (i + of_nat k :: u32) = unat i + k"
  by (simp add: unat_word_ariths unat_of_nat)

lemma unat_plus_64: "unat i + 64 \<le> unat (len :: u32) \<Longrightarrow> unat (i + 64 :: u32) = unat i + 64"
  using unat_plus_u32 [of i 64] unsigned_less [of len, where 'a = nat] by simp

text \<open>
  The loop over the whole blocks of the data, which has len bytes: i is a 32 bit integer, and the sum in
  the condition may wrap around.
\<close>

function transform_blocks :: "bytes \<Rightarrow> u32 \<Rightarrow> u32 \<Rightarrow> u32 list \<Rightarrow> (u32 \<times> u32 list) outcome" where
  "transform_blocks src len i state =
     (if \<not> i + 63 < len then Ret (i, state)
      else if unat len < unat i + 64 then Undef
      else transform_blocks src len (i + 64) (SHA1Transform state (drop (unat i) src)))"
  by pat_completeness auto
termination
  by (relation "measure (\<lambda>(src, len, i, state). unat len - unat i)") (auto simp: unat_plus_64 not_less diff_less_mono2)

declare transform_blocks.simps [simp del]

text \<open>
  Reading past the data or writing past the buffer is undefined.  The data is what the pointer points
  to, of which the first len bytes are read.
\<close>

definition count_up :: "SHA1_CTX \<Rightarrow> u32 \<Rightarrow> SHA1_CTX" where
  "count_up context len =
     (let j = sc_count0 context;
          context = context\<lparr>sc_count0 := j + push_bit 3 len\<rparr>;
          context = (if sc_count0 context < j then context\<lparr>sc_count1 := sc_count1 context + 1\<rparr>
                     else context)
      in context\<lparr>sc_count1 := sc_count1 context + drop_bit 29 len\<rparr>)"

definition SHA1Update :: "SHA1_CTX \<Rightarrow> bytes \<Rightarrow> u32 \<Rightarrow> SHA1_CTX outcome" where
  "SHA1Update context src len =
     (if length src < unat len then Undef
      else
        let src = take (unat len) src;
            j = drop_bit 3 (sc_count0 context) AND 63;
            context = count_up context len
        in bind_out
             (if 63 < j + len
              then let i = 64 - j
                   in if length src < unat i then Undef
                      else let buffer = blit (sc_buffer context) (unat j) (take (unat i) src)
                           in bind_out (transform_blocks src len i (SHA1Transform (sc_state context) buffer))
                                (\<lambda>(i, state). Ret (0, i, context\<lparr>sc_state := state, sc_buffer := buffer\<rparr>))
              else Ret (j, 0, context)) (\<lambda>(j, i, context).
             if 64 < unat j + (unat len - unat i) then Undef
             else Ret (context\<lparr>sc_buffer := blit (sc_buffer context) (unat j) (drop (unat i) src)\<rparr>)))"

text \<open>SHA1Final: the count as eight bytes, the padding one byte at a time, the words of the state.\<close>

definition word_bytes :: "u32 \<Rightarrow> bytes" where
  "word_bytes w = map (\<lambda>i. ucast (drop_bit ((3 - i) * 8) w AND 255)) [0..<4]"

definition count_bytes :: "SHA1_CTX \<Rightarrow> bytes" where
  "count_bytes context = word_bytes (sc_count1 context) @ word_bytes (sc_count0 context)"

lemma SHA1Update_count0:
  "SHA1Update context src len = Ret context' \<Longrightarrow> sc_count0 context' = sc_count0 context + push_bit 3 len"
  by (auto simp: SHA1Update_def count_up_def Let_def outcome_simps split: if_splits)

lemma mask_504: "(504 :: u32) = push_bit 3 (mask 6)"
  by (simp add: mask_eq_exp_minus_1)

lemma take_bit_unat: "take_bit 32 (unat (c :: u32)) = unat c"
  using unsigned_less [of c, where 'a = nat] by (intro take_bit_nat_eq_self) simp

lemma unat_and_504: "unat (c AND 504 :: u32) = 8 * (unat c div 8 mod 64)"
proof -
  have "c AND 504 = push_bit 3 (take_bit 6 (drop_bit 3 c))"
    unfolding mask_504 by (rule bit_word_eqI) (auto simp: bit_simps)
  then have "unat (c AND 504) = take_bit 32 (push_bit 3 (take_bit 6 (drop_bit 3 (unat c))))"
    by (simp only: unsigned_push_bit_eq unsigned_take_bit_eq unsigned_drop_bit_eq) (simp add: take_bit_unat)
  also have "\<dots> = push_bit 3 (take_bit 6 (drop_bit 3 (unat c)))"
    by (rule take_bit_nat_eq_self) (simp add: push_bit_eq_mult take_bit_eq_mod)
  finally show ?thesis by (simp add: push_bit_eq_mult take_bit_eq_mod drop_bit_eq_div)
qed

lemma and_504_iff: "(c :: u32) AND 504 = 448 \<longleftrightarrow> unat c div 8 mod 64 = 56"
proof -
  have "c AND 504 = 448 \<longleftrightarrow> unat (c AND 504) = unat (448 :: u32)" by (simp only: word_unat_eq_iff)
  then show ?thesis by (simp add: unat_and_504)
qed

lemma unat_plus_8: "unat (c + 8 :: u32) div 8 mod 64 = (unat c div 8 + 1) mod 64"
proof -
  have "unat (c + 8) = (unat c + 8) mod (8 * 536870912)" by (simp add: unat_word_ariths)
  then have "unat (c + 8) div 8 = (unat c div 8 + 1) mod 536870912"
    using div_add_self2 [of 8 "unat c"] by (simp only: mod_mult2_eq)
  moreover have "(64 :: nat) dvd 536870912" by simp
  ultimately show ?thesis by (simp add: mod_mod_cancel)
qed

text \<open>The number of zero bytes that are missing.\<close>

definition padding_left :: "SHA1_CTX \<Rightarrow> nat" where
  "padding_left context = (120 - unat (sc_count0 context) div 8 mod 64) mod 64"

lemma padding_step:
  assumes "SHA1Update context [0] 1 = Ret context'" "sc_count0 context AND 504 \<noteq> 448"
  shows "Suc (padding_left context') = padding_left context"
proof -
  define k where "k = unat (sc_count0 context) div 8"
  have c: "sc_count0 context' = sc_count0 context + 8" using SHA1Update_count0 [OF assms(1)] by simp
  have "k mod 64 \<noteq> 56" using assms(2) by (simp add: and_504_iff k_def)
  moreover have "k mod 64 < 64" by simp
  moreover have "(120 - r) mod 64 = (if r \<le> 56 then 56 - r else 120 - r)" if "r < 64" for r :: nat
    using that by (simp add: mod_if)
  moreover have "(k + 1) mod 64 = (if k mod 64 = 63 then 0 else k mod 64 + 1)"
    by (simp add: mod_Suc)
  ultimately show ?thesis unfolding padding_left_def c unat_plus_8 k_def [symmetric] by auto
qed

lemma bind_out_cong [fundef_cong]:
  "m = m' \<Longrightarrow> (\<And>a. m' = Ret a \<Longrightarrow> f a = g a) \<Longrightarrow> bind_out m f = bind_out m' g"
  by (cases m') auto

function pad_zeros :: "SHA1_CTX \<Rightarrow> SHA1_CTX outcome" where
  "pad_zeros context =
     (if sc_count0 context AND 504 = 448 then Ret context
      else bind_out (SHA1Update context [0] 1) (\<lambda>context. pad_zeros context))"
  by pat_completeness auto
termination
  by (relation "measure padding_left") (auto dest: padding_step)

declare pad_zeros.simps [simp del]

definition SHA1Final :: "SHA1_CTX \<Rightarrow> bytes outcome" where
  "SHA1Final context =
     (let finalcount = count_bytes context
      in bind_out (SHA1Update context [0x80] 1) (\<lambda>context.
         bind_out (pad_zeros context) (\<lambda>context.
         bind_out (SHA1Update context finalcount 8) (\<lambda>context.
           Ret (concat (map word_bytes (sc_state context)))))))"

text \<open>The digest of a text: the variable is not initialised, but SHA1Init sets what is read.\<close>

definition SHA1 :: "SHA1_CTX \<Rightarrow> string \<Rightarrow> bytes outcome" where
  "SHA1 context s =
     bind_out (SHA1Update (SHA1Init context) (bytes_of s) (of_nat (length s))) SHA1Final"

section \<open>The standard\<close>

text \<open>Section 4 of FIPS 180-1: the functions, the constants, the schedule of the words.\<close>

definition Ch :: "u32 \<Rightarrow> u32 \<Rightarrow> u32 \<Rightarrow> u32" where
  "Ch x y z = (x AND y) XOR (NOT x AND z)"

definition Parity :: "u32 \<Rightarrow> u32 \<Rightarrow> u32 \<Rightarrow> u32" where
  "Parity x y z = x XOR y XOR z"

definition Maj :: "u32 \<Rightarrow> u32 \<Rightarrow> u32 \<Rightarrow> u32" where
  "Maj x y z = (x AND y) XOR (x AND z) XOR (y AND z)"

definition f_std :: "nat \<Rightarrow> u32 \<Rightarrow> u32 \<Rightarrow> u32 \<Rightarrow> u32" where
  "f_std t = (if t < 20 then Ch else if t < 40 then Parity else if t < 60 then Maj else Parity)"

definition big_endian :: "bytes \<Rightarrow> nat \<Rightarrow> u32" where
  "big_endian M t =
     push_bit 24 (ucast (M ! (4 * t))) OR push_bit 16 (ucast (M ! (4 * t + 1)))
     OR push_bit 8 (ucast (M ! (4 * t + 2))) OR ucast (M ! (4 * t + 3))"

fun W :: "bytes \<Rightarrow> nat \<Rightarrow> u32" where
  "W M t =
     (if t < 16 then big_endian M t
      else rol (W M (t - 3) XOR W M (t - 8) XOR W M (t - 14) XOR W M (t - 16)) 1)"

declare W.simps [simp del]

fun round_std :: "bytes \<Rightarrow> nat \<Rightarrow> u32 \<times> u32 \<times> u32 \<times> u32 \<times> u32 \<Rightarrow> u32 \<times> u32 \<times> u32 \<times> u32 \<times> u32" where
  "round_std M t (a, b, c, d, e) =
     (rol a 5 + f_std t b c d + e + round_constant t + W M t, a, rol b 30, c, d)"

fun compress :: "u32 \<times> u32 \<times> u32 \<times> u32 \<times> u32 \<Rightarrow> bytes \<Rightarrow> u32 \<times> u32 \<times> u32 \<times> u32 \<times> u32" where
  "compress (a, b, c, d, e) M =
     (case fold (round_std M) [0..<80] (a, b, c, d, e) of
        (a', b', c', d', e') \<Rightarrow> (a + a', b + b', c + c', d + d', e + e'))"

fun blocks :: "bytes \<Rightarrow> bytes list" where
  "blocks M = (if length M < 64 then [] else take 64 M # blocks (drop 64 M))"

declare blocks.simps [simp del]

text \<open>A one bit, as few zero bits as make a whole block, and the length in bits in 64 bits.\<close>

definition zeros_std :: "nat \<Rightarrow> nat" where
  "zeros_std n = (119 - n mod 64) mod 64"

definition length_std :: "nat \<Rightarrow> bytes" where
  "length_std n = map (\<lambda>i. word_of_nat (8 * n div 256 ^ (7 - i))) [0..<8]"

definition pad_std :: "bytes \<Rightarrow> bytes" where
  "pad_std M = M @ 0x80 # replicate (zeros_std (length M)) 0 @ length_std (length M)"

definition hash_std :: "bytes \<Rightarrow> u32 \<times> u32 \<times> u32 \<times> u32 \<times> u32" where
  "hash_std M = foldl compress (0x67452301, 0xEFCDAB89, 0x98BADCFE, 0x10325476, 0xC3D2E1F0) (blocks M)"

definition sha1_std :: "bytes \<Rightarrow> bytes" where
  "sha1_std M =
     (case hash_std (pad_std M) of
        (a, b, c, d, e) \<Rightarrow> word_bytes a @ word_bytes b @ word_bytes c @ word_bytes d @ word_bytes e)"

section \<open>One block is hashed as the standard says\<close>

lemma mix_std: "mix t x y z = f_std t x y z"
proof -
  have "(x AND (y XOR z)) XOR z = (x AND y) XOR (NOT x AND z)"
    by (rule bit_word_eqI) (auto simp: bit_simps)
  moreover have "((x OR y) AND z) OR (x AND y) = (x AND y) XOR (x AND z) XOR (y AND z)"
    by (rule bit_word_eqI) (auto simp: bit_simps)
  ultimately show ?thesis by (simp add: mix_def f_std_def Ch_def Parity_def Maj_def)
qed

definition little_endian :: "bytes \<Rightarrow> nat \<Rightarrow> u32" where
  "little_endian M t =
     ucast (M ! (4 * t)) OR push_bit 8 (ucast (M ! (4 * t + 1)))
     OR push_bit 16 (ucast (M ! (4 * t + 2))) OR push_bit 24 (ucast (M ! (4 * t + 3)))"

lemma load_words_nth: "4 * t + 3 < length M \<Longrightarrow> load_words M ! t = little_endian M t"
proof (induction M arbitrary: t rule: load_words.induct)
  case (1 b0 b1 b2 b3 bs)
  show ?case
  proof (cases t)
    case 0
    then show ?thesis by (simp add: little_endian_def)
  next
    case (Suc u)
    then show ?thesis using 1 by (simp add: little_endian_def numeral_eq_Suc)
  qed
qed simp_all

lemma length_load_words: "length (load_words M) = length M div 4"
  by (induction M rule: load_words.induct) auto

lemma byte_swap:
  fixes b0 b1 b2 b3 :: u8
  defines "v \<equiv> (ucast b0 OR push_bit 8 (ucast b1) OR push_bit 16 (ucast b2) OR push_bit 24 (ucast b3) :: u32)"
  shows "(rol v 24 AND 0xFF00FF00) OR (rol v 8 AND 0x00FF00FF)
    = push_bit 24 (ucast b0) OR push_bit 16 (ucast b1) OR push_bit 8 (ucast b2) OR ucast b3"
proof -
  have m: "(0xFF00FF00 :: u32) = push_bit 24 (mask 8) OR push_bit 8 (mask 8)"
    "(0x00FF00FF :: u32) = push_bit 16 (mask 8) OR mask 8"
    by (simp_all add: mask_eq_exp_minus_1)
  have b: "bit (ucast b :: u32) n \<longleftrightarrow> n < 8 \<and> bit b n" for b :: u8 and n
    using bit_imp_le_length [of b n] by (auto simp: bit_ucast_iff)
  note bits = b bit_or_iff bit_and_iff bit_push_bit_iff possible_bit_word bit_drop_bit_eq bit_mask_iff o_apply
  show ?thesis
  proof (rule bit_word_eqI)
    fix n
    assume "n < LENGTH(32)"
    then have "n < 8 \<or> 8 \<le> n \<and> n < 16 \<or> 16 \<le> n \<and> n < 24 \<or> 24 \<le> n \<and> n < 32" by auto
    then show "bit ((rol v 24 AND 0xFF00FF00) OR (rol v 8 AND 0x00FF00FF)) n \<longleftrightarrow>
        bit (push_bit 24 (ucast b0 :: u32) OR push_bit 16 (ucast b1) OR push_bit 8 (ucast b2) OR ucast b3) n"
      unfolding v_def rol_def m by (elim disjE conjE) (auto simp: bits)
  qed
qed

lemma blk0_std:
  assumes "block ! t = little_endian M t"
  shows "blk0 block t = (big_endian M t, block[t := big_endian M t])"
  using assms by (simp add: blk0_def Let_def little_endian_def byte_swap big_endian_def)

lemma role_step:
  "role (Suc t) 0 = role t 4" "role (Suc t) 1 = role t 0" "role (Suc t) 2 = role t 1"
  "role (Suc t) 3 = role t 2" "role (Suc t) 4 = role t 3"
  by (simp_all add: role_def)  presburger+

text \<open>What is the same after t rounds.\<close>

definition vars_std :: "nat \<Rightarrow> u32 list \<Rightarrow> u32 \<times> u32 \<times> u32 \<times> u32 \<times> u32 \<Rightarrow> bool" where
  "vars_std t vars s \<longleftrightarrow> length vars = 5 \<and>
     s = (vars ! role t 0, vars ! role t 1, vars ! role t 2, vars ! role t 3, vars ! role t 4)"

definition block_std :: "bytes \<Rightarrow> nat \<Rightarrow> u32 list \<Rightarrow> bool" where
  "block_std M t block \<longleftrightarrow> length block = 16
     \<and> (\<forall>s<t. t \<le> s + 16 \<longrightarrow> block ! (s mod 16) = W M s)
     \<and> (\<forall>s<16. t \<le> s \<longrightarrow> block ! s = little_endian M s)"

lemma block_step:
  assumes "block_std M t block"
  shows "\<exists>block'. (if t < 16 then blk0 block t else blk block t) = (W M t, block') \<and> block_std M (Suc t) block'"
proof (cases "t < 16")
  case True
  then have "block ! t = little_endian M t" using assms by (simp add: block_std_def)
  moreover have "W M t = big_endian M t" using True by (subst W.simps) simp
  ultimately show ?thesis
    using True assms blk0_std [of block t M] by (auto simp: block_std_def less_Suc_eq nth_list_update)
next
  case False
  have b: "block ! (s mod 16) = W M s" if "s < t" "t \<le> s + 16" for s
    using assms that by (simp add: block_std_def)
  have m: "(t + 13) mod 16 = (t - 3) mod 16" "(t + 8) mod 16 = (t - 8) mod 16"
    "(t + 2) mod 16 = (t - 14) mod 16" "t mod 16 = (t - 16) mod 16"
    using False mod_add_self2 [of "t - 3" 16] mod_add_self2 [of "t - 8" 16]
      mod_add_self2 [of "t - 14" 16] mod_add_self2 [of "t - 16" 16]
    by (simp_all add: add.commute)
  have "W M t = rol (W M (t - 3) XOR W M (t - 8) XOR W M (t - 14) XOR W M (t - 16)) 1"
    using False by (subst W.simps) simp
  also have "\<dots> = rol (block ! ((t + 13) mod 16) XOR block ! ((t + 8) mod 16) XOR block ! ((t + 2) mod 16)
      XOR block ! (t mod 16)) 1"
    unfolding m using False b by simp
  finally have v: "blk block t = (W M t, block[t mod 16 := W M t])" by (simp add: blk_def Let_def)
  have "W M t = W M s" if "t mod 16 = s mod 16" "s < t" "t \<le> 15 + s" for s
  proof -
    have "16 dvd t - s" using that by (metis mod_eq_dvd_iff_nat less_imp_le_nat)
    then have "16 \<le> t - s" using that(2) by (intro dvd_imp_le) auto
    then show ?thesis using that by simp
  qed
  then have "block_std M (Suc t) (block[t mod 16 := W M t])"
    using assms False by (auto simp: block_std_def less_Suc_eq nth_list_update)
  then show ?thesis using False v by simp
qed

lemma vars_step:
  assumes "vars_std t vars s" "round_std M t s = s'"
  defines "z \<equiv> vars ! role t 4 + (mix t (vars ! role t 1) (vars ! role t 2) (vars ! role t 3) + W M t
                + round_constant t + rol (vars ! role t 0) 5)"
  shows "vars_std (Suc t) (vars[role t 4 := z, role t 1 := rol (vars ! role t 1) 30]) s'"
proof -
  have "role t k = (k + 4 * (t mod 5)) mod 5" for k
    unfolding role_def by (metis mod_add_right_eq mod_mult_right_eq)
  moreover have "t mod 5 = 0 \<or> t mod 5 = 1 \<or> t mod 5 = 2 \<or> t mod 5 = 3 \<or> t mod 5 = 4" by presburger
  ultimately have d: "role t 4 < 5" "role t 1 < 5" "role t 4 \<noteq> role t 0" "role t 4 \<noteq> role t 1"
      "role t 4 \<noteq> role t 2" "role t 4 \<noteq> role t 3" "role t 1 \<noteq> role t 0" "role t 1 \<noteq> role t 2"
      "role t 1 \<noteq> role t 3"
    by (elim disjE; simp)+
  have "s' = (rol (vars ! role t 0) 5 + f_std t (vars ! role t 1) (vars ! role t 2) (vars ! role t 3)
      + vars ! role t 4 + round_constant t + W M t, vars ! role t 0, rol (vars ! role t 1) 30,
      vars ! role t 2, vars ! role t 3)"
    using assms(1,2) by (simp add: vars_std_def)
  then show ?thesis
    using assms(1) d 
    by (simp add: vars_std_def role_step role_step [unfolded One_nat_def] z_def mix_std algebra_simps)
qed

lemma R_steps:
  assumes "vars_std 0 vars s" "block_std M 0 block"
  shows "\<exists>vars' block'. fold R [0..<t] (vars, block) = (vars', block')
    \<and> vars_std t vars' (fold (round_std M) [0..<t] s) \<and> block_std M t block'"
proof (induction t)
  case 0
  then show ?case using assms by simp
next
  case (Suc t)
  then obtain vars' block' where t: "fold R [0..<t] (vars, block) = (vars', block')"
    "vars_std t vars' (fold (round_std M) [0..<t] s)" "block_std M t block'" by blast
  obtain block'' where b: "(if t < 16 then blk0 block' t else blk block' t) = (W M t, block'')"
    "block_std M (Suc t) block''" using block_step [OF t(3)] by blast
  have "R t (vars', block') =
      (vars'[role t 4 := vars' ! role t 4 + (mix t (vars' ! role t 1) (vars' ! role t 2) (vars' ! role t 3)
          + W M t + round_constant t + rol (vars' ! role t 0) 5),
        role t 1 := rol (vars' ! role t 1) 30], block'')"
    by (simp only: R_def prod.case b(1) Let_def)
  then show ?case using vars_step [OF t(2) refl] b(2) t(1) by simp
qed

fun list_of :: "u32 \<times> u32 \<times> u32 \<times> u32 \<times> u32 \<Rightarrow> u32 list" where
  "list_of (a, b, c, d, e) = [a, b, c, d, e]"

lemma SHA1Transform_std:
  assumes "64 \<le> length M"
  shows "SHA1Transform (list_of s) M = list_of (compress s (take 64 M))"
proof -
  obtain a b c d e where s: "s = (a, b, c, d, e)" by (cases s) auto
  let ?M = "take 64 M"
  have "vars_std 0 (list_of s) s" by (simp add: s vars_std_def role_def)
  moreover have "block_std ?M 0 (load_words ?M)"
    using assms by (auto simp: block_std_def length_load_words load_words_nth)
  ultimately obtain vars block where r: "fold R [0..<80] (list_of s, load_words ?M) = (vars, block)"
      "vars_std 80 vars (fold (round_std ?M) [0..<80] s)"
    using R_steps [where t = 80] by blast
  have l: "length vars = 5" and f: "fold (round_std ?M) [0..<80] s = (vars ! 0, vars ! 1, vars ! 2, vars ! 3, vars ! 4)"
    using r(2) by (simp_all add: vars_std_def role_def)
  obtain v0 v1 v2 v3 v4 where "vars = [v0, v1, v2, v3, v4]"
    using l by (auto simp: numeral_eq_Suc length_Suc_conv)
  then show ?thesis using r(1) f by (simp add: SHA1Transform_def s)
qed

section \<open>Pieces of data\<close>

lemma blocks_append: "64 dvd length A \<Longrightarrow> blocks (A @ B) = blocks A @ blocks B"
proof (induction A rule: blocks.induct)
  case (1 A)
  show ?case
  proof (cases "A = []")
    case True
    then show ?thesis by (simp add: blocks.simps [of "[]"])
  next
    case False
    then have l: "64 \<le> length A" using 1(2) by (intro dvd_imp_le) auto
    then have "64 dvd length (drop 64 A)" using 1(2) by (simp add: dvd_diff_nat)
    then show ?thesis using 1(1) l by (simp add: blocks.simps [of A] blocks.simps [of "A @ B"])
  qed
qed

lemma blocks_one: "length A = 64 \<Longrightarrow> blocks A = [A]"
  by (simp add: blocks.simps [of A] blocks.simps [of "[]"])

lemma blocks_short: "length A < 64 \<Longrightarrow> blocks A = []"
  by (simp add: blocks.simps [of A])

lemma hash_append: "64 dvd length A \<Longrightarrow> hash_std (A @ B) = foldl compress (hash_std A) (blocks B)"
  by (simp add: hash_std_def blocks_append)

lemma transform_blocks_std:
  assumes "length src = unat len" "unat i \<le> unat len" "unat len + 63 < 2 ^ 32"
  shows "\<exists>i'. transform_blocks src len i (list_of s) = Ret (i', list_of (foldl compress s (blocks (drop (unat i) src))))
    \<and> unat i \<le> unat i' \<and> unat i' \<le> unat len \<and> 64 dvd (unat i' - unat i) \<and> unat len - unat i' < 64"
  using assms
proof (induction src len i "list_of s" arbitrary: s rule: transform_blocks.induct)
  case (1 src len i)
  have w: "unat (i + 63) = unat i + 63" using 1(3,4) unat_plus_u32 [of i 63] by simp
  show ?case
  proof (cases "unat i + 63 < unat len")
    case False
    then have "\<not> i + 63 < len" by (simp add: word_less_nat_alt w)
    then show ?thesis
      using False 1(2,3) by (subst transform_blocks.simps) (simp add: blocks_short)
  next
    case True
    then have c: "i + 63 < len" "\<not> unat len < unat i + 64" by (auto simp: word_less_nat_alt w)
    have u: "unat (i + 64) = unat i + 64" using c by (intro unat_plus_64 [of i len]) auto
    let ?b = "take 64 (drop (unat i) src)"
    have t: "SHA1Transform (list_of s) (drop (unat i) src) = list_of (compress s ?b)"
      using True 1(2) by (intro SHA1Transform_std) simp
    have b: "blocks (drop (unat i) src) = ?b # blocks (drop (unat i + 64) src)"
      using True 1(2) by (subst blocks.simps) (simp add: add.commute)
    obtain i' where i': "transform_blocks src len (i + 64) (list_of (compress s ?b))
        = Ret (i', list_of (foldl compress (compress s ?b) (blocks (drop (unat (i + 64)) src))))"
      "unat (i + 64) \<le> unat i'" "unat i' \<le> unat len" "64 dvd (unat i' - unat (i + 64))" "unat len - unat i' < 64"
      using 1(1) [of "compress s ?b"] c t 1(2,4) u True by auto
    have "unat i' - unat i = unat i' - unat (i + 64) + 64" using i'(2) u by simp
    then have "64 dvd (unat i' - unat i)" using i'(4) by (simp only: dvd_add dvd_refl)
    then show ?thesis
      using i' c u by (subst transform_blocks.simps) (auto simp: t b)
  qed
qed

text \<open>What a context stands for: whole blocks that are hashed, and the rest, in the buffer.\<close>

definition hashed :: "SHA1_CTX \<Rightarrow> bytes \<Rightarrow> bool" where
  "hashed context M \<longleftrightarrow> length (sc_buffer context) = 64
     \<and> sc_count0 context = of_nat (8 * length M) \<and> sc_count1 context = of_nat (8 * length M div 2 ^ 32)
     \<and> (\<exists>A B. M = A @ B \<and> 64 dvd length A \<and> length B < 64
          \<and> sc_state context = list_of (hash_std A) \<and> take (length B) (sc_buffer context) = B)"

lemma hashed_init: "length (sc_buffer context) = 64 \<Longrightarrow> hashed (SHA1Init context) []"
  by (simp add: hashed_def SHA1Init_def hash_std_def blocks_short)

lemma sum_wraps:
  fixes n :: nat
  assumes "a < n" "b < n"
  shows "(a + b) mod n < a \<longleftrightarrow> n \<le> a + b" "(a + b) div n = (if n \<le> a + b then 1 else 0)"
proof -
  have "(a + b) mod n = (if n \<le> a + b then a + b - n else a + b)"
  proof (cases "n \<le> a + b")
    case True
    moreover have "a + b - n < n" using assms by linarith
    ultimately show ?thesis by (simp add: le_mod_geq)
  qed simp
  then show "(a + b) mod n < a \<longleftrightarrow> n \<le> a + b" using assms by auto
  show "(a + b) div n = (if n \<le> a + b then 1 else 0)"
  proof (cases "n \<le> a + b")
    case True
    moreover have "a + b - n < n" using assms by linarith
    ultimately show ?thesis using assms by (simp add: le_div_geq)
  qed simp
qed

lemma carry:
  "(of_nat (a + b) :: u32) < of_nat a \<longleftrightarrow> 2 ^ 32 \<le> a mod 2 ^ 32 + b mod 2 ^ 32"
proof -
  have "(of_nat (a + b) :: u32) < of_nat a \<longleftrightarrow> (a mod 2 ^ 32 + b mod 2 ^ 32) mod 2 ^ 32 < a mod 2 ^ 32"
    unfolding word_less_nat_alt unat_of_nat by (simp add: mod_add_eq)
  also have "\<dots> \<longleftrightarrow> 2 ^ 32 \<le> a mod 2 ^ 32 + b mod 2 ^ 32"
    by (rule sum_wraps) simp_all
  finally show ?thesis .
qed

lemma count_high:
  "(of_nat (a div 2 ^ 32) + (if (of_nat (a + b) :: u32) < of_nat a then 1 else 0) + of_nat (b div 2 ^ 32) :: u32)
   = of_nat ((a + b) div 2 ^ 32)"
proof -
  have "(a mod 2 ^ 32 + b mod 2 ^ 32) div 2 ^ 32 = (if 2 ^ 32 \<le> a mod 2 ^ 32 + b mod 2 ^ 32 then 1 else 0)"
    by (rule sum_wraps(2)) simp_all
  then show ?thesis unfolding carry div_add1_eq [of a b] by simp
qed

lemma buffer_index:
  "unat (drop_bit 3 (of_nat (8 * k) :: u32) AND 63) = k mod 64"
proof -
  have m: "8 * k mod 4294967296 = 8 * (k mod 536870912)"
    using mult_mod_right [of 8 k 536870912] by simp
  have "unat (drop_bit 3 (of_nat (8 * k) :: u32)) = k mod 2 ^ 29"
    unfolding unsigned_drop_bit_eq by (simp add: unat_of_nat drop_bit_eq_div take_bit_eq_mod m del: of_nat_mult)
  moreover have "x AND 63 = take_bit 6 x" for x :: u32
    by (simp add: take_bit_eq_mask mask_eq_exp_minus_1)
  ultimately have "unat (drop_bit 3 (of_nat (8 * k) :: u32) AND 63) = take_bit 6 (k mod 2 ^ 29)"
    by (simp only: unsigned_take_bit_eq)
  then show ?thesis by (simp add: take_bit_eq_mod mod_mod_cancel)
qed

lemma count_up_eq:
  "count_up cx len = cx\<lparr>sc_count0 := sc_count0 cx + push_bit 3 len,
     sc_count1 := sc_count1 cx + (if sc_count0 cx + push_bit 3 len < sc_count0 cx then 1 else 0)
       + drop_bit 29 len\<rparr>"
  by (simp add: count_up_def Let_def)

lemma SHA1Update_hashed:
  assumes h: "hashed context M" and len: "length src = unat len" "unat len < 2 ^ 32 - 64"
  shows "\<exists>context'. SHA1Update context src len = Ret context' \<and> hashed context' (M @ src)"
proof -
  obtain A B where M: "M = A @ B" "64 dvd length A" "length B < 64"
      "sc_state context = list_of (hash_std A)" "take (length B) (sc_buffer context) = B"
    and buf: "length (sc_buffer context) = 64"
    and c0: "sc_count0 context = of_nat (8 * length M)" and c1: "sc_count1 context = of_nat (8 * length M div 2 ^ 32)"
    using h unfolding hashed_def by blast
  let ?n = "unat len"
  have n: "of_nat ?n = len" by simp
  have p3: "push_bit 3 len = of_nat (8 * ?n)" by (simp add: push_bit_eq_mult)
  have d29: "drop_bit 29 len = of_nat (8 * ?n div 2 ^ 32)"
  proof -
    have "8 * ?n div 2 ^ 32 = ?n div 2 ^ 29" using div_mult_mult1 [of 8 ?n "2 ^ 29"] by simp
    moreover have "unat (drop_bit 29 len) = ?n div 2 ^ 29"
      by (simp only: unsigned_drop_bit_eq) (simp add: take_bit_unat drop_bit_eq_div)
    moreover have "of_nat (unat (drop_bit 29 len)) = drop_bit 29 len" by simp
    ultimately show ?thesis by metis
  qed
  define cx where "cx = context\<lparr>sc_count0 := of_nat (8 * length (M @ src)),
    sc_count1 := of_nat (8 * length (M @ src) div 2 ^ 32)\<rparr>"
  have cx: "count_up context len = cx"
  proof -
    have l: "8 * length (M @ src) = 8 * length M + 8 * ?n" using len(1) by simp
    show ?thesis
      unfolding count_up_eq cx_def p3 d29 c0 c1 of_nat_add [symmetric] count_high [symmetric] l ..
  qed
  define J where "J = drop_bit 3 (sc_count0 context) AND 63"
  have J: "unat J = length B"
  proof -
    have "length M mod 64 = length B" using M(1-3) by (auto elim!: dvdE)
    then show ?thesis unfolding J_def c0 buffer_index .
  qed
  have ctx: "SHA1Update context src len =
     bind_out (if 63 < J + len
        then let i = 64 - J
             in if length src < unat i then Undef
                else let buffer = blit (sc_buffer cx) (unat J) (take (unat i) src)
                     in bind_out (transform_blocks src len i (SHA1Transform (sc_state cx) buffer))
                          (\<lambda>(i, state). Ret (0, i, cx\<lparr>sc_state := state, sc_buffer := buffer\<rparr>))
        else Ret (J, 0, cx)) (\<lambda>(j, i, context).
       if 64 < unat j + (unat len - unat i) then Undef
       else Ret (context\<lparr>sc_buffer := blit (sc_buffer context) (unat j) (drop (unat i) src)\<rparr>))"
  proof -
    have t: "take ?n src = src" using len(1) by simp
    show ?thesis unfolding SHA1Update_def Let_def cx J_def [symmetric] t using len(1) by simp
  qed
  have jl: "unat (J + len) = length B + ?n"
    using len(2) M(3) unat_plus_u32 [of J ?n] by (simp add: J)
  show ?thesis
  proof (cases "length B + ?n < 64")
    case True
    then have "\<not> 63 < J + len" by (simp add: word_less_nat_alt jl)
    then have "SHA1Update context src len = Ret (cx\<lparr>sc_buffer := blit (sc_buffer cx) (length B) src\<rparr>)"
      using True unfolding ctx by (simp add: J)
    moreover have "hashed (cx\<lparr>sc_buffer := blit (sc_buffer cx) (length B) src\<rparr>) (M @ src)"
      unfolding hashed_def
    proof (intro conjI exI)
      show "M @ src = A @ (B @ src)" using M(1) by simp
      show "take (length (B @ src)) (sc_buffer (cx\<lparr>sc_buffer := blit (sc_buffer cx) (length B) src\<rparr>)) = B @ src"
        using M(3,5) buf True len(1) by (simp add: cx_def blit_def)
    qed (use M buf True len(1) in \<open>simp_all add: cx_def\<close>)
    ultimately show ?thesis by blast
  next
    case False
    then have c: "63 < J + len" by (simp add: word_less_nat_alt jl)
    have i: "unat (64 - J) = 64 - length B"
      using M(3) J by (simp add: unat_sub word_le_nat_alt)
    let ?i = "64 - length B"
    let ?buf = "B @ take ?i src"
    have bl: "blit (sc_buffer cx) (unat J) (take ?i src) = ?buf"
      using M(3,5) buf False len(1) by (simp add: cx_def blit_def J i)
    have lb: "length ?buf = 64" using M(3) False len(1) by simp
    have tr: "SHA1Transform (sc_state cx) ?buf = list_of (hash_std (A @ ?buf))"
      using lb M(2,4) SHA1Transform_std [of ?buf "hash_std A"]
      by (simp add: cx_def hash_append blocks_one)
    obtain i' where t: "transform_blocks src len (64 - J) (list_of (hash_std (A @ ?buf)))
        = Ret (i', list_of (foldl compress (hash_std (A @ ?buf)) (blocks (drop ?i src))))"
      "?i \<le> unat i'" "unat i' \<le> ?n" "64 dvd (unat i' - ?i)" "?n - unat i' < 64"
      using transform_blocks_std [of src len "64 - J" "hash_std (A @ ?buf)"] len False unfolding i
      by (simp only: append.assoc) fastforce
    define A' where "A' = A @ ?buf @ take (unat i' - ?i) (drop ?i src)"
    have dv: "64 dvd length (A @ ?buf)" "64 dvd length (take (unat i' - ?i) (drop ?i src))"
      using M(2) lb t(2-4) len(1) by (simp_all only: length_append) auto
    have tk: "drop ?i src = take (unat i' - ?i) (drop ?i src) @ drop (unat i') src"
      using t(2) append_take_drop_id [of "unat i' - ?i" "drop ?i src"] by simp
    have st: "foldl compress (hash_std (A @ ?buf)) (blocks (drop ?i src)) = hash_std A'"
    proof -
      have "blocks (drop ?i src) = blocks (take (unat i' - ?i) (drop ?i src)) @ blocks (drop (unat i') src)"
        using blocks_append [OF dv(2)] tk by metis
      moreover have "blocks (drop (unat i') src) = []" using t(5) len(1) by (simp add: blocks_short)
      moreover have "A' = (A @ ?buf) @ take (unat i' - ?i) (drop ?i src)" by (simp add: A'_def)
      ultimately show ?thesis by (simp only: hash_append [OF dv(1)]) simp
    qed
    let ?cx = "cx\<lparr>sc_state := list_of (hash_std A'), sc_buffer := ?buf\<rparr>"
    have "SHA1Update context src len = Ret (?cx\<lparr>sc_buffer := blit ?buf 0 (drop (unat i') src)\<rparr>)"
      unfolding ctx Let_def i bl tr t(1) st using c t(5) len False by simp
    moreover have "hashed (?cx\<lparr>sc_buffer := blit ?buf 0 (drop (unat i') src)\<rparr>) (M @ src)"
      unfolding hashed_def
    proof (intro conjI exI)
      show "M @ src = A' @ drop (unat i') src"
        using M(1) tk append_take_drop_id [of ?i src] unfolding A'_def by (metis append.assoc)
      show "64 dvd length A'" using dv unfolding A'_def by (simp only: length_append add.assoc [symmetric] dvd_add)
    qed (use M buf lb t(5) len(1) in \<open>simp_all add: cx_def blit_def\<close>)
    ultimately show ?thesis by blast
  qed
qed

section \<open>The digest\<close>

lemma padding_left_hashed:
  assumes "hashed context M"
  shows "padding_left context = (120 - length M mod 64) mod 64"
    "sc_count0 context AND 504 = 448 \<longleftrightarrow> padding_left context = 0"
proof -
  have c: "sc_count0 context = of_nat (8 * length M)" using assms by (simp add: hashed_def)
  have "unat (drop_bit 3 (sc_count0 context) AND 63) = unat (sc_count0 context) div 8 mod 64"
  proof -
    have "drop_bit 3 (sc_count0 context) AND 63 = take_bit 6 (drop_bit 3 (sc_count0 context))"
      by (simp add: take_bit_eq_mask mask_eq_exp_minus_1)
    then show ?thesis
      by (simp only: unsigned_take_bit_eq unsigned_drop_bit_eq)
        (simp add: take_bit_unat [unfolded take_bit_eq_mod, simplified] drop_bit_eq_div take_bit_eq_mod)
  qed
  then have k: "unat (sc_count0 context) div 8 mod 64 = length M mod 64"
    unfolding c buffer_index by simp
  then show "padding_left context = (120 - length M mod 64) mod 64" by (simp add: padding_left_def)
  have "r = 56 \<longleftrightarrow> (120 - r) mod 64 = 0" if "r < 64" for r :: nat
    using that mod_if [of "120 - r" 64] by (auto split: if_splits)
  then have "length M mod 64 = 56 \<longleftrightarrow> (120 - length M mod 64) mod 64 = 0" by simp
  then show "sc_count0 context AND 504 = 448 \<longleftrightarrow> padding_left context = 0"
    unfolding and_504_iff k padding_left_def by simp
qed

lemma pad_zeros_hashed:
  "hashed cx M \<Longrightarrow> \<exists>cx'. pad_zeros cx = Ret cx'
     \<and> hashed cx' (M @ replicate (padding_left cx) 0)"
proof (induction "padding_left cx" arbitrary: cx M)
  case 0
  then have "sc_count0 cx AND 504 = 448" using padding_left_hashed(2) by auto
  then show ?case using 0 by (subst pad_zeros.simps) simp
next
  case (Suc n)
  then have c: "sc_count0 cx AND 504 \<noteq> 448" using padding_left_hashed(2) by fastforce
  obtain cx1 where 1: "SHA1Update cx [0] 1 = Ret cx1" "hashed cx1 (M @ [0])"
    using SHA1Update_hashed [OF Suc.prems, of "[0]" 1] by auto
  have p: "padding_left cx = Suc (padding_left cx1)" using padding_step [OF 1(1) c] by simp
  then obtain cx' where "pad_zeros cx1 = Ret cx'"
      "hashed cx' ((M @ [0]) @ replicate (padding_left cx1) 0)"
    using Suc.hyps(1) [OF _ 1(2)] Suc.hyps(2) by auto
  then show ?case using c 1(1) p by (subst pad_zeros.simps) simp
qed

lemma byte_of_word:
  assumes "k \<le> 3"
  shows "(ucast (drop_bit (k * 8) (of_nat m :: u32) AND 255) :: u8) = of_nat (m div 256 ^ k)"
proof -
  have "m div 256 ^ k = drop_bit (k * 8) m"
    by (simp add: drop_bit_eq_div power_mult mult.commute [of k])
  moreover have "(ucast (drop_bit (k * 8) (of_nat m :: u32) AND mask 8) :: u8) = of_nat (drop_bit (k * 8) m)"
    using assms by (intro bit_word_eqI) (auto simp: bit_simps)
  ultimately show ?thesis by (simp add: mask_eq_exp_minus_1)
qed

lemma length_length_std: "length (length_std n) = 8"
  by (simp add: length_std_def)

lemma count_bytes_hashed: "hashed context M \<Longrightarrow> count_bytes context = length_std (length M)"
proof -
  assume h: "hashed context M"
  let ?L = "8 * length M"
  have w: "word_bytes (of_nat m) = map (\<lambda>i. of_nat (m div 256 ^ (3 - i))) [0..<4]" for m
    unfolding word_bytes_def by (intro map_cong refl byte_of_word) simp
  have "word_bytes (of_nat (?L div 2 ^ 32)) @ word_bytes (of_nat ?L)
      = map (\<lambda>i. of_nat (?L div 2 ^ 32 div 256 ^ (3 - i))) [0..<4] @ map (\<lambda>i. of_nat (?L div 256 ^ (3 - i))) [0..<4]"
    by (simp only: w)
  also have "\<dots> = length_std (length M)"
    by (simp add: length_std_def upt_rec div_mult2_eq [symmetric] del: of_nat_mult)
  finally show ?thesis using h by (simp add: hashed_def count_bytes_def)
qed

lemma SHA1Final_hashed:
  assumes "hashed context M"
  shows "SHA1Final context = Ret (sha1_std M)"
proof -
  obtain c1 where c1: "SHA1Update context [0x80] 1 = Ret c1" "hashed c1 (M @ [0x80])"
    using SHA1Update_hashed [OF assms, of "[128]" 1] by auto
  obtain c2 where c2: "pad_zeros c1 = Ret c2" "hashed c2 ((M @ [0x80]) @ replicate (padding_left c1) 0)"
    using pad_zeros_hashed [OF c1(2)] by blast
  have fc: "count_bytes context = length_std (length M)" by (rule count_bytes_hashed [OF assms])
  note l8 = length_length_std
  obtain c3 where c3: "SHA1Update c2 (length_std (length M)) 8 = Ret c3"
      "hashed c3 (((M @ [0x80]) @ replicate (padding_left c1) 0) @ length_std (length M))"
    using SHA1Update_hashed [OF c2(2), of "length_std (length M)" 8] l8 by auto
  have z: "padding_left c1 = zeros_std (length M)"
  proof -
    have r: "length M mod 64 < 64" by simp
    have "(length M + 1) mod 64 = (if length M mod 64 = 63 then 0 else length M mod 64 + 1)"
      by (simp add: mod_Suc)
    then show ?thesis using r padding_left_hashed(1) [OF c1(2)] by (auto simp: zeros_std_def)
  qed
  have h3: "hashed c3 (pad_std M)" using c3(2) by (simp add: pad_std_def z)
  have "64 dvd length (pad_std M)"
  proof -
    define q r where "q = length M div 64" and "r = length M mod 64"
    have M: "length M = 64 * q + r" "r < 64" by (simp_all add: q_def r_def)
    then have "zeros_std (length M) = (if r \<le> 55 then 55 - r else 119 - r)"
      by (auto simp: zeros_std_def mod_if [of "119 - r"])
    then have "length (pad_std M) = (if r \<le> 55 then 64 * (q + 1) else 64 * (q + 2))"
      using M by (auto simp: pad_std_def l8)
    then have "length (pad_std M) = 64 * (q + (if r \<le> 55 then 1 else 2))" by simp
    then show ?thesis by simp
  qed
  then have "sc_state c3 = list_of (hash_std (pad_std M))"
    using h3 unfolding hashed_def
    by (metis append_Nil2 dvd_add_right_iff length_append length_0_conv nat_dvd_not_less neq0_conv)
  then show ?thesis
    unfolding SHA1Final_def Let_def c1(1) c2(1) fc c3(1) sha1_std_def bind_out.simps
    by (cases "hash_std (pad_std M)") simp
qed

fun update_all :: "SHA1_CTX \<Rightarrow> bytes list \<Rightarrow> SHA1_CTX outcome" where
  "update_all context [] = Ret context"
| "update_all context (d # ds) =
     bind_out (SHA1Update context d (of_nat (length d))) (\<lambda>context. update_all context ds)"

lemma update_all_hashed:
  assumes "hashed cx M" "\<forall>d\<in>set ds. length d < 2 ^ 32 - 64"
  shows "\<exists>cx'. update_all cx ds = Ret cx' \<and> hashed cx' (M @ concat ds)"
  using assms
proof (induction ds arbitrary: cx M)
  case Nil
  then show ?case by simp
next
  case (Cons d ds)
  have "unat (of_nat (length d) :: u32) = length d" using Cons.prems(2) by (simp add: unat_of_nat)
  then obtain c1 where "SHA1Update cx d (of_nat (length d)) = Ret c1" "hashed c1 (M @ d)"
    using SHA1Update_hashed [OF Cons.prems(1), of d "of_nat (length d)"] Cons.prems(2) by auto
  then show ?case using Cons.IH [of c1 "M @ d"] Cons.prems(2) by simp
qed

section \<open>Properties\<close>

text \<open>C34. The digest is SHA-1 as FIPS 180-1 defines it, whatever the pieces, of less than 4 GB each, in
  which the message is handed over, and whatever the context held before it was initialised.\<close>

theorem sha1_is_standard:
  assumes "length (sc_buffer context) = 64" "\<forall>d\<in>set ds. length d < 2 ^ 32 - 64"
  shows "bind_out (update_all (SHA1Init context) ds) SHA1Final = Ret (sha1_std (concat ds))"
  using update_all_hashed [OF hashed_init [OF assms(1)] assms(2)] SHA1Final_hashed by auto

theorem sha1_is_standard_witness:
  "bind_out (update_all (SHA1Init \<lparr>sc_state = [], sc_count0 = 0, sc_count1 = 0, sc_buffer = replicate 64 0\<rparr>)
      [bytes_of ''a'', bytes_of ''bc'']) SHA1Final = Ret (sha1_std (bytes_of ''abc''))"
  using sha1_is_standard
    [of "\<lparr>sc_state = [], sc_count0 = 0, sc_count1 = 0, sc_buffer = replicate 64 0\<rparr>" "[bytes_of ''a'', bytes_of ''bc'']"]
  by (simp add: bytes_of_def)

end
