(* ===== verification/Streamerlink.thy ===== *)
theory Streamerlink
  imports Response
begin

text \<open>
  Streamer links, streamerlink.c: a client that connects to a streamer and hands the bytes of its
  response to a handler.  The connection is read by a thread; \<open>streamerlink_stop_thread\<close> waits for it,
  so that it is the turn that runs the thread to its end.  The value of a \<open>void*\<close> for the user of a handler is
  either the link or what the user gave; the user's own state is separate and is what handlers change.
  The connection open_tcp_socket makes, its address, the answers of app_quit, the success of fopen and
  the moment another thread clears the flag \<open>cont\<close> are arguments.
\<close>

section \<open>The link\<close>

datatype user_ptr = LinkPtr | UserPtr

text \<open>What the handlers see: the pointer, the pieces that may still be read before the flag is cleared,
  and the state of the user.\<close>

record 'u link_user =
  lu_ptr :: user_ptr
  lu_cont :: "nat option"
  lu_state :: 'u

type_synonym 'u link_ondata = "user_ptr \<Rightarrow> 'u \<Rightarrow> bytes \<Rightarrow> int \<times> 'u"
type_synonym 'u link_onresponse = "user_ptr \<Rightarrow> 'u \<Rightarrow> int \<Rightarrow> http_header_t list \<Rightarrow> int \<times> 'u"

record 'u streamerlink_t =
  sk_response :: "'u link_user response_t option"
  sk_user :: 'u
  sk_ondata :: "'u link_ondata"
  sk_onresponse :: "'u link_onresponse option"
  sk_socket :: "tcp_t option"
  sk_addr :: "addr_t option"
  sk_remote_addr :: "addr_t option"
  sk_thread :: bool
  sk_cont :: bool
  sk_autoconnect :: bool

definition new_streamerlink ::
  "'u link_ondata option \<Rightarrow> 'u link_onresponse option \<Rightarrow> 'u \<Rightarrow> bool \<Rightarrow> 'u streamerlink_t option" where
  "new_streamerlink ondata onresponse userdata autoconnect =
     (case ondata of
        None \<Rightarrow> None
      | Some h \<Rightarrow>
          Some \<lparr>sk_response = None, sk_user = userdata, sk_ondata = h, sk_onresponse = onresponse,
                sk_socket = None, sk_addr = new_addr0, sk_remote_addr = None, sk_thread = False,
                sk_cont = False, sk_autoconnect = autoconnect\<rparr>)"

definition streamerlink_addr :: "'u streamerlink_t \<Rightarrow> addr_t option" where
  "streamerlink_addr link = sk_addr link"

definition streamerlink_close_connection :: "'u streamerlink_t \<Rightarrow> int \<times> 'u streamerlink_t" where
  "streamerlink_close_connection link = (0, link\<lparr>sk_socket := None, sk_addr := if sk_addr link = None then None else new_addr0\<rparr>)"

text \<open>Connecting: the socket and its own address.\<close>

definition streamerlink_open ::
  "(addr_t \<Rightarrow> (tcp_t \<times> addr_t) option) \<Rightarrow> 'u streamerlink_t \<Rightarrow> (int \<times> 'u streamerlink_t) outcome" where
  "streamerlink_open connect link =
     bind_out (deref (sk_remote_addr link)) (\<lambda>remote.
       case connect remote of
         None \<Rightarrow> Ret (-1, link\<lparr>sk_socket := None\<rparr>)
       | Some (s, a) \<Rightarrow> Ret (0, link\<lparr>sk_socket := Some s, sk_addr := Some a\<rparr>))"

definition stream_request :: "addr_t \<Rightarrow> string" where
  "stream_request remote =
     ''GET /stream.html HTTP/1.1'' @ crlf @ ''Host: '' @ addr_ip remote 64 @ crlf
     @ ''Connection: close'' @ crlf @ crlf"

definition streamerlink_send_request :: "'u streamerlink_t \<Rightarrow> (int \<times> 'u streamerlink_t) outcome" where
  "streamerlink_send_request link =
     bind_out (deref (sk_remote_addr link)) (\<lambda>remote.
     bind_out (deref (sk_socket link)) (\<lambda>s.
     bind_out (send_printed s 1024 (stream_request remote)) (\<lambda>(ret, s).
       Ret (if ret = -1 then -1 else 0, link\<lparr>sk_socket := Some s\<rparr>))))"

section \<open>The thread\<close>

text \<open>The handlers of the response call those of the link.  A link always has a handler for data.\<close>

definition streamerlink_ondata :: "'u link_ondata \<Rightarrow> 'u link_user \<Rightarrow> bytes \<Rightarrow> int \<times> 'u link_user" where
  "streamerlink_ondata h u data =
     (if lu_cont u = Some 0 then (-1, u)
      else let (err, state) = h UserPtr (lu_state u) data
           in (err, u\<lparr>lu_cont := map_option (\<lambda>n. n - 1) (lu_cont u), lu_state := state\<rparr>))"

text \<open>The handler for the header is installed as it is: it gets the pointer of the response.\<close>

definition call_onresponse ::
  "'u link_onresponse \<Rightarrow> 'u link_user \<Rightarrow> int \<Rightarrow> http_header_t list \<Rightarrow> int \<times> 'u link_user" where
  "call_onresponse h u status headers =
     (let (err, state) = h (lu_ptr u) (lu_state u) status headers in (err, u\<lparr>lu_state := state\<rparr>))"

text \<open>
  The response streamerlink_run sets up.  Each of the two setters stores the pointer it is given.
\<close>

definition streamerlink_response ::
  "bool \<Rightarrow> nat option \<Rightarrow> 'u streamerlink_t \<Rightarrow> 'u link_user response_t" where
  "streamerlink_response fopen_ok stop link =
     (let u = \<lparr>lu_ptr = UserPtr, lu_cont = stop, lu_state = sk_user link\<rparr>;
          r = new_response u 200;
          r = snd (response_set_onheaders r (map_option call_onresponse (sk_onresponse link))
                     (u\<lparr>lu_ptr := UserPtr\<rparr>));
          r = snd (response_set_ondata r (Some (streamerlink_ondata (sk_ondata link)))
                     (u\<lparr>lu_ptr := LinkPtr\<rparr>))
      in snd (response_dumpto fopen_ok r ''/tmp/dump.txt''))"

definition streamerlink_cleanup :: "'u streamerlink_t \<Rightarrow> 'u streamerlink_t" where
  "streamerlink_cleanup link =
     (snd (streamerlink_close_connection (link\<lparr>sk_response := None\<rparr>)))\<lparr>sk_thread := False\<rparr>"

text \<open>The parser is freshly initialised; stop is the moment the flag is cleared after it was set.\<close>

definition streamerlink_run ::
  "('u link_user response_t, 'p) parser_exec \<Rightarrow> 'p \<Rightarrow> nat option \<Rightarrow> bool \<Rightarrow> nat option \<Rightarrow> 'u streamerlink_t
   \<Rightarrow> 'u streamerlink_t outcome" where
  "streamerlink_run exec p q fopen_ok stop link =
     bind_out (streamerlink_send_request link) (\<lambda>(err, link).
       if err \<noteq> 0 then Ret (streamerlink_cleanup link)
       else
         let link = link\<lparr>sk_cont := True\<rparr>;
             link = link\<lparr>sk_response := None\<rparr>;
             response = streamerlink_response fopen_ok stop link
         in bind_out (deref (sk_socket link)) (\<lambda>s.
            bind_out (response_parse_html exec q p response s PARSE_ALL) (\<lambda>(_, s, response).
              Ret (streamerlink_cleanup
                (link\<lparr>sk_socket := Some s, sk_user := lu_state (rs_user response)\<rparr>)))))"

section \<open>Operations\<close>

text \<open>Stopping clears the flag and waits for the thread.\<close>

record ('u, 'p) link_env =
  le_exec :: "('u link_user response_t, 'p) parser_exec"
  le_parser :: 'p
  le_quit :: "nat option"
  le_fopen :: bool
  le_stop :: "nat option"
  le_connect :: "addr_t \<Rightarrow> (tcp_t \<times> addr_t) option"
  le_new_thread :: bool

definition run_thread :: "('u, 'p) link_env \<Rightarrow> 'u streamerlink_t \<Rightarrow> 'u streamerlink_t outcome" where
  "run_thread env link =
     streamerlink_run (le_exec env) (le_parser env) (le_quit env) (le_fopen env) (le_stop env) link"

definition streamerlink_stop_thread ::
  "('u, 'p) link_env \<Rightarrow> 'u streamerlink_t \<Rightarrow> (int \<times> 'u streamerlink_t) outcome" where
  "streamerlink_stop_thread env link =
     (let link = link\<lparr>sk_cont := False\<rparr>
      in if sk_thread link then bind_out (run_thread env link) (\<lambda>link. Ret (0, link))
         else Ret (0, link))"

definition streamerlink_disconnect ::
  "('u, 'p) link_env \<Rightarrow> 'u streamerlink_t \<Rightarrow> (int \<times> 'u streamerlink_t) outcome" where
  "streamerlink_disconnect env link =
     bind_out (streamerlink_stop_thread env link) (\<lambda>(err, link).
       if err \<noteq> 0 then Ret (-1, link) else Ret (streamerlink_close_connection link))"

definition streamerlink_connect ::
  "('u, 'p) link_env \<Rightarrow> 'u streamerlink_t \<Rightarrow> (int \<times> 'u streamerlink_t) outcome" where
  "streamerlink_connect env link =
     bind_out (streamerlink_disconnect env link) (\<lambda>(err, link).
       if err \<noteq> 0 then Ret (-1, link)
       else if sk_remote_addr link = None then Ret (0, link)
       else bind_out (streamerlink_open (le_connect env) link) (\<lambda>(ret, link).
              if ret \<noteq> 0 then Ret (ret, snd (streamerlink_close_connection link))
              else if le_new_thread env then Ret (0, link\<lparr>sk_thread := True\<rparr>)
              else Ret (-1, snd (streamerlink_close_connection link))))"

definition streamerlink_set_remote ::
  "('u, 'p) link_env \<Rightarrow> 'u streamerlink_t \<Rightarrow> addr_t option \<Rightarrow> (int \<times> 'u streamerlink_t) outcome" where
  "streamerlink_set_remote env link addr =
     bind_out (streamerlink_stop_thread env link) (\<lambda>(ret, link).
       if ret \<noteq> 0 then Ret (-1, link)
       else let (ret, link) = streamerlink_close_connection link
            in if ret \<noteq> 0 then Ret (ret, link)
               else let link = link\<lparr>sk_remote_addr := addr_clone addr\<rparr>
                    in if sk_remote_addr link \<noteq> None \<and> sk_autoconnect link
                       then streamerlink_connect env link
                       else Ret (0, link))"

text \<open>Deleting a link: its last state, of which everything is freed.\<close>

definition delete_streamerlink ::
  "('u, 'p) link_env \<Rightarrow> 'u streamerlink_t option \<Rightarrow> 'u streamerlink_t option outcome" where
  "delete_streamerlink env link =
     (case link of
        None \<Rightarrow> Ret None
      | Some link \<Rightarrow>
          bind_out (streamerlink_stop_thread env link) (\<lambda>(err, link).
            let link = snd (streamerlink_close_connection link)
            in Ret (Some (link\<lparr>sk_response := None, sk_remote_addr := None\<rparr>))))"

section \<open>Reachable links\<close>

text \<open>The thread may come to its end by itself, and operations wait for it.\<close>

inductive streamerlink_step ::
    "('u link_user response_t, 'p) parser_exec \<Rightarrow> 'u streamerlink_t \<Rightarrow> 'u streamerlink_t \<Rightarrow> bool"
  for exec where
  sl_remote: "le_exec env = exec \<Longrightarrow> streamerlink_set_remote env link addr = Ret (err, link') \<Longrightarrow>
     streamerlink_step exec link link'"
| sl_connect: "le_exec env = exec \<Longrightarrow> streamerlink_connect env link = Ret (err, link') \<Longrightarrow>
     streamerlink_step exec link link'"
| sl_disconnect: "le_exec env = exec \<Longrightarrow> streamerlink_disconnect env link = Ret (err, link') \<Longrightarrow>
     streamerlink_step exec link link'"
| sl_thread: "le_exec env = exec \<Longrightarrow> sk_thread link \<Longrightarrow> run_thread env link = Ret link' \<Longrightarrow>
     streamerlink_step exec link link'"

inductive streamerlink_reachable ::
    "('u link_user response_t, 'p) parser_exec \<Rightarrow> 'u streamerlink_t \<Rightarrow> bool" for exec where
  sl_new: "new_streamerlink ondata onresponse userdata autoconnect = Some link \<Longrightarrow>
     streamerlink_reachable exec link"
| sl_step: "streamerlink_reachable exec link \<Longrightarrow> streamerlink_step exec link link' \<Longrightarrow>
     streamerlink_reachable exec link'"

text \<open>The socket is open exactly while the thread runs, which has an address to send to.\<close>

definition streamerlink_wf :: "'u streamerlink_t \<Rightarrow> bool" where
  "streamerlink_wf link \<longleftrightarrow> (sk_socket link \<noteq> None \<longleftrightarrow> sk_thread link)
     \<and> (sk_thread link \<longrightarrow> sk_remote_addr link \<noteq> None) \<and> sk_response link = None \<and> sk_addr link \<noteq> None"

lemma new_addr0_Some: "\<exists>a. new_addr0 = Some a"
  by (simp add: new_addr0_eq)

lemma close_wf:
  "streamerlink_close_connection link = (err, link') \<Longrightarrow> sk_response link = None \<Longrightarrow> sk_addr link \<noteq> None
   \<Longrightarrow> \<not> sk_thread link \<Longrightarrow> err = 0 \<and> streamerlink_wf link' \<and> sk_socket link' = None
     \<and> \<not> sk_thread link' \<and> sk_remote_addr link' = sk_remote_addr link
     \<and> sk_autoconnect link' = sk_autoconnect link"
  by (auto simp: streamerlink_close_connection_def streamerlink_wf_def new_addr0_Some)

lemma send_request_keeps:
  "streamerlink_send_request link = Ret (err, link') \<Longrightarrow> \<exists>s. link' = link\<lparr>sk_socket := Some s\<rparr>"
  by (auto simp: streamerlink_send_request_def outcome_simps split: prod.splits)

lemma streamerlink_run_wf:
  assumes "run_thread env link = Ret link'" "sk_addr link \<noteq> None"
  shows "streamerlink_wf link' \<and> \<not> sk_thread link' \<and> sk_remote_addr link' = sk_remote_addr link
    \<and> sk_autoconnect link' = sk_autoconnect link"
  using assms
  by (auto simp: run_thread_def streamerlink_run_def outcome_simps streamerlink_cleanup_def Let_def
      streamerlink_close_connection_def streamerlink_wf_def new_addr0_Some dest!: send_request_keeps
      split: if_splits)

lemma stop_wf:
  assumes "streamerlink_stop_thread env link = Ret (err, link')" "streamerlink_wf link"
  shows "err = 0 \<and> streamerlink_wf link' \<and> \<not> sk_thread link' \<and> sk_remote_addr link' = sk_remote_addr link
    \<and> sk_autoconnect link' = sk_autoconnect link"
proof (cases "sk_thread link")
  case True
  then have "run_thread env (link\<lparr>sk_cont := False\<rparr>) = Ret link'" "err = 0"
    using assms(1) by (auto simp: streamerlink_stop_thread_def Let_def outcome_simps)
  then show ?thesis using streamerlink_run_wf [of env "link\<lparr>sk_cont := False\<rparr>" link'] assms(2) by (simp add: streamerlink_wf_def)
next
  case False
  then show ?thesis using assms by (auto simp: streamerlink_stop_thread_def Let_def streamerlink_wf_def)
qed

lemma disconnect_wf:
  assumes "streamerlink_disconnect env link = Ret (err, link')" "streamerlink_wf link"
  shows "err = 0 \<and> streamerlink_wf link' \<and> sk_socket link' = None \<and> \<not> sk_thread link'
    \<and> sk_remote_addr link' = sk_remote_addr link"
proof -
  obtain e1 l1 where 1: "streamerlink_stop_thread env link = Ret (e1, l1)"
      "(if e1 \<noteq> 0 then Ret (-1, l1) else Ret (streamerlink_close_connection l1)) = Ret (err, link')"
    using assms(1) by (auto simp: streamerlink_disconnect_def outcome_simps)
  have w: "e1 = 0" "streamerlink_wf l1" "\<not> sk_thread l1" "sk_remote_addr l1 = sk_remote_addr link"
    using stop_wf [OF 1(1) assms(2)] by auto
  then have "streamerlink_close_connection l1 = (err, link')" using 1(2) by simp
  from close_wf [OF this] w show ?thesis by (auto simp: streamerlink_wf_def)
qed

lemma connect_wf:
  assumes "streamerlink_connect env link = Ret (err, link')" "streamerlink_wf link"
  shows "streamerlink_wf link' \<and> (err = 0 \<and> sk_remote_addr link \<noteq> None \<longrightarrow> sk_thread link')"
proof -
  obtain e1 l1 where 1: "streamerlink_disconnect env link = Ret (e1, l1)"
    using assms(1) by (auto simp: streamerlink_connect_def outcome_simps)
  have w: "e1 = 0" "streamerlink_wf l1" "sk_socket l1 = None" "\<not> sk_thread l1" "sk_remote_addr l1 = sk_remote_addr link"
    using disconnect_wf [OF 1 assms(2)] by auto
  show ?thesis
  proof (cases "sk_remote_addr link")
    case None
    then show ?thesis using assms(1) 1 w by (auto simp: streamerlink_connect_def)
  next
    case (Some remote)
    then show ?thesis
      using assms(1) 1 w
      by (auto simp: streamerlink_connect_def streamerlink_open_def streamerlink_close_connection_def
          streamerlink_wf_def new_addr0_Some split: option.splits if_splits)
  qed
qed

lemma set_remote_wf:
  assumes "streamerlink_set_remote env link addr = Ret (err, link')" "streamerlink_wf link"
  shows "streamerlink_wf link'"
proof -
  obtain e1 l1 where 1: "streamerlink_stop_thread env link = Ret (e1, l1)"
    using assms(1) by (auto simp: streamerlink_set_remote_def outcome_simps)
  have w: "e1 = 0" "streamerlink_wf l1" "\<not> sk_thread l1" using stop_wf [OF 1 assms(2)] by auto
  obtain e2 l2 where 2: "streamerlink_close_connection l1 = (e2, l2)" by fastforce
  have v: "e2 = 0" "streamerlink_wf l2" "\<not> sk_thread l2" "sk_socket l2 = None"
    using close_wf [OF 2] w by (auto simp: streamerlink_wf_def)
  let ?l = "l2\<lparr>sk_remote_addr := addr_clone addr\<rparr>"
  have l: "streamerlink_wf ?l" using v by (simp add: streamerlink_wf_def)
  have "(if sk_remote_addr ?l \<noteq> None \<and> sk_autoconnect ?l then streamerlink_connect env ?l else Ret (0, ?l)) = Ret (err, link')"
    using assms(1) 1 2 w v by (simp add: streamerlink_set_remote_def Let_def)
  then show ?thesis using l connect_wf [of env ?l err link'] by (auto split: if_splits)
qed

lemma streamerlink_reachable_wf: "streamerlink_reachable exec link \<Longrightarrow> streamerlink_wf link"
proof (induction rule: streamerlink_reachable.induct)
  case (sl_new ondata onresponse userdata autoconnect link)
  then show ?case
    by (auto simp: new_streamerlink_def streamerlink_wf_def new_addr0_Some split: option.splits)
next
  case (sl_step link link')
  from sl_step.hyps(2) sl_step.IH show ?case
    by (cases rule: streamerlink_step.cases)
      (auto dest: set_remote_wf connect_wf disconnect_wf streamerlink_run_wf simp: streamerlink_wf_def [of link])
qed

section \<open>The handlers of a response\<close>

text \<open>The callbacks of the parser, one after the other, until one of them asks it to stop.\<close>

fun run_events :: "'u response_t \<Rightarrow> http_event list \<Rightarrow> 'u response_t outcome" where
  "run_events r [] = Ret r"
| "run_events r (e # es) =
     bind_out (response_callback r e) (\<lambda>(err, r). if err \<noteq> 0 then Ret r else run_events r es)"

definition link_handlers :: "'u link_ondata \<Rightarrow> 'u link_onresponse option \<Rightarrow> 'u link_user response_t \<Rightarrow> bool" where
  "link_handlers d h r \<longleftrightarrow> rs_onheaders r = map_option call_onresponse h
     \<and> rs_ondata r = Some (streamerlink_ondata d) \<and> lu_ptr (rs_user r) = LinkPtr"

lemma link_handlers_new:
  "link_handlers (sk_ondata link) (sk_onresponse link) (streamerlink_response fopen_ok stop link)"
  by (simp add: link_handlers_def streamerlink_response_def Let_def response_set_onheaders_def
      response_set_ondata_def response_dumpto_def new_response_def)

lemma link_handlers_upd [simp]:
  "link_handlers d h (r\<lparr>rs_headers := x1\<rparr>) = link_handlers d h r"
  "link_handlers d h (r\<lparr>rs_body := x2\<rparr>) = link_handlers d h r"
  "link_handlers d h (r\<lparr>rs_continue := x3\<rparr>) = link_handlers d h r"
  "link_handlers d h (r\<lparr>rs_hstate := x4\<rparr>) = link_handlers d h r"
  "link_handlers d h (r\<lparr>rs_status_buffer := x5\<rparr>) = link_handlers d h r"
  "link_handlers d h (r\<lparr>rs_hname := x6\<rparr>) = link_handlers d h r"
  "link_handlers d h (r\<lparr>rs_hvalue := x7\<rparr>) = link_handlers d h r"
  "link_handlers d h (r\<lparr>rs_status := x8\<rparr>) = link_handlers d h r"
  by (simp_all add: link_handlers_def)

lemma ondata_ptr: "streamerlink_ondata d u x = (err, u') \<Longrightarrow> lu_ptr u' = lu_ptr u"
  by (auto simp: streamerlink_ondata_def Let_def split: if_splits prod.splits)

lemma onresponse_ptr: "call_onresponse h u n hs = (err, u') \<Longrightarrow> lu_ptr u' = lu_ptr u"
  by (auto simp: call_onresponse_def Let_def split: prod.splits)

lemma log_handlers: "response_log tag t r = Ret r' \<Longrightarrow> link_handlers d h r' = link_handlers d h r"
  by (auto simp: response_log_def outcome_simps link_handlers_def split: if_splits)

lemma headers_complete_handlers:
  assumes "response_on_headers_complete n r = Ret (err, r')" "link_handlers d h r"
  shows "\<exists>r1. link_handlers d h r1 \<and> rs_user r1 = rs_user r \<and> rs_headers r' = rs_headers r1
    \<and> (case h of None \<Rightarrow> err = 0 \<and> r' = r1
       | Some f \<Rightarrow> \<exists>u. call_onresponse f (rs_user r) n (rs_headers r1) = (err, u) \<and> r' = r1\<lparr>rs_user := u\<rparr>)"
proof -
  obtain a v where n: "rs_hname r = Some a" "rs_hvalue r = Some v"
    using assms(1) by (cases "rs_hname r"; cases "rs_hvalue r") (auto simp: response_on_headers_complete_def)
  define r0 where "r0 = (if length a > 0 \<and> length v > 0 then snd (response_set_header r a v) else r)"
  define r1 where "r1 = (let r = r0\<lparr>rs_status_buffer := rs_status_buffer r0 @ [CHR 0x00], rs_status := n\<rparr>;
      r = r\<lparr>rs_hname := None, rs_hvalue := None\<rparr>
    in if rs_what r = PARSE_HEADERS then r\<lparr>rs_continue := False\<rparr> else r)"
  have r0: "link_handlers d h r0" "rs_user r0 = rs_user r"
    using assms(2) by (simp_all add: r0_def response_set_header_eq)
  then have r1: "link_handlers d h r1" "rs_user r1 = rs_user r" "rs_status r1 = n"
    by (simp_all add: r1_def Let_def)
  have "(case rs_onheaders r1 of None \<Rightarrow> Ret (0, r1)
      | Some f \<Rightarrow> let (err, u) = f (rs_user r1) (rs_status r1) (rs_headers r1) in Ret (err, r1\<lparr>rs_user := u\<rparr>))
      = Ret (err, r')"
    using assms(1) unfolding response_on_headers_complete_def n deref_simps bind_out.simps r1_def r0_def Let_def .
  then show ?thesis
    using r1 by (intro exI [of _ r1]) (cases h; auto simp: link_handlers_def split: prod.splits)
qed

lemma callback_handlers:
  assumes "response_callback r e = Ret (err, r')" "link_handlers d h r"
  shows "link_handlers d h r'"
proof (cases e)
  case (OnHeadersComplete n)
  then show ?thesis
    using headers_complete_handlers [of n r err r' d h] assms onresponse_ptr
    by (cases h) (auto simp: link_handlers_def dest!: onresponse_ptr)
next
  case (OnField x)
  then show ?thesis
    using assms
    by (auto simp: response_on_header_field_def outcome_simps Let_def response_set_header_eq
        split: if_splits dest!: log_handlers)
next
  case (OnValue x)
  then show ?thesis
    using assms by (auto simp: response_on_header_value_def outcome_simps split: if_splits dest!: log_handlers)
next
  case (OnBody x)
  then obtain r1 where 1: "response_log ''BODY'' (string_of x) r = Ret r1" "link_handlers d h r1"
    "(case rs_ondata r1 of None \<Rightarrow> Ret (0, r1\<lparr>rs_body := rs_body r1 @ x\<rparr>)
       | Some h \<Rightarrow> let (err, u) = h (rs_user r1) x in Ret (err, r1\<lparr>rs_user := u\<rparr>)) = Ret (err, r')"
    using assms log_handlers by (fastforce simp: response_on_body_def outcome_simps)
  then show ?thesis
    by (auto simp: link_handlers_def dest!: ondata_ptr split: prod.splits)
next
  case (OnStatus x)
  then show ?thesis
    using assms by (auto simp: response_on_status_def outcome_simps dest!: log_handlers)
qed (use assms in \<open>auto simp: response_on_message_complete_def\<close>)

lemma run_events_handlers: "run_events r es = Ret r' \<Longrightarrow> link_handlers d h r \<Longrightarrow> link_handlers d h r'"
proof (induction es arbitrary: r)
  case (Cons e es)
  then show ?case by (auto simp: outcome_simps split: if_splits dest: callback_handlers)
qed simp

section \<open>Properties\<close>

lemma set_remote_connects:
  assumes "streamerlink_set_remote env link addr = Ret (err, link')" "streamerlink_wf link"
  shows "(addr = None \<or> \<not> sk_autoconnect link \<longrightarrow> \<not> sk_thread link' \<and> sk_remote_addr link' = addr)
    \<and> (addr \<noteq> None \<and> sk_autoconnect link \<and> err = 0 \<longrightarrow> sk_thread link')"
proof -
  obtain e1 l1 where 1: "streamerlink_stop_thread env link = Ret (e1, l1)"
    using assms(1) by (auto simp: streamerlink_set_remote_def outcome_simps)
  have w: "e1 = 0" "streamerlink_wf l1" "\<not> sk_thread l1" "sk_autoconnect l1 = sk_autoconnect link"
    using stop_wf [OF 1 assms(2)] by auto
  obtain e2 l2 where 2: "streamerlink_close_connection l1 = (e2, l2)" by fastforce
  have v: "e2 = 0" "streamerlink_wf l2" "\<not> sk_thread l2" "sk_autoconnect l2 = sk_autoconnect link"
    using close_wf [OF 2] w by (auto simp: streamerlink_wf_def)
  let ?l = "l2\<lparr>sk_remote_addr := addr_clone addr\<rparr>"
  have l: "streamerlink_wf ?l" using v by (simp add: streamerlink_wf_def)
  have c: "(if sk_remote_addr ?l \<noteq> None \<and> sk_autoconnect ?l then streamerlink_connect env ?l else Ret (0, ?l)) = Ret (err, link')"
    using assms(1) 1 2 w v by (simp add: streamerlink_set_remote_def Let_def)
  then show ?thesis
    using connect_wf [OF _ l, of env err link'] v by (auto simp: addr_clone_def split: if_splits option.splits)
qed


definition example_stream_env :: "(nat, unit) link_env" where
  "example_stream_env =
     \<lparr>le_exec = \<lambda>cb p bs r. Ret (length bs, p, r), le_parser = (), le_quit = None, le_fopen = True,
      le_stop = None,
      le_connect = \<lambda>a. Some (\<lparr>is_open = True, rx = [], selects = [], txq = [], tx = []\<rparr>, a),
      le_new_thread = True\<rparr>"

definition example_stream_addr :: addr_t where
  "example_stream_addr = \<lparr>sin_family = AF_INET, sin_port = 0, sin_addr = 1\<rparr>"


text \<open>C32. The handler for the header of the response is called with the link where the code promises the
  pointer of the user, because the second setter overwrites what the first one stored: whatever the
  parser reported before, the result is what the handler makes of the link.\<close>

theorem streamerlink_onresponse_gets_link:
  assumes "sk_onresponse link = Some h"
    "run_events (streamerlink_response fopen_ok stop link) es = Ret r"
    "response_callback r (OnHeadersComplete n) = Ret (err, r')"
  shows "err = fst (h LinkPtr (lu_state (rs_user r)) n (rs_headers r'))"
proof -
  have "link_handlers (sk_ondata link) (Some h) r"
    using run_events_handlers [OF assms(2)] link_handlers_new [of link] assms(1) by simp
  from headers_complete_handlers [OF _ this, of n err r'] assms(3) this show ?thesis
    by (auto simp: call_onresponse_def link_handlers_def Let_def split_beta)
qed

definition picky_link :: "nat streamerlink_t" where
  "picky_link =
     \<lparr>sk_response = None, sk_user = 0, sk_ondata = \<lambda>p n d. (0, n + length d),
      sk_onresponse = Some (\<lambda>p n status hs. (if p = UserPtr then 0 else -1, n)), sk_socket = None,
      sk_addr = None, sk_remote_addr = None, sk_thread = True, sk_cont = True, sk_autoconnect = True\<rparr>"

theorem streamerlink_onresponse_gets_link_witness:
  "\<exists>r err r'. run_events (streamerlink_response False None picky_link) [OnField ''A'', OnValue ''b''] = Ret r
     \<and> response_callback r (OnHeadersComplete 200) = Ret (err, r') \<and> err = -1"
proof -
  let ?r0 = "streamerlink_response False None picky_link"
  obtain r where r: "run_events ?r0 [OnField ''A'', OnValue ''b''] = Ret r"
      "rs_hname r = Some ''A''" "rs_hvalue r = Some ''b''"
    by (auto simp: streamerlink_response_def Let_def response_set_onheaders_def response_set_ondata_def
        response_dumpto_def new_response_def response_on_header_field_def response_on_header_value_def
        response_log_def)
  have "response_callback r (OnHeadersComplete 200) \<noteq> Undef"
    using r(2,3) by (simp add: response_on_headers_complete_def Let_def split_beta split: option.splits)
  then obtain err r' where c: "response_callback r (OnHeadersComplete 200) = Ret (err, r')"
    by (cases "response_callback r (OnHeadersComplete 200)") auto
  have "sk_onresponse picky_link = Some (\<lambda>p n status hs. (if p = UserPtr then 0 else -1, n))"
    by (simp add: picky_link_def)
  from streamerlink_onresponse_gets_link [OF this r(1) c] r(1) c show ?thesis by auto
qed

end
