(* ===== verification/Application.thy ===== *)
theory Application
  imports Proxy Dump
begin

text \<open>
  The application, app.c, and the part of proxy.c that keeps the settings of the registry and the one
  proxy of a program: the static variables of the two files are the fields of a record.  Parsing the
  command line goes through getopt_long, whose answers, the option characters with their arguments and
  the operands it leaves, are an argument, as are the signals that arrive and path_make_absolute of the
  external library.  Setting the log file is recorded.
\<close>

section \<open>State\<close>

record app_t =
  ap_quit :: int
  ap_ip :: "string option"
  ap_logdir :: "string option"
  ap_session :: "string option"
  ap_name :: "string option"
  ap_config :: "string option"
  ap_print :: int
  ap_interrupts :: nat
  ap_logfile :: "string option"
  ap_dump :: dump_config_t
  rg_name :: "string option"
  rg_ip :: "string option"
  rg_port :: int
  rg_standalone :: int
  rg_addr :: "addr_t option"
  rg_proxy :: "proxy_t option"

definition initial_app :: app_t where
  "initial_app =
     \<lparr>ap_quit = 0, ap_ip = None, ap_logdir = None, ap_session = None, ap_name = None, ap_config = None,
      ap_print = 0, ap_interrupts = 0, ap_logfile = None,
      ap_dump = \<lparr>dc_dumping = 0, dc_dumping_dir = None, dc_replay_id = None\<rparr>,
      rg_name = None, rg_ip = None, rg_port = 10101, rg_standalone = 0, rg_addr = None, rg_proxy = None\<rparr>"

definition app_set_quit :: "app_t \<Rightarrow> app_t" where
  "app_set_quit a = a\<lparr>ap_quit := ap_quit a + 1\<rparr>"

definition app_print :: "app_t \<Rightarrow> int" where
  "app_print a = ap_print a"

definition app_set_print :: "app_t \<Rightarrow> app_t" where
  "app_set_print a = a\<lparr>ap_print := ap_print a + 1\<rparr>"

definition app_ip :: "app_t \<Rightarrow> string option" where
  "app_ip a = ap_ip a"

definition app_update_logfile :: "app_t \<Rightarrow> app_t" where
  "app_update_logfile a =
     (case (ap_logdir a, ap_name a) of
        (Some dir, Some name) \<Rightarrow> a\<lparr>ap_logfile := Some (snprintf 511 (dir @ ''/'' @ name @ ''.log''))\<rparr>
      | _ \<Rightarrow> a)"

definition app_set_logdir :: "string \<Rightarrow> app_t \<Rightarrow> app_t" where
  "app_set_logdir logdir a = app_update_logfile (a\<lparr>ap_logdir := Some logdir\<rparr>)"

definition app_get_logdir :: "app_t \<Rightarrow> string option" where
  "app_get_logdir a = ap_logdir a"

definition app_set_session :: "string \<Rightarrow> app_t \<Rightarrow> app_t" where
  "app_set_session session a =
     (let a = a\<lparr>ap_session := Some session\<rparr>;
          a = app_set_logdir (snprintf 1024 (session @ ''/log'')) a
      in a\<lparr>ap_dump := set_dumping_dir (Some (snprintf 1024 (session @ ''/dump''))) (ap_dump a)\<rparr>)"

definition app_get_session :: "app_t \<Rightarrow> string option" where
  "app_get_session a = ap_session a"

text \<open>The answer of path_make_absolute is an argument, None where it fails.\<close>

definition app_set_config :: "(string \<Rightarrow> string option) \<Rightarrow> string \<Rightarrow> app_t \<Rightarrow> app_t" where
  "app_set_config absolute path a =
     (let a = a\<lparr>ap_config := None\<rparr>
      in case absolute path of
           None \<Rightarrow> app_set_quit a
         | Some p \<Rightarrow> a\<lparr>ap_config := Some (snprintf 1024 p)\<rparr>)"

definition app_get_config :: "app_t \<Rightarrow> string option" where
  "app_get_config a = ap_config a"

text \<open>The function basename of the C library: the part after the last slash that something follows.\<close>

definition basename :: "string \<Rightarrow> string" where
  "basename path =
     (let p = rev (dropWhile (\<lambda>c. c = CHR ''/'') (rev path))
      in if path = [] then ''.''
         else if p = [] then ''/''
         else rev (takeWhile (\<lambda>c. c \<noteq> CHR ''/'') (rev p)))"

definition app_set_name :: "string \<Rightarrow> app_t \<Rightarrow> app_t" where
  "app_set_name path a = app_update_logfile (a\<lparr>ap_name := Some (basename path)\<rparr>)"

definition app_get_name :: "app_t \<Rightarrow> string option" where
  "app_get_name a = ap_name a"

section \<open>The settings of the registry\<close>

definition set_registry_name :: "string option \<Rightarrow> app_t \<Rightarrow> app_t" where
  "set_registry_name name a = a\<lparr>rg_name := name\<rparr>"

definition set_registry_ip :: "string option \<Rightarrow> app_t \<Rightarrow> app_t" where
  "set_registry_ip addr a = a\<lparr>rg_ip := addr\<rparr>"

definition get_registry_ip :: "app_t \<Rightarrow> string option" where
  "get_registry_ip a = (if rg_ip a \<noteq> None then rg_ip a else app_ip a)"

definition set_registry_port :: "int \<Rightarrow> app_t \<Rightarrow> app_t" where
  "set_registry_port port a = a\<lparr>rg_port := port\<rparr>"

definition get_registry_port :: "app_t \<Rightarrow> int" where
  "get_registry_port a = (if rg_port a \<noteq> 0 then rg_port a else 10101)"

definition set_registry_standalone :: "int \<Rightarrow> app_t \<Rightarrow> app_t" where
  "set_registry_standalone standalone a = a\<lparr>rg_standalone := standalone\<rparr>"

definition get_registry_standalone :: "app_t \<Rightarrow> int" where
  "get_registry_standalone a = rg_standalone a"

definition get_registry_name :: "app_t \<Rightarrow> string" where
  "get_registry_name a = (case rg_name a of None \<Rightarrow> ''registry'' | Some n \<Rightarrow> n)"

definition app_standalone :: "app_t \<Rightarrow> bool" where
  "app_standalone a \<longleftrightarrow> get_registry_standalone a \<noteq> 0"

section \<open>Options and signals\<close>

definition atoi :: "string \<Rightarrow> int" where
  "atoi s = to_int32 (fst (strtol10 s))"

text \<open>One option: its character and its argument, which getopt_long gives where the option has one.\<close>

definition parse_option ::
    "(string \<Rightarrow> string option) \<Rightarrow> char \<times> string option \<Rightarrow> app_t \<Rightarrow> app_t outcome" where
  "parse_option absolute opt a =
     (case opt of (c, optarg) \<Rightarrow>
        if c = CHR ''N'' then Ret (set_registry_name optarg a)
        else if c = CHR ''A'' then Ret (set_registry_ip optarg a)
        else if c = CHR ''P'' then bind_out (deref optarg) (\<lambda>s. Ret (set_registry_port (atoi s) a))
        else if c = CHR ''I'' then bind_out (deref optarg) (\<lambda>s. Ret (a\<lparr>ap_ip := Some s\<rparr>))
        else if c = CHR ''L'' then bind_out (deref optarg) (\<lambda>s. Ret (app_set_logdir s a))
        else if c = CHR ''s'' then bind_out (deref optarg) (\<lambda>s. Ret (app_set_session s a))
        else if c = CHR ''C'' then bind_out (deref optarg) (\<lambda>s. Ret (app_set_config absolute s a))
        else if c = CHR ''D'' then
          (let d = set_dumping 1 (ap_dump a)
           in Ret (a\<lparr>ap_dump := set_dumping_dir (Some (case optarg of None \<Rightarrow> ''.'' | Some s \<Rightarrow> s)) d\<rparr>))
        else if c = CHR ''p'' then Ret (app_set_print a)
        else if c = CHR ''a'' then Ret (set_registry_standalone 1 a)
        else if c = CHR ''R'' then Ret (a\<lparr>ap_dump := set_replay_id optarg (ap_dump a)\<rparr>)
        else Ret a)"

fun parse_options ::
    "(string \<Rightarrow> string option) \<Rightarrow> (char \<times> string option) list \<Rightarrow> app_t \<Rightarrow> app_t outcome" where
  "parse_options absolute [] a = Ret a"
| "parse_options absolute (x # xs) a =
     bind_out (parse_option absolute x a) (\<lambda>a. parse_options absolute xs a)"

text \<open>The program keeps its name and the operands.\<close>

definition app_parse_args ::
    "(string \<Rightarrow> string option) \<Rightarrow> (char \<times> string option) list \<Rightarrow> string list \<Rightarrow> string \<Rightarrow> app_t
     \<Rightarrow> (string list \<times> app_t) outcome" where
  "app_parse_args absolute opts operands argv0 a =
     bind_out (parse_options absolute opts a) (\<lambda>a. Ret (argv0 # operands, a))"

definition app_check_ip :: "app_t \<Rightarrow> app_t" where
  "app_check_ip a = (if ap_ip a = None then a\<lparr>ap_ip := Some ''0.0.0.0''\<rparr> else a)"

text \<open>Setting up, where the libraries and the signal handlers are set up without an error.\<close>

definition app_init ::
    "(string \<Rightarrow> string option) \<Rightarrow> (char \<times> string option) list \<Rightarrow> string list \<Rightarrow> string \<Rightarrow> app_t
     \<Rightarrow> (string list \<times> app_t) outcome" where
  "app_init absolute opts operands argv0 a =
     bind_out (app_parse_args absolute opts operands argv0 (app_set_name argv0 a)) (\<lambda>(argv, a).
       Ret (argv, app_check_ip a))"

datatype signal = SIGINT | SIGHUP | SIGTERM | SIGSEGV | SIGFPE | SIGPIPE | SIGILL | SIGABRT

datatype handled = Resume app_t | Exit int app_t | LongJump app_t

definition diagnostics_signal_handler :: "signal \<Rightarrow> app_t \<Rightarrow> handled" where
  "diagnostics_signal_handler signum a =
     (if signum = SIGINT \<or> signum = SIGHUP \<or> signum = SIGTERM then
        (let a = app_set_quit a; a = a\<lparr>ap_interrupts := ap_interrupts a + 1\<rparr>
         in if ap_interrupts a = 4 then Exit 1 a else Resume a)
      else if signum = SIGSEGV then Exit 1 (app_set_quit a)
      else if signum = SIGILL then Exit 1 (app_set_quit a)
      else if signum = SIGABRT then LongJump a
      else Resume a)"

section \<open>The one proxy\<close>

text \<open>
  What new_proxy meets when it is called: the library for JSON, the results of sending and connecting,
  and the messages the registry sends within ten seconds.
\<close>

record 'j proxy_start =
  ps_json :: "'j json_api"
  ps_env :: proxy_env
  ps_connected :: int
  ps_messages :: "'j list"

definition app_env :: "'j proxy_start \<Rightarrow> app_t \<Rightarrow> proxy_env" where
  "app_env ps a = (ps_env ps)\<lparr>pe_standalone := app_standalone a\<rparr>"

text \<open>The new proxy is made for the address that is stored, which may be left from an earlier call.\<close>

definition proxy_get :: "'j proxy_start \<Rightarrow> app_t \<Rightarrow> (proxy_t option \<times> app_t) outcome" where
  "proxy_get ps a =
     (case rg_proxy a of
        Some px \<Rightarrow> Ret (Some px, a)
      | None \<Rightarrow>
          let start = (\<lambda>a. bind_out (new_proxy (ps_json ps) (app_env ps a) (rg_addr a) (ps_connected ps) (ps_messages ps))
                (\<lambda>px. case px of
                   None \<Rightarrow> Ret (None, a\<lparr>rg_addr := None\<rparr>)
                 | Some px \<Rightarrow> Ret (Some px, a\<lparr>rg_proxy := Some px\<rparr>)))
          in if app_standalone a then start a
             else let a = a\<lparr>rg_addr := new_addr (get_registry_ip a) (get_registry_port a)\<rparr>
                  in if rg_addr a = None then Ret (None, a) else start a)"

definition proxy_cleanup :: "app_t \<Rightarrow> app_t" where
  "proxy_cleanup a = a\<lparr>rg_name := None, rg_ip := None, rg_addr := None, rg_proxy := None\<rparr>"

definition app_cleanup :: "app_t \<Rightarrow> app_t" where
  "app_cleanup a = a\<lparr>ap_ip := None, ap_logdir := None, ap_session := None, ap_name := None, ap_config := None\<rparr>"

text \<open>The libraries that are cleaned up too keep no state here.\<close>

definition rcom_cleanup :: "app_t \<Rightarrow> app_t" where
  "rcom_cleanup a = app_cleanup (proxy_cleanup a)"

definition with_proxy ::
    "'j proxy_start \<Rightarrow> 'r \<Rightarrow> (proxy_env \<Rightarrow> proxy_t \<Rightarrow> ('r \<times> proxy_t) outcome) \<Rightarrow> app_t \<Rightarrow> ('r \<times> app_t) outcome" where
  "with_proxy ps none f a =
     bind_out (proxy_get ps a) (\<lambda>(proxy, a).
       case proxy of
         None \<Rightarrow> Ret (none, a)
       | Some px \<Rightarrow> bind_out (f (app_env ps a) px) (\<lambda>(r, px). Ret (r, a\<lparr>rg_proxy := Some px\<rparr>)))"

text \<open>
  The interface of the library.  As in the proxy, the identifier and the end-point that is created are
  arguments; a NULL end-point is not closed.
\<close>

definition registry_open_datalink where
  "registry_open_datalink ps uuid name topic new a =
     with_proxy ps None (\<lambda>env px. proxy_open_datalink env uuid name topic new px) a"

definition registry_open_datahub where
  "registry_open_datahub ps uuid name topic new a =
     with_proxy ps None (\<lambda>env px. proxy_open_datahub env uuid name topic new px) a"

definition registry_open_messagelink where
  "registry_open_messagelink ps uuid name topic new a =
     with_proxy ps None (\<lambda>env px. proxy_open_messagelink env uuid name topic new px) a"

definition registry_open_messagehub where
  "registry_open_messagehub ps uuid name topic new a =
     with_proxy ps None (\<lambda>env px. proxy_open_messagehub env uuid name topic new px) a"

definition registry_open_service where
  "registry_open_service ps uuid name topic new a =
     with_proxy ps None (\<lambda>env px. proxy_open_service env uuid name topic new px) a"

definition registry_open_streamer where
  "registry_open_streamer ps uuid name topic new a =
     with_proxy ps None (\<lambda>env px. proxy_open_streamer env uuid name topic new px) a"

definition registry_open_streamerlink where
  "registry_open_streamerlink ps uuid name topic new a =
     with_proxy ps None (\<lambda>env px. proxy_open_streamerlink env uuid name topic new px) a"

definition close_with ::
    "'j proxy_start \<Rightarrow> (proxy_env \<Rightarrow> ptr \<Rightarrow> proxy_t \<Rightarrow> proxy_t outcome) \<Rightarrow> ptr option \<Rightarrow> app_t \<Rightarrow> (unit \<times> app_t) outcome" where
  "close_with ps f p a =
     (case p of
        None \<Rightarrow> Ret ((), a)
      | Some p \<Rightarrow> with_proxy ps () (\<lambda>env px. map_out (Pair ()) (f env p px)) a)"

definition registry_close_datalink where
  "registry_close_datalink ps p a = close_with ps proxy_close_datalink p a"

definition registry_close_datahub where
  "registry_close_datahub ps p a = close_with ps proxy_close_datahub p a"

definition registry_close_messagelink where
  "registry_close_messagelink ps p a = close_with ps proxy_close_messagelink p a"

definition registry_close_messagehub where
  "registry_close_messagehub ps p a = close_with ps proxy_close_messagehub p a"

definition registry_close_service where
  "registry_close_service ps p a = close_with ps proxy_close_service p a"

definition registry_close_streamer where
  "registry_close_streamer ps p a = close_with ps proxy_close_streamer p a"

definition registry_close_streamerlink where
  "registry_close_streamerlink ps p a = close_with ps proxy_close_streamerlink p a"

definition registry_get_messagehub where
  "registry_get_messagehub ps topic a =
     with_proxy ps None (\<lambda>env px. map_out (\<lambda>r. (r, px)) (proxy_get_messagehub px topic)) a"

definition registry_get_service where
  "registry_get_service ps topic a =
     with_proxy ps None (\<lambda>env px. map_out (\<lambda>r. (r, px)) (proxy_get_service px topic)) a"

definition registry_get_streamer where
  "registry_get_streamer ps topic a =
     with_proxy ps None (\<lambda>env px. map_out (\<lambda>r. (r, px)) (proxy_get_streamer px topic)) a"

section \<open>Programs that run alone\<close>

datatype endpoint_kind = Datalink | Datahub | Messagelink | Messagehub | Service | Streamer | Streamerlink

fun open_call ::
    "'j proxy_start \<Rightarrow> endpoint_kind \<Rightarrow> string \<Rightarrow> string option \<Rightarrow> string option
     \<Rightarrow> (ptr \<times> addr_t option) option \<Rightarrow> app_t \<Rightarrow> (ptr option \<times> app_t) outcome" where
  "open_call ps Datalink uuid name topic new a = registry_open_datalink ps uuid name topic new a"
| "open_call ps Datahub uuid name topic new a = registry_open_datahub ps uuid name topic new a"
| "open_call ps Messagelink uuid name topic new a = registry_open_messagelink ps uuid name topic new a"
| "open_call ps Messagehub uuid name topic new a = registry_open_messagehub ps uuid name topic new a"
| "open_call ps Service uuid name topic new a = registry_open_service ps uuid name topic new a"
| "open_call ps Streamer uuid name topic new a = registry_open_streamer ps uuid name topic new a"
| "open_call ps Streamerlink uuid name topic new a = registry_open_streamerlink ps uuid name topic new a"

fun close_call :: "'j proxy_start \<Rightarrow> endpoint_kind \<Rightarrow> ptr option \<Rightarrow> app_t \<Rightarrow> (unit \<times> app_t) outcome" where
  "close_call ps Datalink p a = registry_close_datalink ps p a"
| "close_call ps Datahub p a = registry_close_datahub ps p a"
| "close_call ps Messagelink p a = registry_close_messagelink ps p a"
| "close_call ps Messagehub p a = registry_close_messagehub ps p a"
| "close_call ps Service p a = registry_close_service ps p a"
| "close_call ps Streamer p a = registry_close_streamer ps p a"
| "close_call ps Streamerlink p a = registry_close_streamerlink ps p a"

datatype registry_call =
    OpenCall endpoint_kind string "string option" "string option" "(ptr \<times> addr_t option) option"
  | CloseCall endpoint_kind "ptr option"
  | GetMessagehub string | GetService string | GetStreamer string

fun run_call :: "'j proxy_start \<Rightarrow> registry_call \<Rightarrow> app_t \<Rightarrow> app_t outcome" where
  "run_call ps (OpenCall k uuid name topic new) a = map_out snd (open_call ps k uuid name topic new a)"
| "run_call ps (CloseCall k p) a = map_out snd (close_call ps k p a)"
| "run_call ps (GetMessagehub topic) a = map_out snd (registry_get_messagehub ps topic a)"
| "run_call ps (GetService topic) a = map_out snd (registry_get_service ps topic a)"
| "run_call ps (GetStreamer topic) a = map_out snd (registry_get_streamer ps topic a)"

fun run_calls :: "'j proxy_start \<Rightarrow> registry_call list \<Rightarrow> app_t \<Rightarrow> app_t outcome" where
  "run_calls ps [] a = Ret a"
| "run_calls ps (c # cs) a = bind_out (run_call ps c a) (\<lambda>a. run_calls ps cs a)"

text \<open>Nothing was sent to the registry.\<close>

definition silent :: "proxy_t \<Rightarrow> bool" where
  "silent px \<longleftrightarrow> (\<forall>t. SendRegistry t \<notin> set (px_actions px))"

lemma silent_simps [simp]:
  "silent (px\<lparr>px_registry := r\<rparr>) = silent px"
  "silent (act x px) \<longleftrightarrow> silent px \<and> (\<forall>t. x \<noteq> SendRegistry t)"
  "silent empty_proxy"
  by (auto simp: silent_def act_def empty_proxy_def)

lemma send_alone: "pe_standalone env \<Longrightarrow> send_to_registry env t px = (0, px)"
  by (simp add: send_to_registry_def)

lemma new_entry_silent:
  "proxy_new_entry env uuid px name topic type addr p = (r, px') \<Longrightarrow> pe_standalone env \<Longrightarrow> silent px \<Longrightarrow> silent px'"
  by (auto simp: proxy_new_entry_def proxy_send_register_request_def send_alone Let_def
      split: if_splits option.splits prod.splits)

lemma delete_entry_silent:
  "proxy_delete_entry env type p px = Ret px' \<Longrightarrow> pe_standalone env \<Longrightarrow> silent px \<Longrightarrow> silent px'"
  unfolding proxy_delete_entry_def bind_out_Ret_iff
  by (elim exE conjE)
    (auto simp: proxy_send_unregister_request_def send_alone outcome_simps split: list.split_asm)

lemma close_silent:
  "close_endpoint env type p px = Ret px' \<Longrightarrow> pe_standalone env \<Longrightarrow> silent px \<Longrightarrow> silent px'"
  by (auto simp: close_endpoint_def outcome_simps dest: delete_entry_silent)

lemma open_silent:
  assumes "open_endpoint env uuid name topic type new connect px = Ret (r, px')" "pe_standalone env" "silent px"
    "\<And>p e px px'. connect p e px = Ret px' \<Longrightarrow> silent px \<Longrightarrow> silent px'"
  shows "silent px'"
  using assms(1-3)
  by (auto simp: open_endpoint_def outcome_simps split: option.splits prod.splits
      dest!: new_entry_silent dest: assms(4))

lemma with_first_silent:
  "with_first type topic f px = Ret px' \<Longrightarrow> silent px \<Longrightarrow> (\<And>e t. f e \<noteq> SendRegistry t) \<Longrightarrow> silent px'"
  unfolding with_first_def bind_out_Ret_iff
  by (elim exE conjE) (auto simp: outcome_simps split: list.split_asm)

lemma add_links_silent: "add_links p ls px = Ret px' \<Longrightarrow> silent px \<Longrightarrow> silent px'"
  by (induction p ls px rule: add_links.induct) (auto simp: outcome_simps)

lemmas open_defs =
  proxy_open_datalink_def proxy_open_datahub_def proxy_open_messagelink_def proxy_open_messagehub_def
  proxy_open_service_def proxy_open_streamer_def proxy_open_streamerlink_def

lemmas close_defs =
  proxy_close_datalink_def proxy_close_datahub_def proxy_close_messagelink_def proxy_close_messagehub_def
  proxy_close_service_def proxy_close_streamer_def proxy_close_streamerlink_def

lemma proxy_open_silent:
  assumes "pe_standalone env" "silent px"
  shows "proxy_open_datalink env uuid name topic new px = Ret (r, px') \<Longrightarrow> silent px'"
    "proxy_open_datahub env uuid name topic new px = Ret (r, px') \<Longrightarrow> silent px'"
    "proxy_open_messagelink env uuid name topic new px = Ret (r, px') \<Longrightarrow> silent px'"
    "proxy_open_messagehub env uuid name topic new px = Ret (r, px') \<Longrightarrow> silent px'"
    "proxy_open_service env uuid name topic new px = Ret (r, px') \<Longrightarrow> silent px'"
    "proxy_open_streamer env uuid name topic new px = Ret (r, px') \<Longrightarrow> silent px'"
    "proxy_open_streamerlink env uuid name topic new px = Ret (r, px') \<Longrightarrow> silent px'"
  unfolding open_defs
  by (erule open_silent [OF _ assms]; auto simp: outcome_simps elim: with_first_silent add_links_silent)+

text \<open>The proxy that is kept, if any, is silent, and so stays one that is made for no address.\<close>

definition alone :: "app_t \<Rightarrow> bool" where
  "alone a \<longleftrightarrow> app_standalone a \<and> rg_addr a = None \<and> (\<forall>px. rg_proxy a = Some px \<longrightarrow> silent px)"

lemma proxy_get_alone:
  "alone a \<Longrightarrow> \<exists>px. proxy_get ps a = Ret (Some px, a\<lparr>rg_proxy := Some px\<rparr>) \<and> silent px"
  by (cases "rg_proxy a") (auto simp: proxy_get_def alone_def new_proxy_def)

lemma with_proxy_alone:
  assumes "with_proxy ps none f a = Ret (r, a')" "alone a"
    "\<And>px r px'. f (app_env ps a) px = Ret (r, px') \<Longrightarrow> silent px \<Longrightarrow> silent px'"
  shows "alone a'"
proof -
  obtain px where px: "proxy_get ps a = Ret (Some px, a\<lparr>rg_proxy := Some px\<rparr>)" "silent px"
    using proxy_get_alone [OF assms(2)] by blast
  have e: "app_env ps (a\<lparr>rg_proxy := Some px\<rparr>) = app_env ps a"
    by (simp add: app_env_def app_standalone_def get_registry_standalone_def)
  show ?thesis
    using assms px
    by (auto simp: with_proxy_def e outcome_simps alone_def app_standalone_def get_registry_standalone_def)
qed

lemma app_env_alone: "alone a \<Longrightarrow> pe_standalone (app_env ps a)"
  by (simp add: app_env_def alone_def)

lemma open_call_alone: "open_call ps k uuid name topic new a = Ret (r, a') \<Longrightarrow> alone a \<Longrightarrow> alone a'"
  by (cases k)
    (auto simp: registry_open_datalink_def registry_open_datahub_def registry_open_messagelink_def
      registry_open_messagehub_def registry_open_service_def registry_open_streamer_def
      registry_open_streamerlink_def elim!: with_proxy_alone intro: proxy_open_silent app_env_alone)

lemma close_with_alone:
  assumes "close_with ps f p a = Ret (r, a')" "alone a"
    "\<And>p px px'. f (app_env ps a) p px = Ret px' \<Longrightarrow> silent px \<Longrightarrow> silent px'"
  shows "alone a'"
  using assms(1,2) unfolding close_with_def
  by (cases p) (auto elim!: with_proxy_alone simp: outcome_simps intro: assms(3))

lemma close_call_alone: "close_call ps k p a = Ret (r, a') \<Longrightarrow> alone a \<Longrightarrow> alone a'"
  by (cases k)
    (auto simp: registry_close_datalink_def registry_close_datahub_def registry_close_messagelink_def
      registry_close_messagehub_def registry_close_service_def registry_close_streamer_def
      registry_close_streamerlink_def close_defs elim!: close_with_alone intro: close_silent app_env_alone)

lemma run_call_alone: "run_call ps c a = Ret a' \<Longrightarrow> alone a \<Longrightarrow> alone a'"
  by (cases c)
    (auto simp: outcome_simps registry_get_messagehub_def registry_get_service_def registry_get_streamer_def
      dest: open_call_alone close_call_alone elim!: with_proxy_alone)

lemma run_calls_alone: "run_calls ps cs a = Ret a' \<Longrightarrow> alone a \<Longrightarrow> alone a'"
  by (induction cs arbitrary: a) (auto simp: outcome_simps dest: run_call_alone)

text \<open>What the options leave alone, and the option that only ever sets its flag.\<close>

lemma app_keeps [simp]:
  "rg_addr (app_update_logfile a) = rg_addr a" "rg_proxy (app_update_logfile a) = rg_proxy a"
  "rg_standalone (app_update_logfile a) = rg_standalone a"
  "rg_addr (app_set_logdir d a) = rg_addr a" "rg_proxy (app_set_logdir d a) = rg_proxy a"
  "rg_standalone (app_set_logdir d a) = rg_standalone a"
  "rg_addr (app_set_session d a) = rg_addr a" "rg_proxy (app_set_session d a) = rg_proxy a"
  "rg_standalone (app_set_session d a) = rg_standalone a"
  "rg_addr (app_set_config f d a) = rg_addr a" "rg_proxy (app_set_config f d a) = rg_proxy a"
  "rg_standalone (app_set_config f d a) = rg_standalone a"
  "rg_addr (app_set_name d a) = rg_addr a" "rg_proxy (app_set_name d a) = rg_proxy a"
  "rg_standalone (app_set_name d a) = rg_standalone a"
  "rg_addr (app_check_ip a) = rg_addr a" "rg_proxy (app_check_ip a) = rg_proxy a"
  "rg_standalone (app_check_ip a) = rg_standalone a"
  by (auto simp: app_update_logfile_def app_set_logdir_def app_set_session_def app_set_config_def
      app_set_quit_def app_set_name_def app_check_ip_def Let_def split: option.splits)

lemma parse_option_keeps:
  assumes "parse_option absolute x a = Ret a'"
  shows "rg_addr a' = rg_addr a \<and> rg_proxy a' = rg_proxy a
    \<and> rg_standalone a' = (if fst x = CHR ''a'' then 1 else rg_standalone a)"
  using assms
  by (cases x)
    (auto simp: parse_option_def set_registry_name_def set_registry_ip_def set_registry_port_def
      set_registry_standalone_def app_set_print_def Let_def outcome_simps split: if_splits)

lemma parse_options_keeps:
  "parse_options absolute xs a = Ret a' \<Longrightarrow> rg_addr a' = rg_addr a \<and> rg_proxy a' = rg_proxy a
    \<and> (rg_standalone a' \<noteq> 0 \<longleftrightarrow> rg_standalone a \<noteq> 0 \<or> CHR ''a'' \<in> fst ` set xs)"
proof (induction xs arbitrary: a)
  case (Cons x xs)
  then obtain a1 where 1: "parse_option absolute x a = Ret a1" "parse_options absolute xs a1 = Ret a'"
    by (auto simp: outcome_simps)
  from Cons.IH [OF 1(2)] parse_option_keeps [OF 1(1)] show ?case by auto
qed simp

section \<open>Properties\<close>


definition deaf_start :: "json proxy_start" where
  "deaf_start = \<lparr>ps_json = example_json, ps_env = \<lparr>pe_standalone = False, pe_send = \<lambda>_. -1, pe_connect = \<lambda>_ _. -1,
     pe_link_addr = \<lambda>_. None\<rparr>, ps_connected = -1, ps_messages = []\<rparr>"


end
