(* ===== verification/Launcher.thy ===== *)
theory Launcher
  imports Application
begin

text \<open>
  The launcher, applications/rclaunch/src/run.c: a program of the configuration is started in a child
  process, with the rights of its user, and started again when it ends, until the launcher quits.  The
  answers of the system calls are arguments.  What a child does ends in its exit or in the program
  that replaces it, with its arguments and its credentials.
\<close>

section \<open>A program\<close>

datatype run_status_t = k_created | k_starting | k_running | k_finished

record run_t =
  rn_pid :: int
  rn_gpid :: int
  rn_name :: string
  rn_path :: string
  rn_host :: "string option"
  rn_user :: "string option"
  rn_uid :: u32
  rn_gid :: u32
  rn_gids :: "u32 list"
  rn_args :: "string list"
  rn_thread :: bool
  rn_status :: run_status_t
  rn_disabled :: int

text \<open>The answer of getpwnam_r: the identifiers of the user.\<close>

definition get_user_info :: "(string \<Rightarrow> (u32 \<times> u32) option) \<Rightarrow> string \<Rightarrow> (u32 \<times> u32) option" where
  "get_user_info getpwnam user = getpwnam user"

text \<open>
  The loop over the groups.  Where getgrnam_r finds no group it returns 0 and leaves its buffer as it
  is: the code reads it all the same, which is not defined.
\<close>

datatype group_answer = GroupError | NoGroup | Group u32

fun group_loop :: "(string \<Rightarrow> group_answer) \<Rightarrow> string list \<Rightarrow> u32 list \<Rightarrow> u32 list outcome" where
  "group_loop getgrnam [] gids = Ret gids"
| "group_loop getgrnam (g # gs) gids =
     (case getgrnam g of
        GroupError \<Rightarrow> Ret []
      | NoGroup \<Rightarrow> Undef
      | Group gid \<Rightarrow> group_loop getgrnam gs (gids @ [gid]))"

definition new_run ::
    "(string \<Rightarrow> (u32 \<times> u32) option) \<Rightarrow> (string \<Rightarrow> group_answer) \<Rightarrow> string \<Rightarrow> string \<Rightarrow> string option
     \<Rightarrow> string option \<Rightarrow> run_t option outcome" where
  "new_run getpwnam getgrnam name path host user =
     (let r = \<lparr>rn_pid = 0, rn_gpid = 0, rn_name = name, rn_path = path, rn_host = host, rn_user = None,
               rn_uid = -1, rn_gid = 0, rn_gids = [], rn_args = [], rn_thread = False,
               rn_status = k_created, rn_disabled = 0\<rparr>;
          with_groups = (\<lambda>r. bind_out (group_loop getgrnam [''dialout'', ''video''] []) (\<lambda>gids.
             Ret (Some (r\<lparr>rn_pid := -1, rn_gids := gids, rn_args := [], rn_status := k_created\<rparr>))))
      in case user of
           None \<Rightarrow> with_groups r
         | Some u \<Rightarrow>
             (case get_user_info getpwnam u of
                None \<Rightarrow> Ret None
              | Some (uid, gid) \<Rightarrow> with_groups (r\<lparr>rn_user := Some u, rn_uid := uid, rn_gid := gid\<rparr>)))"

text \<open>Deleting a program that still has a thread waits for the thread.\<close>

definition delete_run :: "run_t option \<Rightarrow> run_t option" where
  "delete_run r =
     (case r of
        None \<Rightarrow> None
      | Some r \<Rightarrow> Some (if rn_thread r then r\<lparr>rn_status := k_finished, rn_thread := False\<rparr> else r))"

definition run_add_arg :: "run_t \<Rightarrow> string \<Rightarrow> run_t" where
  "run_add_arg r s = r\<lparr>rn_args := rn_args r @ [s]\<rparr>"

definition run_status :: "run_t \<Rightarrow> run_status_t" where
  "run_status r = rn_status r"

definition run_name :: "run_t \<Rightarrow> string" where
  "run_name r = rn_name r"

definition run_set_disabled :: "run_t \<Rightarrow> int \<Rightarrow> run_t" where
  "run_set_disabled r value = r\<lparr>rn_disabled := value\<rparr>"

definition run_disabled :: "run_t \<Rightarrow> int" where
  "run_disabled r = rn_disabled r"

section \<open>The child\<close>

record cred =
  cr_uid :: u32
  cr_gid :: u32
  cr_groups :: "u32 list"
  cr_pgid :: int

record child_answers =
  ca_setpgid :: int
  ca_setgroups :: int
  ca_setgid :: int
  ca_setuid :: int
  ca_exec :: bool

text \<open>The calls succeed for the superuser only, who is the only one to make them.\<close>

definition run_drop_privileges :: "child_answers \<Rightarrow> run_t \<Rightarrow> cred \<Rightarrow> int \<times> cred" where
  "run_drop_privileges ans r c =
     (if cr_uid c \<noteq> 0 then (0, c)
      else case rn_user r of
        None \<Rightarrow> (0, c)
      | Some user \<Rightarrow>
          if user = ''root'' then (0, c)
          else
            let c = (if length (rn_gids r) > 0 \<and> ca_setgroups ans = 0 then c\<lparr>cr_groups := rn_gids r\<rparr> else c)
            in if ca_setgid ans \<noteq> 0 then (-1, c)
               else let c = c\<lparr>cr_gid := rn_gid r\<rparr>
                    in if ca_setuid ans \<noteq> 0 then (-1, c)
                       else (0, c\<lparr>cr_uid := rn_uid r\<rparr>))"

datatype child = ChildExit int | ChildExec string "string list" cred

text \<open>The arguments are copied into an array of 32 pointers, the last of which is NULL.\<close>

fun add_args :: "string list \<Rightarrow> string list \<Rightarrow> string list option" where
  "add_args argv [] = Some argv"
| "add_args argv (a # as) =
     (let argv = argv @ [a] in if length argv \<ge> 31 then None else add_args argv as)"

definition local_argv :: "app_t \<Rightarrow> run_t \<Rightarrow> string \<Rightarrow> string list" where
  "local_argv app r config =
     [rn_path r, ''-C'', config]
     @ (case app_get_session app of
          Some session \<Rightarrow> [''-s'', session]
        | None \<Rightarrow> (case app_get_logdir app of None \<Rightarrow> [] | Some dir \<Rightarrow> [''-L'', dir]))"

text \<open>Printing the arguments uses each of them: a NULL configuration is not defined.\<close>

definition local_child :: "child_answers \<Rightarrow> app_t \<Rightarrow> run_t \<Rightarrow> cred \<Rightarrow> child outcome" where
  "local_child ans app r c =
     (if ca_setpgid ans \<noteq> 0 then Ret (ChildExit 1)
      else let (err, c) = run_drop_privileges ans r (c\<lparr>cr_pgid := rn_gpid r\<rparr>)
           in if err \<noteq> 0 then Ret (ChildExit 1)
              else case app_get_config app of
                None \<Rightarrow> if add_args (local_argv app r []) (rn_args r) = None then Ret (ChildExit 1) else Undef
              | Some config \<Rightarrow>
                  (case add_args (local_argv app r config) (rn_args r) of
                     None \<Rightarrow> Ret (ChildExit 1)
                   | Some argv \<Rightarrow> Ret (if ca_exec ans then ChildExec (rn_path r) argv c else ChildExit 0)))"

definition remote_argv :: "app_t \<Rightarrow> run_t \<Rightarrow> string \<Rightarrow> string \<Rightarrow> string list" where
  "remote_argv app r host registry =
     [''ssh'']
     @ (case rn_user r of None \<Rightarrow> [] | Some user \<Rightarrow> [''-l'', user])
     @ [host, rn_path r, ''-N'', get_registry_name app, ''-A'', registry]
     @ (case app_get_logdir app of None \<Rightarrow> [] | Some dir \<Rightarrow> [''-L'', dir])"

text \<open>The program that execv runs is the path of the program itself.\<close>

definition remote_child :: "child_answers \<Rightarrow> app_t \<Rightarrow> run_t \<Rightarrow> cred \<Rightarrow> child outcome" where
  "remote_child ans app r c =
     (if ca_setpgid ans \<noteq> 0 then Ret (ChildExit 1)
      else let c = c\<lparr>cr_pgid := rn_gpid r\<rparr>
           in bind_out (deref (rn_host r)) (\<lambda>host.
              case get_registry_ip app of
                None \<Rightarrow> if add_args (remote_argv app r host []) (rn_args r) = None then Ret (ChildExit 1) else Undef
              | Some registry \<Rightarrow>
                  (case add_args (remote_argv app r host registry) (rn_args r) of
                     None \<Rightarrow> Ret (ChildExit 1)
                   | Some argv \<Rightarrow> Ret (if ca_exec ans then ChildExec (rn_path r) argv c else ChildExit 0))))"

section \<open>The launcher's side\<close>

text \<open>What fork returns to the launcher: the process, or -1.\<close>

definition run_start_locally :: "int \<Rightarrow> run_t \<Rightarrow> int \<times> run_t" where
  "run_start_locally fork r =
     (if fork = -1 then (-1, r\<lparr>rn_pid := -1\<rparr>) else (0, r\<lparr>rn_pid := fork, rn_status := k_running\<rparr>))"

definition run_start_remotely :: "int \<Rightarrow> run_t \<Rightarrow> int \<times> run_t" where
  "run_start_remotely fork r =
     (if fork = -1 then (-1, r\<lparr>rn_pid := -1\<rparr>) else (0, r\<lparr>rn_pid := fork, rn_status := k_running\<rparr>))"

definition run_start_process :: "int \<Rightarrow> run_t \<Rightarrow> int \<times> run_t" where
  "run_start_process fork r =
     (if rn_host r \<noteq> None then run_start_remotely fork r else run_start_locally fork r)"

definition run_child :: "child_answers \<Rightarrow> app_t \<Rightarrow> run_t \<Rightarrow> cred \<Rightarrow> child outcome" where
  "run_child ans app r c =
     (if rn_host r \<noteq> None then remote_child ans app r c else local_child ans app r c)"

text \<open>
  The thread of a program.  A turn has the answers of fork and waitpid; the thread ends when the
  application quits, which waitpid's failure makes it do, or when there are no more turns.
\<close>

fun run_loop :: "(int \<times> int) list \<Rightarrow> run_t \<Rightarrow> app_t \<Rightarrow> run_t \<times> app_t" where
  "run_loop [] r app = (r\<lparr>rn_status := k_finished\<rparr>, app)"
| "run_loop ((fork, wait) # ts) r app =
     (if ap_quit app \<noteq> 0 then (r\<lparr>rn_status := k_finished\<rparr>, app)
      else let (err, r) = run_start_process fork r;
               app = (if err = 0 \<and> wait = -1 then app_set_quit app else app)
           in run_loop ts r app)"

definition run_start :: "run_t \<Rightarrow> int \<Rightarrow> int \<times> run_t" where
  "run_start r gpid =
     (if rn_disabled r \<noteq> 0 then (0, r\<lparr>rn_pid := -1\<rparr>)
      else (0, r\<lparr>rn_status := k_starting, rn_gpid := gpid, rn_thread := True\<rparr>))"

text \<open>Signals that are sent: the result and the list of them, with the process.\<close>

definition run_send_stop :: "bool \<Rightarrow> run_t \<Rightarrow> int \<times> (int \<times> signal) list" where
  "run_send_stop kill_ok r =
     (if rn_pid r = -1 then (0, []) else (if kill_ok then 0 else -1, [(rn_pid r, SIGHUP)]))"

datatype kill_signal = Hup | Kill

text \<open>A round of run_stop: whether kill succeeds, the process of the program then, and whether its thread
  has finished three seconds later.\<close>

type_synonym stop_round = "bool \<times> bool"

function stop_loop :: "(nat \<Rightarrow> stop_round) \<Rightarrow> kill_signal \<Rightarrow> nat \<Rightarrow> run_t \<Rightarrow> int \<times> kill_signal list \<times> run_t" where
  "stop_loop rounds sig count r =
     (case rounds count of
        (kill_ok, finished) \<Rightarrow>
          if \<not> kill_ok then (-1, [sig], r)
          else if finished then (0, [sig], r\<lparr>rn_status := k_finished, rn_thread := False\<rparr>)
          else
            let sig' = (if count + 1 > 3 then Kill else sig)
            in if count + 1 > 6 then (-1, [sig], r)
               else let (err, sent, r) = stop_loop rounds sig' (count + 1) r in (err, sig # sent, r))"
  by pat_completeness auto
termination
  by (relation "measure (\<lambda>(rounds, sig, count, r). 6 - count)") auto

declare stop_loop.simps [simp del]

definition run_stop :: "(nat \<Rightarrow> stop_round) \<Rightarrow> run_t \<Rightarrow> int \<times> kill_signal list \<times> run_t" where
  "run_stop rounds r = (if rn_pid r = -1 then (0, [], r) else stop_loop rounds Hup 0 r)"

section \<open>What a configuration may name\<close>

definition valid_info :: "string option \<Rightarrow> nat \<Rightarrow> nat \<Rightarrow> string \<Rightarrow> bool" where
  "valid_info s minlen maxlen valid_chars =
     (case s of
        None \<Rightarrow> minlen = 0
      | Some s \<Rightarrow> minlen \<le> length s \<and> length s \<le> maxlen \<and> list_all (\<lambda>c. c \<in> set valid_chars) s)"

definition run_letters :: string where
  "run_letters = ''abcdefghijklmnopqrstuvwxyzABCDEFGHIJKLMNOPQRSTUVWXYZ''"

definition valid_name :: "string option \<Rightarrow> bool" where
  "valid_name name = valid_info name 1 128 (run_letters @ ''-_'')"

definition valid_path :: "string option \<Rightarrow> bool" where
  "valid_path path = valid_info path 2 256 (run_letters @ ''1234567890'' @ ''-_/.'')"

definition valid_arg :: "string option \<Rightarrow> bool" where
  "valid_arg arg = valid_info arg 1 256 (run_letters @ ''1234567890'' @ ''-_/.='')"

definition valid_addr :: "string option \<Rightarrow> bool" where
  "valid_addr host = valid_info host 0 15 ''1234567890.''"

definition valid_user :: "string option \<Rightarrow> bool" where
  "valid_user user = valid_info user 0 32 (run_letters @ ''1234567890'' @ ''-_'')"

text \<open>
  What stat says of a path.  It follows links, so that the branch for links is not taken; the array
  that branch reads is not terminated by readlink.
\<close>

datatype file_kind = NoFile | Link | Special | Regular bool

definition check_path :: "(string \<Rightarrow> file_kind) \<Rightarrow> string option \<Rightarrow> int outcome" where
  "check_path stat path =
     (case path of
        None \<Rightarrow> Ret (-1)
      | Some p \<Rightarrow>
          (case stat p of
             NoFile \<Rightarrow> Ret (-1)
           | Link \<Rightarrow> Undef
           | Special \<Rightarrow> Ret (-1)
           | Regular executable \<Rightarrow> Ret (if executable then 0 else -1)))"

section \<open>What is started\<close>

lemma add_args_Some: "add_args argv as = Some argv' \<Longrightarrow> argv' = argv @ as \<and> (as \<noteq> [] \<longrightarrow> length argv' < 31)"
  by (induction argv as rule: add_args.induct) (auto simp: Let_def split: if_splits)

lemma add_args_None: "add_args argv as = None \<longleftrightarrow> as \<noteq> [] \<and> 31 \<le> length argv + length as"
proof (induction argv as rule: add_args.induct)
  case (2 argv a as)
  show ?case
  proof (cases "31 \<le> length (argv @ [a])")
    case False
    with 2 [OF refl] show ?thesis by (cases as) (auto simp: Let_def)
  qed (simp add: Let_def)
qed simp

lemma local_argv_short: "length (local_argv app r config) \<le> 5"
  by (simp add: local_argv_def split: option.split)

lemma drop_privileges_cred:
  assumes "run_drop_privileges ans r c = (0, c')" "cr_uid c = 0" "rn_user r = Some user" "user \<noteq> ''root''"
  shows "cr_uid c' = rn_uid r \<and> cr_gid c' = rn_gid r
    \<and> (cr_groups c' = rn_gids r \<or> cr_groups c' = cr_groups c) \<and> cr_pgid c' = cr_pgid c"
  using assms by (auto simp: run_drop_privileges_def Let_def split: if_splits)

lemma local_child_exec:
  assumes "local_child ans app r c = Ret (ChildExec file argv c')"
  shows "\<exists>config. app_get_config app = Some config \<and> argv = local_argv app r config @ rn_args r
    \<and> file = rn_path r \<and> run_drop_privileges ans r (c\<lparr>cr_pgid := rn_gpid r\<rparr>) = (0, c') \<and> length argv \<le> 31"
proof -
  obtain err c1 where d: "run_drop_privileges ans r (c\<lparr>cr_pgid := rn_gpid r\<rparr>) = (err, c1)" by fastforce
  have e: "err = 0" using assms d by (auto simp: local_child_def split: if_splits)
  obtain config where f: "app_get_config app = Some config"
    using assms d e by (auto simp: local_child_def split: if_splits option.splits)
  obtain argv1 where a: "add_args (local_argv app r config) (rn_args r) = Some argv1"
    using assms d e f by (auto simp: local_child_def split: if_splits option.splits)
  have x: "argv = argv1" "c' = c1" "file = rn_path r"
    using assms d e f a by (auto simp: local_child_def split: if_splits)
  from add_args_Some [OF a] local_argv_short [of app r config] x d e f show ?thesis
    by (cases "rn_args r") auto
qed

text \<open>The arguments are added after the program was made.\<close>

lemma new_run_user:
  assumes "new_run getpwnam getgrnam name path host (Some user) = Ret (Some r)"
  shows "getpwnam user = Some (rn_uid r, rn_gid r) \<and> rn_user r = Some user \<and> rn_path r = path
    \<and> rn_host r = host \<and> rn_args r = []"
  using assms by (auto simp: new_run_def get_user_info_def Let_def outcome_simps split: option.splits)

lemma add_arg_keeps:
  "rn_args (fold (\<lambda>a r. run_add_arg r a) as r) = rn_args r @ as"
  "rn_uid (fold (\<lambda>a r. run_add_arg r a) as r) = rn_uid r"
  "rn_gid (fold (\<lambda>a r. run_add_arg r a) as r) = rn_gid r"
  "rn_user (fold (\<lambda>a r. run_add_arg r a) as r) = rn_user r"
  "rn_path (fold (\<lambda>a r. run_add_arg r a) as r) = rn_path r"
  "rn_host (fold (\<lambda>a r. run_add_arg r a) as r) = rn_host r"
  by (induction as arbitrary: r) (auto simp: run_add_arg_def)

section \<open>Properties\<close>


definition good_answers :: child_answers where
  "good_answers = \<lparr>ca_setpgid = 0, ca_setgroups = 0, ca_setgid = 0, ca_setuid = 0, ca_exec = True\<rparr>"


text \<open>The arguments of a local program are its path, the configuration of the launcher, its session or
  else its log directory, and those of the program in order.  They always fit the array: a program with
  more arguments is not started, and its child exits with 1.\<close>

theorem launched_arguments:
  assumes "local_child ans app r c = Ret result" "app_get_config app = Some config"
    "ca_setpgid ans = 0" "fst (run_drop_privileges ans r (c\<lparr>cr_pgid := rn_gpid r\<rparr>)) = 0" "ca_exec ans"
  shows "if rn_args r \<noteq> [] \<and> 31 \<le> length (local_argv app r config) + length (rn_args r) then result = ChildExit 1
    else \<exists>c'. result = ChildExec (rn_path r) (local_argv app r config @ rn_args r) c'
      \<and> length (local_argv app r config @ rn_args r) < 32"
proof (cases "add_args (local_argv app r config) (rn_args r)")
  case None
  then have "result = ChildExit 1"
    using assms by (auto simp: local_child_def split: prod.splits)
  then show ?thesis using None by (simp add: add_args_None)
next
  case (Some argv)
  then have "\<exists>c'. result = ChildExec (rn_path r) argv c'"
    using assms by (auto simp: local_child_def split: prod.splits)
  moreover have "\<not> (rn_args r \<noteq> [] \<and> 31 \<le> length (local_argv app r config) + length (rn_args r))"
    using Some add_args_None [of "local_argv app r config" "rn_args r"] by auto
  moreover have "argv = local_argv app r config @ rn_args r" "rn_args r = [] \<or> length argv < 31"
    using add_args_Some [OF Some] by auto
  ultimately show ?thesis using local_argv_short [of app r config] by auto
qed

definition example_run :: run_t where
  "example_run =
     \<lparr>rn_pid = -1, rn_gpid = 7, rn_name = ''gps'', rn_path = ''/bin/gps'', rn_host = None, rn_user = None,
      rn_uid = 0, rn_gid = 0, rn_gids = [], rn_args = replicate 30 ''-v'', rn_thread = False,
      rn_status = k_created, rn_disabled = 0\<rparr>"

theorem launched_arguments_witness:
  "\<exists>result. local_child good_answers (initial_app\<lparr>ap_config := Some ''/c.json''\<rparr>) example_run
       \<lparr>cr_uid = 1, cr_gid = 0, cr_groups = [0], cr_pgid = 1\<rparr> = Ret result \<and> result = ChildExit 1"
proof -
  let ?app = "initial_app\<lparr>ap_config := Some ''/c.json''\<rparr>"
  let ?c = "\<lparr>cr_uid = 1, cr_gid = 0, cr_groups = [0], cr_pgid = 1\<rparr>"
  have "local_child good_answers ?app example_run ?c \<noteq> Undef"
    by (simp add: local_child_def good_answers_def run_drop_privileges_def app_get_config_def
        split: option.split)
  then obtain result where r: "local_child good_answers ?app example_run ?c = Ret result"
    by (cases "local_child good_answers ?app example_run ?c") auto
  from launched_arguments [OF r, of "''/c.json''"] r show ?thesis
    by (simp add: app_get_config_def good_answers_def run_drop_privileges_def example_run_def local_argv_def
        app_get_session_def app_get_logdir_def initial_app_def)
qed

text \<open>The rounds from a count on, until one that ends the loop with success.\<close>

definition quits_at :: "(nat \<Rightarrow> stop_round) \<Rightarrow> nat \<Rightarrow> nat \<Rightarrow> bool" where
  "quits_at rounds count n \<longleftrightarrow> count \<le> n \<and> n \<le> 6 \<and> (\<forall>m. count \<le> m \<and> m < n \<longrightarrow> rounds m = (True, False))
     \<and> rounds n = (True, True)"

definition stop_signals :: "kill_signal list" where
  "stop_signals = replicate 4 Hup @ replicate 3 Kill"

lemma quits_at_next:
  assumes "rounds count = (True, False)"
  shows "(\<exists>n. quits_at rounds count n) \<longleftrightarrow> (\<exists>n. quits_at rounds (Suc count) n)"
proof
  assume "\<exists>n. quits_at rounds count n"
  then obtain n where n: "quits_at rounds count n" by blast
  then have "n \<noteq> count" using assms by (auto simp: quits_at_def)
  then have "quits_at rounds (Suc count) n" using n by (auto simp: quits_at_def)
  then show "\<exists>n. quits_at rounds (Suc count) n" by blast
next
  assume "\<exists>n. quits_at rounds (Suc count) n"
  then obtain n where n: "quits_at rounds (Suc count) n" by blast
  have "quits_at rounds count n"
    unfolding quits_at_def
  proof (intro conjI allI impI)
    fix m
    assume "count \<le> m \<and> m < n"
    then show "rounds m = (True, False)" using n assms by (cases "m = count") (auto simp: quits_at_def)
  qed (use n in \<open>auto simp: quits_at_def\<close>)
  then show "\<exists>n. quits_at rounds count n" by blast
qed

lemma not_quits:
  assumes "rounds count \<noteq> (True, False)"
  shows "(\<exists>n. quits_at rounds count n) \<longleftrightarrow> count \<le> 6 \<and> rounds count = (True, True)"
proof
  assume "\<exists>n. quits_at rounds count n"
  then obtain n where n: "quits_at rounds count n" by blast
  then have "n = count" using assms by (auto simp: quits_at_def)
  then show "count \<le> 6 \<and> rounds count = (True, True)" using n by (auto simp: quits_at_def)
next
  assume "count \<le> 6 \<and> rounds count = (True, True)"
  then have "quits_at rounds count count" by (auto simp: quits_at_def)
  then show "\<exists>n. quits_at rounds count n" by blast
qed

lemma stop_signals_nth: "count \<le> 6 \<Longrightarrow> drop count stop_signals = (if count > 3 then Kill else Hup) # drop (Suc count) stop_signals"
  by (cases "count = 0 \<or> count = 1 \<or> count = 2 \<or> count = 3 \<or> count = 4 \<or> count = 5 \<or> count = 6")
    (auto simp: stop_signals_def numeral_eq_Suc)

lemma stop_loop_spec:
  assumes "stop_loop rounds sig count r = (err, sent, r')" "count \<le> 6" "sig = (if count > 3 then Kill else Hup)"
  shows "(\<exists>k. sent = take k (drop count stop_signals)) \<and> sent \<noteq> []
    \<and> (err = 0 \<longleftrightarrow> (\<exists>n. quits_at rounds count n)) \<and> (err = 0 \<longrightarrow> \<not> rn_thread r')"
  using assms
proof (induction rounds sig count r arbitrary: err sent r' rule: stop_loop.induct)
  case (1 rounds sig count r)
  obtain ok fin where rd: "rounds count = (ok, fin)" by fastforce
  have one: "\<exists>k. [sig] = take k (drop count stop_signals)"
    using stop_signals_nth [OF 1(3)] 1(4) by (intro exI [of _ 1]) simp
  show ?case
  proof (cases "ok \<and> \<not> fin \<and> count < 6")
    case False
    have "\<not> quits_at rounds (Suc count) n" if "\<not> count < 6" for n
      using that by (simp add: quits_at_def)
    then have "sent = [sig] \<and> (err = 0 \<longleftrightarrow> (\<exists>n. quits_at rounds count n)) \<and> (err = 0 \<longrightarrow> \<not> rn_thread r')"
      using False 1(2,3) rd not_quits [of rounds count] quits_at_next [of rounds count]
      by (subst (asm) stop_loop.simps) (auto simp: not_less split: if_splits)
    then show ?thesis using one by (elim conjE) (simp only: refl simp_thms list.distinct not_Cons_self2)
  next
    case True
    define sig' where "sig' = (if count + 1 > 3 then Kill else sig)"
    obtain err1 sent1 r1 where rec: "stop_loop rounds sig' (count + 1) r = (err1, sent1, r1)"
      by (cases "stop_loop rounds sig' (count + 1) r")
    have e: "err = err1" "sent = sig # sent1" "r' = r1"
      using 1(2) True rd rec by (subst (asm) stop_loop.simps, simp add: sig'_def Let_def split: if_splits)+
    have "sig' = (if count + 1 > 3 then Kill else Hup)" using 1(4) by (auto simp: sig'_def)
    then have ih: "(\<exists>k. sent1 = take k (drop (count + 1) stop_signals)) \<and> sent1 \<noteq> []
        \<and> (err1 = 0 \<longleftrightarrow> (\<exists>n. quits_at rounds (count + 1) n)) \<and> (err1 = 0 \<longrightarrow> \<not> rn_thread r1)"
      using 1(1) [OF rd [symmetric] _ _ sig'_def _ rec] True by simp
    then obtain k where "sent1 = take k (drop (Suc count) stop_signals)" by auto
    then have "sent = take (Suc k) (drop count stop_signals)"
      using stop_signals_nth [OF 1(3)] 1(4) e by simp
    then show ?thesis using ih e quits_at_next [of rounds count] rd True by auto
  qed
qed

text \<open>C31. Stopping a program sends at most seven signals, four times SIGHUP and then SIGKILL, and returns;
  the result is 0 exactly when the thread of the program has finished after one of them and no signal
  failed before, and then the thread is gone.\<close>

theorem run_stop_bounded:
  assumes "rn_pid r \<noteq> -1" "run_stop rounds r = (err, sent, r')"
  shows "(\<exists>k. sent = take k (replicate 4 Hup @ replicate 3 Kill)) \<and> length sent \<le> 7
    \<and> (err = 0 \<longleftrightarrow> (\<exists>n \<le> 6. (\<forall>m < n. rounds m = (True, False)) \<and> rounds n = (True, True)))
    \<and> (err = 0 \<longrightarrow> \<not> rn_thread r')"
proof -
  have "stop_loop rounds Hup 0 r = (err, sent, r')" using assms by (simp add: run_stop_def)
  from stop_loop_spec [OF this] obtain k where "sent = take k stop_signals"
    "err = 0 \<longleftrightarrow> (\<exists>n. quits_at rounds 0 n)" "err = 0 \<longrightarrow> \<not> rn_thread r'" by auto
  then show ?thesis by (auto simp: stop_signals_def quits_at_def)
qed

theorem run_stop_bounded_witness:
  "\<exists>err sent r'. run_stop (\<lambda>n. (True, n = 4)) (example_run\<lparr>rn_pid := 5\<rparr>) = (err, sent, r')
     \<and> length sent \<le> 7 \<and> err = 0 \<and> \<not> rn_thread r'"
proof -
  obtain err sent r' where r: "run_stop (\<lambda>n. (True, n = 4)) (example_run\<lparr>rn_pid := 5\<rparr>) = (err, sent, r')"
    by (metis prod_cases3)
  have "rn_pid (example_run\<lparr>rn_pid := 5\<rparr>) \<noteq> -1" by simp
  from run_stop_bounded [OF this r] r show ?thesis by auto
qed

text \<open>C33. A program that has a host is not started there: the child runs the path of the program on the
  launcher's own machine, with the rights of the launcher, and only its name is that of ssh.\<close>

theorem remote_program_runs_here:
  assumes "rn_host r \<noteq> None" "run_child ans app r c = Ret (ChildExec file argv c')"
  shows "file = rn_path r \<and> hd argv = ''ssh'' \<and> cr_uid c' = cr_uid c \<and> cr_gid c' = cr_gid c"
proof -
  have "remote_child ans app r c = Ret (ChildExec file argv c')" using assms by (simp add: run_child_def)
  then obtain host registry where "add_args (remote_argv app r host registry) (rn_args r) = Some argv"
      "file = rn_path r" "c' = c\<lparr>cr_pgid := rn_gpid r\<rparr>"
    by (auto simp: remote_child_def Let_def outcome_simps split: if_splits option.splits)
  then show ?thesis by (auto dest!: add_args_Some simp: remote_argv_def)
qed

theorem remote_program_runs_here_witness:
  "\<exists>file argv c'. run_child good_answers (initial_app\<lparr>ap_ip := Some ''10.0.0.1''\<rparr>)
       (example_run\<lparr>rn_host := Some ''10.0.0.2'', rn_args := []\<rparr>) \<lparr>cr_uid = 0, cr_gid = 0, cr_groups = [0], cr_pgid = 1\<rparr>
     = Ret (ChildExec file argv c') \<and> file = ''/bin/gps'' \<and> hd argv = ''ssh''"
proof -
  let ?r = "example_run\<lparr>rn_host := Some ''10.0.0.2'', rn_args := []\<rparr>"
  obtain prog argv c' where c: "run_child good_answers (initial_app\<lparr>ap_ip := Some ''10.0.0.1''\<rparr>) ?r
      \<lparr>cr_uid = 0, cr_gid = 0, cr_groups = [0], cr_pgid = 1\<rparr> = Ret (ChildExec prog argv c')"
    by (simp add: run_child_def remote_child_def good_answers_def get_registry_ip_def initial_app_def app_ip_def)
  have "rn_host ?r \<noteq> None" by simp
  from remote_program_runs_here [OF this c] c show ?thesis by (auto simp: example_run_def)
qed

end
