(* ===== verification/Spec2Isabelle.thy ===== *)
theory Spec2Isabelle
  imports Linklife Streaming Proxy Parserlaws Httplaws Messagehub Service Datahub Dump Sha1
    Streamerlink Application Launcher
begin

text \<open>
  A model of librcom, the communication library of this repository (src/librcom), and what makes it
  correct.

  The program.  Nodes find each other through a registry, a server that keeps a list of end-points
  (name, topic, type, address) and broadcasts its changes; every node keeps a copy, its proxy, and
  connects the end-points of the same topic.  Nodes then talk over UDP packets, over websockets
  (message links, which hubs accept) and over HTTP (services, and streamers that send parts of a
  multipart stream).

  The theories, bottom up, with the files they model:
  \<^item> Prelude: machine types, undefined behaviour as the outcome \<open>Undef\<close>, C strings, byte order.
    CLib: the functions of the C library the code uses.
  \<^item> Addr (addr.c), Data (data.c), Circular (circular.c), Util (util.c): values and buffers.
  \<^item> Json: the external JSON library as a record of functions with the laws the code relies on.
  \<^item> Registry (registry.c), Rcregistry (rcregistry.c), Proxy (proxy.c): the table, the server, the copy.
  \<^item> Net (net.c): sockets as scripts of what the operating system answers.
  \<^item> Http (http.c), Headers (the header fields shared by request.c, response.c and messagelink.c),
    Request (request.c), Response (response.c, client.c), Httpparser (http_parser.c).
  \<^item> Frames and Messagelink (messagelink.c): websocket frames, and links as state machines.
  \<^item> Streamer (streamer.c), Multipart (multipart_parser.c): the two ends of a stream.
  \<^item> Messagehub (messagehub.c), Service (service.c, export.c), Datahub (datahub.c, datalink.c): the
    servers that accept links, answer requests and fan packets out.
  \<^item> Dump (dump.c): recordings of packets.  Sha1 (sha1.c): the digest, and the standard it implements.
  \<^item> Streamerlink (streamerlink.c): the client of a streamer.  Application (app.c and the settings of
    proxy.c): the one proxy of a program and the interface of the library.  Launcher (run.c of the
    application rclaunch): starting and stopping the programs of a configuration.
  \<^item> Linklife, Streaming, Parserlaws, Httplaws: theorems about the components at work together.

  What is shown.  Round trips: addresses, packets, base64, percent encoding, JSON escapes, registry
  entries, frames, chunks, recordings.  Refinement: the circular buffer is a bounded queue, the registry table is
  a list under four operations, the list a client reads is that table, a proxy that follows the
  broadcasts has the same entries as the server.  Delivery: every text sent over a link reaches the
  other end's handler once and in order, every part a streamer sends reaches the handler of the
  receiving parser; a request that is sent is read with the same method, target, fields and body; a text broadcast by a hub is sent once over every open link, a packet broadcast by
  a data hub is received at the address of every link.  Safety: the states of links, hubs and streamers that can be reached satisfy their
  invariants, no input makes an assertion of the HTTP parser fail.  Errors: where the code leaves
  defined behaviour or contradicts its intention, a theorem says for which inputs.

  Conventions.  Memory allocation succeeds and the lists and growable buffers of the external library r
  are HOL lists.  Code that runs under a mutex is one step; threads interleave at such steps.  The
  clock, random numbers, identifiers, the digest SHA-1, user callbacks and the printing of doubles are
  arguments.  Loops that end are recursive functions with a measure: the script of the socket, the
  bytes left.  The multipart parser's loop may not end and is a partial function, so that a call that
  returns is one that yields a value.  No fuel is used in the model of a component.

  Not modelled: the configuration files of the launcher, device input and output and examples, the generators and C++ tools, the parts of the HTTP
  parser nobody calls (the splitting of a URL, pausing).
\<close>

end
